(* ===== verification/Prelude.thy ===== *)
theory Prelude
  imports Main "HOL-Library.Word"
begin

text \<open>
  Shared material of the development: the machine types of the C++ sources as words,
  the exception monad (\<open>error + 'a\<close>, \<open>Inl\<close> for a thrown exception), characters as
  bytes, and the theory of positional numerals that the big-endian codecs, the base-32
  converter and the RLP length fields all rest on.
\<close>

unbundle bit_operations_syntax

section \<open>Types of the sources\<close>

type_synonym byte = "8 word"
type_synonym bytes = "byte list"
type_synonym u16 = "16 word"
type_synonym u32 = "32 word"
type_synonym u64 = "64 word"
type_synonym u160 = "160 word"
type_synonym u256 = "256 word"

text \<open>\<open>size_t\<close> is 64 bits wide; sums that an input can drive past the width wrap.\<close>

definition size_max :: nat where
  "size_max = 2 ^ 64 - 1"

definition size_add :: "nat \<Rightarrow> nat \<Rightarrow> nat" where
  "size_add a b = (a + b) mod 2 ^ 64"

named_theorems numeral_simps \<open>positional numerals and big-endian bytes\<close>
named_theorems res_simps \<open>the exception monad\<close>

lemma size_add_exact [simp]: "a + b < 2 ^ 64 \<Longrightarrow> size_add a b = a + b"
  by (simp add: size_add_def)

lemma size_add_less: "size_add a b < 2 ^ 64"
  by (simp add: size_add_def)

section \<open>Words read as natural numbers\<close>

lemma unat_drop_bit: "unat (drop_bit n v) = unat v div 2 ^ n"
  for v :: "'a::len word"
  by (metis drop_bit_eq_div unat_drop_bit_eq)

lemma unat_and_mask: "unat (v AND mask n) = unat v mod 2 ^ n"
  for v :: "'a::len word"
  by (metis take_bit_eq_mask unsigned_take_bit_eq take_bit_eq_mod)

lemma mask_numerals:
  "(0x0f :: 'a::len word) = mask 4" "(0xff :: 'a::len word) = mask 8" "(0x1f :: 'a::len word) = mask 5"
  by (simp_all add: mask_eq_exp_minus_1)

lemmas unat_and_mask_numeral = unat_and_mask [of _ 4, folded mask_numerals] unat_and_mask [of _ 8, folded mask_numerals]
  unat_and_mask [of _ 5, folded mask_numerals]

lemma xor_cancel: "a XOR c = b XOR c \<longleftrightarrow> a = b" for a b c :: "'a::len word"
proof
  assume "a XOR c = b XOR c"
  then have "(a XOR c) XOR c = (b XOR c) XOR c" by (rule arg_cong)
  then show "a = b" by (simp add: xor.assoc)
qed (rule arg_cong)

section \<open>Exceptions\<close>

definition bind_res :: "'e + 'a \<Rightarrow> ('a \<Rightarrow> 'e + 'b) \<Rightarrow> 'e + 'b" where
  "bind_res m f = (case m of Inl e \<Rightarrow> Inl e | Inr x \<Rightarrow> f x)"

lemma bind_res_Inr [simp, res_simps]: "bind_res (Inr x) f = f x"
  by (simp add: bind_res_def)

lemma bind_res_Inl [simp, res_simps]: "bind_res (Inl e) f = Inl e"
  by (simp add: bind_res_def)

lemma bind_res_eq_Inr [res_simps]:
  "bind_res m f = Inr y \<longleftrightarrow> (\<exists>x. m = Inr x \<and> f x = Inr y)"
  by (cases m) (simp_all add: bind_res_def)

lemma bind_res_eq_Inl [res_simps]:
  "bind_res m f = Inl e \<longleftrightarrow> m = Inl e \<or> (\<exists>x. m = Inr x \<and> f x = Inl e)"
  by (cases m) (simp_all add: bind_res_def)

lemma bind_res_cong [fundef_cong]:
  "m = m' \<Longrightarrow> (\<And>x. m' = Inr x \<Longrightarrow> f x = f' x) \<Longrightarrow> bind_res m f = bind_res m' f'"
  by (cases m') (simp_all add: bind_res_def)

section \<open>Characters and bytes\<close>

definition byte_of_char :: "char \<Rightarrow> byte" where
  "byte_of_char c = of_nat (of_char c)"

definition char_of_byte :: "byte \<Rightarrow> char" where
  "char_of_byte b = char_of (unat b)"

lemma char_of_byte_of_char [simp]: "char_of_byte (byte_of_char c) = c"
proof -
  have "of_char c < (256 :: nat)" by (rule nat_of_char_less_256)
  then show ?thesis
    by (simp add: char_of_byte_def byte_of_char_def unat_of_nat)
qed

lemma byte_of_char_of_byte [simp]: "byte_of_char (char_of_byte b) = b"
proof -
  have "unat b < 256" using unsigned_less [of b, where ?'a = nat] by simp
  then show ?thesis
    by (simp add: char_of_byte_def byte_of_char_def)
qed

lemma inj_byte_of_char: "inj byte_of_char"
  by (metis char_of_byte_of_char injI)

section \<open>Positional numerals\<close>

text \<open>
  \<open>pos_val b ds\<close> is the number with digits \<open>ds\<close>, most significant first, in base
  \<open>b\<close>.
\<close>

definition pos_val :: "nat \<Rightarrow> nat list \<Rightarrow> nat" where
  "pos_val b ds = foldl (\<lambda>a d. a * b + d) 0 ds"

lemma pos_val_Nil [simp, numeral_simps]: "pos_val b [] = 0"
  by (simp add: pos_val_def)

lemma pos_val_snoc [simp, numeral_simps]: "pos_val b (ds @ [d]) = pos_val b ds * b + d"
  by (simp add: pos_val_def)

lemma pos_val_append [numeral_simps]:
  "pos_val b (xs @ ys) = pos_val b xs * b ^ length ys + pos_val b ys"
proof (induction ys rule: rev_induct)
  case Nil
  show ?case by simp
next
  case (snoc y ys)
  have "pos_val b (xs @ ys @ [y]) = pos_val b (xs @ ys) * b + y"
    using pos_val_snoc [of b "xs @ ys" y] by simp
  also have "\<dots> = pos_val b xs * b ^ length (ys @ [y]) + pos_val b (ys @ [y])"
    by (simp add: snoc algebra_simps)
  finally show ?case .
qed

lemma pos_val_single [simp]: "pos_val b [d] = d"
  by (simp add: pos_val_def)

lemma pos_val_Cons [numeral_simps]: "pos_val b (x # xs) = x * b ^ length xs + pos_val b xs"
  using pos_val_append [of b "[x]" xs] by simp

lemma pos_val_replicate_0 [simp]: "pos_val b (replicate n 0) = 0"
  by (induction n) (simp_all add: pos_val_Cons)

lemma pos_val_less:
  "\<forall>d \<in> set ds. d < b \<Longrightarrow> pos_val b ds < b ^ length ds"
proof (induction ds)
  case Nil
  show ?case by simp
next
  case (Cons d ds)
  have "d * b ^ length ds + pos_val b ds < d * b ^ length ds + b ^ length ds"
    using Cons by simp
  also have "\<dots> = (d + 1) * b ^ length ds" by simp
  also have "\<dots> \<le> b * b ^ length ds"
    using Cons.prems by (intro mult_le_mono1) (simp add: Suc_leI)
  finally show ?case by (simp add: pos_val_Cons)
qed

lemma pos_val_inj:
  assumes "length xs = length ys" "\<forall>d \<in> set xs. d < b" "\<forall>d \<in> set ys. d < b"
    and "pos_val b xs = pos_val b ys"
  shows "xs = ys"
  using assms
proof (induction xs ys rule: rev_induct2)
  case 4: (4 x xs y ys)
  have "pos_val b xs * b + x = pos_val b ys * b + y" "x < b" "y < b"
    using 4 by simp_all
  then have "x = y" "pos_val b xs = pos_val b ys"
    by (metis mod_mult_self3 mod_less, metis div_mult_self3 div_less add.commute add_0_left
        less_nat_zero_code neq0_conv)
  with 4 show ?case by simp
qed simp_all

section \<open>Big-endian byte strings\<close>

lemma unat_byte_less [simp]: "unat (b :: byte) < 256"
  using unsigned_less [of b, where ?'a = nat] by simp

definition be_nat :: "bytes \<Rightarrow> nat" where
  "be_nat bs = pos_val 256 (map unat bs)"

fun nat_be :: "nat \<Rightarrow> nat \<Rightarrow> bytes" where
  "nat_be 0 v = []"
| "nat_be (Suc n) v = nat_be n (v div 256) @ [of_nat v]"

lemma nat_be_numeral:
  "nat_be (numeral k) v = nat_be (pred_numeral k) (v div 256) @ [of_nat v]"
  by (simp only: numeral_eq_Suc [of k] nat_be.simps)

lemma nat_be_add: "nat_be (m + n) v = nat_be m (v div 256 ^ n) @ nat_be n v"
  by (induction n arbitrary: v) (simp_all add: div_mult2_eq)

lemma be_nat_Nil [simp]: "be_nat [] = 0"
  by (simp add: be_nat_def)

lemma be_nat_snoc [simp, numeral_simps]: "be_nat (bs @ [b]) = be_nat bs * 256 + unat b"
  by (simp add: be_nat_def)

lemma be_nat_single [simp]: "be_nat [b] = unat b"
  by (simp add: be_nat_def)

lemma be_nat_append [numeral_simps]:
  "be_nat (xs @ ys) = be_nat xs * 256 ^ length ys + be_nat ys"
  by (simp add: be_nat_def pos_val_append)

lemma be_nat_Cons [numeral_simps]: "be_nat (x # xs) = unat x * 256 ^ length xs + be_nat xs"
  by (simp add: be_nat_def pos_val_Cons)

lemma be_nat_replicate_0 [simp]: "be_nat (replicate n 0) = 0"
  by (simp add: be_nat_def map_replicate)

lemma be_nat_zeros [simp]: "be_nat (replicate n 0 @ bs) = be_nat bs"
  by (simp add: be_nat_append)

lemma be_nat_less: "be_nat bs < 256 ^ length bs"
  using pos_val_less [of "map unat bs" 256] by (simp add: be_nat_def)

lemma be_nat_inj:
  assumes "length xs = length ys" and "be_nat xs = be_nat ys"
  shows "xs = ys"
proof -
  have "map unat xs = map unat ys"
    by (rule pos_val_inj [where b = 256]) (use assms in \<open>auto simp: be_nat_def\<close>)
  then show ?thesis
    by (rule map_injective) (auto simp: inj_def intro: unsigned_word_eqI)
qed

lemma length_nat_be [simp]: "length (nat_be n v) = n"
  by (induction n arbitrary: v) simp_all

lemma be_nat_nat_be: "be_nat (nat_be n v) = v mod 256 ^ n"
proof (induction n arbitrary: v)
  case 0
  show ?case by simp
next
  case (Suc n)
  have "be_nat (nat_be (Suc n) v) = (v div 256 mod 256 ^ n) * 256 + v mod 256"
    by (simp add: Suc unat_of_nat)
  also have "\<dots> = v mod 256 ^ Suc n"
    by (metis mod_mult2_eq mult.commute power_Suc add.commute)
  finally show ?case .
qed

lemma be_nat_nat_be_exact [simp]: "v < 256 ^ n \<Longrightarrow> be_nat (nat_be n v) = v"
  by (simp add: be_nat_nat_be)

lemma nat_be_be_nat [simp]: "nat_be (length bs) (be_nat bs) = bs"
  by (rule be_nat_inj) (simp_all add: be_nat_nat_be be_nat_less)

lemma nat_be_inj: "nat_be n u = nat_be n v \<Longrightarrow> u < 256 ^ n \<Longrightarrow> v < 256 ^ n \<Longrightarrow> u = v"
  by (metis be_nat_nat_be_exact)

end
