(* ===== verification/Common_Data.thy ===== *)
theory Common_Data
  imports Prelude
begin

text \<open>
  \<^verbatim>\<open>libdevcore/CommonData.h\<close> and \<^verbatim>\<open>CommonData.cpp\<close>: hexadecimal strings, big-endian
  integers and the byte-string utilities every other component uses.  A templated integer
  type \<open>T\<close> is a word of its width (\<open>u160\<close>, \<open>u256\<close>, \<open>size_t\<close>); \<open>bigint\<close>, which the
  sources use for unsigned values only, is \<open>nat\<close>.
\<close>

section \<open>Hexadecimal strings\<close>

datatype WhenError = DontThrow | Throw

datatype hex_error = BadHexCharacter

definition hexdigits :: string where
  "hexdigits = ''0123456789abcdef''"

text \<open>The two digits the loop of \<open>toHex\<close> writes for one byte.\<close>

definition hi_digit :: "byte \<Rightarrow> char" where
  "hi_digit b = hexdigits ! unat (drop_bit 4 b AND 0x0f)"

definition lo_digit :: "byte \<Rightarrow> char" where
  "lo_digit b = hexdigits ! unat (b AND 0x0f)"

fun toHex_loop :: "bytes \<Rightarrow> string \<Rightarrow> nat \<Rightarrow> string" where
  "toHex_loop [] hex off = hex"
| "toHex_loop (b # bs) hex off =
     toHex_loop bs (hex[off := hi_digit b, Suc off := lo_digit b]) (Suc (Suc off))"

definition toHex_with :: "bytes \<Rightarrow> string \<Rightarrow> string" where
  "toHex_with bs prefix =
     toHex_loop bs (prefix @ replicate (2 * length bs) (CHR ''0'')) (length prefix)"

definition toHex :: "bytes \<Rightarrow> string" where
  "toHex bs = toHex_with bs ''''"

definition toHexPrefixed :: "bytes \<Rightarrow> string" where
  "toHexPrefixed bs = toHex_with bs ''0x''"

definition fromHexChar :: "char \<Rightarrow> int" where
  "fromHexChar i =
     (let c = (of_char i :: int) in
      if c \<ge> 48 \<and> c \<le> 57 then c - 48
      else if c \<ge> 97 \<and> c \<le> 102 then c - 97 + 10
      else if c \<ge> 65 \<and> c \<le> 70 then c - 65 + 10
      else -1)"

definition isHex :: "string \<Rightarrow> bool" where
  "isHex s = (let rest = (if take 2 s = ''0x'' then drop 2 s else s)
              in list_all (\<lambda>c. fromHexChar c \<noteq> -1) rest)"

text \<open>\<open>isHash<T>\<close>, with \<open>T::size\<close> as the argument \<open>n\<close>.\<close>

definition isHash :: "nat \<Rightarrow> string \<Rightarrow> bool" where
  "isHash n h = ((length h = n * 2 \<or> (length h = n * 2 + 2 \<and> take 2 h = ''0x'')) \<and> isHex h)"

text \<open>
  The loop of \<open>fromHex\<close> over the characters from index \<open>s\<close> on, two at a time.  The number
  of characters left is even, so the last equation (where the source would read the
  terminating zero, which is no hexadecimal digit) is never reached from \<open>fromHex\<close>.
\<close>

fun fromHex_loop :: "WhenError \<Rightarrow> string \<Rightarrow> bytes \<Rightarrow> hex_error + bytes" where
  "fromHex_loop w [] ret = Inr ret"
| "fromHex_loop w (a # b # rest) ret =
     (let h = fromHexChar a; l = fromHexChar b in
      if h \<noteq> -1 \<and> l \<noteq> -1 then fromHex_loop w rest (ret @ [of_int (h * 16 + l)])
      else if w = Throw then Inl BadHexCharacter else Inr [])"
| "fromHex_loop w [a] ret = (if w = Throw then Inl BadHexCharacter else Inr [])"

definition fromHex :: "string \<Rightarrow> WhenError \<Rightarrow> hex_error + bytes" where
  "fromHex s w =
     (let start = (if length s \<ge> 2 \<and> s ! 0 = CHR ''0'' \<and> s ! 1 = CHR ''x'' then 2 else 0) in
      if odd (length s) then
        (let h = fromHexChar (s ! start) in
         if h \<noteq> -1 then fromHex_loop w (drop (Suc start) s) [of_int h]
         else if w = Throw then Inl BadHexCharacter else Inr [])
      else fromHex_loop w (drop start s) [])"

section \<open>Strings as bytes\<close>

definition asString :: "bytes \<Rightarrow> string" where
  "asString bs = map char_of_byte bs"

definition asBytes :: "string \<Rightarrow> bytes" where
  "asBytes s = map byte_of_char s"

fun asNibbles :: "bytes \<Rightarrow> bytes" where
  "asNibbles [] = []"
| "asNibbles (i # s) = i div 16 # i mod 16 # asNibbles s"

text \<open>
  \<open>escaped\<close>: \<open>char\<close> is signed, so the bytes from 128 on compare below the space and are
  escaped numerically, as the control characters are.
\<close>

definition pretty_escape :: "char \<Rightarrow> char option" where
  "pretty_escape c =
     map_of [(CHR 0x0D, CHR ''r''), (CHR 0x0A, CHR ''n''), (CHR 0x09, CHR ''t''), (CHR 0x0B, CHR ''v'')] c"

definition char_below_space :: "char \<Rightarrow> bool" where
  "char_below_space c = (of_char c < (32 :: nat) \<or> of_char c \<ge> (128 :: nat))"

definition escape_char :: "bool \<Rightarrow> char \<Rightarrow> string" where
  "escape_char all i =
     (if i = CHR 0x22 \<and> \<not> all then [CHR 0x5C, CHR 0x22]
      else if i = CHR 0x5C \<and> \<not> all then [CHR 0x5C, CHR 0x5C]
      else (case pretty_escape i of
              Some e \<Rightarrow> if \<not> all then [CHR 0x5C, e]
                 else [CHR 0x5C, CHR ''x'', hexdigits ! (of_char i div 16), hexdigits ! (of_char i mod 16)]
            | None \<Rightarrow>
                if char_below_space i \<or> all
                then [CHR 0x5C, CHR ''x'', hexdigits ! (of_char i div 16), hexdigits ! (of_char i mod 16)]
                else [i]))"

definition escaped :: "string \<Rightarrow> bool \<Rightarrow> string" where
  "escaped s all = [CHR 0x22] @ concat (map (escape_char all) s) @ [CHR 0x22]"

section \<open>Big-endian integers\<close>

fun toBigEndian_loop :: "'a::len word \<Rightarrow> nat \<Rightarrow> bytes \<Rightarrow> bytes" where
  "toBigEndian_loop v 0 out = out"
| "toBigEndian_loop v (Suc i) out =
     toBigEndian_loop (drop_bit 8 v) i (out[i := ucast (v AND 0xff)])"

definition toBigEndian :: "'a::len word \<Rightarrow> bytes \<Rightarrow> bytes" where
  "toBigEndian v out = toBigEndian_loop v (length out) out"

definition fromBigEndian :: "bytes \<Rightarrow> 'a::len word" where
  "fromBigEndian bs = foldl (\<lambda>ret i. push_bit 8 ret OR ucast i) 0 bs"

definition toBigEndian_u256 :: "u256 \<Rightarrow> bytes" where
  "toBigEndian_u256 v = toBigEndian v (replicate 32 0)"

definition toBigEndian_u160 :: "u160 \<Rightarrow> bytes" where
  "toBigEndian_u160 v = toBigEndian v (replicate 20 0)"

definition toBigEndianString_u256 :: "u256 \<Rightarrow> string" where
  "toBigEndianString_u256 v = asString (toBigEndian v (replicate 32 0))"

text \<open>The counting loop \<open>for (T v = _val; v; ++i, v >>= 8) {}\<close>.\<close>

function compact_count :: "'a::len word \<Rightarrow> nat" where
  "compact_count v = (if v = 0 then 0 else Suc (compact_count (drop_bit 8 v)))"
  by pat_completeness auto
termination
proof (relation "measure unat")
  fix v :: "'a word"
  assume "v \<noteq> 0"
  then have "unat v div 256 < unat v"
    by (intro div_less_dividend) (simp_all add: unat_gt_0)
  then show "(drop_bit 8 v, v) \<in> measure unat"
    by (simp add: unat_drop_bit)
qed simp

declare compact_count.simps [simp del]

definition toCompactBigEndian :: "'a::len word \<Rightarrow> nat \<Rightarrow> bytes" where
  "toCompactBigEndian v mn = toBigEndian v (replicate (max mn (compact_count v)) 0)"

definition toCompactBigEndian_byte :: "byte \<Rightarrow> nat \<Rightarrow> bytes" where
  "toCompactBigEndian_byte v mn = (if mn \<noteq> 0 \<or> v \<noteq> 0 then [v] else [])"

definition toCompactBigEndianString :: "'a::len word \<Rightarrow> nat \<Rightarrow> string" where
  "toCompactBigEndianString v mn =
     asString (toBigEndian v (replicate (max mn (compact_count v)) 0))"

definition toCompactHex :: "u256 \<Rightarrow> nat \<Rightarrow> string" where
  "toCompactHex v mn = toHex (toCompactBigEndian v mn)"

definition toCompactHexPrefixed :: "u256 \<Rightarrow> nat \<Rightarrow> string" where
  "toCompactHexPrefixed v mn = toHexPrefixed (toCompactBigEndian v mn)"

fun bytesRequired :: "nat \<Rightarrow> nat" where
  "bytesRequired i = (if i = 0 then 0 else Suc (bytesRequired (i div 256)))"

declare bytesRequired.simps [simp del]

section \<open>Collections\<close>

fun commonPrefix_loop :: "'a list \<Rightarrow> 'a list \<Rightarrow> nat \<Rightarrow> nat" where
  "commonPrefix_loop (x # xs) (y # ys) i = (if x \<noteq> y then i else commonPrefix_loop xs ys (Suc i))"
| "commonPrefix_loop _ _ i = i"

definition commonPrefix :: "'a list \<Rightarrow> 'a list \<Rightarrow> nat" where
  "commonPrefix t u = commonPrefix_loop t u 0"

text \<open>
  \<open>memmove\<close> of the elements from \<open>n\<close> on to the front, then \<open>resize\<close>; with more elements
  than there are the unsigned difference wraps and the move leaves the buffer (\<open>None\<close>).
\<close>

definition trimFront :: "'a list \<Rightarrow> nat \<Rightarrow> 'a list option" where
  "trimFront t n =
     (if n \<le> length t
      then Some (take (length t - n) (drop n t @ drop (length t - n) t))
      else None)"

definition pushFront :: "'a list \<Rightarrow> 'a \<Rightarrow> 'a list" where
  "pushFront t e = (let t' = t @ [e] in (take 1 t' @ take (length t' - 1) t')[0 := e])"

section \<open>Laws of the hexadecimal codec\<close>

definition hex_pairs :: "bytes \<Rightarrow> string" where
  "hex_pairs bs = concat (map (\<lambda>b. [hi_digit b, lo_digit b]) bs)"

lemma hex_pairs_simps [simp]:
  "hex_pairs [] = []"
  "hex_pairs (b # bs) = hi_digit b # lo_digit b # hex_pairs bs"
  "hex_pairs (xs @ ys) = hex_pairs xs @ hex_pairs ys"
  by (simp_all add: hex_pairs_def)

lemma length_hex_pairs [simp]: "length (hex_pairs bs) = 2 * length bs"
  by (induction bs) simp_all

lemma toHex_loop_eq:
  "toHex_loop bs (pre @ replicate (2 * length bs) c) (length pre) = pre @ hex_pairs bs"
proof (induction bs arbitrary: pre)
  case Nil
  show ?case by simp
next
  case (Cons b bs)
  have "(pre @ replicate (2 * length (b # bs)) c)[length pre := hi_digit b, Suc (length pre) := lo_digit b]
      = (pre @ [hi_digit b, lo_digit b]) @ replicate (2 * length bs) c"
    by (simp add: list_update_append)
  then show ?case
    using Cons [of "pre @ [hi_digit b, lo_digit b]"] by simp
qed

lemma toHex_with_eq: "toHex_with bs pre = pre @ hex_pairs bs"
  by (simp add: toHex_with_def toHex_loop_eq)

lemma toHex_eq: "toHex bs = hex_pairs bs"
  by (simp add: toHex_def toHex_with_eq)

lemma toHexPrefixed_eq: "toHexPrefixed bs = ''0x'' @ hex_pairs bs"
  by (simp add: toHexPrefixed_def toHex_with_eq)

lemma hexdigits_value: "n < 16 \<Longrightarrow> fromHexChar (hexdigits ! n) = int n"
proof -
  have "\<forall>n < 16. fromHexChar (hexdigits ! n) = int n" by code_simp
  then show "n < 16 \<Longrightarrow> fromHexChar (hexdigits ! n) = int n" by blast
qed

lemma hexdigits_not_x: "n < 16 \<Longrightarrow> hexdigits ! n \<noteq> CHR ''x''"
proof -
  have "\<forall>n < 16. hexdigits ! n \<noteq> CHR ''x''" by code_simp
  then show "n < 16 \<Longrightarrow> hexdigits ! n \<noteq> CHR ''x''" by blast
qed

lemma nibble_bounds [simp]:
  "unat (drop_bit 4 b AND 0x0f) < 16" "unat (b AND 0x0f) < 16" for b :: byte
  by (simp_all add: unat_and_mask_numeral)

lemma fromHexChar_digits [simp]:
  "fromHexChar (hi_digit b) = int (unat b div 16)"
  "fromHexChar (lo_digit b) = int (unat b mod 16)"
proof -
  have "unat b div 16 < 16" by (simp add: less_mult_imp_div_less)
  then show "fromHexChar (hi_digit b) = int (unat b div 16)"
    by (simp add: hi_digit_def hexdigits_value unat_and_mask_numeral unat_drop_bit)
  show "fromHexChar (lo_digit b) = int (unat b mod 16)"
    by (simp add: lo_digit_def hexdigits_value unat_and_mask_numeral)
qed

lemma digits_not_x [simp]: "hi_digit b \<noteq> CHR ''x''" "lo_digit b \<noteq> CHR ''x''"
  by (simp_all add: hi_digit_def lo_digit_def hexdigits_not_x)

lemma nibbles_join: "word_of_nat (unat b div 16) * 16 + word_of_nat (unat b mod 16) = (b :: byte)"
proof -
  have "word_of_nat (unat b div 16 * 16 + unat b mod 16) = (b :: byte)"
    by simp
  then show ?thesis
    by (simp only: of_nat_add of_nat_mult of_nat_numeral)
qed

lemma fromHex_loop_hex_pairs: "fromHex_loop w (hex_pairs bs) acc = Inr (acc @ bs)"
  by (induction bs arbitrary: acc) (simp_all add: nibbles_join)

lemma hex_pairs_no_prefix: "length (hex_pairs bs) \<ge> 2 \<Longrightarrow> hex_pairs bs ! 1 \<noteq> CHR ''x''"
  by (cases bs) simp_all

lemma fromHex_hex_pairs: "fromHex (hex_pairs bs) w = Inr bs"
  using hex_pairs_no_prefix [of bs] by (auto simp: fromHex_def Let_def fromHex_loop_hex_pairs)

lemma fromHex_hex_pairs_prefixed: "fromHex (''0x'' @ hex_pairs bs) w = Inr bs"
  by (simp add: fromHex_def Let_def fromHex_loop_hex_pairs)

text \<open>Which strings \<open>fromHex\<close> takes.\<close>

lemma even_induct_list [case_names Nil Pair One]:
  assumes "P []" "\<And>a b xs. P xs \<Longrightarrow> P (a # b # xs)" "\<And>a. P [a]"
  shows "P xs"
  by (induction xs rule: induct_list012) (use assms in auto)

lemma fromHex_loop_error:
  "even (length s) \<Longrightarrow>
   fromHex_loop Throw s ret = Inl BadHexCharacter \<longleftrightarrow> \<not> list_all (\<lambda>c. fromHexChar c \<noteq> -1) s"
  by (induction s arbitrary: ret rule: even_induct_list) (simp_all add: Let_def)

lemma fromHex_loop_length:
  "even (length s) \<Longrightarrow> fromHex_loop Throw s ret = Inr bs \<Longrightarrow>
   length bs = length ret + length s div 2"
  by (induction s arbitrary: ret rule: even_induct_list) (auto simp: Let_def split: if_splits)

lemma hex_start_eq:
  "(length s \<ge> 2 \<and> s ! 0 = CHR ''0'' \<and> s ! 1 = CHR ''x'') \<longleftrightarrow> take 2 s = ''0x''"
  by (induction s rule: induct_list012) (auto simp: take_Suc_conv_app_nth numeral_2_eq_2)

lemma list_all_drop_Suc:
  "n < length s \<Longrightarrow> list_all P (drop n s) \<longleftrightarrow> P (s ! n) \<and> list_all P (drop (Suc n) s)"
  by (metis Cons_nth_drop_Suc list.pred_inject(2))

lemma fromHex_unfold:
  fixes s :: string
  defines "n \<equiv> (if take 2 s = ''0x'' then 2 else 0 :: nat)"
  shows "fromHex s w =
     (if odd (length s) then
        (if fromHexChar (s ! n) \<noteq> -1 then fromHex_loop w (drop (Suc n) s) [of_int (fromHexChar (s ! n))]
         else if w = Throw then Inl BadHexCharacter else Inr [])
      else fromHex_loop w (drop n s) [])"
  unfolding fromHex_def hex_start_eq Let_def n_def by (rule refl)

lemma fromHex_error_iff:
  "fromHex s Throw = Inl BadHexCharacter \<longleftrightarrow> \<not> isHex s"
proof -
  define n where "n = (if take 2 s = ''0x'' then 2 else 0 :: nat)"
  have n: "even n" "n \<le> length s"
    using hex_start_eq [of s] by (auto simp: n_def)
  have isHex: "isHex s = list_all (\<lambda>c. fromHexChar c \<noteq> -1) (drop n s)"
    by (simp add: isHex_def n_def)
  show ?thesis
  proof (cases "odd (length s)")
    case True
    then have "n < length s" using n by (metis le_neq_implies_less)
    moreover have "even (length (drop (Suc n) s))" using True n by simp
    ultimately show ?thesis
      using True fromHex_loop_error [of "drop (Suc n) s"]
      unfolding fromHex_unfold n_def [symmetric] isHex
      by (simp add: list_all_drop_Suc)
  next
    case False
    then show ?thesis
      using n fromHex_loop_error [of "drop n s"]
      unfolding fromHex_unfold n_def [symmetric] isHex by simp
  qed
qed

section \<open>Laws of the big-endian codec\<close>

lemma toBigEndian_loop_append:
  "i \<le> length out \<Longrightarrow> toBigEndian_loop v i (out @ ys) = toBigEndian_loop v i out @ ys"
  by (induction i arbitrary: v out) (simp_all add: list_update_append)

lemma ucast_and_ff: "(ucast (v AND 0xff) :: byte) = of_nat (unat v)" for v :: "'a::len word"
  by (simp add: word_unat_eq_iff unsigned_ucast_eq take_bit_eq_mod unat_and_mask_numeral unat_of_nat)

lemma toBigEndian_loop_eq:
  "length out = n \<Longrightarrow> toBigEndian_loop v n out = nat_be n (unat v)"
proof (induction n arbitrary: v out)
  case 0
  then show ?case by simp
next
  case (Suc n)
  then obtain pre x where out: "out = pre @ [x]" "length pre = n"
    by (metis length_Suc_conv_rev)
  then have "out[n := b] = pre @ [b]" for b
    by (simp add: list_update_append)
  with out Suc.IH [of pre "drop_bit 8 v"] show ?case
    by (simp add: toBigEndian_loop_append unat_drop_bit ucast_and_ff)
qed

lemma toBigEndian_eq: "toBigEndian v out = nat_be (length out) (unat v)"
  by (simp add: toBigEndian_def toBigEndian_loop_eq)

lemma length_toBigEndian [simp]: "length (toBigEndian v out) = length out"
  by (simp add: toBigEndian_eq)

lemma push_or_byte:
  "unat (push_bit 8 v OR ucast b) = (unat v * 256 + unat b) mod 2 ^ LENGTH('a)"
  for v :: "'a::len word" and b :: byte
proof -
  have disj: "push_bit 8 v AND ucast b = (0 :: 'a word)"
  proof (rule bit_word_eqI)
    fix n assume "n < LENGTH('a)"
    show "bit (push_bit 8 v AND ucast b) n = bit (0 :: 'a word) n"
      by (auto simp: bit_simps dest: bit_imp_le_length)
  qed
  have "push_bit 8 v OR ucast b = push_bit 8 v + (ucast b :: 'a word)"
    using disj by (simp add: disjunctive_add_eq_or)
  also have "\<dots> = word_of_nat (unat v * 256 + unat b)"
    by (simp add: push_bit_eq_mult)
  finally show ?thesis by (simp only: unat_of_nat)
qed

lemma fromBigEndian_nat:
  "unat (fromBigEndian bs :: 'a::len word) = be_nat bs mod 2 ^ LENGTH('a)"
proof (induction bs rule: rev_induct)
  case Nil
  show ?case by (simp add: fromBigEndian_def)
next
  case (snoc b bs)
  have "unat (fromBigEndian (bs @ [b]) :: 'a word)
      = (unat (fromBigEndian bs :: 'a word) * 256 + unat b) mod 2 ^ LENGTH('a)"
    by (simp add: fromBigEndian_def push_or_byte)
  also have "\<dots> = be_nat (bs @ [b]) mod 2 ^ LENGTH('a)"
    unfolding snoc be_nat_snoc by (metis mod_add_left_eq mod_mult_left_eq)
  finally show ?case .
qed

lemma fromBigEndian_word: "fromBigEndian bs = (word_of_nat (be_nat bs) :: 'a::len word)"
  by (simp add: word_unat_eq_iff fromBigEndian_nat unat_of_nat)

lemma bytesRequired_0 [simp]: "bytesRequired 0 = 0"
  by (simp add: bytesRequired.simps)

lemma bytesRequired_pos: "v > 0 \<Longrightarrow> bytesRequired v = Suc (bytesRequired (v div 256))"
  by (subst bytesRequired.simps) simp

lemma bytesRequired_le_iff: "bytesRequired v \<le> n \<longleftrightarrow> v < 256 ^ n"
proof (induction v arbitrary: n rule: bytesRequired.induct)
  case (1 v)
  show ?case
  proof (cases "v = 0")
    case False
    show ?thesis
    proof (cases n)
      case (Suc m)
      have "bytesRequired (v div 256) \<le> m \<longleftrightarrow> v div 256 < 256 ^ m"
        using 1 False by simp
      also have "\<dots> \<longleftrightarrow> v < 256 ^ m * 256"
        by (simp add: div_less_iff_less_mult)
      finally show ?thesis
        using False by (simp add: bytesRequired_pos Suc mult.commute)
    qed (use False in \<open>simp add: bytesRequired_pos\<close>)
  qed simp
qed

lemma less_bytesRequired [simp]: "v < 256 ^ bytesRequired v"
  by (simp flip: bytesRequired_le_iff)

lemma bytesRequired_lower: "v > 0 \<Longrightarrow> 256 ^ (bytesRequired v - 1) \<le> v"
  using bytesRequired_le_iff [of v "bytesRequired v - 1"] bytesRequired_pos [of v] by simp

lemma bytesRequired_0_iff [simp]: "bytesRequired v = 0 \<longleftrightarrow> v = 0"
  using bytesRequired_le_iff [of v 0] by simp

lemma compact_count_eq: "compact_count v = bytesRequired (unat v)"
proof (induction v rule: compact_count.induct)
  case (1 v)
  show ?case
    by (cases "v = 0")
      (simp_all add: 1 compact_count.simps [of v] compact_count.simps [of 0] bytesRequired_pos unat_gt_0 unat_drop_bit)
qed

lemma compact_count_le: "8 * n = LENGTH('a) \<Longrightarrow> compact_count (v :: 'a::len word) \<le> n"
  using unsigned_less [of v, where ?'a = nat]
  by (simp add: compact_count_eq bytesRequired_le_iff power_mult [of "2 :: nat" 8 n, symmetric, simplified])

definition compact_be :: "nat \<Rightarrow> nat \<Rightarrow> bytes" where
  "compact_be v mn = nat_be (max mn (bytesRequired v)) v"

lemma toCompactBigEndian_eq: "toCompactBigEndian v mn = compact_be (unat v) mn"
  by (simp add: toCompactBigEndian_def toBigEndian_eq compact_count_eq compact_be_def)

lemma length_compact_be [simp]: "length (compact_be v mn) = max mn (bytesRequired v)"
  by (simp add: compact_be_def)

lemma be_nat_compact_be [simp]: "be_nat (compact_be v mn) = v"
  by (simp add: compact_be_def flip: bytesRequired_le_iff)

lemma bytesRequired_be_nat: "bytesRequired (be_nat bs) \<le> length bs"
  by (simp add: bytesRequired_le_iff be_nat_less)

lemma bytesRequired_no_lead:
  assumes "bs \<noteq> []" "hd bs \<noteq> 0"
  shows "bytesRequired (be_nat bs) = length bs"
proof -
  obtain b cs where bs: "bs = b # cs" "b \<noteq> 0" using assms by (cases bs) auto
  then have "1 * 256 ^ length cs \<le> unat b * 256 ^ length cs"
    by (intro mult_le_mono1) (simp add: Suc_leI unat_gt_0)
  then have "\<not> be_nat bs < 256 ^ length cs"
    unfolding bs be_nat_Cons by linarith
  then show ?thesis
    using bytesRequired_le_iff [of "be_nat bs" "length cs"] bytesRequired_be_nat [of bs]
    by (simp add: bs)
qed

lemma compact_be_hd: "v \<noteq> 0 \<Longrightarrow> hd (compact_be v 0) \<noteq> 0"
proof
  assume v: "v \<noteq> 0" and h: "hd (compact_be v 0) = 0"
  have ne: "compact_be v 0 \<noteq> []"
    using v by (metis length_compact_be list.size(3) max_0L bytesRequired_0_iff)
  then obtain cs where cs: "compact_be v 0 = 0 # cs"
    using h by (metis list.collapse)
  have "v = be_nat cs"
    using be_nat_compact_be [of v 0] by (simp add: cs be_nat_Cons)
  then have "bytesRequired v \<le> length cs"
    by (simp add: bytesRequired_be_nat)
  moreover have "bytesRequired v = Suc (length cs)"
    using length_compact_be [of v 0] by (simp add: cs)
  ultimately show False by simp
qed

lemma compact_be_be_nat:
  "bs = [] \<or> hd bs \<noteq> 0 \<Longrightarrow> compact_be (be_nat bs) 0 = bs"
  by (cases "bs = []") (simp_all add: compact_be_def bytesRequired_no_lead)

lemma fromBigEndian_toCompact:
  "fromBigEndian (toCompactBigEndian v mn) = (v :: 'a::len word)"
  by (simp add: fromBigEndian_word toCompactBigEndian_eq)

lemma fromBigEndian_toBigEndian:
  "LENGTH('a) \<le> 8 * length out \<Longrightarrow> fromBigEndian (toBigEndian v out) = (v :: 'a::len word)"
proof -
  assume "LENGTH('a) \<le> 8 * length out"
  then have "(2 :: nat) ^ LENGTH('a) \<le> 256 ^ length out"
    using power_increasing [of "LENGTH('a)" "8 * length out" "2 :: nat"] by (simp add: power_mult)
  then have "unat v < 256 ^ length out"
    using unsigned_less [of v, where ?'a = nat] by (rule less_le_trans [rotated])
  then show ?thesis by (simp add: fromBigEndian_word toBigEndian_eq)
qed

section \<open>Laws of the collection helpers\<close>

lemma commonPrefix_loop_eq: "commonPrefix_loop t u i = i + commonPrefix_loop t u 0"
proof (induction t arbitrary: u i)
  case (Cons x xs)
  show ?case
  proof (cases u)
    case (Cons y ys)
    then show ?thesis
      using Cons.IH [of ys "Suc i"] Cons.IH [of ys "Suc 0"] by simp
  qed simp
qed simp

lemma commonPrefix_Cons:
  "commonPrefix (x # xs) (y # ys) = (if x = y then Suc (commonPrefix xs ys) else 0)"
  using commonPrefix_loop_eq [of xs ys 1] by (simp add: commonPrefix_def)

lemma commonPrefix_Nil: "commonPrefix [] ys = 0" "commonPrefix xs [] = 0"
  by (cases xs; simp add: commonPrefix_def)+

lemma commonPrefix_ge_iff:
  "n \<le> commonPrefix t u \<longleftrightarrow> n \<le> length t \<and> n \<le> length u \<and> take n t = take n u"
proof (induction t arbitrary: u n)
  case Nil
  then show ?case by (auto simp: commonPrefix_Nil)
next
  case (Cons x xs)
  show ?case
  proof (cases u)
    case (Cons y ys)
    then show ?thesis
      using Cons.IH by (cases n) (auto simp: commonPrefix_Cons)
  qed (auto simp: commonPrefix_Nil)
qed

lemma trimFront_eq: "n \<le> length t \<Longrightarrow> trimFront t n = Some (drop n t)"
  by (simp add: trimFront_def)

lemma pushFront_eq: "pushFront t e = e # t"
  by (cases t) (simp_all add: pushFront_def)

end
