(* ===== verification/Rlp_Stream.thy ===== *)
theory Rlp_Stream
  imports Common_Data
begin

text \<open>
  \<^verbatim>\<open>libdevcore/RLP.h\<close> and \<^verbatim>\<open>RLP.cpp\<close>, the writer \<open>RLPStream\<close>.  The state is the output
  buffer and the stack of open lists; the back of the C++ vector \<open>m_listStack\<close> is the head
  of the list here.  Buffer sizes are natural numbers, and the checks of the source on the
  number of length bytes are kept, so a buffer of \<open>2 ^ 64\<close> bytes or more raises the
  exception.  The reference encoding \<open>rlp_enc\<close> is the one of the RLP specification.
\<close>

section \<open>Constants and errors\<close>

datatype rlp_error = RLPException | BadRLP | UndersizeRLP | OversizeRLP | BadCast | UndefinedRead

definition c_rlpMaxLengthBytes :: nat where "c_rlpMaxLengthBytes = 8"
definition c_rlpDataImmLenStart :: nat where "c_rlpDataImmLenStart = 0x80"
definition c_rlpListStart :: nat where "c_rlpListStart = 0xc0"
definition c_rlpDataImmLenCount :: nat where
  "c_rlpDataImmLenCount = c_rlpListStart - c_rlpDataImmLenStart - c_rlpMaxLengthBytes"
definition c_rlpDataIndLenZero :: nat where
  "c_rlpDataIndLenZero = c_rlpDataImmLenStart + c_rlpDataImmLenCount - 1"
definition c_rlpListImmLenCount :: nat where
  "c_rlpListImmLenCount = 256 - c_rlpListStart - c_rlpMaxLengthBytes"
definition c_rlpListIndLenZero :: nat where
  "c_rlpListIndLenZero = c_rlpListStart + c_rlpListImmLenCount - 1"

lemmas rlp_consts = c_rlpMaxLengthBytes_def c_rlpDataImmLenStart_def c_rlpListStart_def
  c_rlpDataImmLenCount_def c_rlpDataIndLenZero_def c_rlpListImmLenCount_def c_rlpListIndLenZero_def

section \<open>The stream\<close>

record RLPStream =
  m_out :: bytes
  m_listStack :: "(nat \<times> nat) list"

definition RLPStream_empty :: RLPStream where
  "RLPStream_empty = \<lparr>m_out = [], m_listStack = []\<rparr>"

definition push_out :: "bytes \<Rightarrow> RLPStream \<Rightarrow> RLPStream" where
  "push_out bs r = r\<lparr>m_out := m_out r @ bs\<rparr>"

text \<open>\<open>for (; s; s >>= 8) *(b--) = (uint8_t)s\<close>, the pointer as an index.\<close>

fun write_down :: "bytes \<Rightarrow> nat \<Rightarrow> nat \<Rightarrow> bytes" where
  "write_down out b s =
     (if s = 0 then out else write_down (out[b := of_nat s]) (b - 1) (s div 256))"

declare write_down.simps [simp del]

definition pushInt :: "nat \<Rightarrow> nat \<Rightarrow> RLPStream \<Rightarrow> RLPStream" where
  "pushInt i br r =
     (let out = m_out r @ replicate br 0
      in r\<lparr>m_out := write_down out (length out - 1) i\<rparr>)"

definition pushCount :: "nat \<Rightarrow> nat \<Rightarrow> RLPStream \<Rightarrow> rlp_error + RLPStream" where
  "pushCount count base r =
     (let br = bytesRequired count in
      if br + base > 0xff then Inl RLPException
      else Inr (pushInt count br (push_out [of_nat (br + base)] r)))"

text \<open>The completion of the list that starts at \<open>p\<close>: make room, move, write the header.\<close>

definition close_list :: "nat \<Rightarrow> bytes \<Rightarrow> rlp_error + bytes" where
  "close_list p out =
     (let s = length out - p;
          brs = bytesRequired s;
          encodeSize = (if s < c_rlpListImmLenCount then 1 else 1 + brs);
          os = length out;
          out1 = out @ replicate encodeSize 0;
          out2 = take (p + encodeSize) out1 @ take (os - p) (drop p out1)
      in if s < c_rlpListImmLenCount then Inr (out2[p := of_nat (c_rlpListStart + s)])
         else if c_rlpListIndLenZero + brs \<le> 0xff
              then Inr (write_down (out2[p := of_nat (c_rlpListIndLenZero + brs)]) (p + brs) s)
              else Inl RLPException)"

fun noteAppended_loop :: "nat \<Rightarrow> (nat \<times> nat) list \<Rightarrow> bytes \<Rightarrow> rlp_error + RLPStream" where
  "noteAppended_loop c [] out = Inr \<lparr>m_out = out, m_listStack = []\<rparr>"
| "noteAppended_loop c ((n, p) # st) out =
     (if n < c then Inl RLPException
      else if n - c \<noteq> 0 then Inr \<lparr>m_out = out, m_listStack = (n - c, p) # st\<rparr>
      else bind_res (close_list p out) (\<lambda>out'. noteAppended_loop 1 st out'))"

definition noteAppended :: "nat \<Rightarrow> RLPStream \<Rightarrow> rlp_error + RLPStream" where
  "noteAppended itemCount r =
     (if itemCount = 0 then Inr r else noteAppended_loop itemCount (m_listStack r) (m_out r))"

definition appendRaw :: "bytes \<Rightarrow> nat \<Rightarrow> RLPStream \<Rightarrow> rlp_error + RLPStream" where
  "appendRaw s itemCount r = noteAppended itemCount (push_out s r)"

definition appendList_bytes :: "bytes \<Rightarrow> RLPStream \<Rightarrow> rlp_error + RLPStream" where
  "appendList_bytes rlp r =
     bind_res (if length rlp < c_rlpListImmLenCount
               then Inr (push_out [of_nat (length rlp + c_rlpListStart)] r)
               else pushCount (length rlp) c_rlpListIndLenZero r)
       (\<lambda>r'. appendRaw rlp 1 r')"

definition appendList :: "nat \<Rightarrow> RLPStream \<Rightarrow> rlp_error + RLPStream" where
  "appendList items r =
     (if items \<noteq> 0 then Inr (r\<lparr>m_listStack := (items, length (m_out r)) # m_listStack r\<rparr>)
      else appendList_bytes [] r)"

definition RLPStream_list :: "nat \<Rightarrow> rlp_error + RLPStream" where
  "RLPStream_list listItems = appendList listItems RLPStream_empty"

definition append_bytes :: "bytes \<Rightarrow> bool \<Rightarrow> RLPStream \<Rightarrow> rlp_error + RLPStream" where
  "append_bytes bs compact r =
     (let d = (if compact then dropWhile (\<lambda>b. b = 0) bs else bs);
          s = length d
      in bind_res
           (if s = 1 \<and> unat (d ! 0) < c_rlpDataImmLenStart then Inr (push_out [d ! 0] r)
            else bind_res
                   (if s < c_rlpDataImmLenCount then Inr (push_out [of_nat (s + c_rlpDataImmLenStart)] r)
                    else pushCount s c_rlpDataIndLenZero r)
                   (\<lambda>r'. appendRaw d 0 r'))
           (\<lambda>r'. noteAppended 1 r'))"

text \<open>\<open>append(bigint)\<close>; the overloads on \<open>unsigned\<close>, \<open>u160\<close> and \<open>u256\<close> widen their argument first.\<close>

definition append_int :: "nat \<Rightarrow> RLPStream \<Rightarrow> rlp_error + RLPStream" where
  "append_int i r =
     bind_res
       (if i = 0 then Inr (push_out [of_nat c_rlpDataImmLenStart] r)
        else if i < c_rlpDataImmLenStart then Inr (push_out [of_nat i] r)
        else
          (let br = bytesRequired i in
           bind_res
             (if br < c_rlpDataImmLenCount then Inr (push_out [of_nat (br + c_rlpDataImmLenStart)] r)
              else (let brbr = bytesRequired br in
                    if c_rlpDataIndLenZero + brbr > 0xff then Inl RLPException
                    else Inr (pushInt br brbr (push_out [of_nat (c_rlpDataIndLenZero + brbr)] r))))
             (\<lambda>r'. Inr (pushInt i br r'))))
       (\<lambda>r'. noteAppended 1 r')"

definition append_word :: "'a::len word \<Rightarrow> RLPStream \<Rightarrow> rlp_error + RLPStream" where
  "append_word v r = append_int (unat v) r"

definition append_string :: "string \<Rightarrow> RLPStream \<Rightarrow> rlp_error + RLPStream" where
  "append_string s r = append_bytes (asBytes s) False r"

text \<open>\<open>append(FixedHash<N>)\<close>, with the hash as its bytes.\<close>

definition append_hash :: "bytes \<Rightarrow> bool \<Rightarrow> bool \<Rightarrow> RLPStream \<Rightarrow> rlp_error + RLPStream" where
  "append_hash h compact allOrNothing r =
     (if allOrNothing \<and> \<not> list_ex (\<lambda>b. b \<noteq> 0) h then append_bytes [] False r
      else append_bytes h compact r)"

text \<open>The templates over containers, with the element's \<open>append\<close> as a parameter.\<close>

fun append_all :: "('a \<Rightarrow> RLPStream \<Rightarrow> rlp_error + RLPStream) \<Rightarrow> 'a list \<Rightarrow> RLPStream \<Rightarrow> rlp_error + RLPStream" where
  "append_all f [] r = Inr r"
| "append_all f (x # xs) r = bind_res (f x r) (\<lambda>r'. append_all f xs r')"

definition appendVector :: "('a \<Rightarrow> RLPStream \<Rightarrow> rlp_error + RLPStream) \<Rightarrow> 'a list \<Rightarrow> RLPStream \<Rightarrow> rlp_error + RLPStream" where
  "appendVector f xs r = bind_res (appendList (length xs) r) (\<lambda>r'. append_all f xs r')"

definition append_pair ::
  "('a \<Rightarrow> RLPStream \<Rightarrow> rlp_error + RLPStream) \<Rightarrow> ('b \<Rightarrow> RLPStream \<Rightarrow> rlp_error + RLPStream) \<Rightarrow>
   'a \<times> 'b \<Rightarrow> RLPStream \<Rightarrow> rlp_error + RLPStream" where
  "append_pair f g s r =
     bind_res (appendList 2 r) (\<lambda>r1. bind_res (f (fst s) r1) (\<lambda>r2. g (snd s) r2))"

definition stream_clear :: "RLPStream \<Rightarrow> RLPStream" where
  "stream_clear r = r\<lparr>m_out := [], m_listStack := []\<rparr>"

definition stream_out :: "RLPStream \<Rightarrow> rlp_error + bytes" where
  "stream_out r = (if m_listStack r \<noteq> [] then Inl RLPException else Inr (m_out r))"

definition swapOut :: "bytes \<Rightarrow> RLPStream \<Rightarrow> rlp_error + (bytes \<times> RLPStream)" where
  "swapOut dest r =
     (if m_listStack r \<noteq> [] then Inl RLPException else Inr (m_out r, r\<lparr>m_out := dest\<rparr>))"

definition rlp_of :: "('a \<Rightarrow> RLPStream \<Rightarrow> rlp_error + RLPStream) \<Rightarrow> 'a \<Rightarrow> rlp_error + bytes" where
  "rlp_of f x = bind_res (f x RLPStream_empty) stream_out"

definition rlpList :: "('a \<Rightarrow> RLPStream \<Rightarrow> rlp_error + RLPStream) \<Rightarrow> 'a list \<Rightarrow> rlp_error + bytes" where
  "rlpList f xs =
     bind_res (RLPStream_list (length xs)) (\<lambda>r. bind_res (append_all f xs r) stream_out)"

section \<open>The reference encoding\<close>

datatype rlp = RStr bytes | RList "rlp list"

definition rlp_header :: "nat \<Rightarrow> nat \<Rightarrow> bytes" where
  "rlp_header base n =
     (if n < 56 then [of_nat (base + n)]
      else of_nat (base + 55 + bytesRequired n) # compact_be n 0)"

definition enc_str :: "bytes \<Rightarrow> bytes" where
  "enc_str bs = (if length bs = 1 \<and> unat (hd bs) < 0x80 then bs else rlp_header 0x80 (length bs) @ bs)"

definition enc_list :: "bytes \<Rightarrow> bytes" where
  "enc_list payload = rlp_header 0xc0 (length payload) @ payload"

fun rlp_enc :: "rlp \<Rightarrow> bytes" where
  "rlp_enc (RStr bs) = enc_str bs"
| "rlp_enc (RList ts) = enc_list (concat (map rlp_enc ts))"

text \<open>Writing a tree with the stream's own operations.\<close>

fun write_rlp :: "rlp \<Rightarrow> RLPStream \<Rightarrow> rlp_error + RLPStream"
and write_rlps :: "rlp list \<Rightarrow> RLPStream \<Rightarrow> rlp_error + RLPStream" where
  "write_rlp (RStr bs) r = append_bytes bs False r"
| "write_rlp (RList ts) r = bind_res (appendList (length ts) r) (write_rlps ts)"
| "write_rlps [] r = Inr r"
| "write_rlps (t # ts) r = bind_res (write_rlp t r) (write_rlps ts)"

section \<open>Writing integers\<close>

lemma write_down_append:
  "b = length pre + bytesRequired s - 1 \<Longrightarrow> length mid = bytesRequired s \<Longrightarrow>
   write_down (pre @ mid @ post) b s = pre @ nat_be (bytesRequired s) s @ post"
proof (induction s arbitrary: b mid post rule: bytesRequired.induct)
  case (1 s)
  show ?case
  proof (cases "s = 0")
    case True
    with 1 show ?thesis by (simp add: write_down.simps)
  next
    case False
    then have n: "bytesRequired s = Suc (bytesRequired (s div 256))"
      by (simp add: bytesRequired_pos)
    then obtain mid' x where mid: "mid = mid' @ [x]" "length mid' = bytesRequired (s div 256)"
      using 1 by (metis length_Suc_conv_rev)
    have "(pre @ mid @ post)[b := of_nat s] = pre @ mid' @ (of_nat s # post)"
      using 1 n mid by (simp add: list_update_append)
    moreover have "write_down (pre @ mid' @ (of_nat s # post)) (b - 1) (s div 256)
        = pre @ nat_be (bytesRequired (s div 256)) (s div 256) @ of_nat s # post"
      by (rule 1) (use False 1 n mid in simp_all)
    ultimately show ?thesis
      using False n by (simp add: write_down.simps [of _ b])
  qed
qed

lemma m_out_pushInt: "m_out (pushInt i (bytesRequired i) r) = m_out r @ compact_be i 0"
  using write_down_append [of _ "m_out r" i "replicate (bytesRequired i) 0" "[]"]
  by (simp add: pushInt_def Let_def compact_be_def)

lemma pushInt_eq: "pushInt i (bytesRequired i) r = push_out (compact_be i 0) r"
  using m_out_pushInt [of i r] by (simp add: push_out_def pushInt_def Let_def)

lemma push_out_simps [simp]:
  "m_out (push_out bs r) = m_out r @ bs" "m_listStack (push_out bs r) = m_listStack r"
  "push_out bs (push_out cs r) = push_out (cs @ bs) r"
  by (simp_all add: push_out_def)

lemma length_le_8: "n < 2 ^ 64 \<Longrightarrow> bytesRequired n \<le> 8"
  by (simp add: bytesRequired_le_iff)

lemma pushCount_eq:
  assumes "n < 2 ^ 64" "56 \<le> n" "base \<le> 0xf7 - 55"
  shows "pushCount n (base + 55) r = Inr (push_out (rlp_header base n) r)"
  using length_le_8 [OF assms(1)] assms
  by (simp add: pushCount_def Let_def pushInt_eq rlp_header_def ac_simps)

section \<open>Completing a list\<close>

lemma close_list_eq:
  assumes "length payload < 2 ^ 64"
  shows "close_list (length pre) (pre @ payload) = Inr (pre @ enc_list payload)"
proof (cases "length payload < 56")
  case True
  have "take (length pre + 1) (pre @ payload @ [0]) @ take (length payload) (payload @ [0 :: byte])
      = pre @ take 1 (payload @ [0]) @ payload"
    by simp
  moreover have "(pre @ take 1 (payload @ [0 :: byte]) @ payload)[length pre := h] = pre @ [h] @ payload" for h
    by (cases payload) simp_all
  ultimately show ?thesis
    using True by (simp add: close_list_def Let_def rlp_consts enc_list_def rlp_header_def)
next
  case False
  define s brs where "s = length payload" and "brs = bytesRequired s"
  define room where "room = take (1 + brs) (payload @ replicate (1 + brs) (0 :: byte))"
  have len: "length room = Suc brs" by (simp add: room_def)
  have brs: "brs \<le> 8" using assms by (simp add: brs_def s_def length_le_8)
  then have hdr: "length payload = s" "0xf7 + brs \<le> 0xff" "\<not> s < 56" using False by (simp_all add: s_def)
  obtain x room' where room': "room = x # room'" "length room' = brs"
    using len by (cases room) auto
  have "take (length pre + (1 + brs)) ((pre @ payload) @ replicate (1 + brs) 0) = pre @ room"
    by (simp add: room_def)
  moreover have "(pre @ room @ payload)[length pre := h] = (pre @ [h]) @ room' @ payload" for h
    by (simp add: room' list_update_append)
  moreover have "write_down ((pre @ [h]) @ room' @ payload) (length pre + brs) s
      = (pre @ [h]) @ nat_be brs s @ payload" for h
    using write_down_append [of "length pre + brs" "pre @ [h]" s room' payload] room'
    by (simp add: brs_def)
  ultimately have "close_list (length pre) (pre @ payload)
      = Inr ((pre @ [of_nat (0xf7 + brs)]) @ nat_be brs s @ payload)"
    using hdr by (simp add: close_list_def Let_def rlp_consts flip: brs_def s_def)
  then show ?thesis
    using hdr by (simp add: enc_list_def rlp_header_def compact_be_def flip: brs_def)
qed

section \<open>The operations append the reference encoding\<close>

lemma noteAppended_0 [simp]: "noteAppended 0 r = Inr r"
  by (simp add: noteAppended_def)

lemma appendRaw_0 [simp]: "appendRaw bs 0 r = Inr (push_out bs r)"
  by (simp add: appendRaw_def)

lemma append_bytes_eq:
  assumes "length bs < 2 ^ 64"
  shows "append_bytes bs False r = noteAppended 1 (push_out (enc_str bs) r)"
proof -
  consider (single) "length bs = 1" "unat (bs ! 0) < 0x80"
    | (short) "\<not> (length bs = 1 \<and> unat (bs ! 0) < 0x80)" "length bs < 56"
    | (long) "56 \<le> length bs"
    by linarith
  then show ?thesis
  proof cases
    case single
    then obtain b where "bs = [b]" by (auto simp: length_Suc_conv)
    with single show ?thesis by (simp add: append_bytes_def enc_str_def rlp_consts)
  next
    case short
    then have "enc_str bs = of_nat (0x80 + length bs) # bs"
      by (cases bs) (simp_all add: enc_str_def rlp_header_def)
    with short show ?thesis by (auto simp add: append_bytes_def Let_def rlp_consts ac_simps)
  next
    case long
    then show ?thesis
      using pushCount_eq [of "length bs" "0x80" r] assms
      by (simp add: append_bytes_def rlp_consts enc_str_def)
  qed
qed

lemma append_bytes_compact:
  "append_bytes bs True r = append_bytes (dropWhile (\<lambda>b. b = 0) bs) False r"
  by (simp add: append_bytes_def)

lemma compact_be_single: "0 < i \<Longrightarrow> i < 0x80 \<Longrightarrow> compact_be i 0 = [of_nat i]"
  by (simp add: compact_be_def bytesRequired_pos)

lemma bytesRequired_ge_2: "256 \<le> i \<Longrightarrow> 2 \<le> bytesRequired i"
  using bytesRequired_le_iff [of i 1] by simp

lemma enc_str_compact_be:
  assumes "0x80 \<le> i"
  shows "enc_str (compact_be i 0) = rlp_header 0x80 (bytesRequired i) @ compact_be i 0"
proof (cases "i < 256")
  case True
  then have "compact_be i 0 = [of_nat i]" "unat (of_nat i :: byte) = i" "bytesRequired i = 1"
    using assms by (simp_all add: compact_be_def bytesRequired_pos unat_of_nat)
  then show ?thesis using assms by (simp add: enc_str_def)
next
  case False
  then show ?thesis using bytesRequired_ge_2 [of i] by (simp add: enc_str_def)
qed

lemma append_int_eq:
  assumes "bytesRequired i < 2 ^ 64"
  shows "append_int i r = noteAppended 1 (push_out (enc_str (compact_be i 0)) r)"
proof -
  define br where "br = bytesRequired i"
  consider (zero) "i = 0" | (single) "0 < i" "i < 0x80" | (big) "0x80 \<le> i"
    by linarith
  then show ?thesis
  proof cases
    case zero
    then show ?thesis by (simp add: append_int_def rlp_consts compact_be_def enc_str_def rlp_header_def)
  next
    case single
    then show ?thesis
      by (simp add: append_int_def rlp_consts compact_be_single enc_str_def unat_of_nat)
  next
    case big
    have hdr: "enc_str (compact_be i 0) = rlp_header 0x80 br @ compact_be i 0"
      using big by (simp add: enc_str_compact_be br_def)
    have "bytesRequired br \<le> 8" using assms by (simp add: br_def length_le_8)
    then show ?thesis
      using big unfolding hdr
      by (simp add: append_int_def Let_def rlp_consts pushInt_eq rlp_header_def ac_simps flip: br_def)
        (simp add: br_def pushInt_eq)
  qed
qed

lemma appendList_bytes_eq:
  assumes "length p < 2 ^ 64"
  shows "appendList_bytes p r = noteAppended 1 (push_out (enc_list p) r)"
proof (cases "length p < 56")
  case True
  then show ?thesis
    by (simp add: appendList_bytes_def appendRaw_def rlp_consts enc_list_def rlp_header_def ac_simps)
next
  case False
  then show ?thesis
    using pushCount_eq [of "length p" "0xc0" r] assms
    by (simp add: appendList_bytes_def appendRaw_def rlp_consts enc_list_def)
qed

section \<open>Writing a tree\<close>

text \<open>
  The items of an open list arrive one by one: with \<open>n\<close> items missing, \<open>n\<close> writes that each
  end in \<open>noteAppended 1\<close> complete it, and what follows sees one item more.
\<close>

lemma noteAppended_open:
  "1 < n \<Longrightarrow> noteAppended 1 \<lparr>m_out = out, m_listStack = (n, p) # st\<rparr>
     = Inr \<lparr>m_out = out, m_listStack = (n - 1, p) # st\<rparr>"
  by (simp add: noteAppended_def)

lemma noteAppended_last:
  "length payload < 2 ^ 64 \<Longrightarrow>
   noteAppended 1 \<lparr>m_out = out @ payload, m_listStack = (1, length out) # st\<rparr>
     = noteAppended 1 \<lparr>m_out = out @ enc_list payload, m_listStack = st\<rparr>"
  by (simp add: noteAppended_def close_list_eq)

definition writes_enc :: "(rlp \<Rightarrow> RLPStream \<Rightarrow> rlp_error + RLPStream) \<Rightarrow> rlp \<Rightarrow> bool" where
  "writes_enc f t \<longleftrightarrow> (\<forall>r. f t r = noteAppended 1 (push_out (rlp_enc t) r))"

lemma write_rlps_eq:
  assumes "ts \<noteq> []" "\<forall>t \<in> set ts. writes_enc write_rlp t"
    and "length (acc @ concat (map rlp_enc ts)) < 2 ^ 64"
  shows "write_rlps ts \<lparr>m_out = out @ acc, m_listStack = (length ts, length out) # st\<rparr>
       = noteAppended 1 \<lparr>m_out = out @ enc_list (acc @ concat (map rlp_enc ts)), m_listStack = st\<rparr>"
  using assms
proof (induction ts arbitrary: acc)
  case Nil
  then show ?case by simp
next
  case (Cons t ts)
  have t: "write_rlp t \<lparr>m_out = out @ acc, m_listStack = (Suc (length ts), length out) # st\<rparr>
    = noteAppended 1 \<lparr>m_out = out @ (acc @ rlp_enc t), m_listStack = (Suc (length ts), length out) # st\<rparr>"
    using Cons.prems by (simp add: writes_enc_def push_out_def)
  show ?case
  proof (cases "ts = []")
    case True
    have "length (acc @ rlp_enc t) < 2 ^ 64" using Cons.prems True by simp
    from noteAppended_last [OF this, of out st] show ?thesis
      by (cases "noteAppended 1 \<lparr>m_out = out @ enc_list (acc @ rlp_enc t), m_listStack = st\<rparr>")
        (simp_all add: True t [unfolded True, simplified])
  next
    case False
    then have "noteAppended 1 \<lparr>m_out = out @ (acc @ rlp_enc t), m_listStack = (Suc (length ts), length out) # st\<rparr>
       = Inr \<lparr>m_out = out @ (acc @ rlp_enc t), m_listStack = (length ts, length out) # st\<rparr>"
      using noteAppended_open [of "Suc (length ts)"] by simp
    then show ?thesis
      using Cons.IH [of "acc @ rlp_enc t"] Cons.prems False t by simp
  qed
qed

lemma length_rlp_enc_list: "length (concat (map rlp_enc ts)) \<le> length (rlp_enc (RList ts))"
  by (simp add: enc_list_def)

lemma length_rlp_enc_mem: "t \<in> set ts \<Longrightarrow> length (rlp_enc t) \<le> length (concat (map rlp_enc ts))"
  by (induction ts) auto

lemma length_enc_str: "length bs \<le> length (enc_str bs)"
  by (simp add: enc_str_def)

lemma write_rlp_eq:
  "length (rlp_enc t) < 2 ^ 64 \<Longrightarrow> writes_enc write_rlp t"
proof (induction t)
  case (RStr bs)
  then have "length bs < 2 ^ 64" using length_enc_str [of bs] by simp
  then show ?case by (simp add: writes_enc_def append_bytes_eq)
next
  case (RList ts)
  have small: "length (concat (map rlp_enc ts)) < 2 ^ 64"
    using RList.prems length_rlp_enc_list [of ts] by linarith
  have all: "\<forall>t \<in> set ts. writes_enc write_rlp t"
    using RList.IH length_rlp_enc_mem [of _ ts] small by fastforce
  show ?case
  proof (cases "ts = []")
    case True
    then show ?thesis
      by (auto simp: writes_enc_def appendList_def appendList_bytes_eq bind_res_def split: sum.split)
  next
    case False
    show ?thesis
      unfolding writes_enc_def
    proof
      fix r :: RLPStream
      show "write_rlp (RList ts) r = noteAppended 1 (push_out (rlp_enc (RList ts)) r)"
        by (cases r) (use write_rlps_eq [of ts "[]" "m_out r" "m_listStack r"] False all small
          in \<open>simp add: appendList_def push_out_def\<close>)
    qed
  qed
qed

end
