(* ===== verification/Rlp_Reader.thy ===== *)
theory Rlp_Reader
  imports Rlp_Stream
begin

text \<open>
  \<^verbatim>\<open>libdevcore/RLP.h\<close> and \<^verbatim>\<open>RLP.cpp\<close>, the reader \<open>RLP\<close>, with \<open>cropped\<close> of
  \<^verbatim>\<open>vector_ref.h\<close>.  A \<open>bytesConstRef\<close> is the list of the bytes it points to; the null
  reference and a reference to no bytes are both the empty list, which the reader never tells
  apart.  An item is only ever read through \<open>m_data\<close>, so the list is all that matters, except in
  the iterator, which compares pointers: there a reference is an offset into the parent's bytes
  and a count.  A read outside the bytes is the error \<open>UndefinedRead\<close>.
\<close>

section \<open>Views\<close>

definition cropped :: "bytes \<Rightarrow> nat \<Rightarrow> nat \<Rightarrow> bytes" where
  "cropped d b c = (if b \<le> length d \<and> c \<le> length d \<and> b + c \<le> length d then take c (drop b d) else [])"

definition cropped_from :: "bytes \<Rightarrow> nat \<Rightarrow> bytes" where
  "cropped_from d b = (if b \<le> length d then drop b d else [])"

section \<open>Strictness flags\<close>

type_synonym Strictness = int

definition AllowNonCanon :: Strictness where "AllowNonCanon = 1"
definition ThrowOnFail :: Strictness where "ThrowOnFail = 4"
definition FailIfTooBig :: Strictness where "FailIfTooBig = 8"
definition FailIfTooSmall :: Strictness where "FailIfTooSmall = 16"
definition Strict :: Strictness where "Strict = ThrowOnFail OR FailIfTooBig"
definition VeryStrict :: Strictness where "VeryStrict = ThrowOnFail OR FailIfTooBig OR FailIfTooSmall"
definition LaissezFaire :: Strictness where "LaissezFaire = AllowNonCanon"

definition has_flag :: "Strictness \<Rightarrow> Strictness \<Rightarrow> bool" where
  "has_flag s f = (s AND f \<noteq> 0)"

lemmas flag_defs = AllowNonCanon_def ThrowOnFail_def FailIfTooBig_def FailIfTooSmall_def
  Strict_def VeryStrict_def LaissezFaire_def has_flag_def

section \<open>The header of an item\<close>

definition isNull :: "bytes \<Rightarrow> bool" where
  "isNull d = (length d = 0)"

definition isEmpty :: "bytes \<Rightarrow> bool" where
  "isEmpty d = (\<not> isNull d \<and> (unat (d ! 0) = c_rlpDataImmLenStart \<or> unat (d ! 0) = c_rlpListStart))"

definition isData :: "bytes \<Rightarrow> bool" where
  "isData d = (\<not> isNull d \<and> unat (d ! 0) < c_rlpListStart)"

definition isList :: "bytes \<Rightarrow> bool" where
  "isList d = (\<not> isNull d \<and> unat (d ! 0) \<ge> c_rlpListStart)"

definition isSingleByte :: "bytes \<Rightarrow> bool" where
  "isSingleByte d = (\<not> isNull d \<and> unat (d ! 0) < c_rlpDataImmLenStart)"

definition requireGood :: "bytes \<Rightarrow> rlp_error + unit" where
  "requireGood d =
     (if isNull d then Inl BadRLP
      else if unat (d ! 0) \<noteq> c_rlpDataImmLenStart + 1 then Inr ()
      else if length d < 2 then Inl BadRLP
      else if unat (d ! 1) < c_rlpDataImmLenStart then Inl BadRLP
      else Inr ())"

definition isInt :: "bytes \<Rightarrow> rlp_error + bool" where
  "isInt d =
     (if isNull d then Inr False
      else bind_res (requireGood d) (\<lambda>_.
        let n = unat (d ! 0) in
        if n < c_rlpDataImmLenStart then Inr (n \<noteq> 0)
        else if n = c_rlpDataImmLenStart then Inr True
        else if n \<le> c_rlpDataIndLenZero then
          (if length d \<le> 1 then Inl BadRLP else Inr (d ! 1 \<noteq> 0))
        else if n < c_rlpListStart then
          (if length d \<le> 1 + n - c_rlpDataIndLenZero then Inl BadRLP
           else Inr (d ! (1 + n - c_rlpDataIndLenZero) \<noteq> 0))
        else Inr False))"

definition lengthSize :: "bytes \<Rightarrow> nat" where
  "lengthSize d =
     (if isData d \<and> unat (d ! 0) > c_rlpDataIndLenZero then unat (d ! 0) - c_rlpDataIndLenZero
      else if isList d \<and> unat (d ! 0) > c_rlpListIndLenZero then unat (d ! 0) - c_rlpListIndLenZero
      else 0)"

definition payloadOffset :: "bytes \<Rightarrow> nat" where
  "payloadOffset d = (if isSingleByte d then 0 else 1 + lengthSize d)"

text \<open>The loop over the length bytes, in 64-bit arithmetic, and the check that follows both.\<close>

definition read_length :: "bytes \<Rightarrow> nat \<Rightarrow> u64" where
  "read_length d ls = fold (\<lambda>i ret. push_bit 8 ret OR ucast (d ! (i + 1))) [0..<ls] 0"

definition check_length :: "nat \<Rightarrow> nat \<Rightarrow> rlp_error + nat" where
  "check_length lim ret =
     (if ret < lim then Inl BadRLP
      else if ret \<ge> size_max - 0x100 then Inl UndersizeRLP
      else Inr ret)"

definition length_rlp :: "bytes \<Rightarrow> rlp_error + nat" where
  "length_rlp d =
     (if isNull d then Inr 0
      else bind_res (requireGood d) (\<lambda>_.
        let n = unat (d ! 0) in
        if n < c_rlpDataImmLenStart then Inr 1
        else if n \<le> c_rlpDataIndLenZero then Inr (n - c_rlpDataImmLenStart)
        else if n < c_rlpListStart then
          (let ls = n - c_rlpDataIndLenZero in
           if length d \<le> n - c_rlpDataIndLenZero then Inl BadRLP
           else if length d > 1 \<and> d ! 1 = 0 then Inl BadRLP
           else if ls > 8 then Inl UndersizeRLP
           else if d ! 1 = 0 then Inl BadRLP
           else check_length (c_rlpListStart - c_rlpDataImmLenStart - c_rlpMaxLengthBytes)
                  (unat (read_length d ls)))
        else if n \<le> c_rlpListIndLenZero then Inr (n - c_rlpListStart)
        else
          (let ls = n - c_rlpListIndLenZero in
           if length d \<le> ls then Inl BadRLP
           else if length d > 1 \<and> d ! 1 = 0 then Inl BadRLP
           else if ls > 8 then Inl UndersizeRLP
           else if d ! 1 = 0 then Inl BadRLP
           else check_length (0x100 - c_rlpListStart - c_rlpMaxLengthBytes)
                  (unat (read_length d ls)))))"

definition actualSize :: "bytes \<Rightarrow> rlp_error + nat" where
  "actualSize d =
     (if isNull d then Inr 0
      else if isSingleByte d then Inr 1
      else if isData d \<or> isList d then
        bind_res (length_rlp d) (\<lambda>l. Inr (payloadOffset d + l))
      else Inr 0)"

definition payload :: "bytes \<Rightarrow> rlp_error + bytes" where
  "payload d =
     bind_res (length_rlp d) (\<lambda>l.
       if l > length d then Inl BadRLP else Inr (cropped d (payloadOffset d) l))"

section \<open>Items\<close>

record RLP =
  m_data :: bytes
  m_lastIndex :: nat
  m_lastEnd :: nat
  m_lastItem :: bytes

definition RLP_init :: "bytes \<Rightarrow> RLP" where
  "RLP_init d = \<lparr>m_data = d, m_lastIndex = size_max, m_lastEnd = 0, m_lastItem = []\<rparr>"

definition RLP_ctor :: "bytes \<Rightarrow> Strictness \<Rightarrow> rlp_error + RLP" where
  "RLP_ctor d s =
     bind_res
       (if has_flag s FailIfTooBig then
          bind_res (actualSize d) (\<lambda>a.
            if a < length d then (if has_flag s ThrowOnFail then Inl OversizeRLP else Inr []) else Inr d)
        else Inr d)
     (\<lambda>d1. bind_res
       (if has_flag s FailIfTooSmall then
          bind_res (actualSize d1) (\<lambda>a.
            if a > length d then (if has_flag s ThrowOnFail then Inl UndersizeRLP else Inr []) else Inr d1)
        else Inr d1)
     (\<lambda>d2. Inr (RLP_init d2)))"

definition sizeAsEncoded :: "bytes \<Rightarrow> rlp_error + nat" where
  "sizeAsEncoded d =
     bind_res (RLP_ctor d (ThrowOnFail OR FailIfTooSmall)) (\<lambda>r. actualSize (m_data r))"

text \<open>
  \<open>operator[]\<close> updates its cache even when it throws, so it returns the reader's new state
  beside its result.
\<close>

definition index_start :: "RLP \<Rightarrow> (rlp_error + unit) \<times> RLP" where
  "index_start r =
     (case payload (m_data r) of
        Inl e \<Rightarrow> (Inl e, r)
      | Inr pl \<Rightarrow>
          (case sizeAsEncoded pl of
             Inl e \<Rightarrow> (Inl e, r)
           | Inr n \<Rightarrow> (Inr (), r\<lparr>m_lastEnd := n, m_lastItem := cropped pl 0 n, m_lastIndex := 0\<rparr>)))"

definition index_next :: "RLP \<Rightarrow> (rlp_error + unit) \<times> RLP" where
  "index_next r =
     (case payload (m_data r) of
        Inl e \<Rightarrow> (Inl e, r)
      | Inr pl \<Rightarrow>
          (let item = cropped_from pl (m_lastEnd r); r1 = r\<lparr>m_lastItem := item\<rparr> in
           case sizeAsEncoded item of
             Inl e \<Rightarrow> (Inl e, r1)
           | Inr n \<Rightarrow>
               (let item' = cropped item 0 n
                in (Inr (), r1\<lparr>m_lastItem := item', m_lastEnd := m_lastEnd r + length item'\<rparr>))))"

function index_loop :: "nat \<Rightarrow> RLP \<Rightarrow> (rlp_error + unit) \<times> RLP" where
  "index_loop i r =
     (if m_lastIndex r < i \<and> length (m_lastItem r) \<noteq> 0 then
        (case index_next r of
           (Inl e, r') \<Rightarrow> (Inl e, r')
         | (Inr _, r') \<Rightarrow> index_loop i (r'\<lparr>m_lastIndex := m_lastIndex r + 1\<rparr>))
      else (Inr (), r))"
  by pat_completeness auto
termination
  by (relation "measure (\<lambda>(i, r). i - m_lastIndex r)") auto

declare index_loop.simps [simp del]

definition operator_index :: "nat \<Rightarrow> RLP \<Rightarrow> (rlp_error + RLP) \<times> RLP" where
  "operator_index i r =
     (case (if i < m_lastIndex r then index_start r else (Inr (), r)) of
        (Inl e, r1) \<Rightarrow> (Inl e, r1)
      | (Inr _, r1) \<Rightarrow>
          (case index_loop i r1 of
             (Inl e, r2) \<Rightarrow> (Inl e, r2)
           | (Inr _, r2) \<Rightarrow> (RLP_ctor (m_lastItem r2) (ThrowOnFail OR FailIfTooSmall), r2)))"

section \<open>Basic laws\<close>

lemma bind_res_unit: "bind_res m (\<lambda>_ :: unit. f) = (case m of Inl e \<Rightarrow> Inl e | Inr _ \<Rightarrow> f)"
  by (simp add: bind_res_def)

lemma isSingle_isData: "isSingleByte d \<Longrightarrow> isData d"
  by (simp add: isSingleByte_def isData_def rlp_consts)

lemma actualSize_pos: "actualSize d = Inr n \<Longrightarrow> d \<noteq> [] \<Longrightarrow> 0 < n"
  by (auto simp: actualSize_def isNull_def isData_def isList_def payloadOffset_def bind_res_eq_Inr
      split: if_splits)

lemma RLP_ctor_data:
  assumes "RLP_ctor d s = Inr r"
  shows "m_data r = d \<or> m_data r = []"
  using assms by (auto simp: RLP_ctor_def RLP_init_def bind_res_eq_Inr split: if_splits)

lemma actualSize_Nil [simp]: "actualSize [] = Inr 0"
  by (simp add: actualSize_def isNull_def)

lemma sizeAsEncoded_eq:
  "sizeAsEncoded d =
     bind_res (actualSize d) (\<lambda>n. if n > length d then Inl UndersizeRLP else Inr n)"
  by (cases "actualSize d") (simp_all add: sizeAsEncoded_def RLP_ctor_def flag_defs RLP_init_def)

lemma sizeAsEncoded_bounds:
  "sizeAsEncoded d = Inr n \<Longrightarrow> n \<le> length d \<and> (d \<noteq> [] \<longrightarrow> 0 < n)"
  using actualSize_pos by (auto simp: sizeAsEncoded_eq bind_res_eq_Inr split: if_splits)

function items_loop :: "nat \<Rightarrow> bytes \<Rightarrow> rlp_error + nat" where
  "items_loop i d =
     (if length d \<noteq> 0
      then bind_res (sizeAsEncoded d) (\<lambda>n. items_loop (i + 1) (cropped_from d n))
      else Inr i)"
  by pat_completeness auto
termination
proof (relation "measure (\<lambda>(i, d). length d)", goal_cases)
  case (2 i d n)
  then show ?case using sizeAsEncoded_bounds [of d n] by (auto simp: cropped_from_def)
qed simp

declare items_loop.simps [simp del]

definition items :: "bytes \<Rightarrow> rlp_error + nat" where
  "items d = (if isList d then bind_res (payload d) (\<lambda>pl. items_loop 0 pl) else Inr 0)"

definition itemCount :: "bytes \<Rightarrow> rlp_error + nat" where
  "itemCount d = (if isList d then items d else Inr 0)"

definition itemCountStrict :: "bytes \<Rightarrow> rlp_error + nat" where
  "itemCountStrict d = (if \<not> isList d then Inl BadCast else items d)"

definition size_rlp :: "bytes \<Rightarrow> rlp_error + nat" where
  "size_rlp d = (if isData d then length_rlp d else Inr 0)"

definition sizeStrict :: "bytes \<Rightarrow> rlp_error + nat" where
  "sizeStrict d = (if \<not> isData d then Inl BadCast else length_rlp d)"

section \<open>Conversions\<close>

definition toBytes :: "bytes \<Rightarrow> Strictness \<Rightarrow> rlp_error + bytes" where
  "toBytes d flags =
     (if \<not> isData d then (if has_flag flags ThrowOnFail then Inl BadCast else Inr [])
      else bind_res (payload d) (\<lambda>p. bind_res (length_rlp d) (\<lambda>l.
        if l \<le> length p then Inr (take l p) else Inl UndefinedRead)))"

definition toBytesConstRef :: "bytes \<Rightarrow> Strictness \<Rightarrow> rlp_error + bytes" where
  "toBytesConstRef d flags =
     (if \<not> isData d then (if has_flag flags ThrowOnFail then Inl BadCast else Inr [])
      else bind_res (payload d) (\<lambda>p. bind_res (length_rlp d) (\<lambda>l. Inr (cropped p 0 l))))"

definition toString_rlp :: "bytes \<Rightarrow> Strictness \<Rightarrow> rlp_error + string" where
  "toString_rlp d flags =
     (if \<not> isData d then (if has_flag flags ThrowOnFail then Inl BadCast else Inr [])
      else bind_res (payload d) (\<lambda>p. bind_res (length_rlp d) (\<lambda>l. Inr (asString (cropped p 0 l)))))"

text \<open>
  The guards that \<open>toInt\<close> has at every type: the payload to convert, or \<open>None\<close> for the early
  return of zero.  The argument \<open>maxSize\<close> is \<open>intTraits<T>::maxSize\<close>.
\<close>

definition toInt_payload :: "nat \<Rightarrow> bytes \<Rightarrow> Strictness \<Rightarrow> rlp_error + bytes option" where
  "toInt_payload maxSize d flags =
     bind_res (requireGood d) (\<lambda>_. bind_res (isInt d) (\<lambda>int.
       if (\<not> int \<and> \<not> has_flag flags AllowNonCanon) \<or> isList d \<or> isNull d
       then (if has_flag flags ThrowOnFail then Inl BadCast else Inr None)
       else bind_res (payload d) (\<lambda>p.
         if length p > maxSize \<and> has_flag flags FailIfTooBig
         then (if has_flag flags ThrowOnFail then Inl BadCast else Inr None)
         else Inr (Some p))))"

definition toInt :: "bytes \<Rightarrow> Strictness \<Rightarrow> rlp_error + 'a::len word" where
  "toInt d flags =
     bind_res (toInt_payload (LENGTH('a) div 8) d flags) (\<lambda>p.
       case p of None \<Rightarrow> Inr 0 | Some bs \<Rightarrow> Inr (fromBigEndian bs))"

definition toInt_bigint :: "bytes \<Rightarrow> Strictness \<Rightarrow> rlp_error + nat" where
  "toInt_bigint d flags =
     bind_res (toInt_payload (2 ^ 32 - 1) d flags) (\<lambda>p.
       case p of None \<Rightarrow> Inr 0 | Some bs \<Rightarrow> Inr (foldl (\<lambda>ret i. ret * 256 + unat i) 0 bs))"

definition toPositiveInt64 :: "bytes \<Rightarrow> Strictness \<Rightarrow> rlp_error + int" where
  "toPositiveInt64 d flags =
     bind_res (toInt d flags :: rlp_error + u64) (\<lambda>w.
       let i = sint w in
       if has_flag flags ThrowOnFail \<and> i < 0 then Inl BadCast else Inr i)"

definition toHash :: "nat \<Rightarrow> bytes \<Rightarrow> Strictness \<Rightarrow> rlp_error + bytes" where
  "toHash N d flags =
     bind_res (requireGood d) (\<lambda>_. bind_res (payload d) (\<lambda>p.
       let l = length p in
       if \<not> isData d \<or> (l > N \<and> has_flag flags FailIfTooBig) \<or> (l < N \<and> has_flag flags FailIfTooSmall)
       then (if has_flag flags ThrowOnFail then Inl BadCast else Inr (replicate N 0))
       else (let s = min N l in Inr (take (N - s) (replicate N 0) @ take s p))))"

definition toPair ::
  "(bytes \<Rightarrow> Strictness \<Rightarrow> rlp_error + 'a) \<Rightarrow> (bytes \<Rightarrow> Strictness \<Rightarrow> rlp_error + 'b) \<Rightarrow>
   'a \<times> 'b \<Rightarrow> RLP \<Rightarrow> Strictness \<Rightarrow> rlp_error + ('a \<times> 'b)" where
  "toPair f g dflt r flags =
     bind_res (itemCountStrict (m_data r)) (\<lambda>n.
       if n \<noteq> 2 then (if has_flag flags ThrowOnFail then Inl BadCast else Inr dflt)
       else (case operator_index 0 r of (x, r1) \<Rightarrow>
               bind_res x (\<lambda>r0. bind_res (f (m_data r0) flags) (\<lambda>a.
                 case operator_index 1 r1 of (y, r2) \<Rightarrow>
                   bind_res y (\<lambda>r3. bind_res (g (m_data r3) flags) (\<lambda>b. Inr (a, b)))))))"

fun toArray_loop ::
  "(bytes \<Rightarrow> Strictness \<Rightarrow> rlp_error + 'a) \<Rightarrow> nat list \<Rightarrow> RLP \<Rightarrow> Strictness \<Rightarrow> rlp_error + 'a list" where
  "toArray_loop f [] r flags = Inr []"
| "toArray_loop f (i # is) r flags =
     (case operator_index i r of (x, r1) \<Rightarrow>
        bind_res x (\<lambda>r0. bind_res (f (m_data r0) flags) (\<lambda>a.
          bind_res (toArray_loop f is r1 flags) (\<lambda>as. Inr (a # as)))))"

definition toArray ::
  "(bytes \<Rightarrow> Strictness \<Rightarrow> rlp_error + 'a) \<Rightarrow> 'a \<Rightarrow> nat \<Rightarrow> RLP \<Rightarrow> Strictness \<Rightarrow> rlp_error + 'a list" where
  "toArray f dflt N r flags =
     bind_res (itemCount (m_data r)) (\<lambda>n.
       if n \<noteq> N then (if has_flag flags ThrowOnFail then Inl BadCast else Inr (replicate N dflt))
       else toArray_loop f [0..<N] r flags)"

section \<open>The iterator\<close>

text \<open>
  \<open>m_currentItem\<close> is an offset into the parent's bytes (\<open>None\<close> the null pointer) and a count.
\<close>

record iterator =
  it_ptr :: "nat option"
  it_count :: nat
  m_remaining :: nat

definition view_at :: "bytes \<Rightarrow> nat option \<Rightarrow> nat \<Rightarrow> bytes" where
  "view_at d ptr c = (case ptr of None \<Rightarrow> [] | Some b \<Rightarrow> take c (drop b d))"

definition iter_end :: "bytes \<Rightarrow> iterator" where
  "iter_end d =
     \<lparr>it_ptr = (if d = [] then None else Some (length d)), it_count = 0, m_remaining = 0\<rparr>"

definition iter_begin :: "bytes \<Rightarrow> rlp_error + iterator" where
  "iter_begin d =
     (if isList d then
        bind_res (length_rlp d) (\<lambda>l.
          if l > length d then Inl BadRLP
          else (let off = payloadOffset d;
                    ptr = (if off + l \<le> length d then Some off else None);
                    pl = cropped d off l in
                bind_res (sizeAsEncoded pl) (\<lambda>n.
                  Inr \<lparr>it_ptr = ptr, it_count = length (cropped pl 0 n),
                       m_remaining = length pl - length (cropped pl 0 n)\<rparr>)))
      else Inr (iter_end d))"

definition iter_next :: "bytes \<Rightarrow> iterator \<Rightarrow> rlp_error + iterator" where
  "iter_next d it =
     (let ptr = map_option (\<lambda>b. b + it_count it) (it_ptr it) in
      if m_remaining it \<noteq> 0 then
        (let v = view_at d ptr (m_remaining it) in
         bind_res (sizeAsEncoded v) (\<lambda>n.
           let c = length (cropped v 0 n) in
           Inr \<lparr>it_ptr = ptr, it_count = c, m_remaining = m_remaining it - min (m_remaining it) c\<rparr>))
      else Inr \<lparr>it_ptr = ptr, it_count = 0, m_remaining = 0\<rparr>)"

definition iter_deref :: "bytes \<Rightarrow> iterator \<Rightarrow> rlp_error + RLP" where
  "iter_deref d it = RLP_ctor (view_at d (it_ptr it) (it_count it)) VeryStrict"

definition iter_eq :: "iterator \<Rightarrow> iterator \<Rightarrow> bool" where
  "iter_eq a b = (it_ptr a = it_ptr b \<and> it_count a = it_count b)"

text \<open>
  \<open>for (auto const& i: *this) ret.push_back(i.convert<T>(_flags))\<close>, with the number of rounds
  as fuel; \<open>None\<close> means that the end was not reached.
\<close>

fun iter_loop ::
  "nat \<Rightarrow> (bytes \<Rightarrow> rlp_error + 'a) \<Rightarrow> bytes \<Rightarrow> iterator \<Rightarrow> 'a list \<Rightarrow> (rlp_error + 'a list) option" where
  "iter_loop fuel conv d it ret =
     (if iter_eq it (iter_end d) then Some (Inr ret)
      else (case fuel of
              0 \<Rightarrow> None
            | Suc k \<Rightarrow>
                (case bind_res (iter_deref d it) (\<lambda>r. conv (m_data r)) of
                   Inl e \<Rightarrow> Some (Inl e)
                 | Inr x \<Rightarrow>
                     (case iter_next d it of
                        Inl e \<Rightarrow> Some (Inl e)
                      | Inr it' \<Rightarrow> iter_loop k conv d it' (ret @ [x])))))"

declare iter_loop.simps [simp del]

definition toVector ::
  "nat \<Rightarrow> (bytes \<Rightarrow> Strictness \<Rightarrow> rlp_error + 'a) \<Rightarrow> bytes \<Rightarrow> Strictness \<Rightarrow> (rlp_error + 'a list) option" where
  "toVector fuel f d flags =
     (if isList d then
        (case itemCount d of
           Inl e \<Rightarrow> Some (Inl e)
         | Inr _ \<Rightarrow>
             (case iter_begin d of
                Inl e \<Rightarrow> Some (Inl e)
              | Inr it \<Rightarrow> iter_loop fuel (\<lambda>x. f x flags) d it []))
      else if has_flag flags ThrowOnFail then Some (Inl BadCast)
      else Some (Inr []))"

definition toSet ::
  "nat \<Rightarrow> (bytes \<Rightarrow> Strictness \<Rightarrow> rlp_error + 'a) \<Rightarrow> bytes \<Rightarrow> Strictness \<Rightarrow> (rlp_error + 'a set) option" where
  "toSet fuel f d flags =
     (if isList d then
        (case iter_begin d of
           Inl e \<Rightarrow> Some (Inl e)
         | Inr it \<Rightarrow>
             map_option (\<lambda>m. bind_res m (\<lambda>xs. Inr (set xs)))
               (iter_loop fuel (\<lambda>x. f x flags) d it []))
      else if has_flag flags ThrowOnFail then Some (Inl BadCast)
      else Some (Inr {}))"

section \<open>Reading a header\<close>

lemma read_length_eq: "ls < length d \<Longrightarrow> read_length d ls = fromBigEndian (take ls (tl d))"
proof (induction ls)
  case 0
  show ?case by (simp add: read_length_def fromBigEndian_def)
next
  case (Suc ls)
  then have "take (Suc ls) (tl d) = take ls (tl d) @ [d ! (ls + 1)]"
    by (simp add: take_Suc_conv_app_nth nth_tl)
  with Suc show ?case by (simp add: read_length_def fromBigEndian_def)
qed

lemma fromBigEndian_compact_be:
  "n < 2 ^ LENGTH('a) \<Longrightarrow> unat (fromBigEndian (compact_be n 0) :: 'a::len word) = n"
  by (simp add: fromBigEndian_nat)

lemma read_length_compact:
  "n < 2 ^ 64 \<Longrightarrow> unat (read_length (h # compact_be n 0 @ rest) (bytesRequired n)) = n"
  using fromBigEndian_compact_be [of n, where ?'a = 64] by (simp add: read_length_eq)

definition rlp_limit :: nat where
  "rlp_limit = size_max - 0x100"

lemma rlp_limit_less: "n < rlp_limit \<Longrightarrow> n < 2 ^ 64"
  by (simp add: rlp_limit_def size_max_def)

lemma unat_of_nat_byte [simp]: "n < 256 \<Longrightarrow> unat (of_nat n :: byte) = n"
  by (simp add: unat_of_nat)

lemma compact_be_nth_0: "n \<noteq> 0 \<Longrightarrow> (compact_be n 0 @ rest) ! 0 \<noteq> 0"
proof -
  assume n: "n \<noteq> 0"
  then have "compact_be n 0 \<noteq> []"
    by (metis length_compact_be list.size(3) max_0L bytesRequired_0_iff)
  then show ?thesis using compact_be_hd [OF n] n by (simp add: nth_append hd_conv_nth)
qed

lemma length_rlp_header: "length (rlp_header base n) = (if n < 56 then 1 else 1 + bytesRequired n)"
  by (simp add: rlp_header_def)

lemma header_nth_0:
  "n < rlp_limit \<Longrightarrow> base \<le> 0xc0 \<Longrightarrow>
   unat ((rlp_header base n @ rest) ! 0) = (if n < 56 then base + n else base + 55 + bytesRequired n)"
  using length_le_8 [OF rlp_limit_less, of n] by (simp add: rlp_header_def del: of_nat_add)

lemma bytesRequired_pos_iff: "0 < bytesRequired n \<longleftrightarrow> 0 < n"
  using bytesRequired_0_iff [of n] by linarith

lemma read_header_list:
  fixes rest :: bytes
  assumes n: "n < rlp_limit"
  defines "d \<equiv> rlp_header 0xc0 n @ rest"
  shows "isList d" "\<not> isData d" "length_rlp d = Inr n" "payloadOffset d = length (rlp_header 0xc0 n)"
proof -
  have n64: "n < 2 ^ 64" and br: "bytesRequired n \<le> 8"
    using rlp_limit_less [OF n] length_le_8 [OF rlp_limit_less [OF n]] by auto
  have d0: "unat (d ! 0) = (if n < 56 then 0xc0 + n else 0xc0 + 55 + bytesRequired n)"
    using header_nth_0 [OF n, of "0xc0" rest] by (simp add: d_def)
  have ne: "\<not> isNull d" by (simp add: d_def isNull_def rlp_header_def)
  show isList: "isList d" and "\<not> isData d"
    using d0 ne by (simp_all add: isList_def isData_def rlp_consts)
  have good: "requireGood d = Inr ()"
    using d0 ne by (simp add: requireGood_def rlp_consts)
  show "payloadOffset d = length (rlp_header 0xc0 n)"
    using d0 br isList ne bytesRequired_pos_iff [of n]
    by (auto simp: payloadOffset_def lengthSize_def isSingleByte_def isData_def rlp_consts length_rlp_header)
  show "length_rlp d = Inr n"
  proof (cases "n < 56")
    case True
    then show ?thesis using d0 ne good by (simp add: length_rlp_def Let_def rlp_consts)
  next
    case False
    then have d: "d = of_nat (0xc0 + 55 + bytesRequired n) # compact_be n 0 @ rest"
      by (simp add: d_def rlp_header_def)
    have "d ! 1 \<noteq> 0" using False compact_be_nth_0 [of n rest] by (simp add: d)
    moreover have "length d > bytesRequired n" by (simp add: d)
    moreover have "unat (read_length d (bytesRequired n)) = n"
      using n64 by (simp add: d read_length_compact)
    moreover have "0 < bytesRequired n" using False by (simp add: bytesRequired_pos_iff)
    ultimately show ?thesis
      using False d0 ne good br n
      by (simp add: length_rlp_def Let_def rlp_consts check_length_def rlp_limit_def)
  qed
qed

lemma read_header_data:
  fixes rest :: bytes
  assumes n: "n < rlp_limit" and canon: "n = 1 \<longrightarrow> rest \<noteq> [] \<and> 0x80 \<le> unat (hd rest)"
  defines "d \<equiv> rlp_header 0x80 n @ rest"
  shows "isData d" "\<not> isSingleByte d" "length_rlp d = Inr n" "requireGood d = Inr ()"
    "payloadOffset d = length (rlp_header 0x80 n)"
proof -
  have n64: "n < 2 ^ 64" and br: "bytesRequired n \<le> 8"
    using rlp_limit_less [OF n] length_le_8 [OF rlp_limit_less [OF n]] by auto
  have d0: "unat (d ! 0) = (if n < 56 then 0x80 + n else 0x80 + 55 + bytesRequired n)"
    using header_nth_0 [OF n, of "0x80" rest] by (simp add: d_def)
  have ne: "\<not> isNull d" by (simp add: d_def isNull_def rlp_header_def)
  show isData: "isData d" and "\<not> isSingleByte d"
    using d0 ne br by (simp_all add: isSingleByte_def isData_def rlp_consts)
  have pos: "56 \<le> n \<Longrightarrow> 0 < bytesRequired n" by (simp add: bytesRequired_pos_iff)
  show good: "requireGood d = Inr ()"
    using d0 ne canon pos
    by (cases rest) (auto simp: requireGood_def rlp_consts d_def rlp_header_def split: if_splits)
  show "payloadOffset d = length (rlp_header 0x80 n)"
    using d0 br isData ne pos
    by (auto simp: payloadOffset_def lengthSize_def isSingleByte_def isList_def rlp_consts length_rlp_header)
  show "length_rlp d = Inr n"
  proof (cases "n < 56")
    case True
    then show ?thesis using d0 ne good by (simp add: length_rlp_def Let_def rlp_consts)
  next
    case False
    then have d: "d = of_nat (0x80 + 55 + bytesRequired n) # compact_be n 0 @ rest"
      by (simp add: d_def rlp_header_def)
    have "d ! 1 \<noteq> 0" using False compact_be_nth_0 [of n rest] by (simp add: d)
    moreover have "length d > bytesRequired n" by (simp add: d)
    moreover have "unat (read_length d (bytesRequired n)) = n"
      using n64 by (simp add: d read_length_compact)
    ultimately show ?thesis
      using False d0 ne good br n pos
      by (simp add: length_rlp_def Let_def rlp_consts check_length_def rlp_limit_def)
  qed
qed

section \<open>Reading what the stream writes\<close>

definition encs :: "rlp list \<Rightarrow> bytes" where
  "encs ts = concat (map rlp_enc ts)"

lemma encs_simps [simp]:
  "encs [] = []" "encs (t # ts) = rlp_enc t @ encs ts" "encs (us @ ts) = encs us @ encs ts"
  by (simp_all add: encs_def)

lemma rlp_enc_RList: "rlp_enc (RList ts) = rlp_header 0xc0 (length (encs ts)) @ encs ts"
  by (simp add: enc_list_def encs_def)

lemma encs_less: "length (rlp_enc (RList ts)) < n \<Longrightarrow> length (encs ts) < n"
  unfolding rlp_enc_RList by simp

declare rlp_enc.simps(2) [simp del]

lemma rlp_header_ne [simp]: "rlp_header b n \<noteq> []"
  by (simp add: rlp_header_def)

lemma rlp_enc_ne [simp]: "rlp_enc t \<noteq> []"
  by (cases t) (auto simp: enc_str_def rlp_enc_RList)

lemma encs_Nil_iff [simp]: "encs ts = [] \<longleftrightarrow> ts = []"
  by (cases ts) simp_all

text \<open>The two shapes of an encoded string.\<close>

lemma enc_str_cases:
  obtains (single) b where "bs = [b]" "unat b < 0x80" "enc_str bs = [b]"
  | (header) "enc_str bs = rlp_header 0x80 (length bs) @ bs"
      "length bs = 1 \<longrightarrow> 0x80 \<le> unat (hd bs)"
proof (cases "length bs = 1 \<and> unat (hd bs) < 0x80")
  case True
  then obtain b where "bs = [b]" by (auto simp: length_Suc_conv)
  with True show ?thesis by (intro single [of b]) (simp_all add: enc_str_def)
next
  case False
  then show ?thesis by (intro header) (auto simp: enc_str_def)
qed

lemma single_byte_reads:
  assumes "unat b < 0x80"
  shows "isData (b # rest)" "isSingleByte (b # rest)" "length_rlp (b # rest) = Inr 1"
    "requireGood (b # rest) = Inr ()" "payloadOffset (b # rest) = 0" "\<not> isList (b # rest)"
  using assms by (simp_all add: isData_def isSingleByte_def isNull_def rlp_consts length_rlp_def
      requireGood_def payloadOffset_def isList_def Let_def)

lemma cropped_mid [simp]: "cropped (pre @ mid @ post) (length pre) (length mid) = mid"
  by (simp add: cropped_def)

lemma cropped_0 [simp]: "cropped (mid @ post) 0 (length mid) = mid"
  using cropped_mid [of "[]" mid post] by simp

lemma payload_mid:
  "length_rlp d = Inr (length mid) \<Longrightarrow> payloadOffset d = length pre \<Longrightarrow> d = pre @ mid @ post \<Longrightarrow>
   payload d = Inr mid"
  by (simp add: payload_def)

lemma enc_str_reads:
  fixes rest :: bytes
  assumes lim: "length bs < rlp_limit"
  defines "d \<equiv> enc_str bs @ rest"
  shows "isData d" "\<not> isList d" "length_rlp d = Inr (length bs)" "requireGood d = Inr ()"
    "payload d = Inr bs" "actualSize d = Inr (length (enc_str bs))"
proof -
  have "isData d \<and> length_rlp d = Inr (length bs) \<and> requireGood d = Inr () \<and> payload d = Inr bs
      \<and> actualSize d = Inr (length (enc_str bs))"
  proof (cases bs rule: enc_str_cases)
    case (single b)
    then have d: "d = b # rest" by (simp add: d_def)
    have "payload d = Inr [b]"
      by (rule payload_mid [of _ _ "[]"]) (use single in \<open>simp_all add: d single_byte_reads\<close>)
    with single show ?thesis
      by (simp add: d single_byte_reads actualSize_def isNull_def)
  next
    case header
    then have d: "d = rlp_header 0x80 (length bs) @ bs @ rest" by (simp add: d_def)
    have canon: "length bs = 1 \<longrightarrow> bs @ rest \<noteq> [] \<and> 0x80 \<le> unat (hd (bs @ rest))"
      using header by (cases bs) auto
    note reads = read_header_data [OF lim canon, folded d]
    have "payload d = Inr bs"
      by (rule payload_mid [OF _ _ d]) (use reads in simp_all)
    with reads header show ?thesis
      by (simp add: actualSize_def isData_def)
  qed
  then show "isData d" "\<not> isList d" "length_rlp d = Inr (length bs)" "requireGood d = Inr ()"
    "payload d = Inr bs" "actualSize d = Inr (length (enc_str bs))"
    by (simp_all add: isData_def isList_def)
qed

lemma enc_list_reads:
  fixes rest :: bytes
  assumes "length (rlp_enc (RList ts)) < rlp_limit"
  defines "d \<equiv> rlp_enc (RList ts) @ rest"
  shows "isList d" "\<not> isData d" "length_rlp d = Inr (length (encs ts))" "payload d = Inr (encs ts)"
    "payloadOffset d = length (rlp_header 0xc0 (length (encs ts)))"
    "actualSize d = Inr (length (rlp_enc (RList ts)))"
proof -
  have d: "d = rlp_header 0xc0 (length (encs ts)) @ encs ts @ rest"
    by (simp add: d_def rlp_enc_RList)
  have "length (encs ts) < rlp_limit"
    using assms(1) encs_less by blast
  note reads = read_header_list [OF this, of "encs ts @ rest", folded d]
  then show "isList d" "\<not> isData d" "length_rlp d = Inr (length (encs ts))"
    "payloadOffset d = length (rlp_header 0xc0 (length (encs ts)))"
    by simp_all
  show "payload d = Inr (encs ts)"
    by (rule payload_mid [OF _ _ d]) (use reads in simp_all)
  show "actualSize d = Inr (length (rlp_enc (RList ts)))"
    using reads by (auto simp: actualSize_def isList_def isSingleByte_def rlp_consts rlp_enc_RList)
qed

lemma actualSize_enc:
  "length (rlp_enc t) < rlp_limit \<Longrightarrow> actualSize (rlp_enc t @ rest) = Inr (length (rlp_enc t))"
proof (cases t)
  case (RStr bs)
  assume "length (rlp_enc t) < rlp_limit"
  then have "length bs < rlp_limit" using length_enc_str [of bs] RStr by simp
  then show ?thesis by (simp add: RStr enc_str_reads)
next
  case (RList ts)
  assume "length (rlp_enc t) < rlp_limit"
  then show ?thesis by (simp add: RList enc_list_reads)
qed

lemma sizeAsEncoded_enc:
  "length (rlp_enc t) < rlp_limit \<Longrightarrow> sizeAsEncoded (rlp_enc t @ rest) = Inr (length (rlp_enc t))"
  by (simp add: sizeAsEncoded_eq actualSize_enc)

lemma sizeAsEncoded_Nil [simp]: "sizeAsEncoded [] = Inr 0"
  by (simp add: sizeAsEncoded_eq)

lemma RLP_ctor_enc:
  "length (rlp_enc t) < rlp_limit \<Longrightarrow> RLP_ctor (rlp_enc t) s = Inr (RLP_init (rlp_enc t))"
  using actualSize_enc [of t "[]"] by (simp add: RLP_ctor_def)

lemma RLP_ctor_Nil [simp]: "RLP_ctor [] s = Inr (RLP_init [])"
  by (simp add: RLP_ctor_def)

lemma items_loop_encs:
  "length (encs ts) < rlp_limit \<Longrightarrow> items_loop i (encs ts) = Inr (i + length ts)"
proof (induction ts arbitrary: i)
  case Nil
  show ?case by (simp add: items_loop.simps)
next
  case (Cons t ts)
  then show ?case
    by (simp add: items_loop.simps [of i "rlp_enc t @ encs ts"] sizeAsEncoded_enc cropped_from_def)
qed

section \<open>Indexing\<close>

text \<open>The item at an index, nothing past the end.\<close>

definition item_at :: "rlp list \<Rightarrow> nat \<Rightarrow> bytes" where
  "item_at ts k = (if k < length ts then rlp_enc (ts ! k) else [])"

lemma encs_drop: "encs (drop k ts) = item_at ts k @ encs (drop (Suc k) ts)"
  by (cases "k < length ts") (simp_all add: item_at_def flip: Cons_nth_drop_Suc)

lemma encs_take_Suc: "encs (take (Suc k) ts) = encs (take k ts) @ item_at ts k"
  by (cases "k < length ts") (simp_all add: item_at_def take_Suc_conv_app_nth)

lemma encs_split: "encs ts = encs (take k ts) @ encs (drop k ts)"
  by (metis append_take_drop_id encs_simps(3))

lemma length_item_at: "length (item_at ts k) \<le> length (encs ts)"
  using encs_split [of ts k] encs_drop [of k ts] by simp

lemma item_at_Nil_iff: "item_at ts k = [] \<longleftrightarrow> length ts \<le> k"
  by (simp add: item_at_def not_less)

lemma sizeAsEncoded_item:
  "length (encs ts) < rlp_limit \<Longrightarrow> sizeAsEncoded (encs (drop k ts)) = Inr (length (item_at ts k))"
  using length_item_at [of ts k]
  by (cases "k < length ts")
    (simp_all add: encs_drop [of k] item_at_def sizeAsEncoded_enc)

lemma RLP_ctor_item:
  "length (encs ts) < rlp_limit \<Longrightarrow> RLP_ctor (item_at ts k) s = Inr (RLP_init (item_at ts k))"
  using length_item_at [of ts k] by (cases "k < length ts") (simp_all add: item_at_def RLP_ctor_enc)

lemma encs_ge_length: "length ts \<le> length (encs ts)"
proof (induction ts)
  case (Cons t ts)
  have "1 \<le> length (rlp_enc t)" by (simp add: Suc_leI)
  with Cons show ?case by simp
qed simp

text \<open>What the cache of a reader on a list holds between two calls.\<close>

definition cache_at :: "rlp list \<Rightarrow> nat \<Rightarrow> RLP \<Rightarrow> bool" where
  "cache_at ts k r \<longleftrightarrow>
     m_data r = rlp_enc (RList ts) \<and> m_lastIndex r = k \<and> k \<le> length ts \<and>
     m_lastItem r = item_at ts k \<and> m_lastEnd r = length (encs (take (Suc k) ts))"

definition cache_ok :: "rlp list \<Rightarrow> RLP \<Rightarrow> bool" where
  "cache_ok ts r \<longleftrightarrow> r = RLP_init (rlp_enc (RList ts)) \<or> (\<exists>k. cache_at ts k r)"

lemma index_start_cache:
  assumes "length (rlp_enc (RList ts)) < rlp_limit" "m_data r = rlp_enc (RList ts)"
  shows "\<exists>r'. index_start r = (Inr (), r') \<and> cache_at ts 0 r'"
proof -
  have "length (encs ts) < rlp_limit" using assms encs_less by blast
  then have "sizeAsEncoded (encs ts) = Inr (length (item_at ts 0))"
    using sizeAsEncoded_item [of ts 0] by simp
  moreover have "payload (rlp_enc (RList ts)) = Inr (encs ts)"
    using enc_list_reads(4) [OF assms(1), of "[]"] by simp
  moreover have "cropped (encs ts) 0 (length (item_at ts 0)) = item_at ts 0"
    using encs_drop [of 0 ts] by simp
  ultimately show ?thesis
    using assms(2) encs_take_Suc [of 0 ts] by (simp add: index_start_def cache_at_def)
qed

lemma index_next_cache:
  assumes "length (rlp_enc (RList ts)) < rlp_limit" "cache_at ts k r" "k < length ts"
  shows "\<exists>r'. index_next r = (Inr (), r') \<and> cache_at ts (Suc k) (r'\<lparr>m_lastIndex := m_lastIndex r + 1\<rparr>)"
proof -
  have lim: "length (encs ts) < rlp_limit" using assms encs_less by blast
  have "payload (m_data r) = Inr (encs ts)"
    using enc_list_reads(4) [OF assms(1), of "[]"] assms(2) by (simp add: cache_at_def)
  moreover have "cropped_from (encs ts) (m_lastEnd r) = encs (drop (Suc k) ts)"
    using assms(2) encs_split [of ts "Suc k"] by (simp add: cache_at_def cropped_from_def)
  moreover have "cropped (encs (drop (Suc k) ts)) 0 (length (item_at ts (Suc k))) = item_at ts (Suc k)"
    using encs_drop [of "Suc k" ts] by simp
  ultimately show ?thesis
    using assms encs_take_Suc [of "Suc k" ts] sizeAsEncoded_item [OF lim, of "Suc k"]
    by (simp add: index_next_def Let_def cache_at_def)
qed

lemma index_loop_cache:
  assumes "length (rlp_enc (RList ts)) < rlp_limit" "cache_at ts k r" "k \<le> i"
  shows "\<exists>r'. index_loop i r = (Inr (), r') \<and> cache_at ts (min i (length ts)) r'"
  using assms(2,3)
proof (induction "i - k" arbitrary: k r)
  case 0
  then have "k = i" "m_lastIndex r = i" "i \<le> length ts" by (simp_all add: cache_at_def)
  then show ?case
    using 0 by (simp add: index_loop.simps [of i r] min_def)
next
  case (Suc n)
  show ?case
  proof (cases "k < length ts")
    case True
    then obtain r' where r': "index_next r = (Inr (), r')"
      "cache_at ts (Suc k) (r'\<lparr>m_lastIndex := m_lastIndex r + 1\<rparr>)"
      using index_next_cache [OF assms(1) Suc.prems(1)] by blast
    have "m_lastItem r \<noteq> []" "m_lastIndex r < i"
      using Suc True by (auto simp: cache_at_def item_at_Nil_iff)
    then show ?thesis
      using Suc.hyps(1) [OF _ r'(2)] Suc.hyps(2) r'(1) by (simp add: index_loop.simps [of i r])
  next
    case False
    then have "m_lastItem r = []" "k = length ts"
      using Suc.prems by (auto simp: cache_at_def item_at_Nil_iff)
    then show ?thesis
      using Suc by (auto simp: index_loop.simps [of i r] min_def)
  qed
qed

lemma item_at_min: "item_at ts (min i (length ts)) = item_at ts i"
  by (simp add: item_at_def min_def)

lemma index_loop_stop: "m_lastItem r = [] \<Longrightarrow> index_loop i r = (Inr (), r)"
  by (simp add: index_loop.simps [of i r])

lemma operator_index_cache:
  assumes lim: "length (rlp_enc (RList ts)) < rlp_limit" and ok: "cache_ok ts r"
  shows "\<exists>r'. operator_index i r = (Inr (RLP_init (item_at ts i)), r') \<and> cache_ok ts r'"
proof -
  have elim: "length (encs ts) < rlp_limit" using lim encs_less by blast
  show ?thesis
  proof (cases "i < m_lastIndex r")
    case True
    have "m_data r = rlp_enc (RList ts)"
      using ok by (auto simp: cache_ok_def cache_at_def RLP_init_def)
    then obtain r1 where "index_start r = (Inr (), r1)" "cache_at ts 0 r1"
      using index_start_cache [OF lim] by blast
    moreover then obtain r2 where "index_loop i r1 = (Inr (), r2)" "cache_at ts (min i (length ts)) r2"
      using index_loop_cache [OF lim, of 0 r1 i] by blast
    ultimately show ?thesis
      using True RLP_ctor_item [OF elim]
      by (auto simp: operator_index_def cache_ok_def cache_at_def item_at_min)
  next
    case False
    show ?thesis
    proof (cases "r = RLP_init (rlp_enc (RList ts))")
      case True
      then have "size_max \<le> i" using False by (simp add: RLP_init_def)
      then have "length ts \<le> i"
        using encs_ge_length [of ts] elim by (simp add: rlp_limit_def)
      then have "item_at ts i = []" by (simp add: item_at_Nil_iff)
      moreover have "m_lastItem r = []" using True by (simp add: RLP_init_def)
      ultimately show ?thesis
        using False ok by (simp add: operator_index_def index_loop_stop)
    next
      case False2: False
      then obtain k where k: "cache_at ts k r" using ok by (auto simp: cache_ok_def)
      then have "k \<le> i" using False by (simp add: cache_at_def)
      with k obtain r2 where "index_loop i r = (Inr (), r2)" "cache_at ts (min i (length ts)) r2"
        using index_loop_cache [OF lim, of k r i] by blast
      then show ?thesis
        using False RLP_ctor_item [OF elim]
        by (auto simp: operator_index_def cache_ok_def cache_at_def item_at_min)
    qed
  qed
qed

text \<open>A sequence of accesses to one reader.\<close>

fun index_seq :: "nat list \<Rightarrow> RLP \<Rightarrow> (rlp_error + RLP) list" where
  "index_seq [] r = []"
| "index_seq (i # is) r = (case operator_index i r of (x, r') \<Rightarrow> x # index_seq is r')"

lemma index_seq_cache:
  assumes "length (rlp_enc (RList ts)) < rlp_limit" "cache_ok ts r"
  shows "index_seq is r = map (\<lambda>i. Inr (RLP_init (item_at ts i))) is"
  using assms(2)
proof (induction "is" arbitrary: r)
  case (Cons i "is")
  then show ?case
    using operator_index_cache [OF assms(1) Cons.prems, of i] by fastforce
qed simp

section \<open>Iterating\<close>

definition it_at :: "rlp list \<Rightarrow> nat \<Rightarrow> iterator" where
  "it_at ts k =
     \<lparr>it_ptr = Some (length (rlp_header 0xc0 (length (encs ts))) + length (encs (take k ts))),
      it_count = length (item_at ts k), m_remaining = length (encs (drop (Suc k) ts))\<rparr>"

lemma it_at_sel [simp]:
  "it_ptr (it_at ts k) = Some (length (rlp_header 0xc0 (length (encs ts))) + length (encs (take k ts)))"
  "it_count (it_at ts k) = length (item_at ts k)"
  "m_remaining (it_at ts k) = length (encs (drop (Suc k) ts))"
  by (simp_all add: it_at_def)

lemma it_begin_at:
  assumes "length (rlp_enc (RList ts)) < rlp_limit"
  shows "iter_begin (rlp_enc (RList ts) @ extra) = Inr (it_at ts 0)"
proof -
  note reads = enc_list_reads [OF assms, of extra]
  have "sizeAsEncoded (encs ts) = Inr (length (item_at ts 0))"
    using sizeAsEncoded_item [OF encs_less [OF assms], of 0] by simp
  moreover have "cropped (rlp_enc (RList ts) @ extra) (length (rlp_header 0xc0 (length (encs ts)))) (length (encs ts)) = encs ts"
    by (simp add: rlp_enc_RList)
  moreover have "length (rlp_header 0xc0 (length (encs ts))) + length (encs ts) \<le> length (rlp_enc (RList ts) @ extra)"
    "\<not> length (encs ts) > length (rlp_enc (RList ts) @ extra)"
    by (simp_all add: rlp_enc_RList)
  moreover have "encs ts = item_at ts 0 @ encs (drop 1 ts)"
    using encs_drop [of 0 ts] by simp
  ultimately show ?thesis
    using reads by (simp add: iter_begin_def Let_def it_at_def del: length_append) simp
qed

lemma view_drop:
  "view_at (rlp_enc (RList ts) @ extra)
     (Some (length (rlp_header 0xc0 (length (encs ts))) + length (encs (take k ts))))
     (length (encs (drop k ts))) = encs (drop k ts)"
proof -
  have "encs ts = encs (take k ts) @ encs (drop k ts)" by (rule encs_split)
  then have "rlp_enc (RList ts) @ extra
      = (rlp_header 0xc0 (length (encs ts)) @ encs (take k ts)) @ encs (drop k ts) @ extra"
    by (simp add: rlp_enc_RList)
  then show ?thesis by (simp add: view_at_def)
qed

lemma it_next_at:
  assumes "length (rlp_enc (RList ts)) < rlp_limit"
  shows "iter_next (rlp_enc (RList ts) @ extra) (it_at ts k) = Inr (it_at ts (Suc k))"
proof (cases "encs (drop (Suc k) ts) = []")
  case True
  then have "item_at ts (Suc k) = []" by (simp add: item_at_Nil_iff)
  with True show ?thesis
    using encs_take_Suc [of k ts] by (simp add: iter_next_def it_at_def Let_def)
next
  case False
  define e where "e = encs (drop (Suc k) ts)"
  have e: "e = item_at ts (Suc k) @ encs (drop (Suc (Suc k)) ts)"
    using encs_drop [of "Suc k" ts] by (simp add: e_def)
  have size: "sizeAsEncoded e = Inr (length (item_at ts (Suc k)))"
    using sizeAsEncoded_item [OF encs_less [OF assms], of "Suc k"] by (simp add: e_def)
  have "view_at (rlp_enc (RList ts) @ extra)
     (map_option (\<lambda>b. b + it_count (it_at ts k)) (it_ptr (it_at ts k))) (length e) = e"
    using view_drop [of ts extra "Suc k"] by (simp add: e_def encs_take_Suc add.assoc)
  moreover have "m_remaining (it_at ts k) = length e" "length e \<noteq> 0"
    using False by (simp_all add: e_def)
  ultimately show ?thesis
    using size e encs_take_Suc [of k ts]
    by (simp add: iter_next_def Let_def it_at_def)
qed

lemma it_deref_at:
  assumes "length (rlp_enc (RList ts)) < rlp_limit"
  shows "iter_deref (rlp_enc (RList ts) @ extra) (it_at ts k) = Inr (RLP_init (item_at ts k))"
proof -
  have "encs ts = encs (take k ts) @ item_at ts k @ encs (drop (Suc k) ts)"
    using encs_split [of ts k] encs_drop [of k ts] by simp
  then have "rlp_enc (RList ts) @ extra
      = (rlp_header 0xc0 (length (encs ts)) @ encs (take k ts)) @ item_at ts k @ encs (drop (Suc k) ts) @ extra"
    by (simp add: rlp_enc_RList)
  then have "view_at (rlp_enc (RList ts) @ extra) (it_ptr (it_at ts k)) (it_count (it_at ts k)) = item_at ts k"
    by (simp add: view_at_def)
  then show ?thesis
    using RLP_ctor_item [OF encs_less [OF assms]] by (simp add: iter_deref_def)
qed

lemma it_end_at:
  "iter_eq (it_at ts k) (iter_end (rlp_enc (RList ts) @ extra)) \<longleftrightarrow> extra = [] \<and> length ts \<le> k"
proof -
  have "length ts \<le> k \<Longrightarrow> take k ts = ts" by simp
  then show ?thesis
    by (auto simp: iter_eq_def iter_end_def item_at_Nil_iff rlp_enc_RList)
qed

lemma iter_loop_encs:
  assumes lim: "length (rlp_enc (RList ts)) < rlp_limit"
    and conv: "\<And>k. k < length ts \<Longrightarrow> conv (rlp_enc (ts ! k)) = Inr (g (ts ! k))"
  shows "k \<le> length ts \<Longrightarrow> length ts - k \<le> fuel \<Longrightarrow>
    iter_loop fuel conv (rlp_enc (RList ts)) (it_at ts k) ret = Some (Inr (ret @ map g (drop k ts)))"
proof (induction "length ts - k" arbitrary: k fuel ret)
  case 0
  then show ?case
    using it_end_at [of ts k "[]"] by (simp add: iter_loop.simps)
next
  case (Suc n)
  then have k: "k < length ts" by simp
  obtain f where f: "fuel = Suc f" using Suc by (cases fuel) simp_all
  have "drop k ts = ts ! k # drop (Suc k) ts" using k by (simp add: Cons_nth_drop_Suc)
  moreover have "item_at ts k = rlp_enc (ts ! k)" using k by (simp add: item_at_def)
  moreover have "iter_loop f conv (rlp_enc (RList ts)) (it_at ts (Suc k)) (ret @ [g (ts ! k)])
      = Some (Inr ((ret @ [g (ts ! k)]) @ map g (drop (Suc k) ts)))"
    by (rule Suc.hyps) (use Suc f in simp_all)
  ultimately show ?case
    using k f conv [OF k] it_end_at [of ts k "[]"] it_deref_at [OF lim, of "[]" k] it_next_at [OF lim, of "[]" k]
    by (simp add: iter_loop.simps [of "Suc f"] RLP_init_def)
qed

text \<open>With bytes left after the list the end pointer is never met.\<close>

lemma iter_loop_trailing:
  assumes lim: "length (rlp_enc (RList ts)) < rlp_limit" and "extra \<noteq> []"
  shows "iter_loop fuel (\<lambda>x. Inr (g x)) (rlp_enc (RList ts) @ extra) (it_at ts k) ret = None"
proof (induction fuel arbitrary: k ret)
  case 0
  then show ?case using it_end_at [of ts k extra] assms by (simp add: iter_loop.simps)
next
  case (Suc fuel)
  then show ?case
    using it_end_at [of ts k extra] it_deref_at [OF lim, of extra k] it_next_at [OF lim, of extra k] assms
    by (simp add: iter_loop.simps [of "Suc fuel"])
qed

end
