(* ===== verification/Rlp_Theorems.thy ===== *)
theory Rlp_Theorems
  imports Rlp_Reader
begin

text \<open>
  What the RLP writer and reader promise together: the stream produces the reference encoding,
  the reader inverts it at every type, \<open>operator[]\<close> is independent of its cache, iteration
  visits the items in order, and whatever the strict reader accepts is canonical.
\<close>

section \<open>Integers\<close>

lemma isInt_enc_str:
  assumes "length bs < rlp_limit"
  shows "isInt (enc_str bs) = Inr (bs = [] \<or> hd bs \<noteq> 0)"
proof (cases bs rule: enc_str_cases)
  case (single b)
  then show ?thesis
    by (simp add: isInt_def single_byte_reads isNull_def rlp_consts Let_def unat_eq_0)
next
  case header
  define n where "n = length bs"
  have n: "n < rlp_limit" using assms by (simp add: n_def)
  have good: "requireGood (enc_str bs) = Inr ()"
    using enc_str_reads(4) [OF assms, of "[]"] by simp
  have d0: "unat (enc_str bs ! 0) = (if n < 56 then 0x80 + n else 0x80 + 55 + bytesRequired n)"
    using header_nth_0 [OF n, of "0x80" bs] header by (simp add: n_def)
  show ?thesis
  proof (cases "n < 56")
    case True
    then have "enc_str bs = of_nat (0x80 + n) # bs" using header by (simp add: rlp_header_def n_def)
    moreover have "0 < n \<Longrightarrow> bs ! 0 = hd bs" by (simp add: n_def hd_conv_nth)
    ultimately show ?thesis
      using True d0 good by (auto simp: isInt_def isNull_def Let_def rlp_consts n_def)
  next
    case False
    then have "enc_str bs = of_nat (0x80 + 55 + bytesRequired n) # compact_be n 0 @ bs"
      using header by (simp add: rlp_header_def n_def)
    moreover then have "enc_str bs ! Suc (bytesRequired n) = hd bs"
      using False by (cases bs) (simp_all add: nth_append n_def)
    moreover have "0 < bytesRequired n" "bytesRequired n \<le> 8"
      using False length_le_8 [OF rlp_limit_less [OF n]] by (auto simp: bytesRequired_pos_iff)
    moreover have "bs \<noteq> []" "0 < n" using False by (auto simp: n_def)
    ultimately show ?thesis
      using False d0 good by (simp add: isInt_def isNull_def Let_def rlp_consts)
  qed
qed

lemma toInt_payload_enc:
  assumes "length bs < rlp_limit" "bs = [] \<or> hd bs \<noteq> 0" "length bs \<le> m"
  shows "toInt_payload m (enc_str bs) flags = Inr (Some bs)"
proof -
  have "\<not> isNull (enc_str bs)"
    using rlp_enc_ne [of "RStr bs"] by (simp add: isNull_def)
  then show ?thesis
    using enc_str_reads [OF assms(1), of "[]"] isInt_enc_str [OF assms(1)] assms(2,3)
    by (simp add: toInt_payload_def)
qed

lemma compact_be_canon: "compact_be v 0 = [] \<or> hd (compact_be v 0) \<noteq> 0"
  by (cases "v = 0") (simp_all add: compact_be_hd compact_be_def [of 0])

lemma length_rlp_header_le: "n < 2 ^ 64 \<Longrightarrow> length (rlp_header b n) \<le> 9"
  using length_le_8 [of n] by (simp add: length_rlp_header)

lemma enc_str_short: "n < rlp_limit - 9 \<Longrightarrow> length bs \<le> n \<Longrightarrow> length (enc_str bs) < rlp_limit"
  using length_rlp_header_le [of "length bs" "0x80"]
  by (simp add: enc_str_def rlp_limit_def size_max_def)

text \<open>
  C1: writing any tree of byte strings and lists with \<open>append\<close> and \<open>appendList\<close> on an empty
  \<open>RLPStream\<close> yields exactly the encoding of the RLP specification: the headers that
  \<open>noteAppended\<close> inserts after the fact, by moving the payload, are the right ones at every depth.
\<close>

theorem stream_refines_encoding:
  assumes "length (rlp_enc t) < 2 ^ 64"
  shows "bind_res (write_rlp t RLPStream_empty) stream_out = Inr (rlp_enc t)"
  using write_rlp_eq [OF assms]
  by (simp add: writes_enc_def push_out_def RLPStream_empty_def noteAppended_def stream_out_def)

theorem stream_refines_encoding_witness:
  "bind_res (write_rlp (RList [RStr [1], RList [RStr (replicate 60 7), RList []], RStr []]) RLPStream_empty)
     stream_out
   = Inr ([0xf8, 67, 1, 0xf8, 0x3f, 0xb8, 60] @ replicate 60 7 @ [0xc0, 0x80])"
proof -
  let ?t = "RList [RStr [1], RList [RStr (replicate 60 7), RList []], RStr []]"
  have "rlp_enc ?t = [0xf8, 67, 1, 0xf8, 0x3f, 0xb8, 60] @ replicate 60 7 @ [0xc0, 0x80]"
    by code_simp
  moreover then have "length (rlp_enc ?t) < 2 ^ 64" by simp
  ultimately show ?thesis
    using stream_refines_encoding [of ?t] by simp
qed

lemma rlp_of_bytes:
  "length bs < 2 ^ 64 \<Longrightarrow> rlp_of (\<lambda>b. append_bytes b False) bs = Inr (enc_str bs)"
  by (simp add: rlp_of_def append_bytes_eq push_out_def RLPStream_empty_def noteAppended_def stream_out_def)

lemma rlp_of_int:
  "bytesRequired i < 2 ^ 64 \<Longrightarrow> rlp_of append_int i = Inr (enc_str (compact_be i 0))"
  by (simp add: rlp_of_def append_int_eq push_out_def RLPStream_empty_def noteAppended_def stream_out_def)

lemma rlp_read_str:
  "length (enc_str bs) < rlp_limit \<Longrightarrow> RLP_ctor (enc_str bs) s = Inr (RLP_init (enc_str bs))"
  using RLP_ctor_enc [of "RStr bs"] by simp

lemma bytesRequired_word:
  "8 * n = LENGTH('a) \<Longrightarrow> bytesRequired (unat (v :: 'a::len word)) \<le> n"
  using compact_count_le [of n v] by (simp add: compact_count_eq)

text \<open>
  C13: a byte string of any length below the reader's limit survives \<open>RLPStream::append\<close>, the
  strict \<open>RLP\<close> constructor and \<open>toBytes\<close>.
\<close>

theorem rlp_bytes_roundtrip:
  assumes "length bs < rlp_limit - 9"
  shows "bind_res (rlp_of (\<lambda>b. append_bytes b False) bs) (\<lambda>d.
           bind_res (RLP_ctor d VeryStrict) (\<lambda>r. toBytes (m_data r) ThrowOnFail)) = Inr bs"
proof -
  have lim: "length (enc_str bs) < rlp_limit" using assms by (rule enc_str_short) simp
  have lim': "length bs < rlp_limit" using assms by simp
  then have "length bs < 2 ^ 64" by (rule rlp_limit_less)
  then show ?thesis
    using enc_str_reads [OF lim', of "[]"] lim
    by (simp add: rlp_of_bytes rlp_read_str RLP_init_def toBytes_def)
qed

theorem rlp_bytes_roundtrip_witness:
  "bind_res (rlp_of (\<lambda>b. append_bytes b False) (replicate 70 3)) (\<lambda>d.
     bind_res (RLP_ctor d VeryStrict) (\<lambda>r. toBytes (m_data r) ThrowOnFail)) = Inr (replicate 70 3)"
  by (rule rlp_bytes_roundtrip) (simp add: rlp_limit_def size_max_def)

text \<open>
  Every \<open>u256\<close> survives \<open>append(u256)\<close>, the strict constructor and \<open>toInt<u256>\<close> in its
  default strict mode.
\<close>

theorem rlp_u256_roundtrip:
  "bind_res (rlp_of append_word (v :: u256)) (\<lambda>d.
     bind_res (RLP_ctor d VeryStrict) (\<lambda>r. toInt (m_data r) Strict)) = Inr v"
proof -
  define bs where "bs = compact_be (unat v) 0"
  have len: "length bs \<le> 32"
    using bytesRequired_word [of 32 v] by (simp add: bs_def)
  then have lim: "length (enc_str bs) < rlp_limit"
    by (rule enc_str_short [rotated]) (simp add: rlp_limit_def size_max_def)
  have "rlp_of append_word v = Inr (enc_str bs)"
    using rlp_of_int [of "unat v"] len by (simp add: bs_def rlp_of_def append_word_def)
  moreover have "toInt_payload 32 (enc_str bs) Strict = Inr (Some bs)"
    using len compact_be_canon [of "unat v"]
    by (intro toInt_payload_enc) (simp_all add: bs_def rlp_limit_def size_max_def)
  moreover have "fromBigEndian bs = v"
    by (simp add: bs_def fromBigEndian_word)
  ultimately show ?thesis
    using lim by (simp add: rlp_read_str RLP_init_def toInt_def)
qed

text \<open>
  C19: on a reader of an encoded list, any sequence of \<open>operator[]\<close> calls, in any order and with
  any indices, returns for every index the item at it, and the null item past the end: the
  list-indexing cache that the calls share is not observable.
\<close>

theorem index_sequence:
  assumes "length (rlp_enc (RList ts)) < rlp_limit"
  shows "index_seq is (RLP_init (rlp_enc (RList ts)))
       = map (\<lambda>i. Inr (RLP_init (if i < length ts then rlp_enc (ts ! i) else []))) is"
  using index_seq_cache [OF assms, of "RLP_init (rlp_enc (RList ts))"]
  by (simp add: cache_ok_def item_at_def)

theorem index_sequence_witness:
  "index_seq [2, 0, 5, 1] (RLP_init (rlp_enc (RList [RStr [1], RStr [2, 3], RList []])))
   = [Inr (RLP_init [0xc0]), Inr (RLP_init [1]), Inr (RLP_init []), Inr (RLP_init [0x82, 2, 3])]"
proof -
  let ?ts = "[RStr [1], RStr [2, 3], RList []]"
  have "length (rlp_enc (RList ?ts)) < rlp_limit"
    by (simp add: rlp_enc.simps(2) enc_list_def enc_str_def rlp_header_def rlp_limit_def size_max_def)
  from index_sequence [OF this, of "[2, 0, 5, 1]"] show ?thesis
    by (simp add: rlp_enc.simps(2) enc_list_def enc_str_def rlp_header_def)
qed

text \<open>
  \<open>itemCount\<close> and \<open>toVector\<close> see all the items of an encoded list, in order; the loop over
  the iterator ends after as many rounds as there are items.
\<close>

theorem toVector_encoded:
  assumes lim: "length (rlp_enc (RList ts)) < rlp_limit"
    and conv: "\<And>t. t \<in> set ts \<Longrightarrow> f (rlp_enc t) flags = Inr (g t)"
    and fuel: "length ts \<le> fuel"
  shows "itemCount (rlp_enc (RList ts)) = Inr (length ts)
       \<and> toVector fuel f (rlp_enc (RList ts)) flags = Some (Inr (map g ts))"
proof -
  note reads = enc_list_reads [OF lim, of "[]", simplified]
  have count: "itemCount (rlp_enc (RList ts)) = Inr (length ts)"
    using reads items_loop_encs [OF encs_less [OF lim], of 0] by (simp add: itemCount_def items_def)
  moreover have "iter_loop fuel (\<lambda>x. f x flags) (rlp_enc (RList ts)) (it_at ts 0) [] = Some (Inr (map g ts))"
    using iter_loop_encs [OF lim, of "\<lambda>x. f x flags" g 0 fuel "[]"] conv fuel by simp
  ultimately show ?thesis
    using reads it_begin_at [OF lim, of "[]"] by (simp add: toVector_def)
qed

theorem toVector_encoded_witness:
  "itemCount (rlp_enc (RList [RStr [1], RStr [2, 3]])) = Inr 2
   \<and> toVector 2 toBytes (rlp_enc (RList [RStr [1], RStr [2, 3]])) Strict = Some (Inr [[1], [2, 3]])"
proof -
  let ?ts = "[RStr [1], RStr [2, 3]]"
  have "length (rlp_enc (RList ?ts)) < rlp_limit"
    by (simp add: rlp_enc.simps(2) enc_list_def enc_str_def rlp_header_def rlp_limit_def size_max_def)
  moreover have "toBytes (rlp_enc (RStr [1])) Strict = Inr [1]"
    "toBytes (rlp_enc (RStr [2, 3])) Strict = Inr [2, 3]"
    by code_simp+
  then have "toBytes (rlp_enc t) Strict = Inr (case t of RStr bs \<Rightarrow> bs | RList _ \<Rightarrow> [])"
    if "t \<in> set ?ts" for t
    using that by auto
  ultimately show ?thesis
    using toVector_encoded [of ?ts toBytes Strict "\<lambda>t. case t of RStr bs \<Rightarrow> bs | RList _ \<Rightarrow> []" 2]
    by simp
qed

text \<open>
  Over a list followed by further bytes, which the constructor accepts without
  \<open>FailIfTooBig\<close>, the loop over \<open>begin()\<close> and \<open>end()\<close> never ends: the end pointer is the end of
  the data and not the end of the list, and no number of rounds reaches it.
\<close>

theorem iterate_trailing_bytes_diverges:
  assumes "length (rlp_enc (RList ts)) < rlp_limit" and "extra \<noteq> []"
  shows "\<exists>it. iter_begin (rlp_enc (RList ts) @ extra) = Inr it
       \<and> (\<forall>fuel. iter_loop fuel Inr (rlp_enc (RList ts) @ extra) it [] = None)"
  using it_begin_at [OF assms(1), of extra] iter_loop_trailing [OF assms, of _ id 0 "[]"] by simp

theorem iterate_trailing_bytes_diverges_witness:
  "\<exists>it. iter_begin ([0xc1, 5] @ [0]) = Inr it
     \<and> (\<forall>fuel. iter_loop fuel Inr ([0xc1, 5] @ [0]) it [] = None)"
proof -
  have e: "rlp_enc (RList [RStr [5]]) = [0xc1, 5]"
    by (simp add: rlp_enc.simps(2) enc_list_def enc_str_def rlp_header_def)
  have "length (rlp_enc (RList [RStr [5]])) < rlp_limit"
    by (simp add: e rlp_limit_def size_max_def)
  from iterate_trailing_bytes_diverges [OF this, of "[0]"] show ?thesis
    by (simp add: e)
qed

section \<open>Canonicity\<close>

lemma RLP_ctor_VeryStrict:
  "RLP_ctor d VeryStrict = Inr r \<longleftrightarrow> actualSize d = Inr (length d) \<and> r = RLP_init d"
  by (auto simp: RLP_ctor_def flag_defs bind_res_eq_Inr split: if_splits)

text \<open>The long form of a header, read back from its bytes.\<close>

lemma long_header_inv:
  assumes "length d > ls" "0 < ls" "ls \<le> 8" "d ! 1 \<noteq> 0" "n = unat (read_length d ls)"
  shows "n < 2 ^ 64" "bytesRequired n = ls" "tl d = compact_be n 0 @ drop (Suc ls) d"
proof -
  define lb where "lb = take ls (tl d)"
  have len: "length lb = ls" using assms by (simp add: lb_def)
  have "hd lb = d ! 1"
    using assms by (cases d; cases "tl d") (auto simp: lb_def)
  then have lb: "lb \<noteq> []" "hd lb \<noteq> 0" using assms len by auto
  have "(256 :: nat) ^ ls \<le> 256 ^ 8" using assms(3) by (intro power_increasing) simp_all
  then have small: "be_nat lb < 2 ^ 64" using be_nat_less [of lb] len by simp
  have n: "n = be_nat lb"
    using assms small by (simp add: read_length_eq fromBigEndian_nat lb_def)
  show "n < 2 ^ 64" using small n by simp
  show "bytesRequired n = ls" using bytesRequired_no_lead [OF lb] len n by simp
  have "tl d = lb @ drop ls (tl d)" by (simp add: lb_def)
  moreover have "compact_be n 0 = lb" using compact_be_be_nat [of lb] lb n by simp
  ultimately show "tl d = compact_be n 0 @ drop (Suc ls) d" by (simp add: drop_Suc)
qed

lemma word_of_unat_eq: "unat (w :: byte) = n \<Longrightarrow> w = of_nat n"
  by auto

lemma check_length_Inr:
  "check_length lim ret = Inr l \<longleftrightarrow> l = ret \<and> lim \<le> ret \<and> ret < rlp_limit"
  by (auto simp: check_length_def rlp_limit_def)

lemma canonical_long:
  assumes d: "d \<noteq> []" and n: "unat (d ! 0) = base + 55 + ls" "0 < ls" "ls \<le> 8"
    and "length d > ls" "d ! 1 \<noteq> 0" "l = unat (read_length d ls)" "56 \<le> l"
    and size: "length d = 1 + ls + l"
  shows "d = rlp_header base l @ drop (Suc ls) d \<and> length (drop (Suc ls) d) = l"
proof -
  note inv = long_header_inv [OF assms(5,3,4,6,7)]
  have "hd d = of_nat (base + 55 + ls)"
    using n(1) d by (intro word_of_unat_eq) (simp add: hd_conv_nth)
  then have "d = of_nat (base + 55 + ls) # compact_be l 0 @ drop (Suc ls) d"
    using inv(3) d by (metis list.collapse)
  then show ?thesis
    using inv(2) assms(8) size by (simp add: rlp_header_def)
qed

lemma canonical_short:
  assumes d: "d \<noteq> []" and n: "unat (d ! 0) = base + l" "l < 56" and size: "length d = 1 + l"
  shows "d = rlp_header base l @ tl d \<and> length (tl d) = l"
proof -
  have "hd d = of_nat (base + l)"
    using n(1) d by (intro word_of_unat_eq) (simp add: hd_conv_nth)
  then show ?thesis
    using n size d by (simp add: rlp_header_def) (metis list.collapse)
qed

lemma actualSize_split:
  "actualSize d = Inr n \<Longrightarrow> d \<noteq> [] \<Longrightarrow> \<not> isSingleByte d \<Longrightarrow>
   \<exists>l. length_rlp d = Inr l \<and> n = payloadOffset d + l"
  by (auto simp: actualSize_def isNull_def isData_def isList_def bind_res_eq_Inr split: if_splits)

lemmas rlp_read_defs = actualSize_def length_rlp_def requireGood_def isNull_def isSingleByte_def
  isData_def isList_def payloadOffset_def lengthSize_def rlp_consts

lemma canonical_list_parts:
  assumes list: "isList d" and size: "actualSize d = Inr (length d)"
  shows "\<exists>pl. d = enc_list pl \<and> length pl < rlp_limit"
proof -
  have d: "d \<noteq> []" and n: "0xc0 \<le> unat (d ! 0)" and ns: "\<not> isSingleByte d" "\<not> isData d"
    using list by (auto simp: isList_def isNull_def isSingleByte_def isData_def rlp_consts)
  obtain l where l: "length_rlp d = Inr l" and off: "length d = payloadOffset d + l"
    using size list ns d actualSize_split [of d "length d"] by auto
  have good: "requireGood d = Inr ()"
    using n d by (simp add: requireGood_def isNull_def rlp_consts)
  show ?thesis
  proof (cases "unat (d ! 0) \<le> 0xf7")
    case True
    then have "l = unat (d ! 0) - 0xc0" "payloadOffset d = 1"
      using l good n d ns list
      by (auto simp: length_rlp_def isNull_def Let_def rlp_consts payloadOffset_def lengthSize_def)
    with True n off canonical_short [OF d, of "0xc0" l] show ?thesis
      by (intro exI [of _ "tl d"]) (simp add: enc_list_def rlp_limit_def size_max_def)
  next
    case False
    define ls where "ls = unat (d ! 0) - 0xf7"
    have ls: "unat (d ! 0) = 0xc0 + 55 + ls" "0 < ls" "ls \<le> 8"
      using False unat_byte_less [of "d ! 0"] unfolding ls_def by linarith+
    then have "payloadOffset d = 1 + ls"
      using list ns by (simp add: payloadOffset_def lengthSize_def rlp_consts)
    moreover have "length d > ls" "d ! 1 \<noteq> 0" "l = unat (read_length d ls)" "56 \<le> l" "l < rlp_limit"
      using l good d ls
      by (auto simp: length_rlp_def isNull_def Let_def rlp_consts check_length_Inr split: if_splits)
    ultimately show ?thesis
      using canonical_long [OF d ls] off by (metis enc_list_def)
  qed
qed

lemma canonical_data_parts:
  assumes data: "isData d" and size: "actualSize d = Inr (length d)"
  shows "\<exists>bs. d = enc_str bs \<and> length bs < rlp_limit"
proof (cases "isSingleByte d")
  case True
  then have "length d = 1" "unat (hd d) < 0x80"
    using size by (auto simp: actualSize_def isSingleByte_def isNull_def rlp_consts hd_conv_nth)
  then show ?thesis
    by (intro exI [of _ d]) (simp add: enc_str_def rlp_limit_def size_max_def)
next
  case False
  have d: "d \<noteq> []" and n: "0x80 \<le> unat (d ! 0)" "unat (d ! 0) < 0xc0" and nl: "\<not> isList d"
    using data False by (auto simp: isNull_def isSingleByte_def isData_def isList_def rlp_consts)
  obtain l where l: "length_rlp d = Inr l" and off: "length d = payloadOffset d + l"
    using size data False d actualSize_split [of d "length d"] by auto
  have good: "requireGood d = Inr ()"
    using l d by (cases "requireGood d") (simp_all add: length_rlp_def isNull_def)
  show ?thesis
  proof (cases "unat (d ! 0) \<le> 0xb7")
    case True
    then have n: "l = unat (d ! 0) - 0x80" and "payloadOffset d = 1"
      using l good n d nl data False
      by (auto simp: length_rlp_def isNull_def Let_def rlp_consts payloadOffset_def lengthSize_def)
    moreover have "unat (d ! 0) = 0x80 + l" "l < 56" using True n \<open>0x80 \<le> unat (d ! 0)\<close> by simp_all
    ultimately have can: "d = rlp_header 0x80 l @ tl d" "length (tl d) = l"
      using canonical_short [OF d, of "0x80" l] off by auto
    have "l = 1 \<Longrightarrow> \<not> unat (hd (tl d)) < 0x80"
      using good d \<open>unat (d ! 0) = 0x80 + l\<close> can(2)
      by (cases d; cases "tl d") (auto simp: requireGood_def isNull_def rlp_consts split: if_splits)
    with can \<open>l < 56\<close> show ?thesis
      by (intro exI [of _ "tl d"]) (auto simp: enc_str_def rlp_limit_def size_max_def)
  next
    case False2: False
    define ls where "ls = unat (d ! 0) - 0xb7"
    have ls: "unat (d ! 0) = 0x80 + 55 + ls" "0 < ls" "ls \<le> 8"
      using False2 n by (simp_all add: ls_def)
    then have "payloadOffset d = 1 + ls"
      using data False by (simp add: payloadOffset_def lengthSize_def rlp_consts)
    moreover have "length d > ls" "d ! 1 \<noteq> 0" "l = unat (read_length d ls)" "56 \<le> l" "l < rlp_limit"
      using l good d ls
      by (auto simp: length_rlp_def isNull_def Let_def rlp_consts check_length_Inr split: if_splits)
    ultimately have "d = rlp_header 0x80 l @ drop (Suc ls) d" "length (drop (Suc ls) d) = l" "56 \<le> l" "l < rlp_limit"
      using canonical_long [OF d ls] off by auto
    then show ?thesis
      by (intro exI [of _ "drop (Suc ls) d"]) (auto simp: enc_str_def)
  qed
qed

text \<open>
  C20: the reader accepts canonical data only.  Whenever the constructor in its default mode takes
  bytes that hold a string, \<open>toBytes\<close> returns that string and the bytes are exactly its
  specified encoding: no second encoding of a string is ever accepted.
\<close>

theorem strict_data_is_canonical:
  assumes "RLP_ctor d VeryStrict = Inr r" and "isData d"
  shows "\<exists>bs. toBytes d ThrowOnFail = Inr bs \<and> d = enc_str bs"
proof -
  obtain bs where bs: "d = enc_str bs" "length bs < rlp_limit"
    using canonical_data_parts [OF assms(2)] assms(1) by (auto simp: RLP_ctor_VeryStrict)
  then show ?thesis
    using enc_str_reads [OF bs(2), of "[]"] by (simp add: toBytes_def)
qed

theorem strict_data_is_canonical_witness:
  "\<exists>bs. toBytes [0x82, 1, 2] ThrowOnFail = Inr bs \<and> [0x82, 1, 2] = enc_str bs"
proof (rule strict_data_is_canonical)
  show "RLP_ctor [0x82, 1, 2] VeryStrict = Inr (RLP_init [0x82, 1, 2])"
    by (simp add: RLP_ctor_VeryStrict rlp_read_defs)
  show "isData [0x82, 1, 2]" by (simp add: rlp_read_defs)
qed

text \<open>
  C21: likewise for lists: bytes that the constructor takes in its default mode as a list are the
  list header of the specification for their payload, followed by that payload.
\<close>

theorem strict_list_is_canonical:
  assumes "RLP_ctor d VeryStrict = Inr r" and "isList d"
  shows "\<exists>pl. payload d = Inr pl \<and> d = enc_list pl"
proof -
  obtain pl where pl: "d = enc_list pl" "length pl < rlp_limit"
    using canonical_list_parts [OF assms(2)] assms(1) by (auto simp: RLP_ctor_VeryStrict)
  then have "payload d = Inr pl"
    using read_header_list [OF pl(2), of pl]
    by (intro payload_mid [of _ _ "rlp_header 0xc0 (length pl)" "[]"]) (simp_all add: enc_list_def)
  with pl show ?thesis by blast
qed

theorem strict_list_is_canonical_witness:
  "\<exists>pl. payload [0xc2, 1, 2] = Inr pl \<and> [0xc2, 1, 2] = enc_list pl"
proof (rule strict_list_is_canonical)
  show "RLP_ctor [0xc2, 1, 2] VeryStrict = Inr (RLP_init [0xc2, 1, 2])"
    by (simp add: RLP_ctor_VeryStrict rlp_read_defs)
  show "isList [0xc2, 1, 2]" by (simp add: rlp_read_defs)
qed

end
