(* ===== verification/Fixed_Hash.thy ===== *)
theory Fixed_Hash
  imports Common_Data
begin

text \<open>
  \<^verbatim>\<open>libdevcore/FixedHash.h\<close> and \<^verbatim>\<open>FixedHash.cpp\<close>.  A \<open>FixedHash<N>\<close> is the list of its
  \<open>N\<close> bytes; the template argument is an argument of the constructors and the length of the
  list elsewhere.  The corresponding arithmetic type is a word.
\<close>

section \<open>Construction\<close>

type_synonym FixedHash = bytes

datatype ConstructFromHashType = AlignLeft | AlignRight | FailIfDifferent

datatype ConstructFromStringType = FromHex | FromBinary

definition hash_zero :: "nat \<Rightarrow> FixedHash" where
  "hash_zero N = replicate N 0"

text \<open>The copying loop that three constructors share: byte by byte from one end.\<close>

definition hash_copy :: "nat \<Rightarrow> bytes \<Rightarrow> ConstructFromHashType \<Rightarrow> nat \<Rightarrow> FixedHash \<Rightarrow> FixedHash" where
  "hash_copy N b t c h =
     fold (\<lambda>i h. h[(if t = AlignRight then N - 1 - i else i) :=
                     b ! (if t = AlignRight then length b - 1 - i else i)]) [0..<c] h"

definition hash_of_hash :: "nat \<Rightarrow> FixedHash \<Rightarrow> ConstructFromHashType \<Rightarrow> FixedHash" where
  "hash_of_hash N h t = hash_copy N h t (min (length h) N) (hash_zero N)"

definition hash_of_bytes :: "nat \<Rightarrow> bytes \<Rightarrow> ConstructFromHashType \<Rightarrow> FixedHash" where
  "hash_of_bytes N b t =
     (if length b = N then take (min (length b) N) b
      else if t \<noteq> FailIfDifferent then hash_copy N b t (min (length b) N) (hash_zero N)
      else hash_zero N)"

definition hash_of_arith :: "nat \<Rightarrow> 'a::len word \<Rightarrow> FixedHash" where
  "hash_of_arith N v = toBigEndian v (hash_zero N)"

definition hash_of_unsigned :: "nat \<Rightarrow> u32 \<Rightarrow> FixedHash" where
  "hash_of_unsigned N u = toBigEndian u (hash_zero N)"

definition hash_of_string ::
  "nat \<Rightarrow> string \<Rightarrow> ConstructFromStringType \<Rightarrow> ConstructFromHashType \<Rightarrow> hex_error + FixedHash" where
  "hash_of_string N s t ht =
     bind_res (if t = FromHex then fromHex s Throw else Inr (asBytes s))
       (\<lambda>b. Inr (hash_of_bytes N b ht))"

definition hash_to_arith :: "FixedHash \<Rightarrow> 'a::len word" where
  "hash_to_arith h = fromBigEndian h"

section \<open>Comparison\<close>

definition hash_bool :: "FixedHash \<Rightarrow> bool" where
  "hash_bool h = list_ex (\<lambda>b. b \<noteq> 0) h"

definition hash_eq :: "FixedHash \<Rightarrow> FixedHash \<Rightarrow> bool" where
  "hash_eq a b = (a = b)"

fun hash_less :: "FixedHash \<Rightarrow> FixedHash \<Rightarrow> bool" where
  "hash_less (x # xs) (y # ys) =
     (if x < y then True else if x > y then False else hash_less xs ys)"
| "hash_less _ _ = False"

definition hash_ge :: "FixedHash \<Rightarrow> FixedHash \<Rightarrow> bool" where
  "hash_ge a b = (\<not> hash_less a b)"

definition hash_le :: "FixedHash \<Rightarrow> FixedHash \<Rightarrow> bool" where
  "hash_le a b = (hash_eq a b \<or> hash_less a b)"

definition hash_gt :: "FixedHash \<Rightarrow> FixedHash \<Rightarrow> bool" where
  "hash_gt a b = (\<not> hash_le a b)"

text \<open>The specialised \<open>operator==\<close> of \<open>h256\<close>: four loads of 64 bits, little-endian.\<close>

definition load64 :: "bytes \<Rightarrow> nat \<Rightarrow> u64" where
  "load64 d k = fromBigEndian (rev (take 8 (drop (8 * k) d)))"

definition h256_fast_eq :: "FixedHash \<Rightarrow> FixedHash \<Rightarrow> bool" where
  "h256_fast_eq a b =
     (load64 a 0 = load64 b 0 \<and> load64 a 1 = load64 b 1 \<and>
      load64 a 2 = load64 b 2 \<and> load64 a 3 = load64 b 3)"

section \<open>Bitwise operations\<close>

definition hash_xor :: "FixedHash \<Rightarrow> FixedHash \<Rightarrow> FixedHash" where
  "hash_xor a b = map2 (XOR) a b"

definition hash_or :: "FixedHash \<Rightarrow> FixedHash \<Rightarrow> FixedHash" where
  "hash_or a b = map2 (OR) a b"

definition hash_and :: "FixedHash \<Rightarrow> FixedHash \<Rightarrow> FixedHash" where
  "hash_and a b = map2 (AND) a b"

definition hash_not :: "FixedHash \<Rightarrow> FixedHash" where
  "hash_not a = map NOT a"

text \<open>\<open>for (unsigned i = size; i > 0 && !++m_data[--i]; ) {}\<close>\<close>

fun hash_inc_loop :: "nat \<Rightarrow> FixedHash \<Rightarrow> FixedHash" where
  "hash_inc_loop 0 h = h"
| "hash_inc_loop (Suc i) h =
     (let h' = h[i := h ! i + 1] in if h' ! i = 0 then hash_inc_loop i h' else h')"

definition hash_inc :: "FixedHash \<Rightarrow> FixedHash" where
  "hash_inc h = hash_inc_loop (length h) h"

definition hash_contains :: "FixedHash \<Rightarrow> FixedHash \<Rightarrow> bool" where
  "hash_contains h c = hash_eq (hash_and h c) c"

section \<open>Printing\<close>

definition ellipsis :: string where
  "ellipsis = [CHR 0xE2, CHR 0x80, CHR 0xA6]"

definition hash_abridged :: "FixedHash \<Rightarrow> string" where
  "hash_abridged h = toHex (if 4 \<le> length h then take 4 h else []) @ ellipsis"

definition hash_abridgedMiddle :: "FixedHash \<Rightarrow> string" where
  "hash_abridgedMiddle h =
     toHex (if 4 \<le> length h then take 4 h else []) @ ellipsis @
     toHex (if 4 \<le> length h then drop (length h - 4) h else [])"

definition hash_hex :: "FixedHash \<Rightarrow> string" where
  "hash_hex h = toHex h"

definition hash_read :: "nat \<Rightarrow> string \<Rightarrow> hex_error + FixedHash" where
  "hash_read N s = hash_of_string N s FromHex AlignRight"

definition toString_h256s :: "FixedHash list \<Rightarrow> string" where
  "toString_h256s bs = ''[ '' @ concat (map (\<lambda>i. hash_abridged i @ '', '') bs) @ '']''"

definition right160 :: "FixedHash \<Rightarrow> FixedHash" where
  "right160 t = take 20 (drop 12 t)"

section \<open>Bloom filters\<close>

fun StaticLog2 :: "nat \<Rightarrow> nat" where
  "StaticLog2 n = (if n \<le> 1 then 0 else 1 + StaticLog2 (n div 2))"

declare StaticLog2.simps [simp del]

definition bloom_index :: "bytes \<Rightarrow> nat \<Rightarrow> nat" where
  "bloom_index p M =
     unat (foldl (\<lambda>index b. push_bit 8 index OR ucast b) 0 p AND (of_nat (M * 8 - 1) :: u32))"

fun bloom_loop :: "nat \<Rightarrow> nat \<Rightarrow> nat \<Rightarrow> bytes \<Rightarrow> FixedHash \<Rightarrow> FixedHash" where
  "bloom_loop 0 nb M p ret = ret"
| "bloom_loop (Suc P) nb M p ret =
     (let index = bloom_index (take nb p) M; k = M - 1 - index div 8
      in bloom_loop P nb M (drop nb p) (ret[k := ret ! k OR push_bit (index mod 8) 1]))"

definition bloomPart :: "nat \<Rightarrow> nat \<Rightarrow> FixedHash \<Rightarrow> FixedHash" where
  "bloomPart P M h = bloom_loop P ((StaticLog2 (M * 8) + 7) div 8) M h (hash_zero M)"

definition shiftBloom :: "nat \<Rightarrow> FixedHash \<Rightarrow> FixedHash \<Rightarrow> FixedHash" where
  "shiftBloom P bl h = hash_or bl (bloomPart P (length bl) h)"

definition containsBloom :: "nat \<Rightarrow> FixedHash \<Rightarrow> FixedHash \<Rightarrow> bool" where
  "containsBloom P bl h = hash_contains bl (bloomPart P (length bl) h)"

text \<open>\<open>for (;; ++ret, d <<= 1) if (d & 0x80) return ret\<close>, with the eight bits as the bound.\<close>

fun byte_first_bit :: "nat \<Rightarrow> byte \<Rightarrow> nat \<Rightarrow> nat option" where
  "byte_first_bit 0 d ret = None"
| "byte_first_bit (Suc k) d ret =
     (if d AND 0x80 \<noteq> 0 then Some ret else byte_first_bit k (push_bit 1 d) (ret + 1))"

fun firstBitSet_loop :: "FixedHash \<Rightarrow> nat \<Rightarrow> nat option" where
  "firstBitSet_loop [] ret = Some ret"
| "firstBitSet_loop (d # ds) ret =
     (if d \<noteq> 0 then byte_first_bit 8 d ret else firstBitSet_loop ds (ret + 8))"

definition firstBitSet :: "FixedHash \<Rightarrow> nat option" where
  "firstBitSet h = firstBitSet_loop h 0"

section \<open>SecureFixedHash\<close>

text \<open>
  The secure variant forwards to \<open>FixedHash\<close>; its assignment operators \<open>|=\<close> and \<open>&=\<close> both call
  \<open>operator^=\<close>.
\<close>

definition secure_xor_assign :: "FixedHash \<Rightarrow> FixedHash \<Rightarrow> FixedHash" where
  "secure_xor_assign a c = hash_xor a c"

definition secure_or_assign :: "FixedHash \<Rightarrow> FixedHash \<Rightarrow> FixedHash" where
  "secure_or_assign a c = hash_xor a c"

definition secure_and_assign :: "FixedHash \<Rightarrow> FixedHash \<Rightarrow> FixedHash" where
  "secure_and_assign a c = hash_xor a c"

definition secure_not :: "FixedHash \<Rightarrow> FixedHash" where
  "secure_not a = hash_not a"

definition secure_writable :: "FixedHash \<Rightarrow> FixedHash" where
  "secure_writable a = hash_zero (length a)"

section \<open>UUIDs\<close>

text \<open>The argument \<open>replace_all_copy\<close> stands for \<open>boost::replace_all_copy\<close>.\<close>

definition fromUUID :: "(string \<Rightarrow> string \<Rightarrow> string \<Rightarrow> string) \<Rightarrow> string \<Rightarrow> FixedHash" where
  "fromUUID replace_all_copy uuid =
     (case hash_of_string 16 (replace_all_copy uuid ''-'' []) FromHex FailIfDifferent of
        Inl _ \<Rightarrow> hash_zero 16
      | Inr h \<Rightarrow> h)"

definition insert_at :: "nat \<Rightarrow> char \<Rightarrow> string \<Rightarrow> string" where
  "insert_at i c s = take i s @ [c] @ drop i s"

definition toUUID :: "FixedHash \<Rightarrow> string" where
  "toUUID uuid = fold (\<lambda>i ret. insert_at i (CHR ''-'') ret) [20, 16, 12, 8] (toHex uuid)"

section \<open>Laws\<close>

lemma length_fold_update: "length (fold (\<lambda>i h. h[f i := g i]) is h) = length h"
  by (induction "is" arbitrary: h) simp_all

lemma length_hash_of_bytes [simp]: "length (hash_of_bytes N b t) = N"
  by (simp add: hash_of_bytes_def hash_copy_def length_fold_update hash_zero_def)

lemma length_hash_of_hash [simp]: "length (hash_of_hash N h t) = N"
  by (simp add: hash_of_hash_def hash_copy_def length_fold_update hash_zero_def)

lemma fold_update_left:
  "c \<le> length b \<Longrightarrow> c \<le> length h \<Longrightarrow>
   fold (\<lambda>i h. h[i := b ! i]) [0..<c] h = take c b @ drop c h"
proof (induction c)
  case (Suc c)
  then have "(take c b @ drop c h)[c := b ! c] = take (Suc c) b @ drop (Suc c) h"
    by (simp add: list_update_append take_Suc_conv_app_nth flip: Cons_nth_drop_Suc)
  with Suc show ?case by simp
qed simp

lemma hash_copy_left:
  "t \<noteq> AlignRight \<Longrightarrow> c \<le> length b \<Longrightarrow> c \<le> length h \<Longrightarrow> hash_copy N b t c h = take c b @ drop c h"
  using fold_update_left [of c b h] by (simp add: hash_copy_def)

lemma rev_update_right:
  "i < length h \<Longrightarrow> rev (h[length h - 1 - i := x]) = (rev h)[i := x]"
  by (simp add: rev_update)

lemma fold_update_right:
  assumes "c \<le> length b" "c \<le> length h"
  shows "rev (fold (\<lambda>i h'. h'[length h - 1 - i := b ! (length b - 1 - i)]) [0..<c] h)
       = fold (\<lambda>i h'. h'[i := rev b ! i]) [0..<c] (rev h)"
  using assms
proof (induction c)
  case (Suc c)
  define h' where "h' = fold (\<lambda>i h'. h'[length h - 1 - i := b ! (length b - 1 - i)]) [0..<c] h"
  have len: "length h' = length h" by (simp add: h'_def length_fold_update)
  have "rev (h'[length h - 1 - c := b ! (length b - 1 - c)]) = (rev h')[c := rev b ! c]"
    using rev_update_right [of c h' "b ! (length b - 1 - c)"] Suc.prems len by (simp add: rev_nth)
  then show ?case using Suc by (simp add: h'_def)
qed simp

lemma hash_copy_right:
  assumes "c \<le> length b" "c \<le> length h" "length h = N"
  shows "hash_copy N b AlignRight c h = take (N - c) h @ drop (length b - c) b"
proof -
  have "rev (hash_copy N b AlignRight c h) = take c (rev b) @ drop c (rev h)"
    using fold_update_right [OF assms(1,2)] fold_update_left [of c "rev b" "rev h"] assms
    by (simp add: hash_copy_def)
  then have "hash_copy N b AlignRight c h = rev (take c (rev b) @ drop c (rev h))"
    by (metis rev_rev_ident)
  then show ?thesis using assms by (simp add: take_rev drop_rev)
qed

text \<open>The order of hashes is the order of the numbers they stand for.\<close>

lemma hash_less_be_nat:
  "length a = length b \<Longrightarrow> hash_less a b \<longleftrightarrow> be_nat a < be_nat b"
proof (induction a b rule: hash_less.induct)
  case (1 x xs y ys)
  have bounds: "be_nat xs < 256 ^ length xs" "be_nat ys < 256 ^ length xs"
    using be_nat_less [of xs] be_nat_less [of ys] 1 by simp_all
  have lead: "unat u * 256 ^ length xs + be_nat us < unat v * 256 ^ length xs + be_nat vs"
    if "u < v" "be_nat us < 256 ^ length xs" for u v :: byte and us vs
  proof -
    have "Suc (unat u) * 256 ^ length xs \<le> unat v * 256 ^ length xs"
      using that(1) by (intro mult_le_mono1) (simp add: Suc_leI word_less_nat_alt)
    with that(2) show ?thesis by simp
  qed
  show ?case
  proof (cases x y rule: linorder_cases)
    case less
    then show ?thesis using lead [OF less bounds(1), of ys] 1 by (simp add: be_nat_Cons)
  next
    case equal
    then show ?thesis using 1 by (simp add: be_nat_Cons)
  next
    case greater
    then show ?thesis using lead [OF greater bounds(2), of xs] 1 by (simp add: be_nat_Cons)
  qed
qed simp_all

lemma hash_inc_loop_append:
  "i \<le> length h \<Longrightarrow> hash_inc_loop i (h @ ys) = hash_inc_loop i h @ ys"
  by (induction i arbitrary: h) (simp_all add: Let_def nth_append list_update_append)

lemma length_hash_inc_loop [simp]: "length (hash_inc_loop i h) = length h"
  by (induction i arbitrary: h) (simp_all add: Let_def)

lemma unat_byte_inc: "unat (b + 1) = (unat b + 1) mod 256" for b :: byte
  by (simp add: unat_word_ariths)

lemma be_nat_hash_inc_loop:
  "be_nat (hash_inc_loop (length h) h) = (be_nat h + 1) mod 256 ^ length h"
proof (induction h rule: rev_induct)
  case (snoc b h)
  have step: "hash_inc_loop (length (h @ [b])) (h @ [b])
      = (if b + 1 = 0 then hash_inc_loop (length h) h @ [0] else h @ [b + 1])"
    by (simp add: Let_def hash_inc_loop_append)
  show ?case
  proof (cases "b + 1 = 0")
    case True
    then have "unat b = 255" using unat_byte_inc [of b] unat_byte_less [of b]
      by (cases "unat b = 255") (auto simp del: unat_byte_less)
    then have "be_nat (h @ [b]) + 1 = (be_nat h + 1) * 256" by simp
    then have "(be_nat (h @ [b]) + 1) mod 256 ^ length (h @ [b]) = (be_nat h + 1) mod 256 ^ length h * 256"
      by (simp only: mult_mod_left length_append_singleton power_Suc2)
    then show ?thesis using True step snoc by simp
  next
    case False
    then have "unat b \<noteq> 255" using unat_byte_inc [of b] unat_eq_0 [of "b + 1"] by auto
    then have "unat (b + 1) = unat b + 1" using unat_byte_inc [of b] unat_byte_less [of b]
      by (auto simp del: unat_byte_less)
    then have "be_nat (h @ [b + 1]) = be_nat (h @ [b]) + 1" by simp
    moreover have "be_nat (h @ [b + 1]) < 256 ^ length (h @ [b])"
      using be_nat_less [of "h @ [b + 1]"] by simp
    ultimately show ?thesis using False step by simp
  qed
qed simp

section \<open>Bloom laws\<close>

lemma byte_or_and: "(x OR y) AND y = y" for x y :: byte
  by (rule bit_word_eqI) (auto simp: bit_simps)

lemma byte_or_and_mono: "x AND z = z \<Longrightarrow> (x OR y) AND z = z" for x y z :: byte
  by (metis (no_types, lifting) bit.conj_disj_distrib2 and.commute or.commute byte_or_and)

lemma hash_contains_or: "length a = length b \<Longrightarrow> hash_contains (hash_or a b) b"
proof -
  assume "length a = length b"
  then have "map2 (AND) (map2 (OR) a b) b = b"
    by (induction a b rule: list_induct2) (simp_all add: byte_or_and)
  then show ?thesis by (simp add: hash_contains_def hash_eq_def hash_and_def hash_or_def)
qed

lemma hash_contains_or_mono:
  "length a = length b \<Longrightarrow> length a = length c \<Longrightarrow> hash_contains a c \<Longrightarrow> hash_contains (hash_or a b) c"
proof -
  assume len: "length a = length b" "length a = length c" and "hash_contains a c"
  then have "map2 (AND) a c = c" by (simp add: hash_contains_def hash_eq_def hash_and_def)
  with len have "map2 (AND) (map2 (OR) a b) c = c"
  proof (induction a b arbitrary: c rule: list_induct2)
    case (Cons x xs y ys)
    then obtain z zs where c: "c = z # zs" by (cases c) auto
    then show ?case using Cons c byte_or_and_mono [of x z y] by auto
  qed simp
  then show ?thesis by (simp add: hash_contains_def hash_eq_def hash_and_def hash_or_def)
qed

lemma length_hash_or [simp]: "length a = length b \<Longrightarrow> length (hash_or a b) = length a"
  by (simp add: hash_or_def)

lemma length_bloom_loop [simp]: "length (bloom_loop P nb M p ret) = length ret"
  by (induction P arbitrary: p ret) (simp_all add: Let_def)

lemma length_bloomPart [simp]: "length (bloomPart P M h) = M"
  by (simp add: bloomPart_def hash_zero_def)

lemma containsBloom_shift: "containsBloom P (shiftBloom P bl h) h"
  by (simp add: containsBloom_def shiftBloom_def hash_contains_or)

lemma containsBloom_mono: "containsBloom P bl h \<Longrightarrow> containsBloom P (shiftBloom P bl h') h"
  by (simp add: containsBloom_def shiftBloom_def hash_contains_or_mono)

lemma length_shiftBloom [simp]: "length (shiftBloom P bl h) = length bl"
  by (simp add: shiftBloom_def)

section \<open>Equality of h256\<close>

lemma fromBigEndian_inj_u64:
  "length a = length b \<Longrightarrow> length b \<le> 8 \<Longrightarrow> fromBigEndian a = (fromBigEndian b :: u64) \<Longrightarrow> a = b"
proof (rule be_nat_inj)
  assume len: "length a = length b" "length b \<le> 8" and eq: "fromBigEndian a = (fromBigEndian b :: u64)"
  have small: "be_nat c < 2 ^ 64" if "length c \<le> 8" for c
  proof -
    have "(256 :: nat) ^ length c \<le> 256 ^ 8" using that by (intro power_increasing) simp_all
    then show ?thesis using be_nat_less [of c] by simp
  qed
  have "unat (fromBigEndian a :: u64) = be_nat a" "unat (fromBigEndian b :: u64) = be_nat b"
    using small [of a] small [of b] len by (simp_all add: fromBigEndian_nat)
  then show "be_nat a = be_nat b" using eq by simp
qed simp

lemma load64_eq_iff:
  "length a = length b \<Longrightarrow> load64 a k = load64 b k \<longleftrightarrow> take 8 (drop (8 * k) a) = take 8 (drop (8 * k) b)"
  using fromBigEndian_inj_u64 [of "rev (take 8 (drop (8 * k) a))" "rev (take 8 (drop (8 * k) b))"]
  by (auto simp: load64_def)

lemma take_drop_chunk: "take (m + n) xs = take (m + n) ys \<longleftrightarrow> take m xs = take m ys \<and> take n (drop m xs) = take n (drop m ys)"
  if "length xs = length ys"
  using that by (simp add: take_add)

lemma h256_fast_eq_iff:
  assumes "length a = 32" "length b = 32"
  shows "h256_fast_eq a b \<longleftrightarrow> hash_eq a b"
proof -
  have "h256_fast_eq a b \<longleftrightarrow> take (8 + (8 + (8 + 8))) a = take (8 + (8 + (8 + 8))) b"
    using assms unfolding h256_fast_eq_def
    by (subst take_drop_chunk | simp add: load64_eq_iff del: take_append)+
  then show ?thesis using assms by (simp add: hash_eq_def)
qed

section \<open>Conversions\<close>

lemma hash_zero_length [simp]: "length (hash_zero N) = N"
  by (simp add: hash_zero_def)

lemma hash_arith_roundtrip:
  "LENGTH('a) = 8 * N \<Longrightarrow> hash_to_arith (hash_of_arith N v) = (v :: 'a::len word)"
  by (simp add: hash_to_arith_def hash_of_arith_def fromBigEndian_toBigEndian)

lemma arith_hash_roundtrip:
  assumes "LENGTH('a) = 8 * length h"
  shows "hash_of_arith (length h) (hash_to_arith h :: 'a::len word) = h"
proof -
  have "be_nat h < 2 ^ LENGTH('a)"
    using be_nat_less [of h] assms by (simp add: power_mult)
  then show ?thesis
    by (simp add: hash_to_arith_def hash_of_arith_def toBigEndian_eq fromBigEndian_nat)
qed

lemma hash_hex_roundtrip:
  "hash_of_string (length h) (hash_hex h) FromHex ht = Inr h"
  by (simp add: hash_of_string_def hash_hex_def toHex_eq fromHex_hex_pairs hash_of_bytes_def)

lemma hash_of_hash_left: "hash_of_hash N h AlignLeft = take N h @ replicate (N - length h) 0"
  by (simp add: hash_of_hash_def hash_copy_left hash_zero_def min_def)

lemma hash_of_hash_right:
  "hash_of_hash N h AlignRight = replicate (N - length h) 0 @ drop (length h - N) h"
  by (simp add: hash_of_hash_def hash_copy_right hash_zero_def min_def)

lemma be_nat_hash_of_hash_right:
  "be_nat (hash_of_hash N h AlignRight) = be_nat h mod 256 ^ N"
proof (cases "N \<le> length h")
  case True
  have "be_nat h = be_nat (take (length h - N) h @ drop (length h - N) h)" by simp
  also have "\<dots> = be_nat (take (length h - N) h) * 256 ^ N + be_nat (drop (length h - N) h)"
    using True unfolding be_nat_append by simp
  finally show ?thesis
    using True be_nat_less [of "drop (length h - N) h"] by (simp add: hash_of_hash_right)
next
  case False
  then have "(256 :: nat) ^ length h \<le> 256 ^ N" by (intro power_increasing) simp_all
  then have "be_nat h < 256 ^ N" using be_nat_less [of h] by linarith
  with False show ?thesis by (simp add: hash_of_hash_right)
qed

lemma hexdigits_no_dash: "n < 16 \<Longrightarrow> hexdigits ! n \<noteq> CHR ''-''"
proof -
  have "\<forall>n < 16. hexdigits ! n \<noteq> CHR ''-''" by code_simp
  then show "n < 16 \<Longrightarrow> hexdigits ! n \<noteq> CHR ''-''" by blast
qed

lemma hex_pairs_no_dash: "CHR ''-'' \<notin> set (hex_pairs bs)"
proof -
  have "hi_digit b \<noteq> CHR ''-''" "lo_digit b \<noteq> CHR ''-''" for b
    by (simp_all add: hi_digit_def lo_digit_def hexdigits_no_dash)
  then show ?thesis by (induction bs) (auto simp: eq_commute)
qed

lemma filter_insert_at: "filter (\<lambda>c. c \<noteq> x) (insert_at i x s) = filter (\<lambda>c. c \<noteq> x) s"
  by (simp add: insert_at_def) (metis append_take_drop_id filter_append)

lemma toUUID_undashed: "filter (\<lambda>c. c \<noteq> CHR ''-'') (toUUID h) = toHex h"
  using hex_pairs_no_dash [of h]
  by (simp add: toUUID_def filter_insert_at toHex_eq filter_id_conv) (metis filter_True)

end
