(* ===== verification/Addr_Convert.thy ===== *)
theory Addr_Convert
  imports Common_Data
begin

text \<open>
  \<^verbatim>\<open>libcfxcore/types/cfxaddress/lib.cpp\<close>: regrouping bits between byte strings and base-32
  symbols, and the 40-bit polynomial checksum of CIP-37 addresses.  The accumulators keep the
  widths of the source, 16 bits in \<open>convert\<close> and 64 in \<open>polymod\<close>.
\<close>

section \<open>Definitions\<close>

text \<open>The inner loop; with \<open>outbits = 0\<close> it never ends (\<open>None\<close>).\<close>

function convert_while :: "nat \<Rightarrow> u16 \<Rightarrow> nat \<Rightarrow> bytes \<Rightarrow> (u16 \<times> nat \<times> bytes) option" where
  "convert_while outbits acc accBits ret =
     (if accBits \<ge> outbits then
        (if outbits = 0 then None
         else convert_while outbits (acc AND (push_bit (accBits - outbits) 1 - 1)) (accBits - outbits)
                (ret @ [ucast (drop_bit (accBits - outbits) acc)]))
      else Some (acc, accBits, ret))"
  by pat_completeness auto
termination
  by (relation "measure (\<lambda>(outbits, acc, accBits, ret). accBits)") auto

declare convert_while.simps [simp del]

fun convert_loop :: "nat \<Rightarrow> nat \<Rightarrow> bytes \<Rightarrow> u16 \<Rightarrow> nat \<Rightarrow> bytes \<Rightarrow> (u16 \<times> nat \<times> bytes) option" where
  "convert_loop inbits outbits [] acc accBits ret = Some (acc, accBits, ret)"
| "convert_loop inbits outbits (d # data) acc accBits ret =
     (case convert_while outbits (push_bit inbits acc OR ucast d) (accBits + inbits) ret of
        None \<Rightarrow> None
      | Some (acc', accBits', ret') \<Rightarrow> convert_loop inbits outbits data acc' accBits' ret')"

definition convert :: "bytes \<Rightarrow> nat \<Rightarrow> nat \<Rightarrow> bytes option" where
  "convert data inbits outbits =
     (if inbits > 8 \<or> outbits > 8 then Some []
      else (case convert_loop inbits outbits data 0 0 [] of
              None \<Rightarrow> None
            | Some (acc, accBits, ret) \<Rightarrow>
                Some (if accBits > 0 \<and> inbits > outbits
                      then ret @ [ucast (push_bit (outbits - accBits) acc)] else ret)))"

definition verifyConvert :: "bytes \<Rightarrow> nat \<Rightarrow> nat \<Rightarrow> bytes \<Rightarrow> bool option" where
  "verifyConvert input inbits outbits expectOutput =
     map_option (\<lambda>r. r = expectOutput) (convert input inbits outbits)"

definition polymod_step :: "u64 \<Rightarrow> byte \<Rightarrow> u64" where
  "polymod_step c d =
     (let c0 = (ucast (drop_bit 35 c) :: byte);
          c1 = push_bit 5 (c AND 0x07ffffffff) XOR ucast d;
          c2 = (if c0 AND 0x01 \<noteq> 0 then c1 XOR 0x98f2bc8e61 else c1);
          c3 = (if c0 AND 0x02 \<noteq> 0 then c2 XOR 0x79b76d99e2 else c2);
          c4 = (if c0 AND 0x04 \<noteq> 0 then c3 XOR 0xf33e5fb3c4 else c3);
          c5 = (if c0 AND 0x08 \<noteq> 0 then c4 XOR 0xae2eabe2a8 else c4);
          c6 = (if c0 AND 0x10 \<noteq> 0 then c5 XOR 0x1e4f43e470 else c5)
      in c6)"

definition polymod :: "bytes \<Rightarrow> u64" where
  "polymod v = foldl polymod_step 1 v XOR 1"

definition uint64ToBytes :: "u64 \<Rightarrow> bytes" where
  "uint64ToBytes num = fold (\<lambda>i r. r[7 - i := ucast (drop_bit (i * 8) num)]) [0..<8] (replicate 8 0)"

section \<open>Regrouping bits\<close>

text \<open>
  The loop invariant: the symbols written so far followed by the accumulator are the number that
  the symbols read so far stand for.
\<close>

definition conv_inv :: "nat \<Rightarrow> nat \<Rightarrow> bytes \<Rightarrow> u16 \<times> nat \<times> bytes \<Rightarrow> bool" where
  "conv_inv i j ds st =
     (case st of (acc, k, ret) \<Rightarrow>
        unat acc < 2 ^ k \<and> pos_val (2 ^ j) (map unat ret) * 2 ^ k + unat acc = pos_val (2 ^ i) (map unat ds) \<and>
        length ret * j + k = length ds * i \<and> (\<forall>r \<in> set ret. unat r < 2 ^ j))"

lemma unat_and_low: "unat (acc AND (2 ^ k - 1)) = unat acc mod 2 ^ k" for acc :: u16
  using unat_and_mask [of acc k] by (simp add: mask_eq_exp_minus_1)

lemma unat_ucast_byte: "unat (ucast w :: byte) = unat w mod 256" for w :: "'a::len word"
  by (simp add: unsigned_ucast_eq take_bit_eq_mod)

lemma conv_step:
  assumes "conv_inv i j ds (acc, k, ret)" "j \<le> k" "0 < j" "j \<le> 8" "k < 16"
  shows "conv_inv i j ds (acc AND (push_bit (k - j) 1 - 1), k - j, ret @ [ucast (drop_bit (k - j) acc)])"
proof -
  define m where "m = k - j"
  have k: "k = j + m" and m: "m < 16" using assms by (simp_all add: m_def)
  have acc: "unat acc < 2 ^ j * 2 ^ m"
    and val: "pos_val (2 ^ j) (map unat ret) * 2 ^ k + unat acc = pos_val (2 ^ i) (map unat ds)"
    using assms(1) by (simp_all add: conv_inv_def k power_add)
  have dlt: "unat acc div 2 ^ m < 2 ^ j" using acc by (simp add: less_mult_imp_div_less)
  have "(2 :: nat) ^ j \<le> 2 ^ 8" using assms(4) by (intro power_increasing) simp_all
  then have d: "unat (ucast (drop_bit m acc) :: byte) = unat acc div 2 ^ m"
    using dlt by (simp add: unat_ucast_byte unat_drop_bit)
  have "(pos_val (2 ^ j) (map unat ret) * 2 ^ j + unat acc div 2 ^ m) * 2 ^ m + unat acc mod 2 ^ m
      = pos_val (2 ^ j) (map unat ret) * 2 ^ k + (unat acc div 2 ^ m * 2 ^ m + unat acc mod 2 ^ m)"
    by (simp add: k power_add algebra_simps)
  also have "\<dots> = pos_val (2 ^ i) (map unat ds)" unfolding div_mult_mod_eq by (rule val)
  finally show ?thesis
    using assms(1) m d dlt
    by (simp add: conv_inv_def unat_and_low k flip: m_def)
qed

lemma conv_while:
  assumes "conv_inv i j ds (acc, k, ret)" "0 < j" "j \<le> 8" "k < 16"
  shows "\<exists>st. convert_while j acc k ret = Some st \<and> conv_inv i j ds st \<and> fst (snd st) < j"
  using assms
proof (induction k arbitrary: acc ret rule: less_induct)
  case (less k)
  show ?case
  proof (cases "j \<le> k")
    case True
    have "k - j < k" "k - j < 16" using True less.prems by simp_all
    from less.IH [OF this(1) conv_step [OF less.prems(1) True less.prems(2,3,4)] less.prems(2,3) this(2)]
    show ?thesis using True less.prems by (subst convert_while.simps) simp
  next
    case False
    then show ?thesis using less.prems by (subst convert_while.simps) simp
  qed
qed

lemma bit_imp_le_unat: "bit w n \<Longrightarrow> 2 ^ n \<le> unat w" for w :: "'a::len word"
proof -
  assume "bit w n"
  then have "bit (unat w) n" by (simp add: bit_simps)
  then have "\<not> unat w < 2 ^ n" by (metis bit_iff_odd div_less even_zero)
  then show ?thesis by simp
qed

lemma bit_ucast_small: "unat d < 2 ^ i \<Longrightarrow> bit (ucast d :: 'a::len word) n \<Longrightarrow> n < i" for d :: byte
proof -
  assume d: "unat d < 2 ^ i" and b: "bit (ucast d :: 'a word) n"
  then have "2 ^ n \<le> unat d" by (intro bit_imp_le_unat) (simp add: bit_simps)
  then have "(2 :: nat) ^ n < 2 ^ i" using d by linarith
  then show "n < i" by simp
qed

lemma shift_in:
  fixes acc :: u16 and d :: byte
  assumes "unat d < 2 ^ i" "unat acc * 2 ^ i + unat d < 2 ^ 16"
  shows "unat (push_bit i acc OR ucast d) = unat acc * 2 ^ i + unat d"
proof -
  have "push_bit i acc AND ucast d = 0"
  proof (rule bit_word_eqI)
    fix n assume "n < LENGTH(16)"
    show "bit (push_bit i acc AND ucast d) n = bit (0 :: u16) n"
      using bit_ucast_small [OF assms(1), of n] by (auto simp: bit_and_iff bit_push_bit_iff)
  qed
  then have "push_bit i acc OR ucast d = push_bit i acc + ucast d"
    by (simp add: disjunctive_add_eq_or)
  also have "\<dots> = word_of_nat (unat acc * 2 ^ i + unat d)"
    by (simp add: push_bit_eq_mult)
  finally show ?thesis using assms(2) by (simp only: unat_of_nat) simp
qed

lemma conv_read:
  assumes inv: "conv_inv i j ds (acc, k, ret)" and k: "k < j" and ij: "i \<le> 8" "j \<le> 8"
    and d: "unat d < 2 ^ i"
  shows "conv_inv i j (ds @ [d]) (push_bit i acc OR ucast d, k + i, ret)"
proof -
  have acc: "unat acc < 2 ^ k" using inv by (simp add: conv_inv_def)
  have "unat acc * 2 ^ i + unat d < (unat acc + 1) * 2 ^ i" using d by simp
  also have "\<dots> \<le> 2 ^ k * 2 ^ i" using acc by (intro mult_le_mono1) simp
  finally have lt: "unat acc * 2 ^ i + unat d < 2 ^ (k + i)" by (simp add: power_add)
  also have "(2 :: nat) ^ (k + i) \<le> 2 ^ 16" using k ij by (intro power_increasing) simp_all
  finally have "unat (push_bit i acc OR ucast d) = unat acc * 2 ^ i + unat d"
    by (rule shift_in [OF d])
  moreover have "pos_val (2 ^ j) (map unat ret) * 2 ^ (k + i) + (unat acc * 2 ^ i + unat d)
      = (pos_val (2 ^ j) (map unat ret) * 2 ^ k + unat acc) * 2 ^ i + unat d"
    by (simp add: power_add algebra_simps)
  ultimately show ?thesis
    using inv lt by (simp add: conv_inv_def)
qed

lemma conv_loop:
  assumes "conv_inv i j pre (acc, k, ret)" "k < j" "0 < j" "i \<le> 8" "j \<le> 8" "\<forall>d \<in> set ds. unat d < 2 ^ i"
  shows "\<exists>st. convert_loop i j ds acc k ret = Some st \<and> conv_inv i j (pre @ ds) st \<and> fst (snd st) < j"
  using assms(1,2,6)
proof (induction ds arbitrary: pre acc k ret)
  case Nil
  then show ?case by simp
next
  case (Cons d ds)
  have "conv_inv i j (pre @ [d]) (push_bit i acc OR ucast d, k + i, ret)"
    by (rule conv_read) (use Cons.prems assms in simp_all)
  then obtain acc' k' ret' where w: "convert_while j (push_bit i acc OR ucast d) (k + i) ret = Some (acc', k', ret')"
      "conv_inv i j (pre @ [d]) (acc', k', ret')" "k' < j"
    using conv_while [of i j "pre @ [d]" "push_bit i acc OR ucast d" "k + i" ret] Cons.prems assms
    by auto
  then show ?case
    using Cons.IH [OF w(2,3)] Cons.prems by simp
qed

lemma conv_start:
  assumes "0 < j" "i \<le> 8" "j \<le> 8" "\<forall>d \<in> set ds. unat d < 2 ^ i"
  shows "\<exists>acc k ret. convert_loop i j ds 0 0 [] = Some (acc, k, ret) \<and> conv_inv i j ds (acc, k, ret) \<and> k < j"
  using conv_loop [of i j "[]" 0 0 "[]" ds] assms by (auto simp: conv_inv_def)

text \<open>Regrouping to smaller symbols pads on the right with fewer bits than a symbol has.\<close>

lemma convert_down:
  assumes "0 < j" "j < i" "i \<le> 8" "\<forall>d \<in> set ds. unat d < 2 ^ i"
  shows "\<exists>out pad. convert ds i j = Some out \<and> pad < j \<and> length out * j = length ds * i + pad \<and>
    pos_val (2 ^ j) (map unat out) = pos_val (2 ^ i) (map unat ds) * 2 ^ pad \<and> (\<forall>r \<in> set out. unat r < 2 ^ j)"
proof -
  obtain acc k ret where loop: "convert_loop i j ds 0 0 [] = Some (acc, k, ret)"
    and inv: "conv_inv i j ds (acc, k, ret)" and k: "k < j"
    using conv_start [of j i ds] assms by auto
  show ?thesis
  proof (cases "k = 0")
    case True
    then show ?thesis
      using loop inv assms by (intro exI [of _ ret] exI [of _ 0]) (auto simp: convert_def conv_inv_def)
  next
    case False
    define pad where "pad = j - k"
    have j: "j = k + pad" and pad: "pad < j" using k False by (simp_all add: pad_def)
    have acc: "unat acc < 2 ^ k" using inv by (simp add: conv_inv_def)
    have lt: "unat acc * 2 ^ pad < 2 ^ j" using acc by (simp add: j power_add)
    have "(2 :: nat) ^ j \<le> 2 ^ 7" using assms by (intro power_increasing) simp_all
    then have small: "unat acc * 2 ^ pad < 256" using lt by simp
    have "unat (push_bit pad acc) = unat acc * 2 ^ pad"
    proof -
      have "push_bit pad acc = word_of_nat (unat acc * 2 ^ pad)" by (simp add: push_bit_eq_mult)
      then show ?thesis using small by (simp only: unat_of_nat) simp
    qed
    then have last: "unat (ucast (push_bit pad acc) :: byte) = unat acc * 2 ^ pad"
      using small by (simp add: unat_ucast_byte)
    have "pos_val (2 ^ j) (map unat ret) * 2 ^ j + unat acc * 2 ^ pad
        = (pos_val (2 ^ j) (map unat ret) * 2 ^ k + unat acc) * 2 ^ pad"
      unfolding j by (simp add: power_add algebra_simps)
    then have "pos_val (2 ^ j) (map unat ret) * 2 ^ j + unat acc * 2 ^ pad
        = pos_val (2 ^ i) (map unat ds) * 2 ^ pad"
      using inv by (simp add: conv_inv_def)
    moreover have "(length ret + 1) * j = length ds * i + pad"
      using inv j by (simp add: conv_inv_def)
    ultimately show ?thesis
      using loop inv assms False pad last lt
      by (intro exI [of _ "ret @ [ucast (push_bit pad acc)]"] exI [of _ pad])
        (auto simp: convert_def conv_inv_def pad_def)
  qed
qed

lemma pos_val_bytes: "pos_val (2 ^ 8) (map unat bs) = be_nat bs"
  by (simp add: be_nat_def)

lemma convert_roundtrip:
  assumes "0 < j" "j < 8"
  shows "\<exists>syms. convert bs 8 j = Some syms \<and> (\<forall>r \<in> set syms. unat r < 2 ^ j) \<and> convert syms j 8 = Some bs"
proof -
  obtain syms pad where down: "convert bs 8 j = Some syms" "pad < j" "length syms * j = length bs * 8 + pad"
    "pos_val (2 ^ j) (map unat syms) = be_nat bs * 2 ^ pad" "\<forall>r \<in> set syms. unat r < 2 ^ j"
    using convert_down [of j 8 bs] assms by (auto simp: be_nat_def)
  obtain acc k ret where loop: "convert_loop j 8 syms 0 0 [] = Some (acc, k, ret)"
    and inv: "conv_inv j 8 syms (acc, k, ret)" and k: "k < 8"
    using conv_start [of 8 j syms] assms down(5) by auto
  have acc: "unat acc < 2 ^ k" and val: "be_nat ret * 2 ^ k + unat acc = be_nat bs * 2 ^ pad"
    and len: "length ret * 8 + k = length bs * 8 + pad"
    using inv down by (simp_all add: conv_inv_def be_nat_def)
  have "k = (length ret * 8 + k) mod 8" using k by simp
  also have "\<dots> = pad" unfolding len using down(2) assms by simp
  finally have pad: "k = pad" .
  have "be_nat ret = (be_nat ret * 2 ^ k + unat acc) div 2 ^ k" using acc by simp
  also have "\<dots> = be_nat bs * 2 ^ pad div 2 ^ k" by (simp only: val)
  also have "\<dots> = be_nat bs" by (simp add: pad)
  finally have "ret = bs" using len pad by (intro be_nat_inj) simp_all
  then show ?thesis
    using down loop assms by (intro exI [of _ syms]) (simp add: convert_def)
qed

lemma length_convert_8_5: "convert bs 8 5 = Some syms \<Longrightarrow> length syms = (length bs * 8 + 4) div 5"
  using convert_down [of 5 8 bs] by auto

section \<open>The checksum polynomial\<close>

text \<open>The feedback term that the five conditions of the step add.\<close>

definition polymod_gen :: "byte \<Rightarrow> u64" where
  "polymod_gen c0 =
     (if bit c0 0 then 0x98f2bc8e61 else 0) XOR (if bit c0 1 then 0x79b76d99e2 else 0) XOR
     (if bit c0 2 then 0xf33e5fb3c4 else 0) XOR (if bit c0 3 then 0xae2eabe2a8 else 0) XOR
     (if bit c0 4 then 0x1e4f43e470 else 0)"

lemma and_bit_test:
  "(c0 AND 0x01 \<noteq> 0) = bit c0 0" "(c0 AND 0x02 \<noteq> 0) = bit c0 1" "(c0 AND 0x04 \<noteq> 0) = bit c0 2"
  "(c0 AND 0x08 \<noteq> 0) = bit c0 3" "(c0 AND 0x10 \<noteq> 0) = bit c0 4" for c0 :: byte
  using and_exp_eq_0_iff_not_bit [of c0 0] and_exp_eq_0_iff_not_bit [of c0 1]
    and_exp_eq_0_iff_not_bit [of c0 2] and_exp_eq_0_iff_not_bit [of c0 3]
    and_exp_eq_0_iff_not_bit [of c0 4] by simp_all

lemma polymod_step_eq:
  "polymod_step c d =
     push_bit 5 (c AND 0x07ffffffff) XOR ucast d XOR polymod_gen (ucast (drop_bit 35 c))"
  unfolding polymod_step_def polymod_gen_def Let_def and_bit_test
  by (simp add: xor.assoc xor.left_commute xor.commute)

lemma polymod_gen_low: "j < 5 \<Longrightarrow> bit (polymod_gen c0) j = bit c0 j"
proof -
  have "bit (polymod_gen c0) 0 = bit c0 0" "bit (polymod_gen c0) 1 = bit c0 1"
    "bit (polymod_gen c0) 2 = bit c0 2" "bit (polymod_gen c0) 3 = bit c0 3"
    "bit (polymod_gen c0) 4 = bit c0 4"
    unfolding polymod_gen_def by (simp_all add: bit_xor_iff)
  moreover assume "j < 5"
  then have "j = 0 \<or> j = 1 \<or> j = 2 \<or> j = 3 \<or> j = 4" by linarith
  ultimately show ?thesis by auto
qed

lemma polymod_gen_high: "40 \<le> j \<Longrightarrow> \<not> bit (polymod_gen c0) j"
proof -
  have small: "unat (polymod_gen c0) < 2 ^ 40"
    by (simp add: polymod_gen_def)
  assume j: "40 \<le> j"
  show ?thesis
  proof
    assume "bit (polymod_gen c0) j"
    then have "2 ^ j \<le> unat (polymod_gen c0)" by (rule bit_imp_le_unat)
    moreover have "(2 :: nat) ^ 40 \<le> 2 ^ j" using j by (intro power_increasing) simp_all
    ultimately show False using small by linarith
  qed
qed

lemma mask35: "(0x07ffffffff :: u64) = mask 35"
  by (simp add: mask_eq_exp_minus_1)

lemma bit_polymod_step:
  "j < 64 \<Longrightarrow> bit (polymod_step c d) j =
     ((5 \<le> j \<and> j < 40 \<and> bit c (j - 5)) \<noteq> (bit d j \<noteq> bit (polymod_gen (ucast (drop_bit 35 c))) j))"
  by (auto simp: polymod_step_eq mask35 bit_simps)

lemma bit_c0: "bit (ucast (drop_bit 35 c) :: byte) j \<longleftrightarrow> j < 8 \<and> bit c (35 + j)" for c :: u64
  by (auto simp: bit_simps)

definition polymod_state :: "u64 \<Rightarrow> bool" where
  "polymod_state c \<longleftrightarrow> (\<forall>j \<ge> 40. \<not> bit c j)"

lemma polymod_state_step: "polymod_state (polymod_step c d)"
  unfolding polymod_state_def
proof (intro allI impI)
  fix j :: nat assume "40 \<le> j"
  then show "\<not> bit (polymod_step c d) j"
    using bit_polymod_step [of j c d] polymod_gen_high [of j] bit_imp_le_length [of d j]
    by (cases "j < 64") (auto dest: bit_imp_le_length)
qed

text \<open>
  The low five bits of the generators are \<open>1, 2, 4, 8, 16\<close>, so the five bits that a step shifts
  out can be read off its result: the step is injective in the state.
\<close>

lemma polymod_step_inj_state:
  assumes st: "polymod_state c" "polymod_state c'" and eq: "polymod_step c d = polymod_step c' d"
  shows "c = c'"
proof -
  let ?c0 = "ucast (drop_bit 35 c) :: byte" and ?c0' = "ucast (drop_bit 35 c') :: byte"
  have low: "bit ?c0 j = bit ?c0' j" if "j < 5" for j
    using that eq bit_polymod_step [of j c d] bit_polymod_step [of j c' d]
      polymod_gen_low [of j ?c0] polymod_gen_low [of j ?c0'] by auto
  have high: "\<not> bit ?c0 j" "\<not> bit ?c0' j" if "5 \<le> j" for j
    using that st by (auto simp: bit_c0 polymod_state_def)
  have c0: "?c0 = ?c0'"
    by (rule bit_word_eqI) (use low high in \<open>metis linorder_not_le\<close>)
  show ?thesis
  proof (rule bit_word_eqI)
    fix n assume "n < LENGTH(64)"
    consider "n < 35" | "35 \<le> n" "n < 40" | "40 \<le> n" by linarith
    then show "bit c n = bit c' n"
    proof cases
      case 1
      then show ?thesis
        using eq bit_polymod_step [of "n + 5" c d] bit_polymod_step [of "n + 5" c' d] c0 by auto
    next
      case 2
      then show ?thesis using low [of "n - 35"] by (simp add: bit_c0)
    next
      case 3
      then show ?thesis using st by (simp add: polymod_state_def)
    qed
  qed
qed

lemma polymod_step_inj_symbol: "polymod_step c d = polymod_step c d' \<Longrightarrow> d = d'"
proof (rule bit_word_eqI)
  fix n assume eq: "polymod_step c d = polymod_step c d'" and "n < LENGTH(8)"
  then show "bit d n = bit d' n"
    using bit_polymod_step [of n c d] bit_polymod_step [of n c d'] by auto
qed

lemma polymod_state_fold: "polymod_state c \<Longrightarrow> polymod_state (foldl polymod_step c v)"
  by (induction v arbitrary: c) (simp_all add: polymod_state_step)

lemma polymod_fold_inj:
  "polymod_state c \<Longrightarrow> polymod_state c' \<Longrightarrow> foldl polymod_step c v = foldl polymod_step c' v \<Longrightarrow> c = c'"
proof (induction v arbitrary: c c')
  case (Cons d v)
  then have "polymod_step c d = polymod_step c' d"
    using Cons.IH [of "polymod_step c d" "polymod_step c' d"] by (simp add: polymod_state_step)
  with Cons show ?case by (metis polymod_step_inj_state)
qed simp

lemma polymod_state_1: "polymod_state 1"
  by (auto simp: polymod_state_def bit_simps)

lemma polymod_single_symbol:
  assumes "polymod (xs @ a # ys) = polymod (xs @ b # ys)"
  shows "a = b"
proof -
  define c where "c = foldl polymod_step 1 xs"
  have "foldl polymod_step (polymod_step c a) ys = foldl polymod_step (polymod_step c b) ys"
    using assms unfolding polymod_def xor_cancel by (simp add: c_def)
  then have "polymod_step c a = polymod_step c b"
    by (rule polymod_fold_inj [of _ _ ys, rotated 2]) (simp_all add: polymod_state_step)
  then show ?thesis by (rule polymod_step_inj_symbol)
qed

lemma polymod_less: "unat (polymod v) < 2 ^ 40"
proof -
  have "\<not> bit (polymod v) j" if "40 \<le> j" for j
    using that polymod_state_fold [OF polymod_state_1, of v]
    by (auto simp: polymod_def polymod_state_def bit_simps)
  then have "take_bit 40 (polymod v) = polymod v"
    by (intro bit_word_eqI) (auto simp: bit_simps not_le [symmetric])
  then have "unat (polymod v) = unat (polymod v) mod 2 ^ 40"
    by (metis unsigned_take_bit_eq take_bit_eq_mod)
  then show ?thesis by (metis mod_less_divisor zero_less_numeral zero_less_power)
qed

lemma uint64ToBytes_eq: "uint64ToBytes num = nat_be 8 (unat num)"
proof -
  have upt: "[0..<8] = [0, 1, 2, 3, 4, 5, 6, 7 :: nat]" by (simp add: upt_rec)
  have "nat_be 8 v = map (\<lambda>i. of_nat (v div 2 ^ (i * 8))) [7, 6, 5, 4, 3, 2, 1, 0 :: nat]" for v
    by (simp add: nat_be_numeral div_mult2_eq [symmetric])
  then have "nat_be 8 (unat num) = map (\<lambda>i. ucast (drop_bit (i * 8) num)) [7, 6, 5, 4, 3, 2, 1, 0 :: nat]"
    by (simp only: unat_drop_bit [symmetric] of_nat_unat)
  moreover have "replicate 8 (0 :: byte) = [0, 0, 0, 0, 0, 0, 0, 0]" by code_simp
  ultimately show ?thesis
    by (simp add: uint64ToBytes_def upt)
qed

end
