(* ===== verification/String_Util.thy ===== *)
theory String_Util
  imports Common_Data
begin

text \<open>
  \<^verbatim>\<open>libcfxcore/common/encoding/hex.cpp\<close> and \<^verbatim>\<open>common/util/string_util\<close>: the SDK's own
  hexadecimal codec and its string helpers, and the two facilities of the C++ library that the
  address code uses on strings, printing an \<open>int\<close> in decimal and \<open>std::stoi\<close>.
\<close>

section \<open>hex.cpp\<close>

definition hex_fromHexChar :: "byte \<Rightarrow> byte \<times> bool" where
  "hex_fromHexChar c =
     (if 48 \<le> c \<and> c \<le> 57 then (c - 48, True)
      else if 97 \<le> c \<and> c \<le> 102 then (c - 97 + 10, True)
      else if 65 \<le> c \<and> c \<le> 70 then (c - 65 + 10, True)
      else (0, False))"

text \<open>
  The loop of \<open>Decode\<close>: the output, the count, and whether it left through the early return.
\<close>

fun Decode_loop :: "bytes \<Rightarrow> nat \<Rightarrow> string \<Rightarrow> bytes \<times> nat \<times> bool" where
  "Decode_loop dst i (x # y # rest) =
     (case hex_fromHexChar (byte_of_char x) of
        (a, False) \<Rightarrow> (dst, i, True)
      | (a, True) \<Rightarrow>
          (case hex_fromHexChar (byte_of_char y) of
             (b, False) \<Rightarrow> (dst, i, True)
           | (b, True) \<Rightarrow> Decode_loop (dst @ [push_bit 4 a OR b]) (i + 1) rest))"
| "Decode_loop dst i _ = (dst, i, False)"

definition Decode :: "bytes \<Rightarrow> string \<Rightarrow> bytes \<times> nat" where
  "Decode dst src =
     (case Decode_loop dst 0 src of
        (dst', i, early) \<Rightarrow> (dst', if early then i else if odd (length src) then 0 else i))"

definition DecodeString :: "string \<Rightarrow> bytes" where
  "DecodeString src = fst (Decode [] src)"

definition EncodeToString :: "bytes \<Rightarrow> string" where
  "EncodeToString src = concat (map (\<lambda>v. [hexdigits ! unat (drop_bit 4 v), hexdigits ! unat (v AND 0x0f)]) src)"

section \<open>string_util\<close>

definition starts_with :: "string \<Rightarrow> string \<Rightarrow> bool" where
  "starts_with big smallstr = (length big \<ge> length smallstr \<and> take (length smallstr) big = smallstr)"

text \<open>
  \<open>compare\<close> is called before its validity is tested; with a longer suffix the position wraps
  around and \<open>compare\<close> throws \<open>std::out_of_range\<close> (\<open>None\<close>).
\<close>

definition ends_with :: "string \<Rightarrow> string \<Rightarrow> bool option" where
  "ends_with big smallstr =
     (let pos = (length big + 2 ^ 64 - length smallstr) mod 2 ^ 64 in
      if pos > length big then None
      else Some (length big \<ge> length smallstr \<and> take (length smallstr) (drop pos big) = smallstr))"

definition find_char :: "string \<Rightarrow> char \<Rightarrow> nat \<Rightarrow> nat option" where
  "find_char s a pos =
     (let k = length (takeWhile (\<lambda>c. c \<noteq> a) (drop pos s)) in
      if pos + k < length s then Some (pos + k) else None)"

lemma find_char_bounds: "find_char s a pos = Some p \<Longrightarrow> pos \<le> p \<and> p < length s"
  by (auto simp: find_char_def Let_def split: if_splits)

function split_loop :: "string \<Rightarrow> char \<Rightarrow> nat \<Rightarrow> string list \<Rightarrow> string list" where
  "split_loop s a pos1 strvec =
     (case find_char s a pos1 of
        Some pos2 \<Rightarrow> split_loop s a (pos2 + 1) (strvec @ [take (pos2 - pos1) (drop pos1 s)])
      | None \<Rightarrow> strvec @ [drop pos1 s])"
  by pat_completeness auto
termination
  by (relation "measure (\<lambda>(s, a, pos1, v). Suc (length s) - pos1)")
    (auto dest!: find_char_bounds)

declare split_loop.simps [simp del]

definition split_string :: "string \<Rightarrow> char \<Rightarrow> string list" where
  "split_string s a = split_loop s a 0 []"

definition tolower :: "char \<Rightarrow> char" where
  "tolower c = (let n = (of_char c :: nat) in if 65 \<le> n \<and> n \<le> 90 then char_of (n + 32) else c)"

definition toupper :: "char \<Rightarrow> char" where
  "toupper c = (let n = (of_char c :: nat) in if 97 \<le> n \<and> n \<le> 122 then char_of (n - 32) else c)"

definition tolower_string :: "string \<Rightarrow> string" where
  "tolower_string s = map tolower s"

definition toupper_string :: "string \<Rightarrow> string" where
  "toupper_string s = map toupper s"

text \<open>
  \<open>random_string\<close> with the values that \<open>rand()\<close> returns as a stream.  The string is sized
  \<open>len + 1\<close>, so the terminator is one of its characters.
\<close>

fun random_loop :: "(nat \<Rightarrow> nat) \<Rightarrow> nat \<Rightarrow> nat \<Rightarrow> nat \<Rightarrow> string \<Rightarrow> string" where
  "random_loop rand k i 0 str = str"
| "random_loop rand k i (Suc n) str =
     (let c = (if rand k mod 3 = 1 then char_of (65 + rand (k + 1) mod 26)
               else if rand k mod 3 = 2 then char_of (97 + rand (k + 1) mod 26)
               else char_of (48 + rand (k + 1) mod 10))
      in random_loop rand (k + 2) (i + 1) n (str[i := c]))"

definition random_string :: "(nat \<Rightarrow> nat) \<Rightarrow> nat \<Rightarrow> string" where
  "random_string rand len = random_loop rand 0 0 len (replicate (len + 1) (CHR 0x00))"

section \<open>Decimal numbers\<close>

definition digit_char :: "nat \<Rightarrow> char" where
  "digit_char d = char_of (48 + d)"

definition char_digit :: "char \<Rightarrow> nat" where
  "char_digit c = of_char c - 48"

definition is_digit :: "char \<Rightarrow> bool" where
  "is_digit c = (48 \<le> (of_char c :: nat) \<and> (of_char c :: nat) \<le> 57)"

fun show_nat :: "nat \<Rightarrow> string" where
  "show_nat n = (if n < 10 then [digit_char n] else show_nat (n div 10) @ [digit_char (n mod 10)])"

declare show_nat.simps [simp del]

text \<open>\<open>%d\<close> on a 32-bit argument.\<close>

definition show_int32 :: "u32 \<Rightarrow> string" where
  "show_int32 w = (let i = sint w in if i < 0 then ''-'' @ show_nat (nat (- i)) else show_nat (nat i))"

datatype stoi_error = invalid_argument | out_of_range

definition is_space :: "char \<Rightarrow> bool" where
  "is_space c = (c = CHR '' '' \<or> (9 \<le> (of_char c :: nat) \<and> (of_char c :: nat) \<le> 13))"

text \<open>\<open>std::stoi(s, NULL, 10)\<close>: white space, a sign, the longest run of digits.\<close>

definition stoi :: "string \<Rightarrow> stoi_error + int" where
  "stoi s =
     (let t = dropWhile is_space s;
          neg = (t \<noteq> [] \<and> hd t = CHR ''-'');
          u = (if t \<noteq> [] \<and> (hd t = CHR ''-'' \<or> hd t = CHR ''+'') then tl t else t);
          ds = takeWhile is_digit u;
          v = int (pos_val 10 (map char_digit ds));
          i = (if neg then - v else v)
      in if ds = [] then Inl invalid_argument
         else if i < - (2 ^ 31) \<or> i > 2 ^ 31 - 1 then Inl out_of_range
         else Inr i)"

section \<open>Laws\<close>

lemma of_char_digit: "d < 10 \<Longrightarrow> (of_char (digit_char d) :: nat) = 48 + d"
  by (simp add: digit_char_def)

lemma digit_char_simps [simp]:
  "d < 10 \<Longrightarrow> is_digit (digit_char d)" "d < 10 \<Longrightarrow> char_digit (digit_char d) = d"
  by (simp_all add: is_digit_def char_digit_def of_char_digit)

lemma show_nat_digits: "c \<in> set (show_nat n) \<Longrightarrow> is_digit c"
proof (induction n rule: show_nat.induct)
  case (1 n)
  then show ?case by (subst (asm) (2) show_nat.simps) (auto split: if_splits)
qed

lemma show_nat_ne [simp]: "show_nat n \<noteq> []"
  by (subst show_nat.simps) simp

lemma pos_val_show_nat: "pos_val 10 (map char_digit (show_nat n)) = n"
proof (induction n rule: show_nat.induct)
  case (1 n)
  then show ?case by (subst show_nat.simps) simp
qed

lemma length_show_nat: "n < 10 ^ k \<Longrightarrow> 0 < k \<Longrightarrow> length (show_nat n) \<le> k"
proof (induction k arbitrary: n)
  case (Suc k)
  show ?case
  proof (cases "n < 10")
    case False
    then have "n div 10 < 10 ^ k" "0 < k"
      using Suc.prems by (simp add: less_mult_imp_div_less mult.commute) (use False Suc.prems in \<open>cases k; simp\<close>)
    then show ?thesis using Suc.IH [of "n div 10"] False by (subst show_nat.simps) simp
  qed (subst show_nat.simps, simp)
qed simp

lemma is_digit_char: "is_digit c \<Longrightarrow> \<not> is_space c \<and> c \<noteq> CHR ''-'' \<and> c \<noteq> CHR ''+''"
  by (auto simp: is_digit_def is_space_def)

lemma stoi_show_nat: "n < 2 ^ 31 \<Longrightarrow> stoi (show_nat n) = Inr (int n)"
proof -
  assume n: "n < 2 ^ 31"
  obtain c cs where s: "show_nat n = c # cs" by (cases "show_nat n") simp_all
  have c: "is_digit c" "\<forall>x \<in> set (show_nat n). is_digit x"
    using show_nat_digits [of _ n] s by auto
  have "takeWhile is_digit (c # cs) = c # cs"
    by (rule takeWhile_eq_all_conv [THEN iffD2]) (use c s in auto)
  moreover have "dropWhile is_space (c # cs) = c # cs" using c is_digit_char by simp
  moreover have "hd (c # cs) \<noteq> CHR ''-''" "hd (c # cs) \<noteq> CHR ''+''" using c is_digit_char [of c] by auto
  ultimately show ?thesis
    using n pos_val_show_nat [of n] unfolding s stoi_def Let_def by (simp del: takeWhile.simps takeWhile_eq_all_conv)
qed

lemma EncodeToString_eq: "EncodeToString bs = toHex bs"
proof -
  have "drop_bit 4 v AND 0x0f = drop_bit 4 v" for v :: byte
    by (rule bit_word_eqI) (auto simp: bit_simps mask_numerals dest: bit_imp_le_length)
  then show ?thesis
    by (simp add: EncodeToString_def toHex_eq hex_pairs_def hi_digit_def lo_digit_def)
qed

lemma hexdigits_byte:
  "n < 16 \<Longrightarrow> hex_fromHexChar (byte_of_char (hexdigits ! n)) = (of_nat n, True)"
proof -
  have "\<forall>n < 16. hex_fromHexChar (byte_of_char (hexdigits ! n)) = (of_nat n, True)" by code_simp
  then show "n < 16 \<Longrightarrow> hex_fromHexChar (byte_of_char (hexdigits ! n)) = (of_nat n, True)" by blast
qed

lemma nibbles_or: "push_bit 4 (drop_bit 4 v AND 0x0f) OR (v AND 0x0f) = v" for v :: byte
  by (rule bit_word_eqI) (auto simp: bit_simps mask_numerals)

lemma Decode_loop_hex_pairs:
  "Decode_loop dst i (hex_pairs bs) = (dst @ bs, i + length bs, False)"
proof (induction bs arbitrary: dst i)
  case (Cons b bs)
  have "hex_fromHexChar (byte_of_char (hi_digit b)) = (drop_bit 4 b AND 0x0f, True)"
    "hex_fromHexChar (byte_of_char (lo_digit b)) = (b AND 0x0f, True)"
    unfolding hi_digit_def lo_digit_def by (subst hexdigits_byte; simp)+
  then show ?case using Cons nibbles_or [of b] by simp
qed simp

lemma DecodeString_EncodeToString: "DecodeString (EncodeToString bs) = bs"
  by (simp add: DecodeString_def Decode_def EncodeToString_eq toHex_eq Decode_loop_hex_pairs)

lemma DecodeString_hex_pairs: "DecodeString (hex_pairs bs) = bs"
  by (simp add: DecodeString_def Decode_def Decode_loop_hex_pairs)

text \<open>Splitting by structural recursion, and that the index-based loop computes it.\<close>

fun split_spec :: "string \<Rightarrow> char \<Rightarrow> string list" where
  "split_spec [] a = [[]]"
| "split_spec (c # s) a =
     (if c = a then [] # split_spec s a
      else (case split_spec s a of [] \<Rightarrow> [[c]] | p # ps \<Rightarrow> (c # p) # ps))"

lemma split_spec_ne [simp]: "split_spec s a \<noteq> []"
  by (cases s) (auto split: list.splits)

lemma split_spec_no_sep: "a \<notin> set p \<Longrightarrow> split_spec p a = [p]"
  by (induction p) auto

lemma split_spec_sep: "a \<notin> set p \<Longrightarrow> split_spec (p @ a # s) a = p # split_spec s a"
  by (induction p) auto

lemma length_takeWhile_neq: "a \<in> set t \<Longrightarrow> length (takeWhile (\<lambda>c. c \<noteq> a) t) < length t"
  by (induction t) auto

lemma find_char_None: "find_char s a pos = None \<longleftrightarrow> a \<notin> set (drop pos s)"
proof -
  let ?t = "drop pos s"
  have "a \<notin> set ?t \<Longrightarrow> length (takeWhile (\<lambda>c. c \<noteq> a) ?t) = length ?t"
    by (metis (mono_tags, lifting) takeWhile_eq_all_conv)
  moreover have "a \<in> set ?t \<Longrightarrow> length (takeWhile (\<lambda>c. c \<noteq> a) ?t) < length ?t"
    by (rule length_takeWhile_neq)
  ultimately show ?thesis
    by (cases "a \<in> set ?t") (auto simp: find_char_def Let_def)
qed

lemma find_char_Some:
  assumes "find_char s a pos = Some p"
  shows "drop pos s = take (p - pos) (drop pos s) @ a # drop (p + 1) s \<and> a \<notin> set (take (p - pos) (drop pos s))"
proof -
  let ?t = "drop pos s" and ?w = "takeWhile (\<lambda>c. c \<noteq> a) (drop pos s)"
  have p: "p = pos + length ?w" and lt: "length ?w < length ?t"
    using assms by (auto simp: find_char_def Let_def split: if_splits)
  have w: "take (p - pos) ?t = ?w" by (simp add: p takeWhile_eq_take [symmetric])
  have "?t ! length ?w = a" using nth_length_takeWhile [OF lt] by simp
  then have "?t = ?w @ a # drop (Suc (length ?w)) ?t"
    using lt by (metis id_take_nth_drop takeWhile_eq_take)
  moreover have "drop (Suc (length ?w)) ?t = drop (p + 1) s" by (simp add: p add.commute)
  moreover have "a \<notin> set ?w" by (auto dest: set_takeWhileD)
  ultimately show ?thesis using w by metis
qed

lemma split_loop_eq: "split_loop s a pos v = v @ split_spec (drop pos s) a"
proof (induction s a pos v rule: split_loop.induct)
  case (1 s a pos v)
  show ?case
  proof (cases "find_char s a pos")
    case None
    then show ?thesis
      using find_char_None [of s a pos] by (subst split_loop.simps) (simp add: split_spec_no_sep)
  next
    case (Some p)
    note parts = find_char_Some [OF Some]
    have "split_loop s a pos v = split_loop s a (p + 1) (v @ [take (p - pos) (drop pos s)])"
      by (subst split_loop.simps) (simp add: Some)
    also have "\<dots> = v @ take (p - pos) (drop pos s) # split_spec (drop (p + 1) s) a"
      using 1 [OF Some] by simp
    also have "\<dots> = v @ split_spec (drop pos s) a"
      using parts split_spec_sep [of a "take (p - pos) (drop pos s)" "drop (p + 1) s"] by simp
    finally show ?thesis .
  qed
qed

lemma split_string_eq: "split_string s a = split_spec s a"
  by (simp add: split_string_def split_loop_eq)

end
