(* ===== verification/Cfx_Address.thy ===== *)
theory Cfx_Address
  imports Addr_Convert String_Util
begin

text \<open>
  \<^verbatim>\<open>libcfxcore/types/cfxaddress\<close>: CIP-37 addresses.  A class with one field is that field:
  \<open>NetworkType\<close> and \<open>AddressType\<close> are their strings and \<open>Body\<close> is its list of five-bit symbols.
  An index outside an array is the error \<open>UndefinedIndex\<close>, and writing past the 128-character
  buffers of \<open>sprintf\<close> is \<open>BufferOverflow\<close>.  The two regular expressions are matched by hand.
\<close>

datatype addr_error = StoiError stoi_error | UndefinedIndex | BufferOverflow | Diverges

section \<open>version\_byte\<close>

record VersionByte =
  TypeBits :: byte
  VB_AddressType :: byte
  SizeBits :: byte

definition VersionByte_of :: "byte \<Rightarrow> VersionByte" where
  "VersionByte_of b =
     \<lparr>TypeBits = drop_bit 7 b, VB_AddressType = drop_bit 3 (b AND 0x7f), SizeBits = b AND 0x0f\<rparr>"

definition VersionByte_ToByte :: "VersionByte \<Rightarrow> byte" where
  "VersionByte_ToByte v =
     ((push_bit 7 (TypeBits v) AND 0x80) OR push_bit 3 (VB_AddressType v AND 0x0F)) OR SizeBits v"

definition hashSizeToBits :: "u32 \<Rightarrow> byte" where
  "hashSizeToBits k =
     (case map_of [(160, 0), (192, 1), (224, 2), (256, 3), (320, 4), (384, 5), (448, 6), (512, 7)] k of
        Some b \<Rightarrow> b | None \<Rightarrow> 0)"

definition CalcVersionByte :: "bytes \<Rightarrow> VersionByte" where
  "CalcVersionByte hexAddress =
     \<lparr>TypeBits = 0, VB_AddressType = 0, SizeBits = hashSizeToBits (of_nat (length hexAddress * 8))\<rparr>"

section \<open>network\_type\<close>

type_synonym NetworkType = string

definition NetworkTypeMainnetPrefix :: string where "NetworkTypeMainnetPrefix = ''cfx''"
definition NetworkTypeTestNetPrefix :: string where "NetworkTypeTestNetPrefix = ''cfxtest''"
definition NetowrkTypeMainnetID :: u32 where "NetowrkTypeMainnetID = 1029"
definition NetworkTypeTestnetID :: u32 where "NetworkTypeTestnetID = 1"

definition NetworkType_of_id :: "u32 \<Rightarrow> NetworkType" where
  "NetworkType_of_id networkID =
     (if networkID = NetowrkTypeMainnetID then NetworkTypeMainnetPrefix
      else if networkID = NetworkTypeTestnetID then NetworkTypeTestNetPrefix
      else ''net'' @ show_int32 networkID)"

definition getIDWhenBeginWithNet :: "string \<Rightarrow> addr_error + u32" where
  "getIDWhenBeginWithNet net_type =
     (if length net_type < 3 then Inr 0
      else if take 3 net_type \<noteq> ''net'' then Inr 0
      else (case stoi (drop 3 net_type) of Inl e \<Rightarrow> Inl (StoiError e) | Inr i \<Rightarrow> Inr (of_int i)))"

definition ToNetworkID :: "NetworkType \<Rightarrow> addr_error + u32" where
  "ToNetworkID nt =
     (if NetworkTypeMainnetPrefix = nt then Inr NetowrkTypeMainnetID
      else if NetworkTypeTestNetPrefix = nt then Inr NetworkTypeTestnetID
      else getIDWhenBeginWithNet nt)"

section \<open>address\_type\<close>

type_synonym AddressType = string

definition AddressTypeBuiltin :: AddressType where "AddressTypeBuiltin = ''builtin''"
definition AddressTypeUser :: AddressType where "AddressTypeUser = ''user''"
definition AddressTypeContract :: AddressType where "AddressTypeContract = ''contract''"
definition AddressTypeNull :: AddressType where "AddressTypeNull = ''null''"
definition AddressTypeInvalid :: AddressType where "AddressTypeInvalid = ''invalid''"

lemmas address_type_strings = AddressTypeBuiltin_def AddressTypeUser_def AddressTypeContract_def
  AddressTypeNull_def AddressTypeInvalid_def

definition CalcAddressType :: "bytes \<Rightarrow> addr_error + AddressType" where
  "CalcAddressType hexAddress =
     (if hexAddress = DecodeString ''0000000000000000000000000000000000000000'' then Inr AddressTypeNull
      else if hexAddress = [] then Inl UndefinedIndex
      else (let addrTypeBits = hd hexAddress AND 0xf0 in
            if addrTypeBits = 0x00 then Inr AddressTypeBuiltin
            else if addrTypeBits = 0x10 then Inr AddressTypeUser
            else if addrTypeBits = 0x80 then Inr AddressTypeContract
            else Inr AddressTypeInvalid))"

definition AddressType_ToByte :: "AddressType \<Rightarrow> byte" where
  "AddressType_ToByte t =
     (if t = AddressTypeBuiltin then 0x00
      else if t = AddressTypeUser then 0x10
      else if t = AddressTypeContract then 0x80
      else if t = AddressTypeNull then 0x00
      else 0x00)"

definition AddressType_String :: "AddressType \<Rightarrow> string" where
  "AddressType_String t = ''type.'' @ t"

section \<open>body\<close>

type_synonym Body = bytes

definition alphabet :: string where
  "alphabet = ''abcdefghjkmnprstuvwxyz0123456789''"

text \<open>\<open>alphabetToIndexMap[c]\<close>: \<open>std::map\<close> returns zero for a key that it does not have.\<close>

definition alphabetToIndexMap :: "char \<Rightarrow> byte" where
  "alphabetToIndexMap c =
     (case map_of (zip alphabet [0..<length alphabet]) c of Some i \<Rightarrow> of_nat i | None \<Rightarrow> 0)"

definition Body_of_string :: "string \<Rightarrow> Body" where
  "Body_of_string base32Str = map alphabetToIndexMap base32Str"

definition convert_res :: "bytes \<Rightarrow> nat \<Rightarrow> nat \<Rightarrow> addr_error + bytes" where
  "convert_res d i j = (case convert d i j of None \<Rightarrow> Inl Diverges | Some r \<Rightarrow> Inr r)"

definition Body_of_address :: "VersionByte \<Rightarrow> bytes \<Rightarrow> addr_error + Body" where
  "Body_of_address vrsByte hexAddress = convert_res (VersionByte_ToByte vrsByte # hexAddress) 8 5"

definition ToHexAddress :: "Body \<Rightarrow> addr_error + (VersionByte \<times> bytes)" where
  "ToHexAddress b =
     bind_res (convert_res b 5 8) (\<lambda>r.
       case r of [] \<Rightarrow> Inl UndefinedIndex | x # xs \<Rightarrow> Inr (VersionByte_of x, xs))"

text \<open>\<open>alphabet[c]\<close>; index 32 is the terminator of the string.\<close>

fun bits5sToString :: "bytes \<Rightarrow> addr_error + string" where
  "bits5sToString [] = Inr []"
| "bits5sToString (c # cs) =
     (if unat c > 32 then Inl UndefinedIndex
      else bind_res (bits5sToString cs) (\<lambda>s. Inr ((alphabet @ [CHR 0x00]) ! unat c # s)))"

section \<open>checksum\<close>

definition CalcChecksum :: "NetworkType \<Rightarrow> Body \<Rightarrow> addr_error + bytes" where
  "CalcChecksum nt bodyArray =
     (let checksumInput = map (\<lambda>c. byte_of_char c AND 0x1F) nt @ [0] @ bodyArray @ replicate 8 0;
          uint64Chc = polymod checksumInput;
          low40BitsChc = drop 3 (uint64ToBytes uint64Chc)
      in convert_res low40BitsChc 8 5)"

section \<open>address\<close>

record Address =
  networkType :: NetworkType
  addressType :: AddressType
  body :: Body
  checksum :: bytes
  hex :: bytes
  networkID :: "u32 option"

text \<open>The members before \<open>New\<close> runs; \<open>networkID\<close> has no initialiser (\<open>None\<close>).\<close>

definition Address_init :: "u32 \<Rightarrow> Address" where
  "Address_init i =
     \<lparr>networkType = NetworkType_of_id i, addressType = AddressTypeInvalid, body = Body_of_string [],
      checksum = [], hex = [], networkID = None\<rparr>"

definition setCache :: "Address \<Rightarrow> addr_error + Address" where
  "setCache a =
     bind_res (ToHexAddress (body a)) (\<lambda>(v, h).
       bind_res (ToNetworkID (networkType a)) (\<lambda>i. Inr (a\<lparr>hex := h, networkID := Some i\<rparr>)))"

definition NewFromBytes :: "bytes \<Rightarrow> u32 \<Rightarrow> Address \<Rightarrow> addr_error + (int \<times> Address)" where
  "NewFromBytes hexAddress i a =
     bind_res (CalcAddressType hexAddress) (\<lambda>t.
     bind_res (Body_of_address (CalcVersionByte hexAddress) hexAddress) (\<lambda>b.
     bind_res (CalcChecksum (NetworkType_of_id i) b) (\<lambda>c.
     bind_res (setCache (a\<lparr>networkType := NetworkType_of_id i, addressType := t, body := b, checksum := c\<rparr>))
       (\<lambda>a'. Inr (1, a')))))"

definition NewFromHex :: "string \<Rightarrow> u32 \<Rightarrow> Address \<Rightarrow> addr_error + (int \<times> Address)" where
  "NewFromHex hexAddressStr i a =
     (if \<not> starts_with hexAddressStr ''0x'' then Inr (0, a)
      else NewFromBytes (DecodeString (drop 2 hexAddressStr)) i a)"

definition NewFromBase32 :: "string \<Rightarrow> Address \<Rightarrow> addr_error + (int \<times> Address)" where
  "NewFromBase32 base32Str a =
     (if tolower_string base32Str \<noteq> base32Str \<and> toupper_string base32Str \<noteq> base32Str then Inr (0, a)
      else (let parts = split_string (tolower_string base32Str) (CHR '':'') in
        if length parts < 2 \<or> length parts > 3 then Inr (0, a)
        else (let a1 = a\<lparr>networkType := hd parts\<rparr>; bodyWithChecksum = last parts in
          if length bodyWithChecksum < 8 then Inr (0, a1)
          else (let n = length bodyWithChecksum - 8;
                    a2 = a1\<lparr>body := Body_of_string (take n bodyWithChecksum)\<rparr> in
            bind_res (ToHexAddress (body a2)) (\<lambda>(v, hexAddress).
            bind_res (CalcAddressType hexAddress) (\<lambda>t.
              let a3 = a2\<lparr>addressType := t\<rparr> in
              if length parts = 3 \<and> tolower_string (parts ! 1) \<noteq> AddressType_String t then Inr (0, a3)
              else bind_res (CalcChecksum (networkType a3) (body a3)) (\<lambda>c.
                let a4 = a3\<lparr>checksum := c\<rparr> in
                bind_res (bits5sToString c) (\<lambda>expectChk.
                  if expectChk \<noteq> drop n bodyWithChecksum then Inr (0, a4)
                  else bind_res (setCache a4) (\<lambda>a5. Inr (1, a5))))))))))"

text \<open>\<open>^0x[a-f0-9]{40}$\<close>\<close>

definition hex_char :: "char \<Rightarrow> bool" where
  "hex_char c = (is_digit c \<or> (97 \<le> (of_char c :: nat) \<and> (of_char c :: nat) \<le> 102))"

definition match_hex :: "string \<Rightarrow> bool" where
  "match_hex s = (take 2 s = ''0x'' \<and> length s = 42 \<and> list_all hex_char (drop 2 s))"

text \<open>
  \<open>^(cfx|cfxtest|net\d+):(type\.user:|type\.builtin:|type\.contract:|type\.null:|)\w{42}$\<close>.  No
  alternative of the first group contains a colon, so the group ends at the first one.
\<close>

definition word_char :: "char \<Rightarrow> bool" where
  "word_char c =
     (is_digit c \<or> (97 \<le> (of_char c :: nat) \<and> (of_char c :: nat) \<le> 122) \<or>
      (65 \<le> (of_char c :: nat) \<and> (of_char c :: nat) \<le> 90) \<or> c = CHR ''_'')"

definition match_prefix :: "string \<Rightarrow> bool" where
  "match_prefix p =
     (p = ''cfx'' \<or> p = ''cfxtest'' \<or>
      (take 3 p = ''net'' \<and> drop 3 p \<noteq> [] \<and> list_all is_digit (drop 3 p)))"

definition match_tail :: "string \<Rightarrow> string \<Rightarrow> bool" where
  "match_tail t rest =
     (take (length t) rest = t \<and> length rest = length t + 42 \<and> list_all word_char (drop (length t) rest))"

definition match_base32 :: "string \<Rightarrow> bool" where
  "match_base32 s =
     (let p = takeWhile (\<lambda>c. c \<noteq> CHR '':'') s; rest = drop (Suc (length p)) s in
      CHR '':'' \<in> set s \<and> match_prefix p \<and>
      list_ex (\<lambda>t. match_tail t rest)
        [''type.user:'', ''type.builtin:'', ''type.contract:'', ''type.null:'', ''''])"

definition Address_New :: "string \<Rightarrow> u32 \<Rightarrow> Address \<Rightarrow> addr_error + Address" where
  "Address_New base32OrHex i a =
     (let lower = tolower_string base32OrHex in
      if match_hex lower then bind_res (NewFromHex lower i a) (\<lambda>(_, a'). Inr a')
      else if match_base32 lower then
        bind_res (NewFromBase32 lower a) (\<lambda>(retCode, a1).
          if retCode \<le> 0 then Inr (a1\<lparr>addressType := AddressTypeInvalid\<rparr>)
          else bind_res (if i \<noteq> 0 then ToNetworkID (networkType a1) else Inr i) (\<lambda>own.
            if i \<noteq> 0 \<and> own \<noteq> i then bind_res (NewFromHex lower i a1) (\<lambda>(_, a2). Inr a2)
            else Inr a1))
      else Inr (a\<lparr>addressType := AddressTypeInvalid\<rparr>))"

definition Address_ctor :: "string \<Rightarrow> u32 \<Rightarrow> addr_error + Address" where
  "Address_ctor base32OrHex i = Address_New base32OrHex i (Address_init i)"

definition GetNetworkID :: "Address \<Rightarrow> addr_error + u32" where
  "GetNetworkID a = ToNetworkID (networkType a)"

definition ToHex :: "Address \<Rightarrow> string \<times> u32 option" where
  "ToHex a = (EncodeToString (hex a), networkID a)"

definition GetHexAddress :: "Address \<Rightarrow> string" where
  "GetHexAddress a = ''0x'' @ fst (ToHex a)"

definition IsValid :: "Address \<Rightarrow> bool" where
  "IsValid a =
     (addressType a = AddressTypeNull \<or> addressType a = AddressTypeBuiltin \<or>
      addressType a = AddressTypeUser \<or> addressType a = AddressTypeContract)"

definition Address_eq :: "Address \<Rightarrow> Address \<Rightarrow> bool" where
  "Address_eq a rv =
     (if networkType rv \<noteq> networkType a then False
      else if AddressType_String (addressType rv) \<noteq> AddressType_String (addressType a) then False
      else if body rv \<noteq> body rv then False
      else if checksum rv \<noteq> checksum a then False
      else True)"

definition sprintf128 :: "string \<Rightarrow> addr_error + string" where
  "sprintf128 s = (if length s < 128 then Inr s else Inl BufferOverflow)"

definition GetBase32Address :: "Address \<Rightarrow> addr_error + string" where
  "GetBase32Address a =
     bind_res (bits5sToString (body a)) (\<lambda>b. bind_res (bits5sToString (checksum a)) (\<lambda>c.
       sprintf128 (networkType a @ '':'' @ b @ c)))"

definition GetVerboseBase32Address :: "Address \<Rightarrow> addr_error + string" where
  "GetVerboseBase32Address a =
     bind_res (bits5sToString (body a)) (\<lambda>b. bind_res (bits5sToString (checksum a)) (\<lambda>c.
       sprintf128 (networkType a @ '':'' @ AddressType_String (addressType a) @ '':'' @ b @ c)))"

text \<open>\<open>std::string\<close> compares as unsigned bytes.\<close>

fun string_less :: "string \<Rightarrow> string \<Rightarrow> bool" where
  "string_less _ [] = False"
| "string_less [] (_ # _) = True"
| "string_less (x # xs) (y # ys) =
     (byte_of_char x < byte_of_char y \<or> (x = y \<and> string_less xs ys))"

definition Address_less :: "Address \<Rightarrow> Address \<Rightarrow> addr_error + bool" where
  "Address_less a rv =
     bind_res (GetVerboseBase32Address a) (\<lambda>x. bind_res (GetVerboseBase32Address rv) (\<lambda>y.
       Inr (string_less x y)))"

definition toEthCommonAddr :: "Address \<Rightarrow> addr_error + bytes" where
  "toEthCommonAddr a = (if length (hex a) < 20 then Inl UndefinedIndex else Inr (take 20 (hex a)))"

definition null_hex :: string where
  "null_hex = ''0x0000000000000000000000000000000000000000''"

definition InvaildAddress :: "addr_error + Address" where
  "InvaildAddress =
     bind_res (Address_ctor null_hex NetworkTypeTestnetID) (\<lambda>a. Inr (a\<lparr>addressType := AddressTypeInvalid\<rparr>))"

definition NullAddress :: "u32 \<Rightarrow> addr_error + Address" where
  "NullAddress i = Address_ctor null_hex i"

definition TestnetNullAddress :: "addr_error + Address" where
  "TestnetNullAddress = Address_ctor null_hex NetworkTypeTestnetID"

definition MainnetNullAddress :: "addr_error + Address" where
  "MainnetNullAddress = Address_ctor null_hex NetowrkTypeMainnetID"

section \<open>The order of strings\<close>

lemma string_less_irrefl [simp]: "\<not> string_less s s"
  by (induction s) simp_all

lemma string_less_trans: "string_less a b \<Longrightarrow> string_less b c \<Longrightarrow> string_less a c"
proof (induction a b arbitrary: c rule: string_less.induct)
  case (2 y ys) then show ?case by (cases c) auto
next
  case (3 x xs y ys) then show ?case by (cases c) (auto intro: less_trans)
qed simp

lemma string_less_linear: "string_less a b \<or> a = b \<or> string_less b a"
proof (induction a b rule: string_less.induct)
  case (1 a) then show ?case by (cases a) simp_all
next
  case (3 x xs y ys)
  have "byte_of_char x < byte_of_char y \<or> x = y \<or> byte_of_char y < byte_of_char x"
    using inj_byte_of_char [THEN injD, of x y] by (metis linorder_less_linear)
  then show ?case using 3 by auto
qed simp

section \<open>Symbols\<close>

definition symbols :: "bytes \<Rightarrow> bool" where
  "symbols cs = (\<forall>c \<in> set cs. unat c < 32)"

definition symbol_string :: "bytes \<Rightarrow> string" where
  "symbol_string cs = map (\<lambda>c. alphabet ! unat c) cs"

lemma length_alphabet [simp]: "length alphabet = 32"
  by (simp add: alphabet_def)

lemma bits5sToString_symbols: "symbols cs \<Longrightarrow> bits5sToString cs = Inr (symbol_string cs)"
  by (induction cs) (simp_all add: symbols_def symbol_string_def nth_append)

lemma alphabet_facts:
  assumes "n < 32"
  shows "alphabetToIndexMap (alphabet ! n) = of_nat n" "tolower (alphabet ! n) = alphabet ! n"
    "word_char (alphabet ! n)" "alphabet ! n \<noteq> CHR '':''"
proof -
  have "\<forall>n < 32. alphabetToIndexMap (alphabet ! n) = of_nat n \<and> tolower (alphabet ! n) = alphabet ! n
      \<and> word_char (alphabet ! n) \<and> alphabet ! n \<noteq> CHR '':''"
    by code_simp
  then show "alphabetToIndexMap (alphabet ! n) = of_nat n" "tolower (alphabet ! n) = alphabet ! n"
    "word_char (alphabet ! n)" "alphabet ! n \<noteq> CHR '':''"
    using assms by blast+
qed

lemma symbol_string_facts:
  assumes "symbols cs"
  shows "Body_of_string (symbol_string cs) = cs" "tolower_string (symbol_string cs) = symbol_string cs"
    "list_all word_char (symbol_string cs)" "CHR '':'' \<notin> set (symbol_string cs)"
    "length (symbol_string cs) = length cs"
proof -
  have *: "c \<in> set cs \<Longrightarrow> unat c < 32" for c using assms by (simp add: symbols_def)
  show "Body_of_string (symbol_string cs) = cs" "tolower_string (symbol_string cs) = symbol_string cs"
    by (auto simp: Body_of_string_def tolower_string_def symbol_string_def alphabet_facts *
        intro!: map_idI)
  show "list_all word_char (symbol_string cs)"
    by (auto simp: symbol_string_def list_all_iff alphabet_facts *)
  show "CHR '':'' \<notin> set (symbol_string cs)"
    using alphabet_facts(4) * by (auto simp: symbol_string_def) metis
  show "length (symbol_string cs) = length cs" by (simp add: symbol_string_def)
qed

section \<open>Networks\<close>

lemma sint_small: "unat i < 2 ^ 31 \<Longrightarrow> sint i = int (unat i)" for i :: u32
proof -
  assume "unat i < 2 ^ 31"
  then have "int (unat i) < int (2 ^ 31)" by (simp only: of_nat_less_iff)
  then have "uint i < 2 ^ 31" by simp
  moreover have "0 \<le> uint i" by simp
  ultimately have i: "uint i < 2 ^ 31" "- (2 ^ 31) \<le> uint i" by linarith+
  have "sint i = signed_take_bit 31 (int (unat i))" by (simp add: sint_uint)
  also have "\<dots> = int (unat i)"
    using i by (intro signed_take_bit_int_eq_self) simp_all
  finally show ?thesis .
qed

lemma digit_lower: "is_digit c \<Longrightarrow> tolower c = c \<and> c \<noteq> CHR '':''"
  by (auto simp: is_digit_def tolower_def Let_def)

lemma network_facts:
  assumes "unat i < 2 ^ 31"
  defines "nt \<equiv> NetworkType_of_id i"
  shows "ToNetworkID nt = Inr i" "tolower_string nt = nt" "match_prefix nt" "CHR '':'' \<notin> set nt"
    "length nt \<le> 13"
proof -
  let ?s = "show_nat (unat i)"
  have s: "show_int32 i = ?s" using assms(1) by (simp add: show_int32_def sint_small Let_def)
  have digits: "\<forall>c \<in> set ?s. is_digit c" using show_nat_digits by blast
  have len: "length ?s \<le> 10" using assms(1) by (intro length_show_nat) simp_all
  have "tolower_string ?s = ?s" "CHR '':'' \<notin> set ?s" "list_all is_digit ?s"
    using digits digit_lower by (auto simp: tolower_string_def list_all_iff intro!: map_idI)
  moreover have "stoi ?s = Inr (int (unat i))" using assms(1) by (rule stoi_show_nat)
  moreover have "tolower_string ''cfx'' = ''cfx''" "tolower_string ''cfxtest'' = ''cfxtest''" by code_simp+
  moreover have "tolower_string (''net'' @ ?s) = ''net'' @ ?s"
  proof -
    have "tolower_string ''net'' = ''net''" by code_simp
    then show ?thesis using \<open>tolower_string ?s = ?s\<close> by (simp add: tolower_string_def)
  qed
  ultimately show "ToNetworkID nt = Inr i" "tolower_string nt = nt" "match_prefix nt" "CHR '':'' \<notin> set nt"
    "length nt \<le> 13"
    using s len
    by (auto simp: nt_def NetworkType_of_id_def ToNetworkID_def NetworkTypeMainnetPrefix_def
        NetworkTypeTestNetPrefix_def NetowrkTypeMainnetID_def NetworkTypeTestnetID_def
        getIDWhenBeginWithNet_def match_prefix_def)
qed

section \<open>Hexadecimal addresses\<close>

lemma version_byte_160: "length h = 20 \<Longrightarrow> VersionByte_ToByte (CalcVersionByte h) = 0"
  by (simp add: CalcVersionByte_def VersionByte_ToByte_def hashSizeToBits_def)

lemma Body_of_address_20:
  assumes "length h = 20"
  shows "\<exists>b. Body_of_address (CalcVersionByte h) h = Inr b \<and> symbols b \<and> length b = 34 \<and>
    ToHexAddress b = Inr (VersionByte_of 0, h)"
proof -
  obtain b where b: "convert (0 # h) 8 5 = Some b" "\<forall>r \<in> set b. unat r < 2 ^ 5" "convert b 5 8 = Some (0 # h)"
    using convert_roundtrip [of 5 "0 # h"] by auto
  then have "length b = 34" using length_convert_8_5 [OF b(1)] assms by simp
  with b show ?thesis
    using version_byte_160 [OF assms]
    by (simp add: Body_of_address_def convert_res_def symbols_def ToHexAddress_def)
qed

lemma CalcChecksum_parts:
  "\<exists>c. CalcChecksum nt b = Inr c \<and> symbols c \<and> length c = 8"
proof -
  define low where "low = drop 3 (uint64ToBytes
    (polymod (map (\<lambda>c. byte_of_char c AND 0x1F) nt @ [0] @ b @ replicate 8 0)))"
  have len: "length low = 5" by (simp add: low_def uint64ToBytes_eq)
  obtain c where c: "convert low 8 5 = Some c" "\<forall>r \<in> set c. unat r < 2 ^ 5"
    using convert_roundtrip [of 5 low] by auto
  then have "length c = 8" using length_convert_8_5 [OF c(1)] len by simp
  with c show ?thesis
    unfolding CalcChecksum_def Let_def convert_res_def low_def [symmetric] by (simp add: symbols_def)
qed

lemma CalcAddressType_ne: "h \<noteq> [] \<Longrightarrow> \<exists>t. CalcAddressType h = Inr t"
  by (simp add: CalcAddressType_def Let_def)

text \<open>The address that the constructors build from 20 bytes on network \<open>i\<close>.\<close>

definition address_of :: "bytes \<Rightarrow> u32 \<Rightarrow> bytes \<Rightarrow> bytes \<Rightarrow> AddressType \<Rightarrow> Address" where
  "address_of h i b c t =
     \<lparr>networkType = NetworkType_of_id i, addressType = t, body = b, checksum = c, hex = h, networkID = Some i\<rparr>"

lemma NewFromBytes_20:
  assumes "length h = 20" "unat i < 2 ^ 31"
  shows "\<exists>b c t. NewFromBytes h i (Address_init j) = Inr (1, address_of h i b c t) \<and>
    symbols b \<and> length b = 34 \<and> ToHexAddress b = Inr (VersionByte_of 0, h) \<and>
    CalcChecksum (NetworkType_of_id i) b = Inr c \<and> symbols c \<and> length c = 8 \<and> CalcAddressType h = Inr t"
proof -
  obtain b where b: "Body_of_address (CalcVersionByte h) h = Inr b" "symbols b" "length b = 34"
      "ToHexAddress b = Inr (VersionByte_of 0, h)"
    using Body_of_address_20 [OF assms(1)] by blast
  obtain c where c: "CalcChecksum (NetworkType_of_id i) b = Inr c" "symbols c" "length c = 8"
    using CalcChecksum_parts by blast
  obtain t where t: "CalcAddressType h = Inr t"
    using CalcAddressType_ne [of h] assms(1) by (cases "h = []") auto
  show ?thesis
    using b c t network_facts(1) [OF assms(2)]
    by (simp add: NewFromBytes_def setCache_def Address_init_def address_of_def)
qed

lemma hexdigit_facts:
  assumes "n < 16"
  shows "hex_char (hexdigits ! n)" "tolower (hexdigits ! n) = hexdigits ! n"
proof -
  have "\<forall>n < 16. hex_char (hexdigits ! n) \<and> tolower (hexdigits ! n) = hexdigits ! n" by code_simp
  then show "hex_char (hexdigits ! n)" "tolower (hexdigits ! n) = hexdigits ! n" using assms by blast+
qed

lemma hex_pairs_facts: "list_all hex_char (hex_pairs h)" "tolower_string (hex_pairs h) = hex_pairs h"
  by (induction h) (simp_all add: tolower_string_def hi_digit_def lo_digit_def hexdigit_facts)

lemma tolower_0x: "tolower_string (''0x'' @ s) = ''0x'' @ tolower_string s"
proof -
  have "tolower (CHR ''0'') = CHR ''0''" "tolower (CHR ''x'') = CHR ''x''" by code_simp+
  then show ?thesis by (simp add: tolower_string_def)
qed

lemma Address_ctor_hex:
  assumes "length h = 20"
  shows "Address_ctor (''0x'' @ toHex h) i = bind_res (NewFromBytes h i (Address_init i)) (\<lambda>(_, a). Inr a)"
proof -
  have lower: "tolower_string (''0x'' @ hex_pairs h) = ''0x'' @ hex_pairs h"
    unfolding tolower_0x hex_pairs_facts ..
  have match: "match_hex (''0x'' @ hex_pairs h)"
    using hex_pairs_facts(1) [of h] assms by (simp add: match_hex_def)
  have "NewFromHex (''0x'' @ hex_pairs h) i a = NewFromBytes h i a" for a
    by (simp add: NewFromHex_def starts_with_def DecodeString_hex_pairs)
  then show ?thesis
    unfolding Address_ctor_def Address_New_def toHex_eq lower Let_def using match by simp
qed

section \<open>Base-32 addresses\<close>

lemma takeWhile_colon: "CHR '':'' \<notin> set p \<Longrightarrow> takeWhile (\<lambda>c. c \<noteq> CHR '':'') (p @ CHR '':'' # s) = p"
  by (induction p) auto

lemma match_base32_plain:
  assumes "match_prefix p" "CHR '':'' \<notin> set p" "list_all word_char w" "length w = 42"
  shows "match_base32 (p @ '':'' @ w)"
  using assms takeWhile_colon [OF assms(2), of w] by (simp add: match_base32_def match_tail_def)

lemma match_hex_no_colon: "CHR '':'' \<in> set s \<Longrightarrow> \<not> match_hex s"
proof
  assume c: "CHR '':'' \<in> set s" and m: "match_hex s"
  have "set s = set (take 2 s) \<union> set (drop 2 s)" by (metis append_take_drop_id set_append)
  moreover have "\<not> hex_char (CHR '':'')" by code_simp
  ultimately show False using c m by (auto simp: match_hex_def list_all_iff)
qed

lemma split_two:
  "CHR '':'' \<notin> set p \<Longrightarrow> CHR '':'' \<notin> set w \<Longrightarrow> split_string (p @ '':'' @ w) (CHR '':'') = [p, w]"
  using split_spec_sep [of "CHR '':''" p w] by (simp add: split_string_eq split_spec_no_sep)

lemma tolower_append: "tolower_string (xs @ ys) = tolower_string xs @ tolower_string ys"
  by (simp add: tolower_string_def)

lemma tolower_colon: "tolower_string '':'' = '':''"
  by code_simp

lemma NewFromBase32_plain:
  assumes h: "length h = 20" and i: "unat i < 2 ^ 31"
    and b: "symbols b" "length b = 34" "ToHexAddress b = Inr (VersionByte_of 0, h)"
    and c: "CalcChecksum (NetworkType_of_id i) b = Inr c" "symbols c" "length c = 8"
    and t: "CalcAddressType h = Inr t"
  shows "NewFromBase32 (NetworkType_of_id i @ '':'' @ symbol_string b @ symbol_string c) (Address_init j)
       = Inr (1, address_of h i b c t)"
proof -
  let ?nt = "NetworkType_of_id i" and ?w = "symbol_string b @ symbol_string c"
  note nt = network_facts [OF i]
  note sb = symbol_string_facts [OF b(1)] and sc = symbol_string_facts [OF c(2)]
  have lower: "tolower_string (?nt @ '':'' @ ?w) = ?nt @ '':'' @ ?w"
    unfolding tolower_append tolower_colon nt sb sc ..
  have split: "split_string (?nt @ '':'' @ ?w) (CHR '':'') = [?nt, ?w]"
    by (rule split_two) (use nt sb sc in auto)
  have n: "length ?w - 8 = length (symbol_string b)" "\<not> length ?w < 8" using sc c by simp_all
  have setc: "setCache (Address_init j\<lparr>networkType := ?nt, body := b, addressType := t, checksum := c\<rparr>)
      = Inr (address_of h i b c t)"
    using b(3) nt(1) by (simp add: setCache_def Address_init_def address_of_def)
  show ?thesis
    unfolding NewFromBase32_def lower split Let_def
    using n b c t sb sc setc by (simp add: bits5sToString_symbols)
qed

section \<open>Properties\<close>

text \<open>
  C5: every 20-byte address on a network with identifier below \<open>2 ^ 31\<close> is built from its
  hexadecimal form, prints as a base-32 address, and the printed string is read back, on the same
  network, to the very same object: network, type, body, checksum, hexadecimal cache and network
  identifier.
\<close>

theorem address_base32_roundtrip:
  assumes "length h = 20" "unat i < 2 ^ 31"
  shows "\<exists>a s. Address_ctor (''0x'' @ toHex h) i = Inr a \<and> hex a = h \<and> networkID a = Some i \<and>
    GetBase32Address a = Inr s \<and> Address_ctor s i = Inr a"
proof -
  obtain b c t where new: "NewFromBytes h i (Address_init i) = Inr (1, address_of h i b c t)"
    and b: "symbols b" "length b = 34" "ToHexAddress b = Inr (VersionByte_of 0, h)"
    and c: "CalcChecksum (NetworkType_of_id i) b = Inr c" "symbols c" "length c = 8"
    and t: "CalcAddressType h = Inr t"
    using NewFromBytes_20 [OF assms] by blast
  let ?a = "address_of h i b c t" and ?nt = "NetworkType_of_id i"
  let ?s = "?nt @ '':'' @ symbol_string b @ symbol_string c"
  note nt = network_facts [OF assms(2)]
  note sb = symbol_string_facts [OF b(1)] and sc = symbol_string_facts [OF c(2)]
  have "Address_ctor (''0x'' @ toHex h) i = Inr ?a"
    unfolding Address_ctor_hex [OF assms(1)] new by simp
  moreover have "GetBase32Address ?a = Inr ?s"
    using nt(5) b c sb sc
    by (simp add: GetBase32Address_def address_of_def bits5sToString_symbols sprintf128_def)
  moreover have "Address_ctor ?s i = Inr ?a"
  proof -
    have lower: "tolower_string ?s = ?s"
      unfolding tolower_append tolower_colon nt sb sc ..
    have match: "\<not> match_hex ?s" "match_base32 ?s"
      using match_hex_no_colon [of ?s] match_base32_plain [OF nt(3,4), of "symbol_string b @ symbol_string c"]
        b c sb sc by auto
    show ?thesis
      unfolding Address_ctor_def Address_New_def lower Let_def
      using match NewFromBase32_plain [OF assms b c t, of i] nt(1) by (simp add: address_of_def)
  qed
  ultimately show ?thesis by (auto simp: address_of_def)
qed

theorem address_base32_roundtrip_witness:
  "\<exists>a s. Address_ctor (''0x'' @ toHex (replicate 20 0x1a)) 1029 = Inr a \<and> hex a = replicate 20 0x1a \<and>
    networkID a = Some 1029 \<and> GetBase32Address a = Inr s \<and> Address_ctor s 1029 = Inr a"
  by (rule address_base32_roundtrip) simp_all

text \<open>
  C22: the checksum of an address changes whenever exactly one symbol of the body changes, in any
  position and on any network: a single mistyped symbol is always detected.
\<close>

theorem checksum_detects_substitution:
  assumes "a \<noteq> b"
  shows "CalcChecksum nt (xs @ a # ys) \<noteq> CalcChecksum nt (xs @ b # ys)"
proof
  assume eq: "CalcChecksum nt (xs @ a # ys) = CalcChecksum nt (xs @ b # ys)"
  define pre where "pre = map (\<lambda>c. byte_of_char c AND 0x1F) nt @ [0] @ xs"
  define p where "p x = polymod (pre @ x # ys @ replicate 8 0)" for x
  define low where "low x = drop 3 (uint64ToBytes (p x))" for x
  have calc: "CalcChecksum nt (xs @ x # ys) = convert_res (low x) 8 5" for x
    by (simp add: CalcChecksum_def Let_def low_def p_def pre_def)
  have "low a = low b"
    using eq convert_roundtrip [of 5 "low a"] convert_roundtrip [of 5 "low b"]
    by (auto simp: calc convert_res_def)
  moreover have "unat (p x) = be_nat (low x)" for x
  proof -
    have "nat_be 8 v = nat_be 3 (v div 256 ^ 5) @ nat_be 5 v" for v
      using nat_be_add [of 3 5 v] by simp
    then have "low x = nat_be 5 (unat (p x))" by (simp add: low_def uint64ToBytes_eq)
    moreover have "unat (p x) < 256 ^ 5" using polymod_less by (simp add: p_def)
    ultimately show ?thesis by simp
  qed
  ultimately have "p a = p b" by (simp add: word_unat_eq_iff)
  then show False using assms polymod_single_symbol by (auto simp: p_def)
qed

theorem checksum_detects_substitution_witness:
  "CalcChecksum ''cfx'' ([] @ 3 # replicate 33 0) \<noteq> CalcChecksum ''cfx'' ([] @ 4 # replicate 33 0)"
  by (rule checksum_detects_substitution) simp

text \<open>
  Regrouping into symbols of any width from one to seven bits and back returns the original
  bytes: \<open>convert(convert(data, 8, n), n, 8) == data\<close>, and every symbol fits its width.
\<close>

theorem convert_inverse:
  assumes "0 < n" "n < 8"
  shows "\<exists>syms. convert data 8 n = Some syms \<and> (\<forall>r \<in> set syms. unat r < 2 ^ n) \<and> convert syms n 8 = Some data"
  using assms by (rule convert_roundtrip)

theorem convert_inverse_witness:
  "\<exists>syms. convert [0x12, 0xff] 8 5 = Some syms \<and> (\<forall>r \<in> set syms. unat r < 2 ^ 5)
     \<and> convert syms 5 8 = Some [0x12, 0xff]"
  by (rule convert_inverse) simp_all

text \<open>
  \<open>Address::operator==\<close> compares the body of its argument with itself, so it decides on the
  network, the type and the 40-bit checksum alone.
\<close>

theorem address_eq_ignores_body:
  "Address_eq a b \<longleftrightarrow>
     networkType a = networkType b \<and> addressType a = addressType b \<and> checksum a = checksum b"
  by (auto simp: Address_eq_def AddressType_String_def)

text \<open>
  Characters outside the base-32 alphabet are read as the symbol zero: a body in which any of
  them replaces an \<open>a\<close> is accepted as the same body.
\<close>

theorem foreign_symbols_read_as_zero:
  assumes "\<forall>c \<in> set u. c \<notin> set alphabet"
  shows "Body_of_string (xs @ u @ ys) = Body_of_string (xs @ replicate (length u) (CHR ''a'') @ ys)"
proof -
  have "alphabetToIndexMap c = alphabetToIndexMap (CHR ''a'')" if "c \<notin> set alphabet" for c
  proof -
    have none: "map_of (zip alphabet [0..<32]) c = None"
      using that by (auto simp: map_of_eq_None_iff dest: set_zip_leftD)
    have "alphabetToIndexMap c = 0"
      unfolding alphabetToIndexMap_def length_alphabet none by simp
    moreover have "alphabetToIndexMap (CHR ''a'') = 0" by code_simp
    ultimately show ?thesis by simp
  qed
  then have "map alphabetToIndexMap u = replicate (length u) (alphabetToIndexMap (CHR ''a''))"
    using assms by (induction u) auto
  then show ?thesis by (simp add: Body_of_string_def map_replicate)
qed

theorem foreign_symbols_read_as_zero_witness:
  "Body_of_string (''b'' @ ''oil'' @ ''c'') = Body_of_string (''b'' @ replicate (length ''oil'') (CHR ''a'') @ ''c'')"
  by (rule foreign_symbols_read_as_zero) (simp add: alphabet_def)

end
