(* ===== verification/Abi_Value.thy ===== *)
theory Abi_Value
  imports Common_Data String_Util
begin

text \<open>
  The value layer of \<^verbatim>\<open>libcfxcore/abi\<close>: \<^verbatim>\<open>Data\<close>, \<^verbatim>\<open>uint256.h\<close>, \<^verbatim>\<open>HexCoding.h\<close>,
  \<^verbatim>\<open>ValueEncoder\<close> and \<^verbatim>\<open>ValueDecoder\<close>.  \<open>uint256_t\<close> is a 256-bit word; Boost's
  \<open>int256_t\<close> is a sign and a 256-bit magnitude, here an \<open>int\<close>.  What the code takes from Boost is
  collected in the record \<open>boost\<close>, with what it relies on as the locale \<open>boost_laws\<close>; the locale
  is interpreted on the repository's own big-endian codec.
\<close>

section \<open>Boost\<close>

record boost =
  export_bits :: "u256 \<Rightarrow> bytes"
  import_bits :: "bytes \<Rightarrow> u256"
  narrow :: "nat \<Rightarrow> bool \<Rightarrow> u256 \<Rightarrow> int"
  to_u256 :: "int \<Rightarrow> u256"
  to_i256 :: "u256 \<Rightarrow> int"
  boost_starts_with :: "string \<Rightarrow> string \<Rightarrow> bool"
  boost_ends_with :: "string \<Rightarrow> string \<Rightarrow> bool"

definition int_range :: "nat \<Rightarrow> bool \<Rightarrow> int set" where
  "int_range bits sg =
     (if sg then {- (2 ^ (bits - 1)) ..< 2 ^ (bits - 1)} else {0 ..< 2 ^ bits})"

text \<open>
  The documented behaviour: \<open>export_bits\<close> writes the big-endian bytes of a value, \<open>import_bits\<close>
  reads up to 32 of them, a conversion to a built-in type yields a value of that type and is exact
  when the type can represent the value, conversion to \<open>uint256_t\<close> is modular, and conversion to
  \<open>int256_t\<close> keeps the value.
\<close>

locale boost_laws =
  fixes B :: boost
  assumes export_short: "length (export_bits B v) \<le> 32"
    and export_value: "be_nat (export_bits B v) = unat v"
    and import_value: "length bs \<le> 32 \<Longrightarrow> unat (import_bits B bs) = be_nat bs"
    and narrow_range: "0 < n \<Longrightarrow> narrow B n sg v \<in> int_range n sg"
    and narrow_exact: "int (unat v) \<in> int_range n sg \<Longrightarrow> narrow B n sg v = int (unat v)"
    and to_u256_mod: "to_u256 B i = of_int i"
    and to_i256_value: "to_i256 B v = int (unat v)"
    and starts_with_law: "boost_starts_with B s p \<longleftrightarrow> (\<exists>t. s = p @ t)"
    and ends_with_law: "boost_ends_with B s p \<longleftrightarrow> (\<exists>t. s = t @ p)"

section \<open>Data and uint256\<close>

definition pad_left :: "bytes \<Rightarrow> u32 \<Rightarrow> bytes option" where
  "pad_left d sz =
     (if length d \<le> unat sz then Some (replicate (unat sz - length d) 0 @ d) else None)"

definition subData :: "bytes \<Rightarrow> nat \<Rightarrow> nat \<Rightarrow> bytes option" where
  "subData d index n =
     (let subLength = (if size_add index n > length d then (length d + 2 ^ 64 - index) mod 2 ^ 64 else n) in
      if index + subLength \<le> length d then Some (take subLength (drop index d)) else None)"

definition dumpHex :: "bytes \<Rightarrow> bool \<Rightarrow> string" where
  "dumpHex d addSpace =
     concat (map (\<lambda>b. [hexdigits ! (unat b div 16), hexdigits ! (unat b mod 16)] @ (if addSpace then '' '' else [])) d)"

definition abi_hex :: "bytes \<Rightarrow> string" where
  "abi_hex d = concat (map (\<lambda>v. [hexdigits ! unat (drop_bit 4 v), hexdigits ! unat (v AND 0x0f)]) d)"

definition hexEncoded :: "bytes \<Rightarrow> string" where
  "hexEncoded d = ''0x'' @ abi_hex d"

definition abi_load :: "boost \<Rightarrow> bytes \<Rightarrow> u256" where
  "abi_load B d = (if d = [] then 0 else import_bits B d)"

datatype abi_error =
  NullDeref | UndefinedRange | AssertFailed | AbiInvalidArgument | AbiOutOfRange | LengthError | OutOfFuel

definition loadWithOffset :: "boost \<Rightarrow> bytes \<Rightarrow> nat \<Rightarrow> abi_error + u256" where
  "loadWithOffset B d offset =
     (if d = [] \<or> length d < size_add 32 offset then Inr 0
      else if offset + 32 \<le> length d then Inr (import_bits B (take 32 (drop offset d)))
      else Inl UndefinedRange)"

definition abi_store :: "boost \<Rightarrow> u256 \<Rightarrow> bytes" where
  "abi_store B v = export_bits B v"

definition encode256BE :: "boost \<Rightarrow> bytes \<Rightarrow> u256 \<Rightarrow> u32 \<Rightarrow> bytes" where
  "encode256BE B d v digit =
     (let bs = abi_store B v; n = unat digit div 8;
          buff = fold (\<lambda>i buff. if int n - int (length bs) + int i \<ge> 0
                                then buff[nat (int n - int (length bs) + int i) := bs ! i] else buff)
                   [0..<length bs] (replicate n 0)
      in d @ buff)"

section \<open>ValueEncoder\<close>

definition encodedIntSize :: nat where
  "encodedIntSize = 32"

definition paddedTo32 :: "nat \<Rightarrow> nat" where
  "paddedTo32 len = ((len + 31) div 32) * 32"

definition padNeeded32 :: "nat \<Rightarrow> nat" where
  "padNeeded32 len = ((len + 31) div 32) * 32 - len"

definition encodeBool :: "bool \<Rightarrow> bytes \<Rightarrow> bytes" where
  "encodeBool v inout =
     (let d = inout @ replicate encodedIntSize 0 in d[length d - 1 := (if v then 1 else 0)])"

definition paddedOnLeft :: "bytes \<Rightarrow> bytes" where
  "paddedOnLeft inout =
     (let paddingSize = int encodedIntSize - int (length inout) in
      if paddingSize \<le> 0 then inout else replicate (nat paddingSize) 0 @ inout)"

definition encodeUInt256 :: "boost \<Rightarrow> u256 \<Rightarrow> bytes \<Rightarrow> bytes" where
  "encodeUInt256 B v inout = inout @ paddedOnLeft (abi_store B v)"

definition encodeUInt32 :: "boost \<Rightarrow> u32 \<Rightarrow> bytes \<Rightarrow> bytes" where
  "encodeUInt32 B v inout = encodeUInt256 B (to_u256 B (int (unat v))) inout"

definition uint256FromInt256 :: "boost \<Rightarrow> int \<Rightarrow> u256" where
  "uint256FromInt256 B x = (if x \<ge> 0 then to_u256 B x else NOT (to_u256 B (- (x + 1))))"

definition int256FromUint256 :: "boost \<Rightarrow> u256 \<Rightarrow> int" where
  "int256FromUint256 B x =
     (let maxNeg = push_bit 255 1 in
      if x \<le> maxNeg then to_i256 B x else - to_i256 B (NOT x) - 1)"

definition encodeInt256 :: "boost \<Rightarrow> int \<Rightarrow> bytes \<Rightarrow> bytes" where
  "encodeInt256 B v inout = encodeUInt256 B (uint256FromInt256 B v) inout"

definition encodeInt32 :: "boost \<Rightarrow> 32 word \<Rightarrow> bytes \<Rightarrow> bytes" where
  "encodeInt32 B v inout = encodeInt256 B (sint v) inout"

text \<open>The argument \<open>keccak\<close> stands for the Keccak-256 of the ethash library.\<close>

definition encodeBytesWithHash :: "(bytes \<Rightarrow> bytes) \<Rightarrow> bytes \<Rightarrow> bytes \<Rightarrow> abi_error + bytes" where
  "encodeBytesWithHash keccak d inout =
     (let res = keccak d in if length res = encodedIntSize then Inr (inout @ res) else Inl AssertFailed)"

text \<open>\<open>dev::Address address(value)\<close> is the zero address unless the length is 20.\<close>

definition encodeAddress :: "bytes \<Rightarrow> bytes \<Rightarrow> bytes" where
  "encodeAddress v inout = inout @ paddedOnLeft (if length v = 20 then v else replicate 20 0)"

definition encodeString_hash :: "(bytes \<Rightarrow> bytes) \<Rightarrow> string \<Rightarrow> bytes \<Rightarrow> abi_error + bytes" where
  "encodeString_hash keccak v inout = encodeBytesWithHash keccak (asBytes v) inout"

definition encodeBytes :: "bytes \<Rightarrow> bytes \<Rightarrow> bytes" where
  "encodeBytes v inout =
     (let len = (if length v > encodedIntSize then encodedIntSize else length v);
          d = inout @ replicate encodedIntSize 0; p = length d - encodedIntSize
      in take p d @ take len v @ drop (p + len) d)"

definition encodeBytesDyn :: "(bytes \<Rightarrow> bytes) \<Rightarrow> bytes \<Rightarrow> bytes \<Rightarrow> abi_error + bytes" where
  "encodeBytesDyn keccak v inout = encodeBytesWithHash keccak v inout"

definition decodeUInt256 :: "boost \<Rightarrow> bytes \<Rightarrow> abi_error + u256" where
  "decodeUInt256 B d =
     (if length d > 32
      then (case subData d 0 32 of None \<Rightarrow> Inl UndefinedRange | Some s \<Rightarrow> Inr (abi_load B s))
      else Inr (abi_load B d))"

text \<open>\<open>ABI::decode\<close> of \<open>ParamNumber.h\<close>: success, the value, the new offset.\<close>

definition abi_decode_u256 :: "boost \<Rightarrow> bytes \<Rightarrow> nat \<Rightarrow> abi_error + (bool \<times> u256 \<times> nat)" where
  "abi_decode_u256 B encoded offset =
     (if encoded = [] \<or> length encoded < size_add encodedIntSize offset then Inr (False, 0, offset)
      else bind_res (loadWithOffset B encoded offset) (\<lambda>v.
        Inr (True, v, size_add offset encodedIntSize)))"

section \<open>Padding\<close>

lemma paddedTo32_mult [simp]: "paddedTo32 (32 * n) = 32 * n"
  by (simp add: paddedTo32_def)

lemma paddedTo32_dvd: "32 dvd n \<Longrightarrow> paddedTo32 n = n"
  by (auto elim!: dvdE)

lemma dvd_paddedTo32 [simp]: "32 dvd paddedTo32 n"
  by (simp add: paddedTo32_def)

lemma paddedTo32_ge: "n \<le> paddedTo32 n"
  by (simp add: paddedTo32_def)

lemma padNeeded32_eq: "n + padNeeded32 n = paddedTo32 n"
  using paddedTo32_ge [of n] by (simp add: padNeeded32_def paddedTo32_def)

lemma paddedTo32_add: "32 dvd m \<Longrightarrow> paddedTo32 (m + n) = m + paddedTo32 n"
proof -
  assume "32 dvd m"
  then obtain k where "m = 32 * k" by (elim dvdE)
  moreover have "(32 * k + (n + 31)) div 32 = k + (n + 31) div 32" by (rule div_mult_self4) simp
  ultimately show ?thesis by (simp add: paddedTo32_def add.assoc)
qed

section \<open>Words\<close>

text \<open>The 32 bytes of a word.\<close>

definition word32 :: "nat \<Rightarrow> bytes" where
  "word32 n = nat_be 32 n"

lemma length_word32 [simp]: "length (word32 n) = 32"
  by (simp add: word32_def)

lemma word32_of_nat [simp]: "word32 (unat (of_nat n :: u256)) = word32 n"
  by (rule be_nat_inj) (simp_all add: word32_def be_nat_nat_be unat_of_nat)

context boost_laws
begin

lemma paddedOnLeft_store: "paddedOnLeft (abi_store B v) = word32 (unat v)"
proof (rule be_nat_inj)
  have "length (export_bits B v) \<le> 32" by (rule export_short)
  then show "length (paddedOnLeft (abi_store B v)) = length (word32 (unat v))"
    by (simp add: paddedOnLeft_def abi_store_def encodedIntSize_def Let_def nat_diff_distrib)
  have "unat v < 256 ^ 32" using unsigned_less [of v, where ?'a = nat] by simp
  then show "be_nat (paddedOnLeft (abi_store B v)) = be_nat (word32 (unat v))"
    using export_value [of v]
    by (simp add: paddedOnLeft_def abi_store_def Let_def word32_def be_nat_nat_be)
qed

lemma encodeUInt256_word: "encodeUInt256 B v d = d @ word32 (unat v)"
  by (simp add: encodeUInt256_def paddedOnLeft_store)

lemma encodeUInt256_nat: "encodeUInt256 B (of_nat n) d = d @ word32 n"
  by (simp add: encodeUInt256_word)

lemma import_word32: "n < 2 ^ 256 \<Longrightarrow> import_bits B (word32 n) = of_nat n"
proof -
  assume n: "n < 2 ^ 256"
  have "unat (import_bits B (word32 n)) = be_nat (word32 n)" by (rule import_value) simp
  also have "\<dots> = n" using n by (simp add: word32_def be_nat_nat_be)
  finally show ?thesis by (metis word_of_nat_eq_iff unat_of_nat of_nat_unat ucast_id)
qed

lemma decode_word32:
  assumes "n < 2 ^ 256" "length pre + 32 < 2 ^ 64"
  shows "abi_decode_u256 B (pre @ word32 n @ post) (length pre) = Inr (True, of_nat n, length pre + 32)"
proof -
  have "take 32 (drop (length pre) (pre @ word32 n @ post)) = word32 n" by simp
  moreover have "word32 n \<noteq> []" by (metis length_word32 list.size(3) zero_neq_numeral)
  ultimately show ?thesis
    using assms by (simp add: abi_decode_u256_def loadWithOffset_def encodedIntSize_def import_word32)
qed

lemma uint_of_int_roundtrip:
  "- (2 ^ 255) \<le> x \<Longrightarrow> x < 2 ^ 255 \<Longrightarrow> uint256FromInt256 B x = of_int x"
  by (simp add: uint256FromInt256_def to_u256_mod not_eq_complement)

end

section \<open>The laws hold of the repository's own codec\<close>

definition clamp :: "nat \<Rightarrow> bool \<Rightarrow> u256 \<Rightarrow> int" where
  "clamp bits sg v =
     (if sg then signed_take_bit (bits - 1) (int (unat v)) else take_bit bits (int (unat v)))"

definition repo_boost :: boost where
  "repo_boost =
     \<lparr>export_bits = (\<lambda>v. toCompactBigEndian v 1), import_bits = fromBigEndian, narrow = clamp,
      to_u256 = of_int, to_i256 = (\<lambda>v. int (unat v)),
      boost_starts_with = starts_with,
      boost_ends_with = (\<lambda>s p. length p \<le> length s \<and> drop (length s - length p) s = p)\<rparr>"

lemma signed_take_bit_range: "0 < n \<Longrightarrow> signed_take_bit (n - 1) i \<in> int_range n True" for i :: int
  by (simp add: int_range_def signed_take_bit_int_greater_eq_minus_exp signed_take_bit_int_less_exp)

interpretation repo: boost_laws repo_boost
proof
  fix v :: u256 and bs :: bytes and n :: nat and sg :: bool and i :: int and s p :: string
  have "compact_count v \<le> 32" by (rule compact_count_le) simp
  then show "length (export_bits repo_boost v) \<le> 32"
    by (simp add: repo_boost_def toCompactBigEndian_def)
  show "be_nat (export_bits repo_boost v) = unat v"
    by (simp add: repo_boost_def toCompactBigEndian_eq)
  show "length bs \<le> 32 \<Longrightarrow> unat (import_bits repo_boost bs) = be_nat bs"
  proof -
    assume "length bs \<le> 32"
    then have "(256 :: nat) ^ length bs \<le> 256 ^ 32" by (intro power_increasing) simp_all
    then have "be_nat bs < 2 ^ 256" using be_nat_less [of bs] by simp
    then show ?thesis by (simp add: repo_boost_def fromBigEndian_nat)
  qed
  show "0 < n \<Longrightarrow> narrow repo_boost n sg v \<in> int_range n sg"
    using signed_take_bit_range [of n "int (unat v)"]
    by (cases sg) (simp_all add: repo_boost_def clamp_def int_range_def)
  show "int (unat v) \<in> int_range n sg \<Longrightarrow> narrow repo_boost n sg v = int (unat v)"
    by (cases sg) (auto simp: repo_boost_def clamp_def int_range_def take_bit_int_eq_self
        intro: signed_take_bit_int_eq_self)
  show "to_u256 repo_boost i = of_int i" "to_i256 repo_boost v = int (unat v)"
    by (simp_all add: repo_boost_def)
  show "boost_starts_with repo_boost s p \<longleftrightarrow> (\<exists>t. s = p @ t)"
    by (auto simp: repo_boost_def starts_with_def) (metis append_take_drop_id)
  show "boost_ends_with repo_boost s p \<longleftrightarrow> (\<exists>t. s = t @ p)"
    by (auto simp: repo_boost_def) (metis append_take_drop_id)
qed

end
