(* ===== verification/Abi_Param.thy ===== *)
theory Abi_Param
  imports Abi_Value
begin

text \<open>
  The parameter classes of \<^verbatim>\<open>libcfxcore/abi\<close> and their encoding: \<^verbatim>\<open>ParamBase.h\<close>,
  \<^verbatim>\<open>ParamNumber\<close>, \<^verbatim>\<open>ParamAddress.h\<close>, \<^verbatim>\<open>Bytes\<close>, \<^verbatim>\<open>Array\<close> and \<^verbatim>\<open>Parameters\<close>.
  The class hierarchy is one datatype, the virtual methods are functions on it, and a \<open>ParamSet\<close>
  is the list of its parameters.  The instances of the template \<open>ParamNumberType<T>\<close> carry the
  name of \<open>T\<close> and their value as an \<open>int\<close>.  The call of a method of a null pointer is the error
  \<open>NullDeref\<close>.  Sizes are natural numbers: they are sums over objects in memory.
\<close>

section \<open>Parameters\<close>

datatype numty =
  T_UInt256 | T_UInt | T_Int256 | T_Bool | T_UInt8 | T_Int8 | T_UInt16 | T_Int16
  | T_UInt32 | T_Int32 | T_UInt64 | T_Int64

datatype param =
  ParamNumberType numty int
  | ParamUIntN nat u256
  | ParamIntN nat int
  | ParamAddress u256
  | ParamByteArray bytes
  | ParamByteArrayFix nat bytes
  | ParamString string
  | ParamArrayFix "param list"
  | ParamArray "param list"
  | Parameters "param list"

definition num_type :: "numty \<Rightarrow> string" where
  "num_type t =
     (case t of
        T_UInt256 \<Rightarrow> ''uint256'' | T_UInt \<Rightarrow> ''uint256'' | T_Int256 \<Rightarrow> ''int256'' | T_Bool \<Rightarrow> ''bool''
      | T_UInt8 \<Rightarrow> ''uint8'' | T_Int8 \<Rightarrow> ''int8'' | T_UInt16 \<Rightarrow> ''uint16'' | T_Int16 \<Rightarrow> ''int16''
      | T_UInt32 \<Rightarrow> ''uint32'' | T_Int32 \<Rightarrow> ''int32'' | T_UInt64 \<Rightarrow> ''uint64'' | T_Int64 \<Rightarrow> ''int64'')"

section \<open>Masked integers\<close>

definition maskForBits :: "nat \<Rightarrow> abi_error + u256" where
  "maskForBits bits =
     (if bits \<ge> 8 \<and> bits \<le> 256 \<and> bits mod 8 = 0 \<and>
         bits \<noteq> 8 \<and> bits \<noteq> 16 \<and> bits \<noteq> 32 \<and> bits \<noteq> 64 \<and> bits \<noteq> 256
      then Inr (push_bit bits 1 - 1) else Inl AssertFailed)"

definition ParamUIntN_setVal :: "nat \<Rightarrow> u256 \<Rightarrow> abi_error + param" where
  "ParamUIntN_setVal bits v = bind_res (maskForBits bits) (\<lambda>m. Inr (ParamUIntN bits (v AND m)))"

definition ParamIntN_setVal :: "boost \<Rightarrow> nat \<Rightarrow> int \<Rightarrow> abi_error + param" where
  "ParamIntN_setVal B bits v =
     bind_res (maskForBits bits) (\<lambda>m.
       Inr (ParamIntN bits
         (if v < 0 then int256FromUint256 B (NOT (NOT (to_u256 B v) AND m))
          else int256FromUint256 B (to_u256 B v AND m))))"

definition ParamAddress_of :: "boost \<Rightarrow> bytes \<Rightarrow> param" where
  "ParamAddress_of B v = ParamAddress (abi_load B v AND (push_bit 160 1 - 1))"

definition ParamAddress_getData :: "boost \<Rightarrow> u256 \<Rightarrow> bytes" where
  "ParamAddress_getData B v =
     (let d = abi_store B v in if length d \<ge> 20 then d else replicate (20 - length d) 0 @ d)"

section \<open>Types and sizes\<close>

fun join_types :: "string list \<Rightarrow> string" where
  "join_types [] = []"
| "join_types [t] = t"
| "join_types (t # ts) = t @ '','' @ join_types ts"

fun getType :: "param \<Rightarrow> string" where
  "getType (ParamNumberType t v) = num_type t"
| "getType (ParamUIntN bits v) = ''uint'' @ show_nat bits"
| "getType (ParamIntN bits v) = ''int'' @ show_nat bits"
| "getType (ParamAddress v) = ''address''"
| "getType (ParamByteArray bs) = ''bytes''"
| "getType (ParamByteArrayFix n bs) = ''bytes'' @ show_nat n"
| "getType (ParamString s) = ''string''"
| "getType (ParamArrayFix ps) =
     (case ps of [] \<Rightarrow> ''empty'' | p # _ \<Rightarrow> getType p) @ ''['' @ show_nat (length ps) @ '']''"
| "getType (ParamArray ps) = (case ps of [] \<Rightarrow> ''empty'' | p # _ \<Rightarrow> getType p) @ ''[]''"
| "getType (Parameters ps) = ''('' @ join_types (map getType ps) @ '')''"

definition ParamSet_getType :: "param list \<Rightarrow> string" where
  "ParamSet_getType ps = ''('' @ join_types (map getType ps) @ '')''"

definition getFirstType :: "param list \<Rightarrow> string" where
  "getFirstType ps = (case ps of [] \<Rightarrow> ''empty'' | p # _ \<Rightarrow> getType p)"

text \<open>\<open>addParam\<close> on arrays: the new list and the returned index or error code.\<close>

definition array_addParam :: "param list \<Rightarrow> param \<Rightarrow> param list \<times> int" where
  "array_addParam ps p =
     (if length ps \<ge> 1 \<and> getType p \<noteq> getFirstType ps then (ps, -2)
      else (ps @ [p], int (length ps)))"

definition array_addParams :: "param list \<Rightarrow> param list \<Rightarrow> param list" where
  "array_addParams ps qs = fold (\<lambda>q ps. fst (array_addParam ps q)) qs ps"

definition getParam :: "param list \<Rightarrow> int \<Rightarrow> param option" where
  "getParam ps i = (if i \<ge> int (length ps) \<or> i < 0 then None else Some (ps ! nat i))"

definition getParamUnsafe :: "param list \<Rightarrow> int \<Rightarrow> param option" where
  "getParamUnsafe ps i =
     (if length ps = 0 then None
      else if i \<ge> int (length ps) \<or> i < 0 then Some (ps ! 0)
      else Some (ps ! nat i))"

fun isDynamic :: "param \<Rightarrow> abi_error + bool" where
  "isDynamic (ParamByteArray bs) = Inr True"
| "isDynamic (ParamString s) = Inr True"
| "isDynamic (ParamArray ps) = Inr True"
| "isDynamic (Parameters ps) = Inr True"
| "isDynamic (ParamArrayFix ps) = (case ps of [] \<Rightarrow> Inl NullDeref | p # _ \<Rightarrow> isDynamic p)"
| "isDynamic _ = Inr False"

definition isFixArray :: "param \<Rightarrow> bool" where
  "isFixArray p = (case p of ParamArrayFix ps \<Rightarrow> True | _ \<Rightarrow> False)"

fun getSize :: "param \<Rightarrow> abi_error + nat"
and set_size_loop :: "param list \<Rightarrow> nat \<Rightarrow> abi_error + nat" where
  "getSize (ParamNumberType t v) = Inr encodedIntSize"
| "getSize (ParamUIntN bits v) = Inr encodedIntSize"
| "getSize (ParamIntN bits v) = Inr encodedIntSize"
| "getSize (ParamAddress v) = Inr encodedIntSize"
| "getSize (ParamByteArray bs) = Inr (32 + paddedTo32 (length bs))"
| "getSize (ParamByteArrayFix n bs) = Inr (paddedTo32 (length bs))"
| "getSize (ParamString s) = Inr (32 + paddedTo32 (length s))"
| "getSize (ParamArrayFix ps) = bind_res (set_size_loop ps 0) (\<lambda>s. Inr (paddedTo32 s))"
| "getSize (ParamArray ps) = bind_res (set_size_loop ps 0) (\<lambda>s. Inr (32 + paddedTo32 s))"
| "getSize (Parameters ps) = bind_res (set_size_loop ps 0) (\<lambda>s. Inr (paddedTo32 s))"
| "set_size_loop [] s = Inr s"
| "set_size_loop (p # ps) s =
     bind_res (isDynamic p) (\<lambda>d.
     bind_res (if d then Inr True else bind_res (getSize p) (\<lambda>n. Inr (n > encodedIntSize))) (\<lambda>offset.
     bind_res (getSize p) (\<lambda>n. set_size_loop ps (s + (if offset then 32 else 0) + n))))"

definition ParamSet_getSize :: "param list \<Rightarrow> abi_error + nat" where
  "ParamSet_getSize ps = bind_res (set_size_loop ps 0) (\<lambda>s. Inr (paddedTo32 s))"

fun getHeadSize_loop :: "param list \<Rightarrow> nat \<Rightarrow> abi_error + nat" where
  "getHeadSize_loop [] s = Inr s"
| "getHeadSize_loop (p # ps) s =
     bind_res (isDynamic p) (\<lambda>d.
     bind_res (if d then Inr 32 else getSize p) (\<lambda>n. getHeadSize_loop ps (s + n)))"

definition getHeadSize :: "param list \<Rightarrow> abi_error + nat" where
  "getHeadSize ps = getHeadSize_loop ps 0"

section \<open>Encoding\<close>

definition ParamByteArray_encodeBytes :: "boost \<Rightarrow> bytes \<Rightarrow> bytes \<Rightarrow> bytes" where
  "ParamByteArray_encodeBytes B bs d =
     encodeUInt256 B (of_nat (length bs)) d @ bs @ replicate (padNeeded32 (length bs)) 0"

definition ParamByteArrayFix_encode :: "bytes \<Rightarrow> bytes \<Rightarrow> bytes" where
  "ParamByteArrayFix_encode bs d = d @ bs @ replicate (padNeeded32 (length bs)) 0"

fun encode_param :: "boost \<Rightarrow> param \<Rightarrow> bytes \<Rightarrow> abi_error + bytes"
and encode_pass1 :: "boost \<Rightarrow> param list \<Rightarrow> nat \<Rightarrow> nat \<Rightarrow> bytes \<Rightarrow> abi_error + bytes"
and encode_pass2 :: "boost \<Rightarrow> param list \<Rightarrow> bytes \<Rightarrow> abi_error + bytes" where
  "encode_param B (ParamNumberType t v) d = Inr (encodeUInt256 B (to_u256 B v) d)"
| "encode_param B (ParamUIntN bits v) d = Inr (encodeUInt256 B v d)"
| "encode_param B (ParamIntN bits v) d = Inr (encodeUInt256 B (to_u256 B v) d)"
| "encode_param B (ParamAddress v) d = Inr (encodeUInt256 B v d)"
| "encode_param B (ParamByteArray bs) d = Inr (ParamByteArray_encodeBytes B bs d)"
| "encode_param B (ParamByteArrayFix n bs) d = Inr (ParamByteArrayFix_encode bs d)"
| "encode_param B (ParamString s) d = Inr (ParamByteArray_encodeBytes B (asBytes s) d)"
| "encode_param B (ParamArrayFix ps) d =
     bind_res (getHeadSize ps) (\<lambda>h. bind_res (encode_pass1 B ps h 0 d) (encode_pass2 B ps))"
| "encode_param B (ParamArray ps) d =
     bind_res (getHeadSize ps) (\<lambda>h.
       bind_res (encode_pass1 B ps h 0 (encodeUInt256 B (of_nat (length ps)) d)) (encode_pass2 B ps))"
| "encode_param B (Parameters ps) d =
     bind_res (getHeadSize ps) (\<lambda>h. bind_res (encode_pass1 B ps h 0 d) (encode_pass2 B ps))"
| "encode_pass1 B [] h off d = Inr d"
| "encode_pass1 B (p # ps) h off d =
     bind_res (isDynamic p) (\<lambda>dy.
       if dy then bind_res (getSize p) (\<lambda>n.
         encode_pass1 B ps h (off + n) (encodeUInt256 B (of_nat (h + off)) d))
       else if isFixArray p then bind_res (encode_param B p d) (encode_pass1 B ps h off)
       else bind_res (getSize p) (\<lambda>n.
         if n > encodedIntSize then encode_pass1 B ps h (off + n) (encodeUInt256 B (of_nat (h + off)) d)
         else bind_res (encode_param B p d) (encode_pass1 B ps h off)))"
| "encode_pass2 B [] d = Inr d"
| "encode_pass2 B (p # ps) d =
     bind_res (isDynamic p) (\<lambda>dy.
       if dy then bind_res (encode_param B p d) (encode_pass2 B ps)
       else if isFixArray p then encode_pass2 B ps d
       else bind_res (getSize p) (\<lambda>n.
         if n > encodedIntSize then bind_res (encode_param B p d) (encode_pass2 B ps)
         else encode_pass2 B ps d))"

definition ParamSet_encode :: "boost \<Rightarrow> param list \<Rightarrow> bytes \<Rightarrow> abi_error + bytes" where
  "ParamSet_encode B ps d =
     bind_res (getHeadSize ps) (\<lambda>h. bind_res (encode_pass1 B ps h 0 d) (encode_pass2 B ps))"

section \<open>The encoding of the contract ABI specification\<close>

text \<open>
  The reference is written after the specification and not after the code: a tuple is dynamic when
  one of its components is, a fixed array when its element type is (the type of the first element
  is that of all), and a \<open>bytesN\<close> is always one word.  The classes of the code decide differently
  for static tuples (\<open>Parameters::isDynamic\<close> is always true) and for a \<open>ParamByteArrayFix\<close> without
  bytes, which takes no word.

  A tuple of encoded components, each with the flag whether it is dynamic: the heads, in which a
  dynamic component is the offset of its tail from the start of the tuple, then the tails.
\<close>

fun head_length :: "(bool \<times> bytes) list \<Rightarrow> nat" where
  "head_length [] = 0"
| "head_length ((dy, e) # xs) = (if dy then 32 else length e) + head_length xs"

fun tuple_heads :: "nat \<Rightarrow> (bool \<times> bytes) list \<Rightarrow> bytes" where
  "tuple_heads off [] = []"
| "tuple_heads off ((dy, e) # xs) =
     (if dy then word32 off @ tuple_heads (off + length e) xs else e @ tuple_heads off xs)"

definition tuple_tails :: "(bool \<times> bytes) list \<Rightarrow> bytes" where
  "tuple_tails xs = concat (map snd (filter fst xs))"

definition abi_tuple :: "(bool \<times> bytes) list \<Rightarrow> bytes" where
  "abi_tuple xs = tuple_heads (head_length xs) xs @ tuple_tails xs"

fun dyn :: "param \<Rightarrow> bool" where
  "dyn (ParamByteArray bs) = True"
| "dyn (ParamString s) = True"
| "dyn (ParamArray ps) = True"
| "dyn (Parameters ps) = (\<exists>p \<in> set ps. dyn p)"
| "dyn (ParamArrayFix ps) = (case ps of [] \<Rightarrow> False | p # _ \<Rightarrow> dyn p)"
| "dyn _ = False"

definition pad_right :: "bytes \<Rightarrow> bytes" where
  "pad_right bs = bs @ replicate (padNeeded32 (length bs)) 0"

fun abi_enc :: "param \<Rightarrow> bytes" where
  "abi_enc (ParamNumberType t v) = word32 (unat (of_int v :: u256))"
| "abi_enc (ParamUIntN bits v) = word32 (unat v)"
| "abi_enc (ParamIntN bits v) = word32 (unat (of_int v :: u256))"
| "abi_enc (ParamAddress v) = word32 (unat v)"
| "abi_enc (ParamByteArray bs) = word32 (length bs) @ pad_right bs"
| "abi_enc (ParamByteArrayFix n bs) = take 32 (bs @ replicate 32 0)"
| "abi_enc (ParamString s) = word32 (length s) @ pad_right (asBytes s)"
| "abi_enc (ParamArrayFix ps) = abi_tuple (map (\<lambda>p. (dyn p, abi_enc p)) ps)"
| "abi_enc (ParamArray ps) = word32 (length ps) @ abi_tuple (map (\<lambda>p. (dyn p, abi_enc p)) ps)"
| "abi_enc (Parameters ps) = abi_tuple (map (\<lambda>p. (dyn p, abi_enc p)) ps)"

definition abi_enc_set :: "param list \<Rightarrow> bytes" where
  "abi_enc_set ps = abi_tuple (map (\<lambda>p. (dyn p, abi_enc p)) ps)"

text \<open>
  The trees on which the code follows the specification: a \<open>bytesN\<close> has \<open>N\<close> bytes with \<open>N\<close> from 1
  to 32, a fixed array is not empty, a tuple has a dynamic component, and below the top no static
  parameter is longer than 32 bytes.
\<close>

fun flat :: "param \<Rightarrow> bool" where
  "flat (ParamByteArrayFix n bs) = (length bs = n \<and> 1 \<le> n \<and> n \<le> 32)"
| "flat (ParamArrayFix ps) = (ps \<noteq> [] \<and> (\<forall>p \<in> set ps. flat p \<and> (dyn p \<or> length (abi_enc p) \<le> 32)))"
| "flat (ParamArray ps) = (\<forall>p \<in> set ps. flat p \<and> (dyn p \<or> length (abi_enc p) \<le> 32))"
| "flat (Parameters ps) = ((\<exists>p \<in> set ps. dyn p) \<and> (\<forall>p \<in> set ps. flat p \<and> (dyn p \<or> length (abi_enc p) \<le> 32)))"
| "flat _ = True"

section \<open>Sizes\<close>

lemma length_pad_right [simp]: "length (pad_right bs) = paddedTo32 (length bs)"
  by (simp add: pad_right_def padNeeded32_eq)

lemma paddedTo32_word: "1 \<le> n \<Longrightarrow> n \<le> 32 \<Longrightarrow> paddedTo32 n = 32"
proof -
  assume "1 \<le> n" "n \<le> 32"
  then have "(n + 31) div 32 = 1" by simp
  then show ?thesis by (simp add: paddedTo32_def)
qed

lemma padNeeded32_word: "1 \<le> n \<Longrightarrow> n \<le> 32 \<Longrightarrow> padNeeded32 n = 32 - n"
  using padNeeded32_eq [of n] paddedTo32_word [of n] by simp

lemma length_one_word [simp]: "min n 32 + (32 - n) = (32 :: nat)"
  by simp

lemma length_tuple_heads [simp]: "length (tuple_heads off xs) = head_length xs"
  by (induction off xs rule: tuple_heads.induct) simp_all

lemma tuple_tails_simps [simp]:
  "tuple_tails [] = []" "tuple_tails ((dy, e) # xs) = (if dy then e else []) @ tuple_tails xs"
  by (simp_all add: tuple_tails_def)

lemma dvd_tuple:
  "\<forall>(dy, e) \<in> set xs. 32 dvd length e \<Longrightarrow> 32 dvd head_length xs \<and> 32 dvd length (tuple_tails xs)"
  by (induction xs rule: head_length.induct) auto

lemma dvd_abi_tuple: "\<forall>(dy, e) \<in> set xs. 32 dvd length e \<Longrightarrow> 32 dvd length (abi_tuple xs)"
  using dvd_tuple [of xs] by (simp add: abi_tuple_def)

lemma dvd_abi_enc: "32 dvd length (abi_enc p)"
  by (induction p) (auto intro!: dvd_abi_tuple)

lemma dvd_abi_enc_set: "32 dvd length (abi_enc_set ps)"
  unfolding abi_enc_set_def by (rule dvd_abi_tuple) (auto simp: dvd_abi_enc)

text \<open>What the methods report of a parameter, against the encoding that the specification gives it.\<close>

definition honest :: "param \<Rightarrow> bool" where
  "honest p \<longleftrightarrow> isDynamic p = Inr (dyn p) \<and> getSize p = Inr (length (abi_enc p))"

lemma set_size_loop_eq:
  "\<forall>p \<in> set ps. honest p \<and> (dyn p \<or> length (abi_enc p) \<le> 32) \<Longrightarrow>
   set_size_loop ps s = Inr (s + length (abi_enc_set ps))"
proof (induction ps arbitrary: s)
  case (Cons p ps)
  then show ?case
    by (cases "dyn p")
      (simp_all add: honest_def encodedIntSize_def abi_enc_set_def abi_tuple_def)
qed (simp add: abi_enc_set_def abi_tuple_def)

lemma flat_honest: "flat p \<Longrightarrow> honest p"
proof (induction p)
  case (ParamArrayFix ps)
  then have *: "\<forall>p \<in> set ps. honest p \<and> (dyn p \<or> length (abi_enc p) \<le> 32)" by auto
  obtain q qs where "ps = q # qs" using ParamArrayFix by (cases ps) auto
  then have "isDynamic (ParamArrayFix ps) = Inr (dyn (ParamArrayFix ps))"
    using * by (simp add: honest_def)
  then show ?case
    using set_size_loop_eq [OF *, of 0] dvd_abi_enc_set [of ps]
    by (simp add: honest_def paddedTo32_dvd flip: abi_enc_set_def)
next
  case (ParamArray ps)
  then have *: "\<forall>p \<in> set ps. honest p \<and> (dyn p \<or> length (abi_enc p) \<le> 32)" by auto
  then show ?case
    using set_size_loop_eq [OF *, of 0] dvd_abi_enc_set [of ps]
    by (simp add: honest_def paddedTo32_dvd flip: abi_enc_set_def)
next
  case (Parameters ps)
  then have *: "\<forall>p \<in> set ps. honest p \<and> (dyn p \<or> length (abi_enc p) \<le> 32)" by auto
  have "dyn (Parameters ps)" using Parameters.prems by simp
  then show ?case
    using set_size_loop_eq [OF *, of 0] dvd_abi_enc_set [of ps]
    by (simp add: honest_def paddedTo32_dvd flip: abi_enc_set_def)
qed (simp_all add: honest_def encodedIntSize_def asBytes_def paddedTo32_word)

lemma getHeadSize_loop_eq:
  "\<forall>p \<in> set ps. honest p \<Longrightarrow>
   getHeadSize_loop ps s = Inr (s + head_length (map (\<lambda>p. (dyn p, abi_enc p)) ps))"
  by (induction ps arbitrary: s) (simp_all add: honest_def)

section \<open>The encoder computes the specified encoding\<close>

lemma static_short: "flat p \<Longrightarrow> \<not> dyn p \<Longrightarrow> \<not> isFixArray p \<Longrightarrow> length (abi_enc p) \<le> 32"
  by (cases p) (auto simp: isFixArray_def)

definition encodes :: "boost \<Rightarrow> param \<Rightarrow> bool" where
  "encodes B p \<longleftrightarrow> (\<forall>d. encode_param B p d = Inr (d @ abi_enc p))"

context boost_laws
begin

lemma pass1_eq:
  assumes "\<forall>p \<in> set ps. flat p \<and> encodes B p"
  shows "encode_pass1 B ps h off d = Inr (d @ tuple_heads (h + off) (map (\<lambda>p. (dyn p, abi_enc p)) ps))"
  using assms
proof (induction ps arbitrary: off d)
  case (Cons p ps)
  have hp: "isDynamic p = Inr (dyn p)" "getSize p = Inr (length (abi_enc p))"
    using flat_honest [of p] Cons.prems by (auto simp: honest_def)
  show ?case
  proof (cases "dyn p")
    case True
    then show ?thesis
      using Cons.IH [of "off + length (abi_enc p)" "d @ word32 (h + off)"] Cons.prems hp
      by (simp add: encodeUInt256_nat add.assoc del: of_nat_add)
  next
    case False
    then have "isFixArray p \<or> \<not> length (abi_enc p) > encodedIntSize"
      using static_short [of p] Cons.prems by (auto simp: encodedIntSize_def)
    then show ?thesis
      using Cons.IH [of off "d @ abi_enc p"] Cons.prems False hp by (auto simp: encodes_def)
  qed
qed simp

lemma pass2_eq:
  assumes "\<forall>p \<in> set ps. flat p \<and> encodes B p"
  shows "encode_pass2 B ps d = Inr (d @ tuple_tails (map (\<lambda>p. (dyn p, abi_enc p)) ps))"
  using assms
proof (induction ps arbitrary: d)
  case (Cons p ps)
  have hp: "isDynamic p = Inr (dyn p)" "getSize p = Inr (length (abi_enc p))"
    using flat_honest [of p] Cons.prems by (auto simp: honest_def)
  have "\<not> dyn p \<Longrightarrow> isFixArray p \<or> \<not> length (abi_enc p) > encodedIntSize"
    using static_short [of p] Cons.prems by (auto simp: encodedIntSize_def)
  then show ?case
    using Cons.IH [of "d @ abi_enc p"] Cons.IH [of d] Cons.prems hp by (auto simp: encodes_def)
qed simp

lemma ParamSet_encode_step:
  assumes "\<forall>p \<in> set ps. flat p \<and> encodes B p"
  shows "bind_res (getHeadSize ps) (\<lambda>h. bind_res (encode_pass1 B ps h 0 d) (encode_pass2 B ps))
       = Inr (d @ abi_enc_set ps)"
proof -
  have "\<forall>p \<in> set ps. honest p" using assms flat_honest by blast
  then show ?thesis
    using pass1_eq [OF assms, of "head_length (map (\<lambda>p. (dyn p, abi_enc p)) ps)" 0 d]
      pass2_eq [OF assms]
    by (simp add: getHeadSize_def getHeadSize_loop_eq abi_enc_set_def abi_tuple_def)
qed

lemma length_tuple_mem: "(dy, e) \<in> set xs \<Longrightarrow> length e \<le> length (abi_tuple xs)"
proof -
  have "(dy, e) \<in> set xs \<Longrightarrow> length e \<le> head_length xs + length (tuple_tails xs)"
    by (induction xs rule: head_length.induct) (auto split: if_splits)
  then show "(dy, e) \<in> set xs \<Longrightarrow> length e \<le> length (abi_tuple xs)" by (simp add: abi_tuple_def)
qed

lemma length_set_mem: "p \<in> set ps \<Longrightarrow> length (abi_enc p) \<le> length (abi_enc_set ps)"
  unfolding abi_enc_set_def by (rule length_tuple_mem [of "dyn p"]) auto

lemma encode_param_eq: "flat p \<Longrightarrow> encodes B p"
proof (induction p)
  case (ParamArrayFix ps)
  then have "\<forall>p \<in> set ps. flat p \<and> encodes B p" by auto
  then show ?case
    using ParamSet_encode_step [of ps] by (simp add: encodes_def abi_enc_set_def)
next
  case (ParamArray ps)
  then have "\<forall>p \<in> set ps. flat p \<and> encodes B p" by auto
  then show ?case
    using ParamSet_encode_step [of ps] by (simp add: encodes_def abi_enc_set_def encodeUInt256_nat)
next
  case (Parameters ps)
  then have "\<forall>p \<in> set ps. flat p \<and> encodes B p" by auto
  then show ?case
    using ParamSet_encode_step [of ps] by (simp add: encodes_def abi_enc_set_def)
qed (simp_all add: encodes_def encodeUInt256_word encodeUInt256_nat to_u256_mod
  ParamByteArray_encodeBytes_def ParamByteArrayFix_encode_def pad_right_def asBytes_def padNeeded32_word)

lemma ParamSet_encode_eq: "\<forall>p \<in> set ps. flat p \<Longrightarrow> ParamSet_encode B ps d = Inr (d @ abi_enc_set ps)"
  unfolding ParamSet_encode_def by (rule ParamSet_encode_step) (use encode_param_eq in blast)

end

end
