(* ===== verification/Abi_Decode.thy ===== *)
theory Abi_Decode
  imports Abi_Param
begin

text \<open>
  Decoding in \<^verbatim>\<open>libcfxcore/abi\<close>: \<^verbatim>\<open>ParamFactory::make\<close>, the \<open>decode\<close> methods and
  \<^verbatim>\<open>Function\<close>.  A \<open>decode\<close> method returns its result, the object as it leaves it and the
  offset, also where it fails.  Additions of offsets and lengths wrap at 64 bits as in the source;
  a range that leaves the data after such a wrap is the error \<open>UndefinedRange\<close>.  Decoding descends
  into parameters that the factory creates on the way, so it is bounded by fuel, one unit for each
  level of nesting.
\<close>

section \<open>ParamFactory\<close>

definition abi_stoi :: "string \<Rightarrow> abi_error + int" where
  "abi_stoi s =
     (case stoi s of
        Inl invalid_argument \<Rightarrow> Inl AbiInvalidArgument
      | Inl out_of_range \<Rightarrow> Inl AbiOutOfRange
      | Inr i \<Rightarrow> Inr i)"

definition parseBitSize :: "string \<Rightarrow> abi_error + nat" where
  "parseBitSize t =
     bind_res (abi_stoi t) (\<lambda>sz.
       if sz < 8 \<or> sz > 256 \<or> sz mod 8 \<noteq> 0 \<or> sz = 8 \<or> sz = 16 \<or> sz = 32 \<or> sz = 64 \<or> sz = 256
       then Inl AbiInvalidArgument else Inr (nat sz))"

definition makeUInt :: "string \<Rightarrow> abi_error + param" where
  "makeUInt t = bind_res (parseBitSize t) (\<lambda>bits. Inr (ParamUIntN bits 0))"

definition makeInt :: "string \<Rightarrow> abi_error + param" where
  "makeInt t = bind_res (parseBitSize t) (\<lambda>bits. Inr (ParamIntN bits 0))"

definition isArrayType :: "boost \<Rightarrow> string \<Rightarrow> bool" where
  "isArrayType B t = (boost_ends_with B t ''[]'' \<and> length t \<ge> 3)"

definition getArrayElemType :: "boost \<Rightarrow> string \<Rightarrow> string" where
  "getArrayElemType B t =
     (if boost_ends_with B t ''[]'' \<and> length t \<ge> 3 then take (length t - 2) t else [])"

function ParamFactory_make :: "boost \<Rightarrow> string \<Rightarrow> abi_error + param option" where
  "ParamFactory_make B t =
     (if isArrayType B t then
        bind_res (ParamFactory_make B (getArrayElemType B t)) (\<lambda>e.
          case e of None \<Rightarrow> Inr None | Some p \<Rightarrow> Inr (Some (ParamArray (array_addParams [] [p]))))
      else if t = ''address'' then Inr (Some (ParamAddress 0))
      else if t = ''uint8'' then Inr (Some (ParamNumberType T_UInt8 0))
      else if t = ''uint16'' then Inr (Some (ParamNumberType T_UInt16 0))
      else if t = ''uint32'' then Inr (Some (ParamNumberType T_UInt32 0))
      else if t = ''uint64'' then Inr (Some (ParamNumberType T_UInt64 0))
      else if t = ''uint256'' \<or> t = ''uint'' then Inr (Some (ParamNumberType T_UInt256 0))
      else if t = ''int8'' then Inr (Some (ParamNumberType T_Int8 0))
      else if t = ''int16'' then Inr (Some (ParamNumberType T_Int16 0))
      else if t = ''int32'' then Inr (Some (ParamNumberType T_Int32 0))
      else if t = ''int64'' then Inr (Some (ParamNumberType T_Int64 0))
      else if t = ''int256'' \<or> t = ''int'' then Inr (Some (ParamNumberType T_Int256 0))
      else if boost_starts_with B t ''uint'' then bind_res (makeUInt (drop 4 t)) (\<lambda>p. Inr (Some p))
      else if boost_starts_with B t ''int'' then bind_res (makeInt (drop 3 t)) (\<lambda>p. Inr (Some p))
      else if t = ''bool'' then Inr (Some (ParamNumberType T_Bool 0))
      else if t = ''bytes'' then Inr (Some (ParamByteArray []))
      else if boost_starts_with B t ''bytes'' then
        bind_res (abi_stoi (drop 5 t)) (\<lambda>bits.
          if bits < 0 then Inl LengthError
          else Inr (Some (ParamByteArrayFix (nat bits) (replicate (nat bits) 0))))
      else if t = ''string'' then Inr (Some (ParamString []))
      else Inr None)"
  by pat_completeness auto
termination
  by (relation "measure (\<lambda>(B, t). length t)") (auto simp: isArrayType_def getArrayElemType_def)

declare ParamFactory_make.simps [simp del]

section \<open>Leaves\<close>

text \<open>\<open>static_cast<T>(val256)\<close>\<close>

definition cast_num :: "boost \<Rightarrow> numty \<Rightarrow> u256 \<Rightarrow> int" where
  "cast_num B t v =
     (case t of
        T_UInt256 \<Rightarrow> int (unat v) | T_UInt \<Rightarrow> int (unat v) | T_Int256 \<Rightarrow> to_i256 B v
      | T_Bool \<Rightarrow> (if v \<noteq> 0 then 1 else 0)
      | T_UInt8 \<Rightarrow> narrow B 8 False v | T_Int8 \<Rightarrow> narrow B 8 True v
      | T_UInt16 \<Rightarrow> narrow B 16 False v | T_Int16 \<Rightarrow> narrow B 16 True v
      | T_UInt32 \<Rightarrow> narrow B 32 False v | T_Int32 \<Rightarrow> narrow B 32 True v
      | T_UInt64 \<Rightarrow> narrow B 64 False v | T_Int64 \<Rightarrow> narrow B 64 True v)"

text \<open>Advance to the next 32-byte boundary from where the object started.\<close>

definition pad_offset :: "nat \<Rightarrow> nat \<Rightarrow> nat" where
  "pad_offset orig off = size_add orig (paddedTo32 ((off + 2 ^ 64 - orig) mod 2 ^ 64))"

text \<open>A length in the \<open>size_t\<close> range, or \<open>None\<close> (the method returns false).\<close>

definition read_size :: "boost \<Rightarrow> bytes \<Rightarrow> nat \<Rightarrow> abi_error + (nat option \<times> nat)" where
  "read_size B encoded off =
     bind_res (abi_decode_u256 B encoded off) (\<lambda>(ok, len256, off').
       if \<not> ok then Inr (None, off')
       else (let len = nat (narrow B 64 False len256) in
             if len256 \<noteq> of_nat len then Inr (None, off') else Inr (Some len, off')))"

definition decodeBytes :: "boost \<Rightarrow> bytes \<Rightarrow> bytes \<Rightarrow> nat \<Rightarrow> abi_error + (bool \<times> bytes \<times> nat)" where
  "decodeBytes B encoded decoded off =
     bind_res (read_size B encoded off) (\<lambda>(len, off1).
       case len of
         None \<Rightarrow> Inr (False, decoded, off1)
       | Some n \<Rightarrow>
           if length encoded < size_add off1 n then Inr (False, decoded, off1)
           else if off1 + n > length encoded then Inl UndefinedRange
           else Inr (True, take n (drop off1 encoded), pad_offset off (size_add off1 n)))"

definition decodeBytesFix :: "bytes \<Rightarrow> nat \<Rightarrow> bytes \<Rightarrow> nat \<Rightarrow> abi_error + (bool \<times> bytes \<times> nat)" where
  "decodeBytesFix encoded n decoded off =
     (if length encoded < size_add off n then Inr (False, decoded, off)
      else if off + n > length encoded then Inl UndefinedRange
      else (let decoded' = (if length decoded < n then decoded @ replicate (n - length decoded) 0 else decoded) in
            Inr (True, take n (drop off encoded) @ drop n decoded', pad_offset off (size_add off n))))"

definition decode_number :: "boost \<Rightarrow> numty \<Rightarrow> int \<Rightarrow> bytes \<Rightarrow> nat \<Rightarrow> abi_error + (bool \<times> param \<times> nat)" where
  "decode_number B t old encoded off =
     bind_res (abi_decode_u256 B encoded off) (\<lambda>(ok, v, off').
       Inr (ok, ParamNumberType t (if ok then cast_num B t v else old), off'))"

definition decode_uintn :: "boost \<Rightarrow> nat \<Rightarrow> bytes \<Rightarrow> nat \<Rightarrow> abi_error + (bool \<times> param \<times> nat)" where
  "decode_uintn B bits encoded off =
     bind_res (abi_decode_u256 B encoded off) (\<lambda>(ok, v, off').
       bind_res (ParamUIntN_setVal bits v) (\<lambda>p. Inr (ok, p, off')))"

definition decode_intn :: "boost \<Rightarrow> nat \<Rightarrow> bytes \<Rightarrow> nat \<Rightarrow> abi_error + (bool \<times> param \<times> nat)" where
  "decode_intn B bits encoded off =
     bind_res (abi_decode_u256 B encoded off) (\<lambda>(ok, v, off').
       bind_res (ParamIntN_setVal B bits (int256FromUint256 B v)) (\<lambda>p. Inr (ok, p, off')))"

definition decode_address :: "boost \<Rightarrow> bytes \<Rightarrow> nat \<Rightarrow> abi_error + (bool \<times> param \<times> nat)" where
  "decode_address B encoded off =
     bind_res (abi_decode_u256 B encoded off) (\<lambda>(ok, v, off').
       Inr (ok, ParamAddress (v AND (push_bit 160 1 - 1)), off'))"

definition decode_string :: "boost \<Rightarrow> string \<Rightarrow> bytes \<Rightarrow> nat \<Rightarrow> abi_error + (bool \<times> param \<times> nat)" where
  "decode_string B old encoded off =
     bind_res (decodeBytes B encoded [] off) (\<lambda>(ok, bs, off').
       Inr (ok, ParamString (if ok then asString bs else old), off'))"

section \<open>Collections\<close>

text \<open>The length check of the arrays, and the padding with parameters of the first type.\<close>

definition array_prepare :: "boost \<Rightarrow> param list \<Rightarrow> nat \<Rightarrow> abi_error + param list option" where
  "array_prepare B ps len =
     (let n = length ps in
      if n = 0 \<or> n > len then Inr None
      else if n < len then
        bind_res (ParamFactory_make B (getType (ps ! 0))) (\<lambda>e.
          case e of None \<Rightarrow> Inl AssertFailed | Some p \<Rightarrow> Inr (Some (ps @ replicate (len - n) p)))
      else Inr (Some ps))"

definition read_array :: "boost \<Rightarrow> param list \<Rightarrow> bytes \<Rightarrow> nat \<Rightarrow> abi_error + (bool \<times> param list \<times> nat)" where
  "read_array B ps encoded off =
     bind_res (read_size B encoded off) (\<lambda>(len, off1).
       case len of
         None \<Rightarrow> Inr (False, ps, off1)
       | Some n \<Rightarrow>
           bind_res (array_prepare B ps n) (\<lambda>r.
             case r of None \<Rightarrow> Inr (False, ps, off1) | Some ps' \<Rightarrow> Inr (True, ps', off1)))"

function (sequential) decode_param ::
  "boost \<Rightarrow> nat \<Rightarrow> param \<Rightarrow> bytes \<Rightarrow> nat \<Rightarrow> abi_error + (bool \<times> param \<times> nat)"
and decode_set :: "boost \<Rightarrow> nat \<Rightarrow> param list \<Rightarrow> bytes \<Rightarrow> nat \<Rightarrow> abi_error + (bool \<times> param list \<times> nat)"
and decode_pass ::
  "bool \<Rightarrow> boost \<Rightarrow> nat \<Rightarrow> param list \<Rightarrow> bytes \<Rightarrow> nat \<Rightarrow> abi_error + (bool \<times> param list \<times> nat)" where
  "decode_param B k (ParamNumberType t v) enc off = decode_number B t v enc off"
| "decode_param B k (ParamUIntN bits v) enc off = decode_uintn B bits enc off"
| "decode_param B k (ParamIntN bits v) enc off = decode_intn B bits enc off"
| "decode_param B k (ParamAddress v) enc off = decode_address B enc off"
| "decode_param B k (ParamByteArray bs) enc off =
     bind_res (decodeBytes B enc bs off) (\<lambda>(ok, bs', off'). Inr (ok, ParamByteArray bs', off'))"
| "decode_param B k (ParamByteArrayFix n bs) enc off =
     bind_res (decodeBytesFix enc n bs off) (\<lambda>(ok, bs', off'). Inr (ok, ParamByteArrayFix n bs', off'))"
| "decode_param B k (ParamString s) enc off = decode_string B s enc off"
| "decode_param B (Suc k) (ParamArray ps) enc off =
     bind_res (read_array B ps enc off) (\<lambda>(ok, ps1, off1).
       if \<not> ok then Inr (False, ParamArray ps1, off1)
       else bind_res (decode_set B k ps1 enc off1) (\<lambda>(res, ps2, off2).
         Inr (res, ParamArray ps2, pad_offset off off2)))"
| "decode_param B (Suc k) (ParamArrayFix ps) enc off =
     bind_res (isDynamic (ParamArrayFix ps)) (\<lambda>dy.
     bind_res (if dy then read_array B ps enc off else Inr (True, ps, off)) (\<lambda>(ok, ps1, off1).
       if \<not> ok then Inr (False, ParamArrayFix ps1, off1)
       else bind_res (decode_set B k ps1 enc off1) (\<lambda>(res, ps2, off2).
         Inr (res, ParamArrayFix ps2, pad_offset off off2))))"
| "decode_param B (Suc k) (Parameters ps) enc off =
     bind_res (decode_set B k ps enc off) (\<lambda>(res, ps2, off2). Inr (res, Parameters ps2, off2))"
| "decode_param B 0 p enc off = Inl OutOfFuel"
| "decode_set B k ps enc off =
     bind_res (decode_pass False B k ps enc off) (\<lambda>(ok, ps1, off1).
       if \<not> ok then Inr (False, ps1, off1) else decode_pass True B k ps1 enc off1)"
| "decode_pass large B k [] enc off = Inr (True, [], off)"
| "decode_pass large B k (p # ps) enc off =
     bind_res (isDynamic p) (\<lambda>dy.
     bind_res
       (if large then (if dy then decode_param B k p enc off else Inr (True, p, off))
        else if dy then bind_res (abi_decode_u256 B enc off) (\<lambda>(ok, index, off'). Inr (ok, p, off'))
        else decode_param B k p enc off)
       (\<lambda>(ok, p', off').
          if \<not> ok then Inr (False, p' # ps, off')
          else bind_res (decode_pass large B k ps enc off') (\<lambda>(ok2, ps', off2). Inr (ok2, p' # ps', off2))))"
  by pat_completeness auto
termination
  by (relation "measures [\<lambda>x. case x of
         Inl (B, k, p, enc, off) \<Rightarrow> k
       | Inr (Inl (B, k, ps, enc, off)) \<Rightarrow> k
       | Inr (Inr (large, B, k, ps, enc, off)) \<Rightarrow> k,
       \<lambda>x. case x of
         Inl (B, k, p, enc, off) \<Rightarrow> 0
       | Inr (Inl (B, k, ps, enc, off)) \<Rightarrow> 2
       | Inr (Inr (large, B, k, ps, enc, off)) \<Rightarrow> 1,
       \<lambda>x. case x of
         Inl (B, k, p, enc, off) \<Rightarrow> 0
       | Inr (Inl (B, k, ps, enc, off)) \<Rightarrow> 0
       | Inr (Inr (large, B, k, ps, enc, off)) \<Rightarrow> length ps]") auto

declare decode_set.simps [simp del]

section \<open>Functions\<close>

record abi_function =
  fn_name :: string
  inParams :: "param list"
  outParams :: "param list"

definition Function_getType :: "abi_function \<Rightarrow> string" where
  "Function_getType f = fn_name f @ ParamSet_getType (inParams f)"

definition signature_of_name :: "(bytes \<Rightarrow> bytes) \<Rightarrow> string \<Rightarrow> bytes" where
  "signature_of_name keccak func_name = take 4 (keccak (asBytes func_name))"

definition getSignature :: "(bytes \<Rightarrow> bytes) \<Rightarrow> abi_function \<Rightarrow> bytes" where
  "getSignature keccak f = signature_of_name keccak (Function_getType f)"

definition Function_encode :: "(bytes \<Rightarrow> bytes) \<Rightarrow> boost \<Rightarrow> abi_function \<Rightarrow> bytes \<Rightarrow> abi_error + bytes" where
  "Function_encode keccak B f d = ParamSet_encode B (inParams f) (d @ getSignature keccak f)"

definition Function_encode_named ::
  "(bytes \<Rightarrow> bytes) \<Rightarrow> boost \<Rightarrow> abi_function \<Rightarrow> string \<Rightarrow> bytes \<Rightarrow> abi_error + bytes" where
  "Function_encode_named keccak B f func_name d =
     ParamSet_encode B (inParams f) (d @ signature_of_name keccak func_name)"

definition addInParam :: "param \<Rightarrow> abi_function \<Rightarrow> abi_function \<times> int" where
  "addInParam p f = (f\<lparr>inParams := inParams f @ [p]\<rparr>, int (length (inParams f)))"

definition addOutParam :: "param \<Rightarrow> abi_function \<Rightarrow> abi_function \<times> int" where
  "addOutParam p f = (f\<lparr>outParams := outParams f @ [p]\<rparr>, int (length (outParams f)))"

definition decodeOutput :: "boost \<Rightarrow> nat \<Rightarrow> abi_function \<Rightarrow> bytes \<Rightarrow> nat \<Rightarrow> abi_error + (bool \<times> abi_function \<times> nat)" where
  "decodeOutput B k f encoded off =
     bind_res (decode_set B k (outParams f) encoded off) (\<lambda>(ok, ps, off').
       Inr (ok, f\<lparr>outParams := ps\<rparr>, off'))"

definition decodeInput ::
  "(bytes \<Rightarrow> bytes) \<Rightarrow> boost \<Rightarrow> nat \<Rightarrow> abi_function \<Rightarrow> bytes \<Rightarrow> nat \<Rightarrow> abi_error + (bool \<times> abi_function \<times> nat)" where
  "decodeInput keccak B k f encoded off =
     bind_res (decodeBytesFix encoded 4 (replicate 4 0) off) (\<lambda>(ok, hash, off1).
       if \<not> ok then Inr (False, f, off1)
       else (let off2 = (off1 + 2 ^ 64 - 32 + 4) mod 2 ^ 64 in
             if hash \<noteq> getSignature keccak f then Inr (False, f, off2)
             else bind_res (decode_set B k (inParams f) encoded off2) (\<lambda>(ok2, ps, off3).
               Inr (ok2, f\<lparr>inParams := ps\<rparr>, off3))))"

end
