(* ===== verification/Abi_Theorems.thy ===== *)
theory Abi_Theorems
  imports Abi_Decode
begin

text \<open>
  What the ABI codec promises: the encoder refines the head/tail encoding of the contract ABI
  specification, the decoder inverts it on parameters of the same shape, and a function call
  survives encoding and decoding.
\<close>

section \<open>Shapes\<close>

text \<open>The shape of a parameter: the same object with its values reset.\<close>

fun blank :: "param \<Rightarrow> param" where
  "blank (ParamNumberType t v) = ParamNumberType t 0"
| "blank (ParamUIntN bits v) = ParamUIntN bits 0"
| "blank (ParamIntN bits v) = ParamIntN bits 0"
| "blank (ParamAddress v) = ParamAddress 0"
| "blank (ParamByteArray bs) = ParamByteArray []"
| "blank (ParamByteArrayFix n bs) = ParamByteArrayFix n (replicate (length bs) 0)"
| "blank (ParamString s) = ParamString []"
| "blank (ParamArrayFix ps) = ParamArrayFix (map blank ps)"
| "blank (ParamArray ps) = ParamArray (map blank ps)"
| "blank (Parameters ps) = Parameters (map blank ps)"

fun depth :: "param \<Rightarrow> nat" where
  "depth (ParamArrayFix ps) = Suc (foldr max (map depth ps) 0)"
| "depth (ParamArray ps) = Suc (foldr max (map depth ps) 0)"
| "depth (Parameters ps) = Suc (foldr max (map depth ps) 0)"
| "depth _ = 0"

definition num_ok :: "numty \<Rightarrow> int \<Rightarrow> bool" where
  "num_ok t v =
     (0 \<le> v \<and>
      (case t of
         T_UInt256 \<Rightarrow> v < 2 ^ 256 | T_UInt \<Rightarrow> v < 2 ^ 256 | T_Int256 \<Rightarrow> v < 2 ^ 256 | T_Bool \<Rightarrow> v \<le> 1
       | T_UInt8 \<Rightarrow> v < 2 ^ 8 | T_Int8 \<Rightarrow> v < 2 ^ 7 | T_UInt16 \<Rightarrow> v < 2 ^ 16 | T_Int16 \<Rightarrow> v < 2 ^ 15
       | T_UInt32 \<Rightarrow> v < 2 ^ 32 | T_Int32 \<Rightarrow> v < 2 ^ 31 | T_UInt64 \<Rightarrow> v < 2 ^ 64 | T_Int64 \<Rightarrow> v < 2 ^ 63))"

definition bits_ok :: "nat \<Rightarrow> bool" where
  "bits_ok bits \<longleftrightarrow> 8 < bits \<and> bits < 256 \<and> bits mod 8 = 0 \<and> bits \<noteq> 16 \<and> bits \<noteq> 32 \<and> bits \<noteq> 64"

text \<open>
  The values that survive: non-negative numbers in range for the template classes, integers of the
  other widths in range, fixed byte strings of their declared length from 1 to 32, arrays with at
  least one element, fixed arrays of static elements, and tuples with a dynamic component.
\<close>

fun decodable :: "param \<Rightarrow> bool" where
  "decodable (ParamNumberType t v) = num_ok t v"
| "decodable (ParamUIntN bits v) = (bits_ok bits \<and> unat v < 2 ^ bits)"
| "decodable (ParamIntN bits v) = (bits_ok bits \<and> - (2 ^ bits) \<le> v \<and> v < 2 ^ bits)"
| "decodable (ParamAddress v) = (unat v < 2 ^ 160)"
| "decodable (ParamByteArray bs) = True"
| "decodable (ParamByteArrayFix n bs) = (length bs = n \<and> 1 \<le> n \<and> n \<le> 32)"
| "decodable (ParamString s) = True"
| "decodable (ParamArrayFix ps) = (ps \<noteq> [] \<and> (\<forall>p \<in> set ps. decodable p \<and> \<not> dyn p))"
| "decodable (ParamArray ps) = (ps \<noteq> [] \<and> length ps < 2 ^ 64 \<and> (\<forall>p \<in> set ps. decodable p))"
| "decodable (Parameters ps) = ((\<exists>p \<in> set ps. dyn p) \<and> (\<forall>p \<in> set ps. decodable p))"

lemma dyn_blank: "dyn (blank p) = dyn p"
  by (induction p) (auto split: list.splits)

lemma isDynamic_blank: "isDynamic (blank p) = isDynamic p"
  by (induction p) (auto split: list.splits)

lemma decodable_isDynamic: "decodable p \<Longrightarrow> isDynamic p = Inr (dyn p)"
  by (induction p) (auto split: list.splits)

lemma same_shape:
  assumes "blank q = blank p" "decodable p"
  shows "isDynamic q = Inr (dyn p)"
  by (metis assms isDynamic_blank decodable_isDynamic)

lemma depth_mem: "p \<in> set ps \<Longrightarrow> depth p \<le> foldr max (map depth ps) 0"
  by (induction ps) auto

text \<open>
  What decoding is to achieve: on any object of the same shape, reading the encoding of \<open>p\<close> inside
  any data gives \<open>p\<close> and moves the offset behind it.
\<close>

definition decodes :: "boost \<Rightarrow> nat \<Rightarrow> param \<Rightarrow> bool" where
  "decodes B k p \<longleftrightarrow>
     (\<forall>q pre post. blank q = blank p \<longrightarrow> length (pre @ abi_enc p @ post) < 2 ^ 64 \<longrightarrow>
        decode_param B k q (pre @ abi_enc p @ post) (length pre)
          = Inr (True, p, length pre + length (abi_enc p)))"

definition enc_pairs :: "param list \<Rightarrow> (bool \<times> bytes) list" where
  "enc_pairs ps = map (\<lambda>p. (dyn p, abi_enc p)) ps"

lemma enc_pairs_simps [simp]:
  "enc_pairs [] = []" "enc_pairs (p # ps) = (dyn p, abi_enc p) # enc_pairs ps"
  by (simp_all add: enc_pairs_def)

text \<open>The state between the two passes: the static parameters have been read.\<close>

definition half_read :: "param \<Rightarrow> param \<Rightarrow> bool" where
  "half_read r p \<longleftrightarrow> blank r = blank p \<and> (\<not> dyn p \<longrightarrow> r = p)"

section \<open>Numbers\<close>

lemma unat_of_int_u256: "0 \<le> v \<Longrightarrow> v < 2 ^ 256 \<Longrightarrow> int (unat (of_int v :: u256)) = v"
  by (simp add: unsigned_of_int take_bit_int_eq_self)

lemma pad_offset_exact:
  "n < 2 ^ 64 \<Longrightarrow> off + paddedTo32 n < 2 ^ 64 \<Longrightarrow> pad_offset off (off + n) = off + paddedTo32 n"
  by (simp add: pad_offset_def)

context boost_laws
begin

lemma cast_num_ok:
  assumes "num_ok t v"
  shows "cast_num B t (of_int v) = v"
proof -
  have v: "0 \<le> v" "v < 2 ^ 256" using assms by (auto simp: num_ok_def split: numty.splits)
  then have u: "int (unat (of_int v :: u256)) = v" by (rule unat_of_int_u256)
  have narrow_u: "narrow B n False (of_int v) = v" if "v < 2 ^ n" for n
    using narrow_exact [of "of_int v" n False] u v that by (simp add: int_range_def)
  have narrow_s: "narrow B n True (of_int v) = v" if "v < 2 ^ (n - 1)" for n
  proof -
    have "- (2 ^ (n - 1)) \<le> v" using v(1) by (rule order_trans [rotated]) simp
    then show ?thesis
      using narrow_exact [of "of_int v" n True] u that by (simp add: int_range_def)
  qed
  have bool: "t = T_Bool \<Longrightarrow> v = 0 \<or> v = 1" using assms by (auto simp: num_ok_def)
  show ?thesis
    using assms u bool
    by (cases t) (auto simp: cast_num_def num_ok_def to_i256_value narrow_u narrow_s)
qed

lemma decode_word:
  assumes "length (pre @ word32 n @ post) < 2 ^ 64"
  shows "abi_decode_u256 B (pre @ word32 n @ post) (length pre) = Inr (True, of_nat n, length pre + 32)"
proof -
  have "word32 n = word32 (unat (of_nat n :: u256))" by simp
  moreover have "unat (of_nat n :: u256) < 2 ^ 256" using unsigned_less [of "of_nat n :: u256", where ?'a = nat] by simp
  moreover have "length pre + 32 < 2 ^ 64" using assms by simp
  ultimately show ?thesis
    using decode_word32 [of "unat (of_nat n :: u256)" pre post] by simp
qed

lemma read_size_word:
  assumes "length (pre @ word32 n @ post) < 2 ^ 64" "n < 2 ^ 64"
  shows "read_size B (pre @ word32 n @ post) (length pre) = Inr (Some n, length pre + 32)"
proof -
  have "unat (of_nat n :: u256) = n" using assms(2) by (simp add: unat_of_nat)
  then have "narrow B 64 False (of_nat n) = int n"
    using narrow_exact [of "of_nat n" 64 False] assms(2) by (simp add: int_range_def)
  then show ?thesis
    using decode_word [OF assms(1)] by (simp add: read_size_def)
qed

lemma and_mask_small: "unat x < 2 ^ n \<Longrightarrow> x AND (push_bit n 1 - 1) = x" for x :: u256
  using unat_and_mask [of x n] by (simp add: word_unat_eq_iff mask_eq_exp_minus_1)

lemma maskForBits_ok: "bits_ok bits \<Longrightarrow> maskForBits bits = Inr (push_bit bits 1 - 1)"
  by (simp add: bits_ok_def maskForBits_def)

lemma int256FromUint256_of_int:
  assumes "- (2 ^ 255) < v" "v < 2 ^ 255"
  shows "int256FromUint256 B (of_int v) = v"
proof (cases "0 \<le> v")
  case True
  have u: "int (unat (of_int v :: u256)) = v"
    using True assms by (intro unat_of_int_u256) simp_all
  then have "(of_int v :: u256) \<le> push_bit 255 1"
    using assms by (simp add: word_le_def)
  then show ?thesis using u by (simp add: int256FromUint256_def to_i256_value)
next
  case False
  have u: "int (unat (of_int (- v - 1) :: u256)) = - v - 1"
    using False assms by (intro unat_of_int_u256) simp_all
  have n: "NOT (of_int v :: u256) = of_int (- v - 1)"
    by (simp add: not_eq_complement)
  have w: "(of_int (v + 2 ^ 256) :: u256) = of_int v" by simp
  have "int (unat (of_int (v + 2 ^ 256) :: u256)) = v + 2 ^ 256"
    using False assms by (intro unat_of_int_u256) simp_all
  then have "int (unat (of_int v :: u256)) = v + 2 ^ 256" unfolding w .
  then have "\<not> (of_int v :: u256) \<le> push_bit 255 1"
    using False assms by (simp add: word_le_def)
  then show ?thesis using u n by (simp add: int256FromUint256_def to_i256_value)
qed

lemma setVal_int:
  assumes "bits_ok bits" "- (2 ^ bits) \<le> v" "v < 2 ^ bits"
  shows "ParamIntN_setVal B bits (int256FromUint256 B (of_int v)) = Inr (ParamIntN bits v)"
proof -
  have "(2 :: int) ^ bits \<le> 2 ^ 248"
  proof (rule power_increasing)
    have "bits div 8 * 8 = bits" "bits < 256" using assms(1) by (auto simp: bits_ok_def)
    then have "bits div 8 \<le> 31" by linarith
    then show "bits \<le> 248" using \<open>bits div 8 * 8 = bits\<close> by linarith
  qed simp
  then have b: "- (2 ^ 255) < v" "v < 2 ^ 255" using assms by simp_all
  have small: "unat (of_int w :: u256) < 2 ^ bits" if "0 \<le> w" "w < 2 ^ bits" for w
  proof -
    have "int (unat (of_int w :: u256)) = w"
      using that \<open>2 ^ bits \<le> 2 ^ 248\<close> by (intro unat_of_int_u256) simp_all
    then have "int (unat (of_int w :: u256)) < int (2 ^ bits)" using that by simp
    then show ?thesis by (simp only: of_nat_less_iff)
  qed
  have n: "NOT (of_int v :: u256) = of_int (- v - 1)" by (simp add: not_eq_complement)
  show ?thesis
  proof (cases "v < 0")
    case True
    then have "NOT (of_int v :: u256) AND (push_bit bits 1 - 1) = NOT (of_int v)"
      unfolding n using assms by (intro and_mask_small small) simp_all
    then have "NOT (NOT (to_u256 B v) AND (push_bit bits 1 - 1)) = of_int v"
      by (simp only: to_u256_mod bit.double_compl)
    then show ?thesis
      using True unfolding int256FromUint256_of_int [OF b] ParamIntN_setVal_def maskForBits_ok [OF assms(1)]
      by (simp only: bind_res_Inr if_True int256FromUint256_of_int [OF b])
  next
    case False
    then have "(of_int v :: u256) AND (push_bit bits 1 - 1) = of_int v"
      using assms by (intro and_mask_small small) simp_all
    then show ?thesis
      using False assms(1) int256FromUint256_of_int [OF b]
      by (simp add: ParamIntN_setVal_def maskForBits_ok to_u256_mod)
  qed
qed

section \<open>Leaves\<close>

lemma word_of_unat: "(of_nat (unat v) :: u256) = v"
  by simp

lemma decodes_number: "num_ok t v \<Longrightarrow> decodes B k (ParamNumberType t v)"
  unfolding decodes_def
proof (intro allI impI)
  fix q pre post
  assume ok: "num_ok t v" and q: "blank q = blank (ParamNumberType t v)"
    and len: "length (pre @ abi_enc (ParamNumberType t v) @ post) < 2 ^ 64"
  obtain v' where "q = ParamNumberType t v'" using q by (cases q) auto
  then show "decode_param B k q (pre @ abi_enc (ParamNumberType t v) @ post) (length pre)
      = Inr (True, ParamNumberType t v, length pre + length (abi_enc (ParamNumberType t v)))"
    using decode_word [of pre "unat (of_int v :: u256)" post] len cast_num_ok [OF ok]
    by (simp add: decode_number_def)
qed

lemma decodes_uintn: "bits_ok bits \<Longrightarrow> unat v < 2 ^ bits \<Longrightarrow> decodes B k (ParamUIntN bits v)"
  unfolding decodes_def
proof (intro allI impI)
  fix q pre post
  assume ok: "bits_ok bits" "unat v < 2 ^ bits" and q: "blank q = blank (ParamUIntN bits v)"
    and len: "length (pre @ abi_enc (ParamUIntN bits v) @ post) < 2 ^ 64"
  obtain v' where "q = ParamUIntN bits v'" using q by (cases q) auto
  then show "decode_param B k q (pre @ abi_enc (ParamUIntN bits v) @ post) (length pre)
      = Inr (True, ParamUIntN bits v, length pre + length (abi_enc (ParamUIntN bits v)))"
    using decode_word [of pre "unat v" post] len and_mask_small [OF ok(2)] maskForBits_ok [OF ok(1)]
    by (simp add: decode_uintn_def ParamUIntN_setVal_def)
qed

lemma decodes_intn:
  "bits_ok bits \<Longrightarrow> - (2 ^ bits) \<le> v \<Longrightarrow> v < 2 ^ bits \<Longrightarrow> decodes B k (ParamIntN bits v)"
  unfolding decodes_def
proof (intro allI impI)
  fix q pre post
  assume ok: "bits_ok bits" "- (2 ^ bits) \<le> v" "v < 2 ^ bits" and q: "blank q = blank (ParamIntN bits v)"
    and len: "length (pre @ abi_enc (ParamIntN bits v) @ post) < 2 ^ 64"
  obtain v' where "q = ParamIntN bits v'" using q by (cases q) auto
  then show "decode_param B k q (pre @ abi_enc (ParamIntN bits v) @ post) (length pre)
      = Inr (True, ParamIntN bits v, length pre + length (abi_enc (ParamIntN bits v)))"
    using decode_word [of pre "unat (of_int v :: u256)" post] len setVal_int [OF ok]
    by (simp add: decode_intn_def)
qed

lemma decodes_address: "unat v < 2 ^ 160 \<Longrightarrow> decodes B k (ParamAddress v)"
  unfolding decodes_def
proof (intro allI impI)
  fix q pre post
  assume ok: "unat v < 2 ^ 160" and q: "blank q = blank (ParamAddress v)"
    and len: "length (pre @ abi_enc (ParamAddress v) @ post) < 2 ^ 64"
  obtain v' where "q = ParamAddress v'" using q by (cases q) auto
  then show "decode_param B k q (pre @ abi_enc (ParamAddress v) @ post) (length pre)
      = Inr (True, ParamAddress v, length pre + length (abi_enc (ParamAddress v)))"
    using decode_word [of pre "unat v" post] len and_mask_small [OF ok]
    by (simp add: decode_address_def)
qed

lemma decodeBytes_enc:
  assumes "length (pre @ (word32 (length bs) @ pad_right bs) @ post) < 2 ^ 64"
  shows "decodeBytes B (pre @ (word32 (length bs) @ pad_right bs) @ post) old (length pre)
       = Inr (True, bs, length pre + length (word32 (length bs) @ pad_right bs))"
proof -
  have len: "length pre + 32 + paddedTo32 (length bs) + length post < 2 ^ 64" using assms by simp
  have n: "length bs \<le> paddedTo32 (length bs)" by (rule paddedTo32_ge)
  have rd: "read_size B (pre @ word32 (length bs) @ pad_right bs @ post) (length pre)
      = Inr (Some (length bs), length pre + 32)"
    using len n by (intro read_size_word) simp_all
  have "pad_offset (length pre) (length pre + (32 + length bs)) = length pre + paddedTo32 (32 + length bs)"
    using len n by (intro pad_offset_exact) (simp_all add: paddedTo32_add)
  moreover have "take (length bs) (drop (length pre + 32) (pre @ word32 (length bs) @ pad_right bs @ post)) = bs"
    by (simp add: pad_right_def)
  ultimately show ?thesis
    using rd len n by (simp add: decodeBytes_def paddedTo32_add add.assoc)
qed

lemma decodes_bytes: "decodes B k (ParamByteArray bs)"
  unfolding decodes_def
proof (intro allI impI)
  fix q pre post
  assume q: "blank q = blank (ParamByteArray bs)"
    and len: "length (pre @ abi_enc (ParamByteArray bs) @ post) < 2 ^ 64"
  obtain v' where "q = ParamByteArray v'" using q by (cases q) auto
  then show "decode_param B k q (pre @ abi_enc (ParamByteArray bs) @ post) (length pre)
      = Inr (True, ParamByteArray bs, length pre + length (abi_enc (ParamByteArray bs)))"
    using decodeBytes_enc [of pre bs post v'] len by simp
qed

lemma asString_asBytes [simp]: "asString (asBytes s) = s" "length (asBytes s) = length s"
  by (simp_all add: asString_def asBytes_def comp_def)

lemma decodes_string: "decodes B k (ParamString s)"
  unfolding decodes_def
proof (intro allI impI)
  fix q pre post
  assume q: "blank q = blank (ParamString s)"
    and len: "length (pre @ abi_enc (ParamString s) @ post) < 2 ^ 64"
  obtain v' where "q = ParamString v'" using q by (cases q) auto
  then show "decode_param B k q (pre @ abi_enc (ParamString s) @ post) (length pre)
      = Inr (True, ParamString s, length pre + length (abi_enc (ParamString s)))"
    using decodeBytes_enc [of pre "asBytes s" post "[]"] len by (simp add: decode_string_def)
qed

lemma decodes_bytesfix: "length bs = n \<Longrightarrow> 1 \<le> n \<Longrightarrow> n \<le> 32 \<Longrightarrow> decodes B k (ParamByteArrayFix n bs)"
  unfolding decodes_def
proof (intro allI impI)
  fix q pre post
  assume n: "length bs = n" "1 \<le> n" "n \<le> 32" and q: "blank q = blank (ParamByteArrayFix n bs)"
    and len: "length (pre @ abi_enc (ParamByteArrayFix n bs) @ post) < 2 ^ 64"
  obtain v' where v': "q = ParamByteArrayFix n v'" "length v' = n"
    using q n by (cases q) (auto dest: arg_cong [of _ _ length])
  have pad: "paddedTo32 n = 32" using n by (simp add: paddedTo32_word)
  have "pad_offset (length pre) (length pre + n) = length pre + paddedTo32 n"
    using len n pad by (intro pad_offset_exact) simp_all
  moreover have "take n (drop (length pre) (pre @ abi_enc (ParamByteArrayFix n bs) @ post)) = bs"
    using n by simp
  ultimately show "decode_param B k q (pre @ abi_enc (ParamByteArrayFix n bs) @ post) (length pre)
      = Inr (True, ParamByteArrayFix n bs, length pre + length (abi_enc (ParamByteArrayFix n bs)))"
    using v' len n pad by (simp add: decodeBytesFix_def)
qed

section \<open>Collections\<close>

lemma decode_heads:
  assumes "list_all2 (\<lambda>q p. blank q = blank p) qs ps" "\<forall>p \<in> set ps. decodable p \<and> decodes B k p"
    and "length (pre @ tuple_heads off (enc_pairs ps) @ post) < 2 ^ 64"
  shows "\<exists>rs. decode_pass False B k qs (pre @ tuple_heads off (enc_pairs ps) @ post) (length pre)
      = Inr (True, rs, length pre + head_length (enc_pairs ps)) \<and> list_all2 half_read rs ps"
  using assms
proof (induction qs ps arbitrary: pre off rule: list_all2_induct)
  case (Cons q qs p ps)
  have dy: "isDynamic q = Inr (dyn p)" using same_shape Cons.hyps(1) Cons.prems(1) by simp
  show ?case
  proof (cases "dyn p")
    case True
    have w: "abi_decode_u256 B (pre @ word32 off @ tuple_heads (off + length (abi_enc p)) (enc_pairs ps) @ post) (length pre)
        = Inr (True, of_nat off, length pre + 32)"
      using Cons.prems(2) True by (intro decode_word) simp
    obtain rs where "decode_pass False B k qs
        ((pre @ word32 off) @ tuple_heads (off + length (abi_enc p)) (enc_pairs ps) @ post) (length (pre @ word32 off))
        = Inr (True, rs, length (pre @ word32 off) + head_length (enc_pairs ps))" "list_all2 half_read rs ps"
      using Cons.IH [of "pre @ word32 off" "off + length (abi_enc p)"] Cons.prems True by auto
    moreover have "half_read q p" using Cons.hyps(1) True by (simp add: half_read_def)
    ultimately show ?thesis
      using dy w True by (intro exI [of _ "q # rs"]) simp
  next
    case False
    have d: "decode_param B k q (pre @ abi_enc p @ tuple_heads off (enc_pairs ps) @ post) (length pre)
        = Inr (True, p, length pre + length (abi_enc p))"
      using Cons.prems Cons.hyps(1) False by (simp add: decodes_def)
    obtain rs where "decode_pass False B k qs
        ((pre @ abi_enc p) @ tuple_heads off (enc_pairs ps) @ post) (length (pre @ abi_enc p))
        = Inr (True, rs, length (pre @ abi_enc p) + head_length (enc_pairs ps))" "list_all2 half_read rs ps"
      using Cons.IH [of "pre @ abi_enc p" off] Cons.prems False by auto
    moreover have "half_read p p" by (simp add: half_read_def)
    ultimately show ?thesis
      using dy d False by (intro exI [of _ "p # rs"]) simp
  qed
qed simp

lemma decode_tails:
  assumes "list_all2 half_read rs ps" "\<forall>p \<in> set ps. decodable p \<and> decodes B k p"
    and "length (pre @ tuple_tails (enc_pairs ps) @ post) < 2 ^ 64"
  shows "decode_pass True B k rs (pre @ tuple_tails (enc_pairs ps) @ post) (length pre)
      = Inr (True, ps, length pre + length (tuple_tails (enc_pairs ps)))"
  using assms
proof (induction rs ps arbitrary: pre rule: list_all2_induct)
  case (Cons r rs p ps)
  have dy: "isDynamic r = Inr (dyn p)" using same_shape Cons.hyps(1) Cons.prems(1) by (simp add: half_read_def)
  show ?case
  proof (cases "dyn p")
    case True
    have "decode_param B k r (pre @ abi_enc p @ tuple_tails (enc_pairs ps) @ post) (length pre)
        = Inr (True, p, length pre + length (abi_enc p))"
      using Cons.prems Cons.hyps(1) True by (simp add: decodes_def half_read_def)
    then show ?thesis
      using Cons.IH [of "pre @ abi_enc p"] Cons.prems dy True by simp
  next
    case False
    then show ?thesis
      using Cons.IH [of pre] Cons.prems Cons.hyps(1) dy by (simp add: half_read_def)
  qed
qed simp

lemma decode_set_enc:
  assumes "map blank qs = map blank ps" "\<forall>p \<in> set ps. decodable p \<and> decodes B k p"
    and "length (pre @ abi_enc_set ps @ post) < 2 ^ 64"
  shows "decode_set B k qs (pre @ abi_enc_set ps @ post) (length pre)
      = Inr (True, ps, length pre + length (abi_enc_set ps))"
proof -
  let ?h = "tuple_heads (head_length (enc_pairs ps)) (enc_pairs ps)" and ?t = "tuple_tails (enc_pairs ps)"
  have e: "abi_enc_set ps = ?h @ ?t" by (simp add: abi_enc_set_def abi_tuple_def enc_pairs_def)
  have "list_all2 (\<lambda>q p. blank q = blank p) qs ps"
    using assms(1) by (auto simp: list_all2_conv_all_nth list_eq_iff_nth_eq)
  then obtain rs where "decode_pass False B k qs (pre @ ?h @ (?t @ post)) (length pre)
      = Inr (True, rs, length pre + head_length (enc_pairs ps))" and rs: "list_all2 half_read rs ps"
    using decode_heads [of qs ps k pre "head_length (enc_pairs ps)" "?t @ post"] assms(2,3) e by auto
  moreover have "decode_pass True B k rs ((pre @ ?h) @ ?t @ post) (length (pre @ ?h))
      = Inr (True, ps, length (pre @ ?h) + length ?t)"
    using decode_tails [OF rs assms(2), of "pre @ ?h" post] assms(3) e by simp
  ultimately show ?thesis
    by (simp add: decode_set.simps e)
qed

lemma decodes_array:
  assumes "ps \<noteq> []" "\<forall>p \<in> set ps. decodable p \<and> decodes B k p" "length ps < 2 ^ 64"
  shows "decodes B (Suc k) (ParamArray ps)"
  unfolding decodes_def
proof (intro allI impI)
  fix q pre post
  assume "blank q = blank (ParamArray ps)"
    and len: "length (pre @ abi_enc (ParamArray ps) @ post) < 2 ^ 64"
  then obtain qs where q: "q = ParamArray qs" "map blank qs = map blank ps" by (cases q) auto
  then have n: "length qs = length ps" by (metis length_map)
  have e: "abi_enc (ParamArray ps) = word32 (length ps) @ abi_enc_set ps" by (simp add: abi_enc_set_def)
  have "read_array B qs (pre @ word32 (length ps) @ abi_enc_set ps @ post) (length pre)
      = Inr (True, qs, length pre + 32)"
    using read_size_word [of pre "length ps" "abi_enc_set ps @ post"] len e n assms(1,3)
    by (simp add: read_array_def array_prepare_def)
  moreover have "decode_set B k qs ((pre @ word32 (length ps)) @ abi_enc_set ps @ post) (length (pre @ word32 (length ps)))
      = Inr (True, ps, length (pre @ word32 (length ps)) + length (abi_enc_set ps))"
    using decode_set_enc [OF q(2) assms(2), of "pre @ word32 (length ps)" post] len e by simp
  moreover have "pad_offset (length pre) (length pre + (32 + length (abi_enc_set ps)))
      = length pre + paddedTo32 (32 + length (abi_enc_set ps))"
    using len e dvd_abi_enc_set [of ps] by (intro pad_offset_exact) (simp_all add: paddedTo32_dvd)
  ultimately show "decode_param B (Suc k) q (pre @ abi_enc (ParamArray ps) @ post) (length pre)
      = Inr (True, ParamArray ps, length pre + length (abi_enc (ParamArray ps)))"
    using q e dvd_abi_enc_set [of ps] by (simp add: paddedTo32_dvd add.assoc)
qed

lemma decodes_arrayfix:
  assumes "ps \<noteq> []" "\<forall>p \<in> set ps. decodable p \<and> \<not> dyn p \<and> decodes B k p"
  shows "decodes B (Suc k) (ParamArrayFix ps)"
  unfolding decodes_def
proof (intro allI impI)
  fix q pre post
  assume blk: "blank q = blank (ParamArrayFix ps)"
    and len: "length (pre @ abi_enc (ParamArrayFix ps) @ post) < 2 ^ 64"
  then obtain qs where q: "q = ParamArrayFix qs" "map blank qs = map blank ps" by (cases q) auto
  have "decodable (ParamArrayFix ps)" "\<not> dyn (ParamArrayFix ps)"
    using assms by (auto split: list.splits)
  then have dy: "isDynamic (ParamArrayFix qs) = Inr False"
    using same_shape [OF blk] q(1) by simp
  have e: "abi_enc (ParamArrayFix ps) = abi_enc_set ps" by (simp add: abi_enc_set_def)
  have "decode_set B k qs (pre @ abi_enc_set ps @ post) (length pre)
      = Inr (True, ps, length pre + length (abi_enc_set ps))"
    using decode_set_enc [OF q(2), of k pre post] assms(2) len e by simp
  moreover have "pad_offset (length pre) (length pre + length (abi_enc_set ps))
      = length pre + paddedTo32 (length (abi_enc_set ps))"
    using len e dvd_abi_enc_set [of ps] by (intro pad_offset_exact) (simp_all add: paddedTo32_dvd)
  ultimately show "decode_param B (Suc k) q (pre @ abi_enc (ParamArrayFix ps) @ post) (length pre)
      = Inr (True, ParamArrayFix ps, length pre + length (abi_enc (ParamArrayFix ps)))"
    unfolding e using q dy dvd_abi_enc_set [of ps] by (simp add: paddedTo32_dvd)
qed

lemma decodes_parameters:
  assumes "\<forall>p \<in> set ps. decodable p \<and> decodes B k p"
  shows "decodes B (Suc k) (Parameters ps)"
  unfolding decodes_def
proof (intro allI impI)
  fix q pre post
  assume "blank q = blank (Parameters ps)"
    and len: "length (pre @ abi_enc (Parameters ps) @ post) < 2 ^ 64"
  then obtain qs where q: "q = Parameters qs" "map blank qs = map blank ps" by (cases q) auto
  have e: "abi_enc (Parameters ps) = abi_enc_set ps" by (simp add: abi_enc_set_def)
  show "decode_param B (Suc k) q (pre @ abi_enc (Parameters ps) @ post) (length pre)
      = Inr (True, Parameters ps, length pre + length (abi_enc (Parameters ps)))"
    unfolding e using decode_set_enc [OF q(2) assms, of pre post] len q e by simp
qed

lemma decodable_decodes: "decodable p \<Longrightarrow> depth p \<le> k \<Longrightarrow> decodes B k p"
proof (induction p arbitrary: k)
  case (ParamArrayFix ps)
  then obtain j where k: "k = Suc j" by (cases k) auto
  with ParamArrayFix depth_mem [of _ ps] show ?case
    unfolding k by (intro decodes_arrayfix) fastforce+
next
  case (ParamArray ps)
  then obtain j where k: "k = Suc j" by (cases k) auto
  with ParamArray depth_mem [of _ ps] show ?case
    unfolding k by (intro decodes_array) fastforce+
next
  case (Parameters ps)
  then obtain j where k: "k = Suc j" by (cases k) auto
  with Parameters depth_mem [of _ ps] show ?case
    unfolding k by (intro decodes_parameters) fastforce+
qed (simp_all add: decodes_number decodes_uintn decodes_intn decodes_address decodes_bytes
  decodes_bytesfix decodes_string)

lemma decode_set_decodable:
  assumes "map blank qs = map blank ps" "\<forall>p \<in> set ps. decodable p \<and> depth p \<le> k"
    and "length (pre @ abi_enc_set ps @ post) < 2 ^ 64"
  shows "decode_set B k qs (pre @ abi_enc_set ps @ post) (length pre)
      = Inr (True, ps, length pre + length (abi_enc_set ps))"
  using assms decodable_decodes by (intro decode_set_enc) auto

end

section \<open>The factory\<close>

text \<open>
  The object that the factory makes for the type string of a parameter: its values are reset, and
  an array has the single element that carries its element type.
\<close>

fun made :: "param \<Rightarrow> param" where
  "made (ParamArray ps) = ParamArray (case ps of [] \<Rightarrow> [] | p # _ \<Rightarrow> [made p])"
| "made p = blank p"

fun makeable :: "param \<Rightarrow> bool" where
  "makeable (ParamNumberType t v) = (t \<noteq> T_UInt)"
| "makeable (ParamUIntN bits v) = bits_ok bits"
| "makeable (ParamIntN bits v) = bits_ok bits"
| "makeable (ParamByteArrayFix n bs) = (length bs = n \<and> n < 2 ^ 31)"
| "makeable (ParamArray ps) = (case ps of [] \<Rightarrow> False | p # _ \<Rightarrow> makeable p)"
| "makeable (ParamArrayFix ps) = False"
| "makeable (Parameters ps) = False"
| "makeable _ = True"

lemma parseBitSize_ok:
  assumes "bits_ok bits"
  shows "parseBitSize (show_nat bits) = Inr bits"
proof -
  have "bits < 2 ^ 31" using assms by (simp add: bits_ok_def)
  moreover have "int bits mod 8 = 0" using assms zmod_int [of bits 8] by (simp add: bits_ok_def)
  ultimately show ?thesis
    using assms by (simp add: parseBitSize_def abi_stoi_def stoi_show_nat bits_ok_def)
qed

lemma show_nat_inj: "show_nat m = show_nat n \<Longrightarrow> m = n"
  by (metis pos_val_show_nat)

lemma show_nat_numerals:
  "show_nat 8 = ''8''" "show_nat 16 = ''16''" "show_nat 32 = ''32''" "show_nat 64 = ''64''" "show_nat 256 = ''256''"
  by (simp_all add: show_nat.simps digit_char_def char_of_def bit_iff_odd)

lemma last_show_nat: "last (show_nat n) \<noteq> CHR '']''"
  using show_nat_digits [of "last (show_nat n)" n] by (auto simp: is_digit_def)

lemma getType_ne: "makeable p \<Longrightarrow> getType p \<noteq> []"
  by (induction p) (auto simp: num_type_def split: numty.splits list.splits)

lemma bits_names:
  assumes "bits_ok bits"
  shows "show_nat bits \<notin> {''8'', ''16'', ''32'', ''64'', ''256''}"
proof -
  have "bits \<notin> {8, 16, 32, 64, 256}" using assms by (auto simp: bits_ok_def)
  then show ?thesis using show_nat_inj [of bits] by (auto simp flip: show_nat_numerals)
qed

context boost_laws
begin

lemma isArrayType_append: "isArrayType B (t @ ''[]'') \<longleftrightarrow> t \<noteq> []"
  unfolding isArrayType_def ends_with_law by (cases t) auto

lemma getArrayElemType_append: "t \<noteq> [] \<Longrightarrow> getArrayElemType B (t @ ''[]'') = t"
  unfolding getArrayElemType_def ends_with_law by (cases t) auto

lemma not_array: "last t \<noteq> CHR '']'' \<Longrightarrow> \<not> isArrayType B t"
  unfolding isArrayType_def ends_with_law by auto

lemma make_number: "t \<noteq> T_UInt \<Longrightarrow> ParamFactory_make B (num_type t) = Inr (Some (ParamNumberType t 0))"
  by (subst ParamFactory_make.simps) (cases t; simp add: num_type_def not_array starts_with_law)

lemma make_uintn: "bits_ok bits \<Longrightarrow> ParamFactory_make B (''uint'' @ show_nat bits) = Inr (Some (ParamUIntN bits 0))"
  using bits_names [of bits] last_show_nat [of bits]
  by (subst ParamFactory_make.simps) (simp add: not_array starts_with_law makeUInt_def parseBitSize_ok)

lemma make_intn: "bits_ok bits \<Longrightarrow> ParamFactory_make B (''int'' @ show_nat bits) = Inr (Some (ParamIntN bits 0))"
  using bits_names [of bits] last_show_nat [of bits]
  by (subst ParamFactory_make.simps) (simp add: not_array starts_with_law makeInt_def parseBitSize_ok)

lemma make_bytesfix:
  "n < 2 ^ 31 \<Longrightarrow> ParamFactory_make B (''bytes'' @ show_nat n) = Inr (Some (ParamByteArrayFix n (replicate n 0)))"
  using last_show_nat [of n]
  by (subst ParamFactory_make.simps) (simp add: not_array starts_with_law abi_stoi_def stoi_show_nat)

lemma make_names:
  "ParamFactory_make B ''address'' = Inr (Some (ParamAddress 0))" "ParamFactory_make B ''bytes'' = Inr (Some (ParamByteArray []))"
  "ParamFactory_make B ''string'' = Inr (Some (ParamString []))"
  by (subst ParamFactory_make.simps; simp add: not_array starts_with_law)+

lemma make_getType: "makeable p \<Longrightarrow> ParamFactory_make B (getType p) = Inr (Some (made p))"
proof (induction p)
  case (ParamArray ps)
  then obtain p qs where ps: "ps = p # qs" by (cases ps) auto
  then have ne: "getType p \<noteq> []" using ParamArray.prems getType_ne by simp
  have "ParamFactory_make B (getType p) = Inr (Some (made p))" using ParamArray ps by simp
  then show ?case
    using ne ps by (subst ParamFactory_make.simps)
      (simp add: isArrayType_append getArrayElemType_append array_addParams_def array_addParam_def)
qed (simp_all add: make_number make_names make_uintn [simplified] make_intn [simplified] make_bytesfix [simplified])

end

section \<open>Short data\<close>

lemma decode_u256_short:
  "length enc < off + 32 \<Longrightarrow> off + 32 < 2 ^ 64 \<Longrightarrow> abi_decode_u256 B enc off = Inr (False, 0, off)"
  by (simp add: abi_decode_u256_def encodedIntSize_def add.commute)

context boost_laws
begin

lemma decode_heads_short:
  assumes "\<forall>q \<in> set qs. isDynamic q = Inr True"
    and "off \<le> length enc" "length enc < off + 32 * length qs" "off + 32 * length qs < 2 ^ 64"
  shows "\<exists>qs' off'. decode_pass False B k qs enc off = Inr (False, qs', off')"
  using assms
proof (induction qs arbitrary: off)
  case (Cons q qs)
  show ?case
  proof (cases "length enc < off + 32")
    case True
    then show ?thesis using Cons.prems decode_u256_short [of enc off B] by simp
  next
    case False
    then have "length (take off enc) = off" by simp
    moreover have "length (take 32 (drop off enc)) = 32" using False by simp
    then have "word32 (be_nat (take 32 (drop off enc))) = take 32 (drop off enc)"
      unfolding word32_def using nat_be_be_nat [of "take 32 (drop off enc)"] by simp
    then have "enc = take off enc @ word32 (be_nat (take 32 (drop off enc))) @ drop 32 (drop off enc)"
      by (metis append_take_drop_id)
    ultimately have "\<exists>v. abi_decode_u256 B enc off = Inr (True, v, off + 32)"
      using decode_word [of "take off enc" "be_nat (take 32 (drop off enc))" "drop 32 (drop off enc)"]
        Cons.prems(3,4) by (metis (no_types, lifting) less_trans)
    then show ?thesis using Cons.IH [of "off + 32"] Cons.prems False by auto
  qed
qed simp

end

section \<open>Functions\<close>

lemma getType_blank: "getType (blank p) = getType p"
proof (induction p)
  case (Parameters ps)
  then have "map getType (map blank ps) = map getType ps" by simp
  then show ?case by (metis blank.simps(10) getType.simps(10))
qed (auto split: list.splits)

lemma same_signature:
  assumes "fn_name g = fn_name f" "map blank (inParams g) = map blank (inParams f)"
  shows "getSignature keccak g = getSignature keccak f"
proof -
  have "map getType (inParams g) = map getType (map blank (inParams g))" by (simp add: getType_blank)
  also have "\<dots> = map getType (inParams f)" unfolding assms(2) by (simp add: getType_blank)
  finally show ?thesis
    using assms(1) by (simp add: getSignature_def Function_getType_def ParamSet_getType_def)
qed

lemma decode_selector:
  assumes "4 \<le> length enc" "length enc < 2 ^ 64"
  shows "decodeBytesFix enc 4 (replicate 4 0) 0 = Inr (True, take 4 enc, 32)"
  using assms by (simp add: decodeBytesFix_def pad_offset_def size_add_def paddedTo32_def)

text \<open>A value of the type \<open>uint256[2][2]\<close>.\<close>

definition matrix :: "int \<Rightarrow> int \<Rightarrow> int \<Rightarrow> int \<Rightarrow> param" where
  "matrix a b c d =
     ParamArrayFix [ParamArrayFix [ParamNumberType T_UInt256 a, ParamNumberType T_UInt256 b],
                    ParamArrayFix [ParamNumberType T_UInt256 c, ParamNumberType T_UInt256 d]]"

section \<open>Properties\<close>

text \<open>
  C2: the two passes of \<open>ParamSet::encode\<close> write the head/tail encoding of the contract ABI
  specification: static components in place, an offset for each dynamic one, then the tails in
  order.  The reference decides by itself what is dynamic: a tuple is when a component is, and a
  \<open>bytesN\<close> is one word.  The statement is about the parameters that satisfy \<open>flat\<close>: a \<open>bytesN\<close>
  holds \<open>N\<close> bytes and \<open>N\<close> is from 1 to 32, fixed arrays are not empty, every tuple has a dynamic
  component, and inside arrays and tuples a static parameter is at most one word.  Outside these
  conditions the code departs from the specification: see \<open>static_tuple_gets_offset\<close> and
  \<open>nested_fixed_array_wrong_offset\<close> below.
\<close>

theorem encode_refines_abi_spec:
  assumes "boost_laws B" and "\<forall>p \<in> set ps. flat p"
  shows "ParamSet_encode B ps d = Inr (d @ abi_enc_set ps)"
  using boost_laws.ParamSet_encode_eq [OF assms] .

theorem encode_refines_abi_spec_witness:
  "ParamSet_encode repo_boost [ParamNumberType T_UInt256 7, ParamString ''hi''] []
     = Inr (word32 7 @ word32 64 @ word32 2 @ [104, 105] @ replicate 30 0)"
proof -
  have two: "word32 (Suc (Suc 0)) = word32 2" by (simp add: numeral_2_eq_2)
  have "abi_enc_set [ParamNumberType T_UInt256 7, ParamString ''hi'']
      = word32 7 @ word32 64 @ word32 2 @ [104, 105] @ replicate 30 0"
    by (simp add: abi_enc_set_def abi_tuple_def pad_right_def asBytes_def padNeeded32_def tuple_tails_def
        byte_of_char_def two)
  then show ?thesis
    using encode_refines_abi_spec
      [OF repo.boost_laws_axioms, of "[ParamNumberType T_UInt256 7, ParamString ''hi'']" "[]"]
    by simp
qed

text \<open>
  C8: decoding inverts encoding, for parameters that satisfy \<open>flat\<close> (as in the statement on the
  encoder) and \<open>decodable\<close>: the numbers of the template classes are not negative and in range, the
  integers of other widths in range, addresses below \<open>2^160\<close>, arrays are not empty, and the elements
  of fixed arrays are static.  Then \<open>ParamSet::decode\<close> on any set of parameters of the same shape
  reads the encoded values back, wherever in the data they stand, and leaves the offset behind them.
  As many units of fuel as the parameters are deep are enough.  Negative values of type \<open>int256\<close> and
  fixed arrays of dynamic elements do not come back: see \<open>negative_int256_not_recovered\<close> and
  \<open>dynamic_fixed_array_not_decoded\<close> below.
\<close>

theorem decode_inverts_encode:
  assumes "boost_laws B" and "\<forall>p \<in> set ps. flat p \<and> decodable p \<and> depth p \<le> k"
    and "map blank qs = map blank ps" and "length (d @ abi_enc_set ps @ post) < 2 ^ 64"
  shows "\<exists>e. ParamSet_encode B ps d = Inr (d @ e) \<and>
    decode_set B k qs (d @ e @ post) (length d) = Inr (True, ps, length d + length e)"
  using boost_laws.ParamSet_encode_eq [OF assms(1), of ps d]
    boost_laws.decode_set_decodable [OF assms(1,3) _ assms(4)] assms(2) by auto

theorem decode_inverts_encode_witness:
  "\<exists>e. ParamSet_encode repo_boost [ParamArray [ParamAddress 5, ParamAddress 6], ParamNumberType T_Bool 1] [] = Inr e \<and>
    decode_set repo_boost 1 [ParamArray [ParamAddress 0, ParamAddress 0], ParamNumberType T_Bool 0] e 0
      = Inr (True, [ParamArray [ParamAddress 5, ParamAddress 6], ParamNumberType T_Bool 1], length e)"
  using decode_inverts_encode [OF repo.boost_laws_axioms,
      of "[ParamArray [ParamAddress 5, ParamAddress 6], ParamNumberType T_Bool 1]" 1
         "[ParamArray [ParamAddress 0, ParamAddress 0], ParamNumberType T_Bool 0]" "[]" "[]"]
  by (simp add: num_ok_def abi_enc_set_def abi_tuple_def)

text \<open>
  C24: a function call survives the wire when its arguments satisfy \<open>flat\<close> and \<open>decodable\<close>, that is,
  numbers are not negative (except in the widths of \<open>ParamIntN\<close>) and in range, arrays are not empty,
  the elements of fixed arrays are static, tuples have a dynamic component, a \<open>bytesN\<close> has its \<open>N\<close>
  bytes, and inside arrays and tuples a static argument is at most one word.  What \<open>Function::encode\<close>
  writes for such a function is accepted by \<open>decodeInput\<close> of a function of the same name and
  parameter types, which then holds the arguments of the call.  Of the hash only the length is used.
\<close>

theorem call_roundtrip:
  assumes "boost_laws B" and "\<And>x. length (keccak x) = 32"
    and "\<forall>p \<in> set (inParams f). flat p \<and> decodable p \<and> depth p \<le> k"
    and "fn_name g = fn_name f" and "map blank (inParams g) = map blank (inParams f)"
    and "length (abi_enc_set (inParams f)) + 4 < 2 ^ 64"
  shows "\<exists>e. Function_encode keccak B f [] = Inr e \<and>
    decodeInput keccak B k g e 0 = Inr (True, g\<lparr>inParams := inParams f\<rparr>, length e)"
proof -
  let ?s = "getSignature keccak f" and ?a = "abi_enc_set (inParams f)"
  have s: "length ?s = 4" using assms(2) by (simp add: getSignature_def signature_of_name_def)
  have "Function_encode keccak B f [] = Inr (?s @ ?a)"
    using boost_laws.ParamSet_encode_eq [OF assms(1), of "inParams f" ?s] assms(3)
    by (simp add: Function_encode_def)
  moreover have "decode_set B k (inParams g) (?s @ ?a) 4 = Inr (True, inParams f, 4 + length ?a)"
    using boost_laws.decode_set_decodable [OF assms(1,5), of k ?s "[]"] assms(3,6) s by simp
  ultimately show ?thesis
    using decode_selector [of "?s @ ?a"] same_signature [OF assms(4,5), of keccak] assms(6) s
    by (simp add: decodeInput_def Let_def)
qed

theorem call_roundtrip_witness:
  "\<exists>e. Function_encode (\<lambda>x. replicate 32 (of_nat (length x))) repo_boost
        \<lparr>fn_name = ''transfer'', inParams = [ParamAddress 9, ParamNumberType T_UInt256 100], outParams = []\<rparr> [] = Inr e \<and>
     decodeInput (\<lambda>x. replicate 32 (of_nat (length x))) repo_boost 0
        \<lparr>fn_name = ''transfer'', inParams = [ParamAddress 0, ParamNumberType T_UInt256 0], outParams = []\<rparr> e 0
       = Inr (True, \<lparr>fn_name = ''transfer'', inParams = [ParamAddress 9, ParamNumberType T_UInt256 100], outParams = []\<rparr>, length e)"
  using call_roundtrip [OF repo.boost_laws_axioms, of "\<lambda>x. replicate 32 (of_nat (length x))"
      "\<lparr>fn_name = ''transfer'', inParams = [ParamAddress 9, ParamNumberType T_UInt256 100], outParams = []\<rparr>" 0
      "\<lparr>fn_name = ''transfer'', inParams = [ParamAddress 0, ParamNumberType T_UInt256 0], outParams = []\<rparr>"]
  by (simp add: num_ok_def abi_enc_set_def abi_tuple_def)

text \<open>
  A call of another function is refused.  When the first four bytes are not the selector of the
  function, \<open>decodeInput\<close> returns false and leaves the parameters as they were.
\<close>

theorem other_selector_refused:
  assumes "4 \<le> length enc" "length enc < 2 ^ 64" "take 4 enc \<noteq> getSignature keccak f"
  shows "decodeInput keccak B k f enc 0 = Inr (False, f, 4)"
  using assms decode_selector [OF assms(1,2)] by (simp add: decodeInput_def Let_def)

theorem other_selector_refused_witness:
  "decodeInput (\<lambda>x. replicate 32 1) repo_boost 0 \<lparr>fn_name = ''f'', inParams = [], outParams = []\<rparr> [0, 0, 0, 0] 0
     = Inr (False, \<lparr>fn_name = ''f'', inParams = [], outParams = []\<rparr>, 4)"
proof (rule other_selector_refused)
  show "take 4 [0, 0, 0, 0] \<noteq> getSignature (\<lambda>x. replicate 32 1) \<lparr>fn_name = ''f'', inParams = [], outParams = []\<rparr>"
    by (simp add: getSignature_def signature_of_name_def eval_nat_numeral)
qed simp_all

text \<open>
  The factory understands the type names that parameters print.  For every parameter built from
  numbers, addresses, byte strings, strings and dynamic arrays of them, \<open>ParamFactory::make\<close> on
  \<open>getType()\<close> gives a parameter of that type, an array with one element of its element type.
\<close>

theorem factory_inverts_getType:
  assumes "boost_laws B" and "makeable p"
  shows "ParamFactory_make B (getType p) = Inr (Some (made p))"
  using boost_laws.make_getType [OF assms] .

theorem factory_inverts_getType_witness:
  "ParamFactory_make repo_boost ''uint256[][]'' = Inr (Some (ParamArray [ParamArray [ParamNumberType T_UInt256 0]]))"
  using factory_inverts_getType [OF repo.boost_laws_axioms, of "ParamArray [ParamArray [ParamNumberType T_UInt256 3]]"]
  by (simp add: num_type_def)

text \<open>
  Static tuples are written as dynamic ones.  \<open>Parameters::isDynamic\<close> is always true, so that a tuple
  of one number is an offset and the number, where the specification has the number in place.
\<close>

theorem static_tuple_gets_offset:
  assumes "boost_laws B"
  shows "ParamSet_encode B [Parameters [ParamNumberType t v]] []
           = Inr (word32 32 @ abi_enc_set [Parameters [ParamNumberType t v]])"
proof -
  note [simp] = boost_laws.encodeUInt256_word [OF assms] boost_laws.to_u256_mod [OF assms]
  show ?thesis
    using boost_laws.encodeUInt256_nat [OF assms, of 32]
    by (simp add: ParamSet_encode_def getHeadSize_def encodedIntSize_def isFixArray_def paddedTo32_def
        abi_enc_set_def abi_tuple_def)
qed

text \<open>
  The size of nested fixed arrays.  \<open>ParamSet::getSize\<close> adds an offset word for a static
  parameter longer than 32 bytes, while \<open>encode\<close> writes static fixed arrays in place.  For
  \<open>(uint256[2][2], bytes)\<close> the offset of the byte string is therefore 224, and the specification,
  and the place where the bytes are written, is 160.
\<close>

theorem nested_fixed_array_wrong_offset:
  assumes "boost_laws B"
  shows "ParamSet_encode B [matrix a b c d, ParamByteArray bs] []
           = Inr (abi_enc (matrix a b c d) @ word32 224 @ word32 (length bs) @ pad_right bs) \<and>
         abi_enc_set [matrix a b c d, ParamByteArray bs]
           = abi_enc (matrix a b c d) @ word32 160 @ word32 (length bs) @ pad_right bs"
proof
  note [simp] = boost_laws.encodeUInt256_word [OF assms] boost_laws.encodeUInt256_nat [OF assms]
    boost_laws.to_u256_mod [OF assms]
  show "ParamSet_encode B [matrix a b c d, ParamByteArray bs] []
      = Inr (abi_enc (matrix a b c d) @ word32 224 @ word32 (length bs) @ pad_right bs)"
    using boost_laws.encodeUInt256_nat [OF assms, of 224]
    by (simp add: ParamSet_encode_def matrix_def getHeadSize_def encodedIntSize_def isFixArray_def paddedTo32_def
        ParamByteArray_encodeBytes_def abi_tuple_def pad_right_def)
  show "abi_enc_set [matrix a b c d, ParamByteArray bs]
      = abi_enc (matrix a b c d) @ word32 160 @ word32 (length bs) @ pad_right bs"
    by (simp add: abi_enc_set_def matrix_def abi_tuple_def)
qed

theorem nested_fixed_array_wrong_offset_witness:
  "ParamSet_encode repo_boost [matrix 1 2 3 4, ParamByteArray []] []
     \<noteq> Inr (abi_enc_set [matrix 1 2 3 4, ParamByteArray []])"
proof -
  have "be_nat (word32 224) \<noteq> be_nat (word32 160)" by (simp add: word32_def)
  then show ?thesis using nested_fixed_array_wrong_offset [OF repo.boost_laws_axioms, of 1 2 3 4 "[]"] by auto
qed

text \<open>
  Fixed arrays of dynamic elements cannot be read back.  \<open>ParamArrayFix::encode\<close> writes no
  length and \<open>ParamArrayFix::decode\<close> reads one when the elements are dynamic: it takes the first
  offset, 64, for the number of elements.  For two strings of at most 32 bytes each, decoding
  their own encoding fails.
\<close>

theorem dynamic_fixed_array_not_decoded:
  assumes "boost_laws B" and "length s \<le> 32" and "length t \<le> 32"
  shows "\<exists>e p off. encode_param B (ParamArrayFix [ParamString s, ParamString t]) [] = Inr e \<and>
    decode_param B (Suc k) (ParamArrayFix [ParamString s, ParamString t]) e 0 = Inr (False, p, off)"
proof -
  let ?p = "ParamArrayFix [ParamString s, ParamString t]" and ?n = "32 + paddedTo32 (length s)"
  have pad: "paddedTo32 m \<le> 32" if "m \<le> 32" for m
  proof -
    have "(m + 31) div 32 \<le> 1" using that by simp
    then show ?thesis by (simp add: paddedTo32_def)
  qed
  define rest where "rest = word32 (64 + ?n) @ word32 (length s) @ pad_right (asBytes s)
    @ word32 (length t) @ pad_right (asBytes t)"
  have e: "abi_enc ?p = word32 64 @ rest" by (simp add: rest_def abi_tuple_def)
  have len: "length (abi_enc ?p) \<le> 192" unfolding e rest_def using pad [OF assms(2)] pad [OF assms(3)] by simp
  have enc: "encode_param B ?p [] = Inr (abi_enc ?p)"
    using boost_laws.encode_param_eq [OF assms(1), of ?p] by (simp add: encodes_def)
  let ?qs = "[ParamString s, ParamString t] @ replicate 62 (ParamString [])"
  have "read_size B (abi_enc ?p) 0 = Inr (Some 64, 32)"
    using boost_laws.read_size_word [OF assms(1), of "[]" 64 rest] len e by simp
  then have rd: "read_array B [ParamString s, ParamString t] (abi_enc ?p) 0 = Inr (True, ?qs, 32)"
    by (simp add: read_array_def array_prepare_def boost_laws.make_names [OF assms(1)])
  have "\<exists>qs' off'. decode_pass False B k ?qs (abi_enc ?p) 32 = Inr (False, qs', off')"
    using len e by (intro boost_laws.decode_heads_short [OF assms(1)]) auto
  then obtain qs' off' where "decode_set B k ?qs (abi_enc ?p) 32 = Inr (False, qs', off')"
    by (auto simp: decode_set.simps)
  then have "decode_param B (Suc k) ?p (abi_enc ?p) 0 = Inr (False, ParamArrayFix qs', pad_offset 0 off')"
    using rd by simp
  with enc show ?thesis by blast
qed

theorem dynamic_fixed_array_not_decoded_witness:
  "\<exists>e p off. encode_param repo_boost (ParamArrayFix [ParamString ''a'', ParamString ''b'']) [] = Inr e \<and>
    decode_param repo_boost (Suc 0) (ParamArrayFix [ParamString ''a'', ParamString ''b'']) e 0 = Inr (False, p, off)"
  by (rule dynamic_fixed_array_not_decoded [OF repo.boost_laws_axioms]) simp_all

text \<open>
  Negative values of the type \<open>int256\<close> change their sign on the way.  They are encoded in
  two's complement, and \<open>ParamNumberType<int256_t>::decode\<close> converts the word without looking
  at its sign, so that \<open>v\<close> comes back as \<open>v + 2^256\<close>.
\<close>

theorem negative_int256_not_recovered:
  assumes "boost_laws B" and "- (2 ^ 255) \<le> v" and "v < 0"
  shows "\<exists>e. encode_param B (ParamNumberType T_Int256 v) [] = Inr e \<and>
    decode_param B k (ParamNumberType T_Int256 0) e 0 = Inr (True, ParamNumberType T_Int256 (v + 2 ^ 256), 32)"
proof -
  let ?w = "word32 (unat (of_int v :: u256))"
  have "encode_param B (ParamNumberType T_Int256 v) [] = Inr ?w"
    using boost_laws.encodeUInt256_word [OF assms(1)] boost_laws.to_u256_mod [OF assms(1)] by simp
  moreover have "abi_decode_u256 B ?w 0 = Inr (True, of_int v, 32)"
    using boost_laws.decode_word [OF assms(1), of "[]" "unat (of_int v :: u256)" "[]"] by simp
  moreover have "to_i256 B (of_int v) = v + 2 ^ 256"
  proof -
    have "int (unat (of_int (v + 2 ^ 256) :: u256)) = v + 2 ^ 256"
      using assms(2,3) by (intro unat_of_int_u256) simp_all
    moreover have "(of_int (v + 2 ^ 256) :: u256) = of_int v" by simp
    ultimately show ?thesis
      using boost_laws.to_i256_value [OF assms(1), of "of_int v"] by metis
  qed
  ultimately show ?thesis by (simp add: decode_number_def cast_num_def)
qed

theorem negative_int256_not_recovered_witness:
  "\<exists>e. encode_param repo_boost (ParamNumberType T_Int256 (-1)) [] = Inr e \<and>
    decode_param repo_boost 0 (ParamNumberType T_Int256 0) e 0 = Inr (True, ParamNumberType T_Int256 (2 ^ 256 - 1), 32)"
  using negative_int256_not_recovered [OF repo.boost_laws_axioms, of "-1" 0] by simp

end
