(* ===== verification/Abi_Text.thy ===== *)
theory Abi_Text
  imports Abi_Theorems
begin

text \<open>
  The text of ABI values: \<^verbatim>\<open>ParamFactory::getValue\<close>, \<^verbatim>\<open>getArrayValue\<close> and
  \<^verbatim>\<open>ValueDecoder\<close>.  The JSON library and \<open>boost::lexical_cast\<close> are the fields of the record
  \<open>text_lib\<close>; a cast to another parameter class that fails gives a null pointer, and its use the
  error \<open>NullDeref\<close>.
\<close>

section \<open>Values as text\<close>

record 'j text_lib =
  json_parse :: "string \<Rightarrow> 'j option"
  json_string :: "string \<Rightarrow> 'j"
  json_dump_array :: "'j list \<Rightarrow> string"
  lexical_cast :: "int \<Rightarrow> string"

definition joinArrayElems :: "'j text_lib \<Rightarrow> string list \<Rightarrow> string" where
  "joinArrayElems L strings =
     json_dump_array L (map (\<lambda>s. case json_parse L s of None \<Rightarrow> json_string L s | Some v \<Rightarrow> v) strings)"

text \<open>The numeric branches: the cast succeeds for the class of that type only.\<close>

definition number_text :: "'j text_lib \<Rightarrow> numty \<Rightarrow> param \<Rightarrow> abi_error + string" where
  "number_text L t p =
     (case p of
        ParamNumberType t' v \<Rightarrow> if t' = t then Inr (lexical_cast L v) else Inl NullDeref
      | _ \<Rightarrow> Inl NullDeref)"

definition leaf_text :: "'j text_lib \<Rightarrow> boost \<Rightarrow> param \<Rightarrow> string \<Rightarrow> abi_error + string" where
  "leaf_text L B p t =
     (if t = ''address'' then
        (case p of ParamAddress v \<Rightarrow> Inr (hexEncoded (ParamAddress_getData B v)) | _ \<Rightarrow> Inl NullDeref)
      else if t = ''uint8'' then number_text L T_UInt8 p
      else if t = ''uint16'' then number_text L T_UInt16 p
      else if t = ''uint32'' then number_text L T_UInt32 p
      else if t = ''uint64'' then number_text L T_UInt64 p
      else if t = ''uint256'' \<or> t = ''uint'' then number_text L T_UInt256 p
      else if t = ''int8'' then number_text L T_Int8 p
      else if t = ''int16'' then number_text L T_Int16 p
      else if t = ''int32'' then number_text L T_Int32 p
      else if t = ''int64'' then number_text L T_Int64 p
      else if t = ''int256'' \<or> t = ''int'' then number_text L T_Int256 p
      else if boost_starts_with B t ''uint'' then
        (case p of
           ParamUIntN bits v \<Rightarrow> Inr (lexical_cast L (int (unat v)))
         | ParamAddress v \<Rightarrow> Inr (lexical_cast L (int (unat v)))
         | _ \<Rightarrow> Inl NullDeref)
      else if boost_starts_with B t ''int'' then
        (case p of ParamIntN bits v \<Rightarrow> Inr (lexical_cast L v) | _ \<Rightarrow> Inl NullDeref)
      else if t = ''bool'' then
        (case p of
           ParamNumberType T_Bool v \<Rightarrow> Inr (if v \<noteq> 0 then ''true'' else ''false'')
         | _ \<Rightarrow> Inl NullDeref)
      else if t = ''bytes'' then
        (case p of ParamByteArray bs \<Rightarrow> Inr (hexEncoded bs) | _ \<Rightarrow> Inl NullDeref)
      else if boost_starts_with B t ''bytes'' then
        (case p of ParamByteArrayFix n bs \<Rightarrow> Inr (hexEncoded bs) | _ \<Rightarrow> Inl NullDeref)
      else if t = ''string'' then
        (case p of ParamString s \<Rightarrow> Inr s | _ \<Rightarrow> Inl NullDeref)
      else Inr [])"

function getValue :: "'j text_lib \<Rightarrow> boost \<Rightarrow> param \<Rightarrow> string \<Rightarrow> abi_error + string"
and getArrayValue :: "'j text_lib \<Rightarrow> boost \<Rightarrow> param \<Rightarrow> string \<Rightarrow> abi_error + string list"
and getElems :: "'j text_lib \<Rightarrow> boost \<Rightarrow> param list \<Rightarrow> string \<Rightarrow> abi_error + string list" where
  "getValue L B p t =
     (if isArrayType B t then bind_res (getArrayValue L B p t) (\<lambda>vs. Inr (joinArrayElems L vs))
      else leaf_text L B p t)"
| "getArrayValue L B p t =
     (if \<not> isArrayType B t then Inr []
      else (case p of ParamArray ps \<Rightarrow> getElems L B ps (getArrayElemType B t) | _ \<Rightarrow> Inr []))"
| "getElems L B [] t = Inr []"
| "getElems L B (p # ps) t =
     bind_res (getValue L B p t) (\<lambda>v. bind_res (getElems L B ps t) (\<lambda>vs. Inr (v # vs)))"
  by pat_completeness auto
termination
  by (relation "measures [\<lambda>x. case x of
         Inl (L, B, p, t) \<Rightarrow> length t
       | Inr (Inl (L, B, p, t)) \<Rightarrow> length t
       | Inr (Inr (L, B, ps, t)) \<Rightarrow> length t,
       \<lambda>x. case x of
         Inl (L, B, p, t) \<Rightarrow> 1
       | Inr (Inl (L, B, p, t)) \<Rightarrow> 0
       | Inr (Inr (L, B, ps, t)) \<Rightarrow> Suc (length ps)]")
    (auto simp: isArrayType_def getArrayElemType_def)

declare getValue.simps [simp del] getArrayValue.simps [simp del]

section \<open>ValueDecoder\<close>

definition decodeValue :: "'j text_lib \<Rightarrow> boost \<Rightarrow> nat \<Rightarrow> bytes \<Rightarrow> string \<Rightarrow> abi_error + string" where
  "decodeValue L B k d t =
     bind_res (ParamFactory_make B t) (\<lambda>r.
       case r of
         None \<Rightarrow> Inr []
       | Some p \<Rightarrow> bind_res (decode_param B k p d 0) (\<lambda>(ok, p', off).
           if \<not> ok then Inr [] else getValue L B p' (getType p')))"

definition decodeArray :: "'j text_lib \<Rightarrow> boost \<Rightarrow> nat \<Rightarrow> bytes \<Rightarrow> string \<Rightarrow> abi_error + string list" where
  "decodeArray L B k d t =
     bind_res (ParamFactory_make B t) (\<lambda>r.
       case r of
         None \<Rightarrow> Inr []
       | Some p \<Rightarrow> bind_res (decode_param B k p d 0) (\<lambda>(ok, p', off).
           if \<not> ok then Inr [] else getArrayValue L B p' t))"

section \<open>Arrays of leaves\<close>

lemma leaf_made: "depth p = 0 \<Longrightarrow> makeable p \<Longrightarrow> made p = blank p \<and> blank (blank p) = blank p"
  by (cases p) auto

lemma leaf_blank_eq:
  assumes "boost_laws B" "makeable p" "makeable q" "depth p = 0" "depth q = 0" "getType p = getType q"
  shows "made p = made q" "blank p = blank q"
proof -
  show m: "made p = made q"
    using boost_laws.make_getType [OF assms(1,2)] boost_laws.make_getType [OF assms(1,3)] assms(6) by simp
  show "blank p = blank q"
    using leaf_made [of p] leaf_made [of q] assms m by simp
qed

context boost_laws
begin

lemma read_array_leaves:
  assumes "makeable p" "depth p = 0" "0 < n" "n < 2 ^ 64"
    and "length (word32 n @ rest) < 2 ^ 64"
  shows "read_array B [made p] (word32 n @ rest) 0 = Inr (True, replicate n (made p), 32)"
proof -
  have "read_size B (word32 n @ rest) 0 = Inr (Some n, 32)"
    using read_size_word [of "[]" n rest] assms by simp
  moreover have "ParamFactory_make B (getType (made p)) = Inr (Some (made p))"
    using make_getType [OF assms(1)] leaf_made [OF assms(2,1)] getType_blank by simp
  moreover have "made p # replicate (n - Suc 0) (made p) = replicate n (made p)"
    using assms(3) by (metis Suc_diff_1 One_nat_def replicate_Suc)
  ultimately show ?thesis
    using assms(3) by (auto simp: read_array_def array_prepare_def split: if_splits)
qed

lemma decode_leaves:
  assumes "p \<in> set ps" "length ps < 2 ^ 64" "length (abi_enc (ParamArray ps) @ post) < 2 ^ 64"
    and leaves: "\<forall>q \<in> set ps. decodable q \<and> makeable q \<and> depth q = 0 \<and> getType q = getType p"
  shows "decode_param B (Suc k) (ParamArray [made p]) (abi_enc (ParamArray ps) @ post) 0
    = Inr (True, ParamArray ps, length (abi_enc (ParamArray ps)))"
proof -
  let ?n = "length ps"
  have e: "abi_enc (ParamArray ps) = word32 ?n @ abi_enc_set ps" by (simp add: abi_enc_set_def)
  have p: "makeable p" "depth p = 0" "0 < ?n" using assms(1) leaves by auto
  then have "read_array B [made p] (word32 ?n @ (abi_enc_set ps @ post)) 0
      = Inr (True, replicate ?n (made p), 32)"
    using assms(2,3) e by (intro read_array_leaves) simp_all
  moreover have "blank (made p) = blank q" if "q \<in> set ps" for q
    using leaf_blank_eq [OF boost_laws_axioms, of q p] leaf_made [of p] p leaves that by simp
  then have "map blank (replicate ?n (made p)) = map blank ps" by (simp add: list_eq_iff_nth_eq)
  then have "decode_set B k (replicate ?n (made p)) (word32 ?n @ abi_enc_set ps @ post) (length (word32 ?n))
      = Inr (True, ps, length (word32 ?n) + length (abi_enc_set ps))"
    using assms(3) e leaves by (intro decode_set_decodable) simp_all
  moreover have "pad_offset 0 (0 + (32 + length (abi_enc_set ps))) = 0 + paddedTo32 (32 + length (abi_enc_set ps))"
    using assms(3) e dvd_abi_enc_set [of ps] by (intro pad_offset_exact) (simp_all add: paddedTo32_dvd)
  ultimately show ?thesis
    unfolding e using dvd_abi_enc_set [of ps] by (simp add: paddedTo32_dvd)
qed

end

text \<open>
  \<open>ValueDecoder::decodeArray\<close> reads what the encoder wrote.  For an array of values of one
  elementary type \<open>t\<close>, decoding its encoding as \<open>t[]\<close> gives the text of each element, in order,
  also when more data follows.  The factory makes one element; the rest are added on the way.
\<close>

theorem decodeArray_of_encoded:
  assumes "boost_laws B" and "ps \<noteq> []" and "length ps < 2 ^ 64"
    and "\<forall>p \<in> set ps. decodable p \<and> makeable p \<and> depth p = 0 \<and> getType p = t"
    and "length (abi_enc (ParamArray ps) @ post) < 2 ^ 64"
  shows "decodeArray L B (Suc k) (abi_enc (ParamArray ps) @ post) (t @ ''[]'') = getElems L B ps t"
proof -
  obtain p qs where ps: "ps = p # qs" using assms(2) by (cases ps) auto
  have p: "makeable p" "depth p = 0" "getType p = t" using assms(4) ps by auto
  then have ne: "t \<noteq> []" using getType_ne by auto
  have arr: "isArrayType B (t @ ''[]'')" "getArrayElemType B (t @ ''[]'') = t"
    using boost_laws.isArrayType_append [OF assms(1)] boost_laws.getArrayElemType_append [OF assms(1)] ne
    by simp_all
  have "ParamFactory_make B (t @ ''[]'') = Inr (Some (ParamArray [made p]))"
    using boost_laws.make_getType [OF assms(1), of "ParamArray [p]"] p by simp
  moreover have "decode_param B (Suc k) (ParamArray [made p]) (abi_enc (ParamArray ps) @ post) 0
      = Inr (True, ParamArray ps, length (abi_enc (ParamArray ps)))"
    using assms(4) p ps by (intro boost_laws.decode_leaves [OF assms(1) _ assms(3,5)]) auto
  ultimately show ?thesis
    using arr by (simp add: decodeArray_def getArrayValue.simps)
qed

theorem decodeArray_of_encoded_witness:
  "decodeArray \<lparr>json_parse = (\<lambda>s. None), json_string = id, json_dump_array = concat, lexical_cast = (\<lambda>i. show_nat (nat i))\<rparr>
     repo_boost 1 (abi_enc (ParamArray [ParamNumberType T_Bool 1, ParamNumberType T_Bool 0])) ''bool[]''
   = Inr [''true'', ''false'']"
proof -
  have "\<not> isArrayType repo_boost ''bool''" by (simp add: isArrayType_def repo_boost_def)
  then show ?thesis
    using decodeArray_of_encoded [OF repo.boost_laws_axioms,
        of "[ParamNumberType T_Bool 1, ParamNumberType T_Bool 0]" "''bool''" "[]"
          "\<lparr>json_parse = (\<lambda>s. None), json_string = id, json_dump_array = concat, lexical_cast = (\<lambda>i. show_nat (nat i))\<rparr>" 0]
    by (simp add: getValue.simps leaf_text_def repo_boost_def starts_with_def num_ok_def num_type_def abi_tuple_def)
qed

end
