(* ===== verification/Common_JS.thy ===== *)
theory Common_JS
  imports Fixed_Hash String_Util
begin

text \<open>
  \<^verbatim>\<open>libdevcore/CommonJS\<close>, the conversions between values and the hexadecimal strings of the RPC
  interface, and the numeric helpers of \<^verbatim>\<open>libdevcore/Common.h\<close>.  The constructor of Boost's
  integers from a decimal string is the argument \<open>of_decimal\<close>.
\<close>

section \<open>Common.h\<close>

text \<open>\<open>s256\<close> is a sign and a magnitude of 256 bits, here an \<open>int\<close>.\<close>

definition u2s :: "u256 \<Rightarrow> int" where
  "u2s u = (if bit u 255 then - (2 ^ 256 - int (unat u)) else int (unat u))"

definition s2u :: "int \<Rightarrow> u256" where
  "s2u u = (if u \<ge> 0 then of_int u else of_int (2 ^ 256 + u))"

text \<open>\<open>for (ret = 0; _x >>= 1; ++ret) {}\<close>\<close>

function toLog2_loop :: "u256 \<Rightarrow> nat \<Rightarrow> nat" where
  "toLog2_loop x ret =
     (let x' = drop_bit 1 x in if x' = 0 then ret else toLog2_loop x' (ret + 1))"
  by pat_completeness auto
termination
proof (relation "measure (\<lambda>(x, ret). unat x)", goal_cases)
  case (2 x ret x')
  then have "unat x div 2 \<noteq> 0" by (metis unat_drop_bit power_one_right unsigned_0 word_unat_eq_iff)
  then show ?case using 2 unat_drop_bit [of 1 x] by simp
qed simp

declare toLog2_loop.simps [simp del]

definition toLog2 :: "u256 \<Rightarrow> nat" where
  "toLog2 x = toLog2_loop x 0"

fun exp10 :: "nat \<Rightarrow> u256" where
  "exp10 0 = 1"
| "exp10 (Suc n) = exp10 n * 10"

definition diff_u256 :: "u256 \<Rightarrow> u256 \<Rightarrow> u256" where
  "diff_u256 a b = max a b - min a b"

definition isTrue :: "string \<Rightarrow> bool" where
  "isTrue m = (m = ''on'' \<or> m = ''yes'' \<or> m = ''true'' \<or> m = ''1'')"

definition isFalse :: "string \<Rightarrow> bool" where
  "isFalse m = (m = ''off'' \<or> m = ''no'' \<or> m = ''false'' \<or> m = ''0'')"

section \<open>Bytes\<close>

datatype OnFailed = InterpretRaw | Empty | ThrowOnFailed

datatype js_error = js_invalid_argument

definition jsToBytes :: "string \<Rightarrow> OnFailed \<Rightarrow> js_error + bytes" where
  "jsToBytes s f =
     (case fromHex s Throw of
        Inr b \<Rightarrow> Inr b
      | Inl _ \<Rightarrow>
          if f = InterpretRaw then Inr (asBytes s)
          else if f = ThrowOnFailed then Inl js_invalid_argument
          else Inr [])"

text \<open>\<open>max(_l, _l)\<close> is \<open>_l\<close>, and the loop has made the size at least that.\<close>

function padded_loop :: "bytes \<Rightarrow> nat \<Rightarrow> bytes" where
  "padded_loop b l = (if length b < l then padded_loop (0 # b) l else b)"
  by pat_completeness auto
termination
  by (relation "measure (\<lambda>(b, l). l - length b)") auto

declare padded_loop.simps [simp del]

definition padded :: "bytes \<Rightarrow> nat \<Rightarrow> bytes" where
  "padded b l = (let b = padded_loop b l in asBytes (drop (length b - max l l) (asString b)))"

definition paddedRight :: "bytes \<Rightarrow> nat \<Rightarrow> bytes" where
  "paddedRight b l = take l b @ replicate (l - length b) 0"

definition find_last_not_of :: "char \<Rightarrow> string \<Rightarrow> nat option" where
  "find_last_not_of c s =
     (let r = dropWhile (\<lambda>x. x = c) (rev s) in if r = [] then None else Some (length r - 1))"

definition unpadded :: "bytes \<Rightarrow> bytes" where
  "unpadded b = (case find_last_not_of (CHR 0x00) (asString b) of None \<Rightarrow> [] | Some p \<Rightarrow> take (p + 1) b)"

fun lead_zeros :: "bytes \<Rightarrow> nat \<Rightarrow> nat" where
  "lead_zeros [] i = i"
| "lead_zeros (x # xs) i = (if x = 0 then lead_zeros xs (i + 1) else i)"

definition unpadLeft :: "bytes \<Rightarrow> bytes" where
  "unpadLeft b = (if length b = 0 then b else (let i = lead_zeros b 0 in if i \<noteq> 0 then drop i b else b))"

definition fromRaw :: "FixedHash \<Rightarrow> string" where
  "fromRaw n =
     (if hash_bool n then
        (let s = asString n; l = find_char s (CHR 0x00) 0 in
         if l = Some 0 then []
         else (let s = (case l of None \<Rightarrow> s | Some k \<Rightarrow> take k s) in
               if list_ex char_below_space s then [] else s))
      else [])"

definition jsToAddress :: "string \<Rightarrow> hex_error + FixedHash" where
  "jsToAddress s =
     bind_res (fromHex (if take 2 s = ''0x'' then drop 2 s else s) DontThrow) (\<lambda>b.
       Inr (if length b = 20 then hash_of_bytes 20 b FailIfDifferent else hash_of_bytes 20 [] FailIfDifferent))"

section \<open>Printing\<close>

text \<open>\<open>"0x" + std::to_string(_b)\<close>\<close>

definition toJS_byte :: "byte \<Rightarrow> string" where
  "toJS_byte b = ''0x'' @ show_nat (unat b)"

definition toJS_hash :: "FixedHash \<Rightarrow> string" where
  "toJS_hash h = toHexPrefixed h"

definition toJS_number :: "'a::len word \<Rightarrow> string" where
  "toJS_number n =
     (let h = toHex (toCompactBigEndian n 1);
          res = (if h ! 0 \<noteq> CHR ''0'' then h else drop 1 h)
      in ''0x'' @ res)"

text \<open>\<open>"0x" << std::hex << _i\<close> for an integer that is not one of Boost's.\<close>

fun show_hex :: "nat \<Rightarrow> string" where
  "show_hex n = (if n < 16 then [hexdigits ! n] else show_hex (n div 16) @ [hexdigits ! (n mod 16)])"

declare show_hex.simps [simp del]

definition toJS_uint64 :: "u64 \<Rightarrow> string" where
  "toJS_uint64 n = ''0x'' @ show_hex (unat n)"

definition toJS_bytes :: "bytes \<Rightarrow> nat \<Rightarrow> string" where
  "toJS_bytes n padding =
     (if n = [] then []
      else (let k = max (unat (of_nat (length n) :: u32)) (unat (of_nat padding :: u32)) in
            toHexPrefixed (take k n @ replicate (k - length n) 0)))"

section \<open>Reading\<close>

definition all_digits :: "string \<Rightarrow> bool" where
  "all_digits s = list_all (\<lambda>c. c \<in> set ''0123456789'') s"

definition jsToFixed :: "(string \<Rightarrow> nat) \<Rightarrow> nat \<Rightarrow> string \<Rightarrow> hex_error + FixedHash" where
  "jsToFixed of_decimal N s =
     (if take 2 s = ''0x'' then
        hash_of_string N (drop (2 + max (N * 2) (length s - 2) - N * 2) s) FromHex FailIfDifferent
      else if all_digits s then Inr (nat_be N (of_decimal s))
      else Inr (hash_zero N))"

definition jsToInt_word :: "(string \<Rightarrow> nat) \<Rightarrow> string \<Rightarrow> hex_error + 'a::len word" where
  "jsToInt_word of_decimal s =
     (if take 2 s = ''0x'' then bind_res (fromHex (drop 2 s) DontThrow) (\<lambda>b. Inr (fromBigEndian b))
      else if all_digits s then Inr (of_nat (of_decimal s))
      else Inr 0)"

definition jsToU256 :: "(string \<Rightarrow> nat) \<Rightarrow> string \<Rightarrow> hex_error + u256" where
  "jsToU256 of_decimal s = jsToInt_word of_decimal s"

definition jsToPublic :: "(string \<Rightarrow> nat) \<Rightarrow> string \<Rightarrow> hex_error + FixedHash" where
  "jsToPublic of_decimal s = jsToFixed of_decimal 64 s"

definition jsToSecret :: "(string \<Rightarrow> nat) \<Rightarrow> string \<Rightarrow> hex_error + FixedHash" where
  "jsToSecret of_decimal s = jsToFixed of_decimal 32 s"

definition toJS_secure :: "FixedHash \<Rightarrow> string" where
  "toJS_secure h = ''0x'' @ hash_hex h"

definition jsToDecimal :: "(string \<Rightarrow> nat) \<Rightarrow> string \<Rightarrow> hex_error + string" where
  "jsToDecimal of_decimal s = bind_res (jsToU256 of_decimal s) (\<lambda>n. Inr (show_nat (unat n)))"

text \<open>
  \<open>prettyU256\<close>.  The test \<open>!~(_n >> 64)\<close> is meant to recognise small negative numbers.
\<close>

definition prettyU256 :: "u256 \<Rightarrow> bool \<Rightarrow> string" where
  "prettyU256 n abridged =
     (if drop_bit 64 n = 0 then
        (let u = ucast n :: u64 in '' '' @ show_nat (unat u) @ '' (0x'' @ show_hex (unat u) @ '')'')
      else if NOT (drop_bit 64 n) = 0 then
        (let i = sint (ucast n :: u64)
         in '' '' @ (if i < 0 then ''-'' @ show_nat (nat (- i)) else show_nat (nat i)) @ '' (0x'' @
            show_hex (unat (ucast n :: u64)) @ '')'')
      else if drop_bit 160 n = 0 then
        (let a = right160 (hash_of_arith 32 n);
             t = (if abridged then hash_abridged a else toHex a)
         in if t = [] then ''0'' else show_nat (unat n) @ ''(0x'' @ t @ '')'')
      else
        (let raw = fromRaw (hash_of_arith 32 n) in
         if raw \<noteq> [] then [CHR 0x22] @ raw @ [CHR 0x22] else toHex (hash_of_arith 32 n)))"

text \<open>
  \<open>std::stoi(s, nullptr, 0)\<close>: white space, a sign, a prefix that selects the base, the longest run of
  digits of that base.
\<close>

definition is_hex_digit :: "char \<Rightarrow> bool" where
  "is_hex_digit c = (fromHexChar c \<noteq> -1)"

definition is_octal_digit :: "char \<Rightarrow> bool" where
  "is_octal_digit c = (48 \<le> (of_char c :: nat) \<and> (of_char c :: nat) \<le> 55)"

definition base0_digits :: "string \<Rightarrow> nat \<times> string" where
  "base0_digits u =
     (if (take 2 u = ''0x'' \<or> take 2 u = ''0X'') \<and> length u > 2 \<and> is_hex_digit (u ! 2)
      then (16, takeWhile is_hex_digit (drop 2 u))
      else if u \<noteq> [] \<and> hd u = CHR ''0'' then (8, takeWhile is_octal_digit u)
      else (10, takeWhile is_digit u))"

definition stoi_base0 :: "string \<Rightarrow> stoi_error + int" where
  "stoi_base0 s =
     (let t = dropWhile is_space s;
          neg = (t \<noteq> [] \<and> hd t = CHR ''-'');
          u = (if t \<noteq> [] \<and> (hd t = CHR ''-'' \<or> hd t = CHR ''+'') then tl t else t);
          (base, ds) = base0_digits u;
          v = int (pos_val base (map (\<lambda>c. nat (fromHexChar c)) ds));
          i = (if neg then - v else v)
      in if ds = [] then Inl invalid_argument
         else if i < - (2 ^ 31) \<or> i > 2 ^ 31 - 1 then Inl out_of_range
         else Inr i)"

definition jsToInt :: "string \<Rightarrow> int" where
  "jsToInt s = (case stoi_base0 s of Inl _ \<Rightarrow> 0 | Inr i \<Rightarrow> i)"

section \<open>Laws\<close>

lemma bit_255: "bit u 255 \<longleftrightarrow> 2 ^ 255 \<le> unat u" for u :: u256
proof -
  have "unat u < 2 ^ 256" using unsigned_less [of u, where ?'a = nat] by simp
  then have "unat u div 2 ^ 255 < 2" by (simp add: less_mult_imp_div_less)
  then have "odd (unat u div 2 ^ 255) \<longleftrightarrow> unat u div 2 ^ 255 \<noteq> 0" by (auto simp: less_2_cases_iff)
  also have "\<dots> \<longleftrightarrow> 2 ^ 255 \<le> unat u" by (simp add: div_eq_0_iff not_less)
  also have "odd (unat u div 2 ^ 255) \<longleftrightarrow> bit u 255"
    unfolding bit_iff_odd [symmetric] by (simp add: bit_unsigned_iff)
  finally show ?thesis by simp
qed

lemma toLog2_loop_eq:
  assumes "x \<noteq> 0"
  shows "ret \<le> toLog2_loop x ret \<and> 2 ^ (toLog2_loop x ret - ret) \<le> unat x \<and>
    unat x < 2 ^ Suc (toLog2_loop x ret - ret)"
  using assms
proof (induction x ret rule: toLog2_loop.induct)
  case (1 x ret)
  define x' where "x' = drop_bit 1 x"
  have h: "unat x' = unat x div 2" using unat_drop_bit [of 1 x] by (simp add: x'_def)
  have pos: "0 < unat x" using 1(2) by (simp add: unat_gt_0)
  show ?case
  proof (cases "x' = 0")
    case True
    then have "unat x < 2" using h by simp
    moreover have "toLog2_loop x ret = ret" using True by (subst toLog2_loop.simps) (simp add: x'_def Let_def)
    ultimately show ?thesis using pos by simp
  next
    case False
    have e: "toLog2_loop x ret = toLog2_loop x' (ret + 1)"
      using False by (subst toLog2_loop.simps) (simp add: x'_def Let_def)
    define k where "k = toLog2_loop x' (ret + 1) - (ret + 1)"
    have "ret + 1 \<le> toLog2_loop x' (ret + 1) \<and> 2 ^ k \<le> unat x' \<and> unat x' < 2 ^ Suc k"
      unfolding k_def x'_def using 1(1) [OF refl] False x'_def by simp
    moreover from this have "toLog2_loop x' (ret + 1) - ret = Suc k" unfolding k_def by linarith
    ultimately show ?thesis unfolding e h by simp linarith
  qed
qed

lemma padded_loop_eq: "padded_loop b l = replicate (l - length b) 0 @ b"
proof (induction b l rule: padded_loop.induct)
  case (1 b l)
  show ?case
  proof (cases "length b < l")
    case True
    then have "l - length b = Suc (l - Suc (length b))" by simp
    then have "replicate (l - length b) (0 :: byte) = replicate (l - Suc (length b)) 0 @ [0]"
      by (simp add: replicate_append_same)
    then show ?thesis using 1 True by (subst padded_loop.simps) simp
  qed (subst padded_loop.simps, simp)
qed

lemma asBytes_drop_asString [simp]: "asBytes (drop n (asString b)) = drop n b"
  by (simp add: asBytes_def asString_def drop_map comp_def)

lemma padded_eq: "padded b l = drop (length b - l) (replicate (l - length b) 0 @ b)"
  by (cases "length b < l") (simp_all add: padded_def padded_loop_eq Let_def)

lemma hi_digit_zero: "hi_digit b = CHR ''0'' \<Longrightarrow> unat b < 16"
proof -
  assume "hi_digit b = CHR ''0''"
  then have "fromHexChar (hi_digit b) = 0" by (simp add: fromHexChar_def)
  then show ?thesis by simp
qed

lemma fromHex_stripped:
  assumes "unat b < 16"
  shows "fromHex (lo_digit b # hex_pairs bs) w = Inr (b # bs)"
proof -
  define s where "s = lo_digit b # hex_pairs bs"
  have s: "take 2 s \<noteq> ''0x''" "odd (length s)" "s ! 0 = lo_digit b" "drop (Suc 0) s = hex_pairs bs"
    unfolding s_def by (cases bs, simp_all)
  have "int (unat b) \<noteq> -1" by linarith
  moreover have "unat b mod 16 = unat b" "(of_int (int (unat b)) :: byte) = b" using assms by simp_all
  ultimately show ?thesis
    unfolding s_def [symmetric] fromHex_unfold using s by (simp add: fromHex_loop_hex_pairs)
qed

lemma compact_ne: "toCompactBigEndian n 1 \<noteq> []" for n :: "'a::len word"
proof
  assume "toCompactBigEndian n 1 = []"
  then have "length (toCompactBigEndian n 1) = 0" by simp
  then show False by (simp add: toCompactBigEndian_def)
qed

lemma fromHex_toJS: "fromHex (drop 2 (toJS_number n)) w = Inr (toCompactBigEndian n 1)" for n :: "'a::len word"
proof -
  obtain b bs where c: "toCompactBigEndian n 1 = b # bs" using compact_ne [of n] by (metis list.exhaust)
  show ?thesis
  proof (cases "hi_digit b = CHR ''0''")
    case True
    then show ?thesis using fromHex_stripped [OF hi_digit_zero [OF True]]
      unfolding toJS_number_def toHex_eq c by (simp add: Let_def)
  next
    case False
    then show ?thesis using fromHex_hex_pairs [of "b # bs" w]
      unfolding toJS_number_def toHex_eq c by (simp add: Let_def)
  qed
qed

lemma show_hex_digits: "c \<in> set (show_hex n) \<Longrightarrow> \<exists>d < 16. c = hexdigits ! d"
proof (induction n rule: show_hex.induct)
  case (1 n)
  have "\<exists>d < 16. hexdigits ! (n mod 16) = hexdigits ! d" by (intro exI [of _ "n mod 16"]) simp
  with 1 show ?case by (subst (asm) (2) show_hex.simps) (auto split: if_splits)
qed

lemma show_hex_ne [simp]: "show_hex n \<noteq> []"
  by (subst show_hex.simps) simp

lemma pos_val_show_hex: "pos_val 16 (map (\<lambda>c. nat (fromHexChar c)) (show_hex n)) = n"
proof (induction n rule: show_hex.induct)
  case (1 n)
  then show ?case by (subst show_hex.simps) (simp add: hexdigits_value)
qed

lemma stoi_base0_hex:
  "stoi_base0 (''0x'' @ show_hex n) = (if n < 2 ^ 31 then Inr (int n) else Inl out_of_range)"
proof -
  obtain c cs where s: "show_hex n = c # cs" by (cases "show_hex n") simp_all
  have h: "\<forall>x \<in> set (c # cs). is_hex_digit x"
    using show_hex_digits [of _ n] hexdigits_value by (fastforce simp: s is_hex_digit_def)
  have "takeWhile is_hex_digit (c # cs) = c # cs" using h by (simp only: takeWhile_eq_all_conv)
  moreover have "is_hex_digit c" using h by simp
  ultimately have "base0_digits (''0x'' @ c # cs) = (16, c # cs)"
    by (simp add: base0_digits_def del: takeWhile.simps takeWhile_eq_all_conv)
  moreover have "dropWhile is_space (''0x'' @ c # cs) = ''0x'' @ c # cs" by (simp add: is_space_def)
  ultimately show ?thesis
    using pos_val_show_hex [of n] unfolding s stoi_base0_def Let_def by simp
qed

text \<open>\<open>prettyU256\<close> never sees a negative number: the shift makes the upper bits zero, so the complement is not.\<close>

lemma pretty_negative_unreachable: "NOT (drop_bit 64 n) \<noteq> 0" for n :: u256
proof
  assume "NOT (drop_bit 64 n) = 0"
  then have "\<not> bit (NOT (drop_bit 64 n)) 255" by (simp only: bit_0_eq) simp
  then have "bit (drop_bit 64 n) 255" unfolding bit_not_iff by simp
  then show False by (auto simp: bit_drop_bit_eq dest: bit_imp_le_length)
qed

section \<open>Properties\<close>

text \<open>
  A number survives the RPC encoding.  \<open>jsToU256\<close> on what \<open>toJS\<close> prints, a minimal
  hexadecimal string that may have an odd number of digits, is the number.
\<close>

theorem js_u256_roundtrip: "jsToU256 of_decimal (toJS_number u) = Inr u"
proof -
  have "take 2 (toJS_number u) = ''0x''" by (simp add: toJS_number_def Let_def)
  then show ?thesis
    by (simp add: jsToU256_def jsToInt_word_def fromHex_toJS fromBigEndian_toCompact)
qed

text \<open>
  C36: what \<open>jsToInt\<close>, and with it \<open>jsMem2Uint64\<close>, reads of a 64-bit number written by \<open>toJS\<close>: the
  number below \<open>2 ^ 31\<close>, and zero from there on, because \<open>std::stoi\<close> throws and the exception is
  dropped.
\<close>

theorem jsToInt_of_toJS: "jsToInt (toJS_uint64 n) = (if unat n < 2 ^ 31 then int (unat n) else 0)"
  unfolding jsToInt_def toJS_uint64_def stoi_base0_hex by simp

text \<open>
  \<open>u2s\<close> and \<open>s2u\<close> are inverse to each other: reading a word as two's complement and writing it
  back is the identity, and so is the other way round for values from -2^255 below 2^255.
\<close>

theorem s2u_u2s:
  "s2u (u2s u) = u \<and> (- (2 ^ 255) \<le> v \<and> v < 2 ^ 255 \<longrightarrow> u2s (s2u v) = v)"
proof
  have m: "(of_int (2 ^ 256) :: u256) = 0" by simp
  have u: "(of_int (int (unat u)) :: u256) = u" by simp
  have "unat u < 2 ^ 256" using unsigned_less [of u, where ?'a = nat] by simp
  then show "s2u (u2s u) = u" using u by (simp add: s2u_def u2s_def)
  show "- (2 ^ 255) \<le> v \<and> v < 2 ^ 255 \<longrightarrow> u2s (s2u v) = v"
  proof
    assume v: "- (2 ^ 255) \<le> v \<and> v < 2 ^ 255"
    define k where "k = (if v \<ge> 0 then v else 2 ^ 256 + v)"
    have "s2u v = of_int k" by (simp add: s2u_def k_def)
    moreover have "int (unat (of_int k :: u256)) = k"
      using v by (simp add: k_def unsigned_of_int take_bit_int_eq_self)
    ultimately have k: "int (unat (s2u v)) = k" by simp
    then have "bit (s2u v) 255 \<longleftrightarrow> 2 ^ 255 \<le> k"
      unfolding bit_255 by (metis of_nat_le_iff of_nat_numeral of_nat_power)
    then show "u2s (s2u v) = v" using v unfolding u2s_def k by (auto simp: k_def)
  qed
qed

theorem s2u_u2s_witness: "s2u (u2s 5) = 5 \<and> u2s (s2u (-7)) = -7"
  using s2u_u2s [of 5 "-7"] by simp

text \<open>
  \<open>toLog2\<close> is the position of the highest bit, the largest \<open>n\<close> with \<open>2^n <= x\<close>.  The comment
  in the source promises the smallest \<open>n\<close> with \<open>2^n >= x\<close>, which is one more unless \<open>x\<close> is a power
  of two.
\<close>

theorem toLog2_floor:
  assumes "x \<noteq> 0"
  shows "2 ^ toLog2 x \<le> unat x \<and> unat x < 2 ^ Suc (toLog2 x)"
  using toLog2_loop_eq [OF assms, of 0] by (simp add: toLog2_def)

theorem toLog2_floor_witness: "2 ^ toLog2 5 \<le> unat (5 :: u256) \<and> unat (5 :: u256) < 2 ^ Suc (toLog2 5)"
  by (rule toLog2_floor) simp

text \<open>
  \<open>padded\<close> gives exactly the requested length and keeps the low end: as a big-endian number,
  the result is the argument modulo \<open>256^l\<close>.
\<close>

theorem padded_value: "length (padded b l) = l \<and> be_nat (padded b l) = be_nat b mod 256 ^ l"
proof (cases "length b \<le> l")
  case True
  have "256 ^ length b \<le> (256 :: nat) ^ l" using True by (intro power_increasing) simp_all
  then have "be_nat b < 256 ^ l" using be_nat_less [of b] by (rule order.strict_trans2 [rotated])
  then show ?thesis using True by (simp add: padded_eq)
next
  case False
  define k where "k = length b - l"
  have "be_nat b = be_nat (take k b) * 256 ^ l + be_nat (drop k b)"
    using be_nat_append [of "take k b" "drop k b"] False by (simp add: k_def)
  moreover have "be_nat (drop k b) < 256 ^ l" using be_nat_less [of "drop k b"] False by (simp add: k_def)
  ultimately show ?thesis using False by (simp add: padded_eq k_def)
qed

text \<open>
  Short strings are not accepted by \<open>jsToFixed\<close>.  A prefixed hexadecimal string with fewer
  digits than the hash has is read as the zero hash, because the constructor is called with
  \<open>FailIfDifferent\<close>; the comments on \<open>jsToPublic\<close> and \<open>jsToSecret\<close> promise that a length that is not
  exact is accepted.
\<close>

theorem jsToFixed_short_is_zero:
  assumes "length bs < N"
  shows "jsToFixed of_decimal N (''0x'' @ toHex bs) = Inr (hash_zero N)"
proof -
  have "fromHex (hex_pairs bs) Throw = Inr bs" by (rule fromHex_hex_pairs)
  then show ?thesis
    using assms by (simp add: jsToFixed_def toHex_eq hash_of_string_def hash_of_bytes_def)
qed

theorem jsToFixed_short_is_zero_witness:
  "jsToFixed (\<lambda>s. 0) 32 (''0x'' @ toHex [0x12, 0x34]) = Inr (hash_zero 32)"
  by (rule jsToFixed_short_is_zero) simp

end
