(* ===== verification/Ripemd160.thy ===== *)
theory Ripemd160
  imports Fixed_Hash
begin

text \<open>
  RIPEMD-160 of \<^verbatim>\<open>libdevcrypto/Hash.cpp\<close>.  The ten macros share one shape; a call is the macro
  with the index of the message word and the shift.  The source passes the five registers in
  rotated order from call to call, so that every call is the same step on the rotated tuple; after
  the eighty calls of a line the tuple is back in the order \<open>aa, bb, cc, dd, ee\<close>.
\<close>

section \<open>Macros\<close>

definition BYTES_TO_DWORD :: "bytes \<Rightarrow> u32" where
  "BYTES_TO_DWORD p =
     push_bit 24 (ucast (p ! 3)) OR push_bit 16 (ucast (p ! 2)) OR push_bit 8 (ucast (p ! 1)) OR ucast (p ! 0)"

definition ROL :: "u32 \<Rightarrow> nat \<Rightarrow> u32" where
  "ROL x n = push_bit n x OR drop_bit (32 - n) x"

definition rmd_F :: "u32 \<Rightarrow> u32 \<Rightarrow> u32 \<Rightarrow> u32" where
  "rmd_F x y z = x XOR y XOR z"

definition rmd_G :: "u32 \<Rightarrow> u32 \<Rightarrow> u32 \<Rightarrow> u32" where
  "rmd_G x y z = (x AND y) OR (NOT x AND z)"

definition rmd_H :: "u32 \<Rightarrow> u32 \<Rightarrow> u32 \<Rightarrow> u32" where
  "rmd_H x y z = (x OR NOT y) XOR z"

definition rmd_I :: "u32 \<Rightarrow> u32 \<Rightarrow> u32 \<Rightarrow> u32" where
  "rmd_I x y z = (x AND z) OR (y AND NOT z)"

definition rmd_J :: "u32 \<Rightarrow> u32 \<Rightarrow> u32 \<Rightarrow> u32" where
  "rmd_J x y z = x XOR (y OR NOT z)"

datatype rmd_macro = FF | GG | HH | II | JJ | FFF | GGG | HHH | III | JJJ

definition rmd_function :: "rmd_macro \<Rightarrow> u32 \<Rightarrow> u32 \<Rightarrow> u32 \<Rightarrow> u32" where
  "rmd_function m =
     (case m of
        FF \<Rightarrow> rmd_F | GG \<Rightarrow> rmd_G | HH \<Rightarrow> rmd_H | II \<Rightarrow> rmd_I | JJ \<Rightarrow> rmd_J
      | FFF \<Rightarrow> rmd_F | GGG \<Rightarrow> rmd_G | HHH \<Rightarrow> rmd_H | III \<Rightarrow> rmd_I | JJJ \<Rightarrow> rmd_J)"

definition rmd_constant :: "rmd_macro \<Rightarrow> u32" where
  "rmd_constant m =
     (case m of
        FF \<Rightarrow> 0 | GG \<Rightarrow> 0x5a827999 | HH \<Rightarrow> 0x6ed9eba1 | II \<Rightarrow> 0x8f1bbcdc | JJ \<Rightarrow> 0xa953fd4e
      | FFF \<Rightarrow> 0 | GGG \<Rightarrow> 0x7a6d76e9 | HHH \<Rightarrow> 0x6d703ef3 | III \<Rightarrow> 0x5c4dd124 | JJJ \<Rightarrow> 0x50a28be6)"

type_synonym regs = "u32 \<times> u32 \<times> u32 \<times> u32 \<times> u32"

type_synonym rmd_call = "rmd_macro \<times> nat \<times> nat"

definition rmd_step :: "u32 list \<Rightarrow> rmd_call \<Rightarrow> regs \<Rightarrow> regs" where
  "rmd_step X = (\<lambda>(m, x, s) (a, b, c, d, e).
     (e, ROL (a + (rmd_function m b c d + X ! x + rmd_constant m)) s + e, b, ROL c 10, d))"

section \<open>Compression\<close>

definition MDinit :: "u32 list" where
  "MDinit = [0x67452301, 0xefcdab89, 0x98badcfe, 0x10325476, 0xc3d2e1f0]"

definition calls :: "rmd_macro \<Rightarrow> (nat \<times> nat) list \<Rightarrow> rmd_call list" where
  "calls m xs = map (\<lambda>(x, s). (m, x, s)) xs"

definition rmd_rounds :: "rmd_call list" where
  "rmd_rounds =
     calls FF [(0, 11), (1, 14), (2, 15), (3, 12), (4, 5), (5, 8), (6, 7), (7, 9),
       (8, 11), (9, 13), (10, 14), (11, 15), (12, 6), (13, 7), (14, 9), (15, 8)] @
     calls GG [(7, 7), (4, 6), (13, 8), (1, 13), (10, 11), (6, 9), (15, 7), (3, 15),
       (12, 7), (0, 12), (9, 15), (5, 9), (2, 11), (14, 7), (11, 13), (8, 12)] @
     calls HH [(3, 11), (10, 13), (14, 6), (4, 7), (9, 14), (15, 9), (8, 13), (1, 15),
       (2, 14), (7, 8), (0, 13), (6, 6), (13, 5), (11, 12), (5, 7), (12, 5)] @
     calls II [(1, 11), (9, 12), (11, 14), (10, 15), (0, 14), (8, 15), (12, 9), (4, 8),
       (13, 9), (3, 14), (7, 5), (15, 6), (14, 8), (5, 6), (6, 5), (2, 12)] @
     calls JJ [(4, 9), (0, 15), (5, 5), (9, 11), (7, 6), (12, 8), (2, 13), (10, 12),
       (14, 5), (1, 12), (3, 13), (8, 14), (11, 11), (6, 8), (15, 5), (13, 6)]"

definition rmd_parallel_rounds :: "rmd_call list" where
  "rmd_parallel_rounds =
     calls JJJ [(5, 8), (14, 9), (7, 9), (0, 11), (9, 13), (2, 15), (11, 15), (4, 5),
       (13, 7), (6, 7), (15, 8), (8, 11), (1, 14), (10, 14), (3, 12), (12, 6)] @
     calls III [(6, 9), (11, 13), (3, 15), (7, 7), (0, 12), (13, 8), (5, 9), (10, 11),
       (14, 7), (15, 7), (8, 12), (12, 7), (4, 6), (9, 15), (1, 13), (2, 11)] @
     calls HHH [(15, 9), (5, 7), (1, 15), (3, 11), (7, 8), (14, 6), (6, 6), (9, 14),
       (11, 12), (8, 13), (12, 5), (2, 14), (10, 13), (0, 13), (4, 7), (13, 5)] @
     calls GGG [(8, 15), (6, 5), (4, 8), (1, 11), (3, 14), (11, 14), (15, 6), (0, 14),
       (5, 6), (12, 9), (2, 12), (13, 9), (9, 12), (7, 5), (10, 15), (14, 8)] @
     calls FFF [(12, 8), (15, 5), (10, 12), (4, 9), (1, 12), (5, 5), (8, 14), (7, 6),
       (6, 8), (2, 13), (13, 6), (14, 5), (0, 15), (3, 13), (9, 11), (11, 11)]"

definition MDcompress :: "u32 list \<Rightarrow> u32 list \<Rightarrow> u32 list" where
  "MDcompress MDbuf X =
     (let r0 = (MDbuf ! 0, MDbuf ! 1, MDbuf ! 2, MDbuf ! 3, MDbuf ! 4);
          (aa, bb, cc, dd, ee) = fold (rmd_step X) rmd_rounds r0;
          (aaa, bbb, ccc, ddd, eee) = fold (rmd_step X) rmd_parallel_rounds r0
      in [ddd + (cc + MDbuf ! 1), MDbuf ! 2 + dd + eee, MDbuf ! 3 + ee + aaa, MDbuf ! 4 + aa + bbb,
          MDbuf ! 0 + bb + ccc])"

text \<open>\<open>X[i >> 2] ^= (uint32_t)b << (8 * (i & 3))\<close>\<close>

definition put_byte :: "nat \<Rightarrow> byte \<Rightarrow> u32 list \<Rightarrow> u32 list" where
  "put_byte i b X = X[i div 4 := X ! (i div 4) XOR push_bit (8 * (i mod 4)) (ucast b)]"

definition MDfinish :: "u32 list \<Rightarrow> bytes \<Rightarrow> u32 \<Rightarrow> u32 \<Rightarrow> u32 list" where
  "MDfinish MDbuf strptr lswlen mswlen =
     (let n = unat (lswlen AND 63);
          X = fold (\<lambda>i. put_byte i (strptr ! i)) [0..<n] (replicate 16 0);
          j = unat (drop_bit 2 lswlen AND 15);
          X = X[j := X ! j XOR push_bit (8 * unat (lswlen AND 3) + 7) 1];
          (MDbuf, X) = (if n > 55 then (MDcompress MDbuf X, replicate 16 0) else (MDbuf, X));
          X = X[14 := push_bit 3 lswlen];
          X = X[15 := drop_bit 29 lswlen OR push_bit 3 mswlen]
      in MDcompress MDbuf X)"

section \<open>The hash\<close>

definition current_words :: "bytes \<Rightarrow> u32 list" where
  "current_words message = map (\<lambda>i. BYTES_TO_DWORD (drop (4 * i) message)) [0..<16]"

function rmd_blocks :: "nat \<Rightarrow> bytes \<Rightarrow> u32 list \<Rightarrow> bytes \<times> u32 list" where
  "rmd_blocks remaining message buffer =
     (if remaining \<ge> 64
      then rmd_blocks (remaining - 64) (drop 64 message) (MDcompress buffer (current_words message))
      else (message, buffer))"
  by pat_completeness auto
termination
  by (relation "measure fst") auto

declare rmd_blocks.simps [simp del]

definition dword_bytes :: "u32 \<Rightarrow> bytes" where
  "dword_bytes w = [ucast w, ucast (drop_bit 8 w), ucast (drop_bit 16 w), ucast (drop_bit 24 w)]"

text \<open>\<open>_input.size()\<close> is truncated to 32 bits.\<close>

definition ripemd160 :: "bytes \<Rightarrow> FixedHash" where
  "ripemd160 input =
     (let sz = of_nat (length input) :: u32;
          (message, buffer) = rmd_blocks (unat sz) input MDinit
      in concat (map dword_bytes (MDfinish buffer message sz 0)))"

section \<open>The specified padding\<close>

text \<open>
  The standard: the message, a byte \<open>0x80\<close>, zeros up to 56 modulo 64, and the length in bits as
  eight bytes, least significant first; the result is the compression folded over the 64-byte blocks.
\<close>

definition le64 :: "nat \<Rightarrow> bytes" where
  "le64 n = rev (nat_be 8 n)"

definition rmd_pad :: "bytes \<Rightarrow> bytes" where
  "rmd_pad m = m @ [0x80] @ replicate ((119 - length m mod 64) mod 64) 0 @ le64 (8 * length m)"

function compress_all :: "bytes \<Rightarrow> u32 list \<Rightarrow> u32 list" where
  "compress_all m buf =
     (if length m < 64 then buf else compress_all (drop 64 m) (MDcompress buf (current_words m)))"
  by pat_completeness auto
termination
  by (relation "measure (\<lambda>(m, buf). length m)") auto

declare compress_all.simps [simp del]

definition rmd_spec :: "bytes \<Rightarrow> FixedHash" where
  "rmd_spec m = concat (map dword_bytes (compress_all (rmd_pad m) MDinit))"

section \<open>Words and bytes\<close>

lemma four_bytes: "4 \<le> length p \<Longrightarrow> \<exists>a b c d q. p = a # b # c # d # q"
  by (auto simp: numeral_eq_Suc Suc_le_length_iff)

lemma BYTES_TO_DWORD_Cons:
  "BYTES_TO_DWORD (a # b # c # d # q)
     = push_bit 24 (ucast d) OR push_bit 16 (ucast c) OR push_bit 8 (ucast b) OR ucast a"
  by (simp add: BYTES_TO_DWORD_def numeral_eq_Suc)

lemma BYTES_TO_DWORD_be:
  "4 \<le> length p \<Longrightarrow> BYTES_TO_DWORD p = of_nat (be_nat (rev (take 4 p)))"
proof -
  assume "4 \<le> length p"
  then obtain a b c d q where p: "p = a # b # c # d # q" using four_bytes by blast
  have "fromBigEndian [d, c, b, a] = (of_nat (be_nat [d, c, b, a]) :: u32)" by (rule fromBigEndian_word)
  moreover have "(fromBigEndian [d, c, b, a] :: u32) = BYTES_TO_DWORD p"
    by (simp add: p BYTES_TO_DWORD_Cons fromBigEndian_def push_bit_or push_bit_push_bit or.assoc)
  ultimately show ?thesis by (simp add: p numeral_eq_Suc)
qed

lemma length_current_words [simp]: "length (current_words m) = 16"
  by (simp add: current_words_def)

lemma nth_current_words: "j < 16 \<Longrightarrow> current_words m ! j = BYTES_TO_DWORD (drop (4 * j) m)"
  by (simp add: current_words_def)

lemma byte_bit: "bit b n \<Longrightarrow> n < 8" for b :: byte
  using bit_imp_le_length [of b n] by simp

lemma dword_put:
  assumes "k < 4" "p ! k = 0" "4 \<le> length p"
  shows "BYTES_TO_DWORD (p[k := x]) = BYTES_TO_DWORD p XOR push_bit (8 * k) (ucast x)"
proof -
  obtain a b c d q where p: "p = a # b # c # d # q" using four_bytes [OF assms(3)] by blast
  consider "k = 0" | "k = 1" | "k = 2" | "k = 3" using assms(1) by linarith
  then show ?thesis
  proof cases
    case 1
    then show ?thesis
      using assms(2) by (simp add: p BYTES_TO_DWORD_Cons) (intro bit_word_eqI, auto simp: bit_simps dest: byte_bit)
  next
    case 2
    then show ?thesis
      using assms(2) by (simp add: p BYTES_TO_DWORD_Cons) (intro bit_word_eqI, auto simp: bit_simps dest: byte_bit)
  next
    case 3
    then have "c = 0" using assms(2) by (simp add: p numeral_eq_Suc)
    moreover have "p[k := x] = a # b # x # d # q" using 3 by (simp add: p numeral_eq_Suc)
    ultimately show ?thesis
      using 3 by (simp add: p BYTES_TO_DWORD_Cons) (intro bit_word_eqI, auto simp: bit_simps dest: byte_bit)
  next
    case 4
    then have "d = 0" using assms(2) by (simp add: p numeral_eq_Suc)
    moreover have "p[k := x] = a # b # c # x # q" using 4 by (simp add: p numeral_eq_Suc)
    ultimately show ?thesis
      using 4 by (simp add: p BYTES_TO_DWORD_Cons) (intro bit_word_eqI, auto simp: bit_simps dest: byte_bit)
  qed
qed

lemma current_words_put:
  assumes "i < 64" "length m = 64" "m ! i = 0"
  shows "current_words (m[i := b]) = put_byte i b (current_words m)"
proof (rule nth_equalityI)
  fix j assume "j < length (current_words (m[i := b]))"
  then have j: "j < 16" by simp
  have i: "4 * (i div 4) + i mod 4 = i" "i mod 4 < 4" by simp_all
  show "current_words (m[i := b]) ! j = put_byte i b (current_words m) ! j"
  proof (cases "j = i div 4")
    case True
    have "drop (4 * j) (m[i := b]) = (drop (4 * j) m)[i mod 4 := b]"
      using True i(1) by (simp add: drop_update_swap minus_mult_div_eq_mod)
    then show ?thesis
      using dword_put [of "i mod 4" "drop (4 * j) m" b] True assms j i
      by (simp add: nth_current_words put_byte_def)
  next
    case False
    have "take 4 (drop (4 * j) (m[i := b])) = take 4 (drop (4 * j) m)"
      using False i j assms by (intro nth_equalityI) (auto simp: nth_list_update)
    then show ?thesis
      using False j assms by (simp add: nth_current_words put_byte_def BYTES_TO_DWORD_be)
  qed
qed (simp add: put_byte_def)

section \<open>Padding by words\<close>

lemma current_words_zero: "current_words (replicate 64 0) = replicate 16 0"
  by (intro nth_equalityI) (simp_all add: nth_current_words BYTES_TO_DWORD_def)

text \<open>The block that \<open>MDfinish\<close> builds byte by byte.\<close>

lemma put_bytes_block:
  assumes "n \<le> 64" "n \<le> length t"
  shows "fold (\<lambda>i. put_byte i (t ! i)) [0..<n] (replicate 16 0) = current_words (take n t @ replicate (64 - n) 0)"
  using assms
proof (induction n)
  case 0
  show ?case by (simp add: current_words_zero)
next
  case (Suc n)
  have "take (Suc n) t @ replicate (64 - Suc n) 0 = (take n t @ replicate (64 - n) 0)[n := t ! n]"
  proof -
    have "replicate (64 - n) (0 :: byte) = 0 # replicate (64 - Suc n) 0"
      using Suc.prems by (metis Suc_diff_Suc Suc_le_eq replicate_Suc)
    then show ?thesis using Suc.prems by (simp add: take_Suc_conv_app_nth list_update_append)
  qed
  then show ?case
    using Suc current_words_put [of n "take n t @ replicate (64 - n) 0" "t ! n"] by (simp add: nth_append)
qed

lemma put_marker:
  assumes "n < 64" "length t = n"
  shows "put_byte n 0x80 (current_words (t @ replicate (64 - n) 0)) = current_words (t @ [0x80] @ replicate (63 - n) 0)"
proof -
  have "64 - n = Suc (63 - n)" using assms by simp
  then have "(t @ replicate (64 - n) 0)[n := 0x80] = t @ [0x80] @ replicate (63 - n) 0"
    using assms by (simp add: list_update_append)
  then show ?thesis
    using current_words_put [of n "t @ replicate (64 - n) 0" "0x80"] assms by (simp add: nth_append)
qed

lemma put_lengths:
  assumes "length t = 56" "l < 2 ^ 32"
  shows "(current_words (t @ replicate 8 0))[14 := push_bit 3 (of_nat l), 15 := drop_bit 29 (of_nat l)]
       = current_words (t @ le64 (8 * l))"
proof (rule nth_equalityI)
  fix j assume "j < length ((current_words (t @ replicate 8 0))[14 := push_bit 3 (of_nat l), 15 := drop_bit 29 (of_nat l)])"
  then have j: "j < 16" by simp
  have "nat_be 8 v = nat_be 4 (v div 256 ^ 4) @ nat_be 4 v" for v
    using nat_be_add [of 4 4 v] by simp
  then have le: "le64 (8 * l) = rev (nat_be 4 (8 * l)) @ rev (nat_be 4 (8 * l div 2 ^ 32))"
    by (simp add: le64_def)
  consider "j = 14" | "j = 15" | "j < 14" using j by linarith
  then show "(current_words (t @ replicate 8 0))[14 := push_bit 3 (of_nat l), 15 := drop_bit 29 (of_nat l)] ! j
      = current_words (t @ le64 (8 * l)) ! j"
  proof cases
    case 1
    have "BYTES_TO_DWORD (le64 (8 * l)) = of_nat (8 * l)"
      by (subst BYTES_TO_DWORD_be)
        (simp_all add: le be_nat_nat_be word_unat_eq_iff unat_of_nat del: of_nat_mult)
    then show ?thesis using 1 assms by (simp add: nth_current_words push_bit_eq_mult)
  next
    case 2
    have "BYTES_TO_DWORD (drop 4 (le64 (8 * l))) = of_nat (8 * l div 2 ^ 32)"
      by (subst BYTES_TO_DWORD_be) (simp_all add: le be_nat_nat_be word_unat_eq_iff unat_of_nat)
    moreover have "drop_bit 29 (of_nat l :: u32) = of_nat (8 * l div 2 ^ 32)"
      using assms(2) by (simp add: word_unat_eq_iff unat_drop_bit unat_of_nat)
    ultimately show ?thesis using 2 assms by (simp add: nth_current_words)
  next
    case 3
    have "take 4 (drop (4 * j) (t @ u)) = take 4 (drop (4 * j) t)" for u using 3 assms by simp
    then show ?thesis using 3 assms by (simp add: nth_current_words BYTES_TO_DWORD_be le64_def)
  qed
qed (simp)

lemma current_words_append: "length b = 64 \<Longrightarrow> current_words (b @ r) = current_words b"
  by (intro nth_equalityI) (simp_all add: nth_current_words BYTES_TO_DWORD_be)

lemma compress_block:
  "length b = 64 \<Longrightarrow> compress_all (b @ r) buf = compress_all r (MDcompress buf (current_words b))"
  by (subst compress_all.simps) (simp add: current_words_append)

lemma compress_last: "length b = 64 \<Longrightarrow> compress_all b buf = MDcompress buf (current_words b)"
  using compress_block [of b "[]" buf] by (simp add: compress_all.simps [of "[]"])

lemma length_le64 [simp]: "length (le64 n) = 8"
  by (simp add: le64_def)

lemma marker_word: "push_bit (8 * k + 7) 1 = (push_bit (8 * k) (ucast (0x80 :: byte)) :: u32)"
proof -
  have "(ucast (0x80 :: byte) :: u32) = push_bit 7 1" by simp
  then show ?thesis by (simp only: push_bit_push_bit)
qed

lemma MDfinish_eq:
  assumes "l < 2 ^ 32" "length t = l mod 64"
  shows "MDfinish buf t (of_nat l) 0
       = compress_all (t @ [0x80] @ replicate ((119 - length t) mod 64) 0 @ le64 (8 * l)) buf"
proof -
  define n where "n = length t"
  define w where "w = (of_nat l :: u32)"
  have w: "unat w = l" using assms(1) by (simp add: w_def unat_of_nat)
  have n: "n < 64" "unat (w AND 63) = n"
    using assms(2) unat_and_mask [of w 6] w by (simp_all add: n_def mask_eq_exp_minus_1)
  have j: "unat (drop_bit 2 w AND 15) = n div 4"
    using unat_and_mask [of "drop_bit 2 w" 4] w assms(2) mod_mult2_eq [of l 4 16]
    by (simp add: mask_eq_exp_minus_1 unat_drop_bit n_def)
  have k: "unat (w AND 3) = n mod 4"
    using unat_and_mask [of w 2] w assms(2) mod_mult2_eq [of l 4 16]
    by (simp add: mask_eq_exp_minus_1 n_def)
  have len: "length t = n" by (simp add: n_def)
  have base: "fold (\<lambda>i. put_byte i (t ! i)) [0..<n] (replicate 16 0) = current_words (t @ replicate (64 - n) 0)"
    using put_bytes_block [of n t] n(1) len by simp
  have X: "put_byte n 0x80 (fold (\<lambda>i. put_byte i (t ! i)) [0..<n] (replicate 16 0))
      = current_words (t @ [0x80] @ replicate (63 - n) 0)"
    unfolding base by (rule put_marker [OF n(1) len])
  have fin: "MDfinish buf t w 0 =
      (let (MDbuf, X) = (if n > 55 then (MDcompress buf (current_words (t @ [0x80] @ replicate (63 - n) 0)), replicate 16 0)
                         else (buf, current_words (t @ [0x80] @ replicate (63 - n) 0)))
       in MDcompress MDbuf (X[14 := push_bit 3 w, 15 := drop_bit 29 w]))"
    unfolding MDfinish_def Let_def n(2) j k marker_word X [unfolded put_byte_def [of n]] by simp
  show ?thesis
  proof (cases "n > 55")
    case True
    have zero: "replicate 16 0 = current_words (replicate 56 0 @ replicate 8 0)"
      by (simp add: current_words_zero flip: replicate_add)
    have "(119 - n) mod 64 = (63 - n) + 56" using True n(1) by simp
    then have split: "t @ [0x80] @ replicate ((119 - n) mod 64) 0 @ le64 (8 * l)
        = (t @ [0x80] @ replicate (63 - n) 0) @ replicate 56 0 @ le64 (8 * l)"
      by (simp only: replicate_add append_assoc)
    have "MDfinish buf t w 0 = MDcompress (MDcompress buf (current_words (t @ [0x80] @ replicate (63 - n) 0)))
        (current_words (replicate 56 0 @ le64 (8 * l)))"
      using fin True put_lengths [of "replicate 56 0" l] assms(1) zero by (simp add: w_def)
    then show ?thesis
      using split n(1) unfolding n_def w_def
      by (simp only: split) (subst compress_block, simp, subst compress_last, simp, simp)
  next
    case False
    have "t @ [0x80] @ replicate (63 - n) 0 = (t @ [0x80] @ replicate (55 - n) 0) @ replicate 8 (0 :: byte)"
      using False by (simp flip: replicate_add)
    moreover have "(119 - n) mod 64 = 55 - n" using False by (simp add: mod_if)
    ultimately show ?thesis
      using fin False put_lengths [of "t @ [0x80] @ replicate (55 - n) 0" l] assms(1)
        compress_last [of "t @ [0x80] @ replicate (55 - n) 0 @ le64 (8 * l)" buf]
      by (simp add: w_def n_def)
  qed
qed

lemma rmd_blocks_eq:
  "\<exists>t buf'. rmd_blocks (length m) m buf = (t, buf') \<and> length t = length m mod 64 \<and>
     (\<forall>r. compress_all (m @ r) buf = compress_all (t @ r) buf')"
proof (induction "length m" arbitrary: m buf rule: less_induct)
  case less
  show ?case
  proof (cases "length m < 64")
    case True
    then show ?thesis by (subst rmd_blocks.simps) simp
  next
    case False
    define b where "b = take 64 m"
    define m' where "m' = drop 64 m"
    have m: "m = b @ m'" "length b = 64" "length m' = length m - 64" using False by (simp_all add: b_def m'_def)
    have lt: "length m' < length m" using False m(3) by linarith
    have "rmd_blocks (length m) m buf = rmd_blocks (length m - 64) (drop 64 m) (MDcompress buf (current_words m))"
      using False by (subst rmd_blocks.simps) simp
    moreover have "current_words m = current_words b" by (metis current_words_append m(1,2))
    ultimately have "rmd_blocks (length m) m buf = rmd_blocks (length m') m' (MDcompress buf (current_words b))"
      by (simp only: m'_def length_drop)
    moreover obtain t buf' where "rmd_blocks (length m') m' (MDcompress buf (current_words b)) = (t, buf')"
      "length t = length m' mod 64"
      "\<forall>r. compress_all (m' @ r) (MDcompress buf (current_words b)) = compress_all (t @ r) buf'"
      using less [of m' "MDcompress buf (current_words b)"] lt by auto
    moreover have "length m' mod 64 = length m mod 64" using m by simp
    ultimately show ?thesis using compress_block [OF m(2)] m(1) by (metis append_assoc)
  qed
qed

text \<open>
  C33: \<open>ripemd160\<close> hashes what the standard says.  For every input shorter than 2^32 bytes, the
  incremental code, full blocks first and then \<open>MDfinish\<close>, which builds the last one or two
  blocks word by word with exclusive or, equals the compression function folded over the padded
  message.
\<close>

theorem ripemd160_eq_spec:
  assumes "length m < 2 ^ 32"
  shows "ripemd160 m = rmd_spec m"
proof -
  have sz: "unat (of_nat (length m) :: u32) = length m" using assms by (simp add: unat_of_nat)
  obtain t buf where t: "rmd_blocks (length m) m MDinit = (t, buf)" "length t = length m mod 64"
    "\<forall>r. compress_all (m @ r) MDinit = compress_all (t @ r) buf"
    using rmd_blocks_eq by blast
  then show ?thesis
    using MDfinish_eq [OF assms t(2), of buf]
    by (simp add: ripemd160_def rmd_spec_def rmd_pad_def sz)
qed

theorem ripemd160_eq_spec_witness:
  "ripemd160 (replicate 60 0x61) = rmd_spec (replicate 60 0x61)"
  by (rule ripemd160_eq_spec) simp

end
