(* ===== verification/Blake2.thy ===== *)
theory Blake2
  imports Common_Data
begin

text \<open>
  \<^verbatim>\<open>libdevcrypto/Blake2.cpp\<close>: the compression function F of BLAKE2b with a variable number of
  rounds.  Memory is copied in the order of a little-endian machine.
\<close>

section \<open>Definitions\<close>

datatype blake_error = InvalidInputSize

definition BLAKE2B_BLOCKBYTES :: nat where
  "BLAKE2B_BLOCKBYTES = 128"

record blake2b_state =
  bl_h :: "u64 list"
  bl_t :: "u64 list"
  bl_f :: "u64 list"
  bl_buf :: bytes
  bl_buflen :: nat
  bl_outlen :: nat
  bl_last_node :: byte

definition blake2b_IV :: "u64 list" where
  "blake2b_IV =
     [0x6a09e667f3bcc908, 0xbb67ae8584caa73b, 0x3c6ef372fe94f82b, 0xa54ff53a5f1d36f1,
      0x510e527fade682d1, 0x9b05688c2b3e6c1f, 0x1f83d9abfb41bd6b, 0x5be0cd19137e2179]"

text \<open>The two rows without initialiser are zero.\<close>

definition blake2b_sigma :: "nat list list" where
  "blake2b_sigma =
     [[0, 1, 2, 3, 4, 5, 6, 7, 8, 9, 10, 11, 12, 13, 14, 15],
      [14, 10, 4, 8, 9, 15, 13, 6, 1, 12, 0, 2, 11, 7, 5, 3],
      [11, 8, 12, 0, 5, 2, 15, 13, 10, 14, 3, 6, 7, 1, 9, 4],
      [7, 9, 3, 1, 13, 12, 11, 14, 2, 6, 5, 10, 4, 0, 15, 8],
      [9, 0, 5, 7, 2, 4, 10, 15, 14, 1, 11, 12, 6, 8, 3, 13],
      [2, 12, 6, 10, 0, 11, 8, 3, 4, 13, 7, 5, 15, 14, 1, 9],
      [12, 5, 1, 15, 14, 13, 4, 10, 0, 7, 6, 3, 9, 2, 8, 11],
      [13, 11, 7, 14, 12, 1, 3, 9, 5, 0, 15, 4, 8, 6, 2, 10],
      [6, 15, 14, 9, 11, 3, 0, 8, 12, 2, 13, 7, 1, 4, 10, 5],
      [10, 2, 8, 4, 7, 6, 1, 5, 15, 11, 9, 14, 3, 12, 13, 0],
      replicate 16 0, replicate 16 0]"

definition blake_load64 :: "bytes \<Rightarrow> u64" where
  "blake_load64 src = fromBigEndian (rev (take 8 src))"

definition rotr64 :: "u64 \<Rightarrow> nat \<Rightarrow> u64" where
  "rotr64 w c = drop_bit c w OR push_bit (64 - c) w"

definition blake_G :: "nat \<Rightarrow> nat \<Rightarrow> u64 list \<Rightarrow> u64 \<times> u64 \<times> u64 \<times> u64 \<Rightarrow> u64 \<times> u64 \<times> u64 \<times> u64" where
  "blake_G r i m = (\<lambda>(a, b, c, d).
     (let a = a + b + m ! (blake2b_sigma ! r ! (2 * i + 0));
          d = rotr64 (d XOR a) 32;
          c = c + d;
          b = rotr64 (b XOR c) 24;
          a = a + b + m ! (blake2b_sigma ! r ! (2 * i + 1));
          d = rotr64 (d XOR a) 16;
          c = c + d;
          b = rotr64 (b XOR c) 63
      in (a, b, c, d)))"

text \<open>\<open>G(r, i, v[a], v[b], v[c], v[d], m)\<close>\<close>

definition G_at :: "nat \<Rightarrow> u64 list \<Rightarrow> nat \<times> nat \<times> nat \<times> nat \<times> nat \<Rightarrow> u64 list \<Rightarrow> u64 list" where
  "G_at r m = (\<lambda>(i, a, b, c, d) v.
     (let (va, vb, vc, vd) = blake_G r i m (v ! a, v ! b, v ! c, v ! d)
      in v[a := va, b := vb, c := vc, d := vd]))"

definition round_calls :: "(nat \<times> nat \<times> nat \<times> nat \<times> nat) list" where
  "round_calls =
     [(0, 0, 4, 8, 12), (1, 1, 5, 9, 13), (2, 2, 6, 10, 14), (3, 3, 7, 11, 15),
      (4, 0, 5, 10, 15), (5, 1, 6, 11, 12), (6, 2, 7, 8, 13), (7, 3, 4, 9, 14)]"

definition ROUND :: "nat \<Rightarrow> u64 list \<Rightarrow> u64 list \<Rightarrow> u64 list" where
  "ROUND rnd m v = fold (G_at (rnd mod 10) m) round_calls v"

definition blake2b_compress :: "u32 \<Rightarrow> bytes \<Rightarrow> blake2b_state \<Rightarrow> blake2b_state" where
  "blake2b_compress rounds block S =
     (let m = map (\<lambda>i. blake_load64 (drop (i * 8) block)) [0..<16];
          v = map (\<lambda>i. bl_h S ! i) [0..<8] @
              [blake2b_IV ! 0, blake2b_IV ! 1, blake2b_IV ! 2, blake2b_IV ! 3,
               blake2b_IV ! 4 XOR bl_t S ! 0, blake2b_IV ! 5 XOR bl_t S ! 1,
               blake2b_IV ! 6 XOR bl_f S ! 0, blake2b_IV ! 7 XOR bl_f S ! 1];
          v = fold (\<lambda>r. ROUND r m) [0..<unat rounds] v
      in S\<lparr>bl_h := map (\<lambda>i. bl_h S ! i XOR v ! i XOR v ! (i + 8)) [0..<8]\<rparr>)"

definition load_words :: "bytes \<Rightarrow> u64 list" where
  "load_words bs = map (\<lambda>i. blake_load64 (drop (i * 8) bs)) [0..<8]"

definition store_words :: "u64 list \<Rightarrow> bytes" where
  "store_words ws = concat (map (\<lambda>w. rev (nat_be 8 (unat w))) ws)"

definition blake2FCompression ::
  "u32 \<Rightarrow> bytes \<Rightarrow> bytes \<Rightarrow> bytes \<Rightarrow> bool \<Rightarrow> bytes \<Rightarrow> blake_error + bytes" where
  "blake2FCompression rounds stateVector t0 t1 lastBlock messageBlockVector =
     (if length stateVector \<noteq> 64 then Inl InvalidInputSize
      else if length t0 \<noteq> 8 \<or> length t1 \<noteq> 8 then Inl InvalidInputSize
      else
        (let s = \<lparr>bl_h = load_words stateVector, bl_t = [blake_load64 t0, blake_load64 t1],
                  bl_f = [if lastBlock then -1 else 0, 0],
                  bl_buf = replicate BLAKE2B_BLOCKBYTES 0, bl_buflen = 0, bl_outlen = 0, bl_last_node = 0\<rparr>
         in if length messageBlockVector \<noteq> BLAKE2B_BLOCKBYTES then Inl InvalidInputSize
            else Inr (store_words (bl_h (blake2b_compress rounds messageBlockVector s)))))"

section \<open>A round is a permutation of the state\<close>

lemma bit_rotr64:
  assumes "0 < c" "c < 64" "n < 64"
  shows "bit (rotr64 w c) n = bit w (if n + c < 64 then n + c else n + c - 64)"
proof (cases "n + c < 64")
  case True
  then show ?thesis using assms by (auto simp: rotr64_def bit_simps add.commute)
next
  case False
  have "\<not> bit w (n + c)" using False bit_imp_le_length [of w "n + c"] by auto
  moreover have "n - (64 - c) = n + c - 64" using assms False by linarith
  ultimately show ?thesis using assms False by (auto simp: rotr64_def bit_simps add.commute)
qed

lemma rotr64_inj:
  assumes "rotr64 w c = rotr64 w' c" "0 < c" "c < 64"
  shows "w = w'"
proof (rule bit_word_eqI)
  fix k :: nat assume "k < LENGTH(64)"
  then have k: "k < 64" by simp
  define n where "n = (if c \<le> k then k - c else k + 64 - c)"
  have n: "n < 64" "(if n + c < 64 then n + c else n + c - 64) = k"
    using assms(2,3) k by (auto simp: n_def)
  show "bit w k = bit w' k"
    using bit_rotr64 [OF assms(2,3) n(1), of w] bit_rotr64 [OF assms(2,3) n(1), of w'] assms(1) n(2) by simp
qed

text \<open>Half of \<open>G\<close>, with the message word and the two rotations as arguments.\<close>

definition half_G :: "u64 \<Rightarrow> nat \<Rightarrow> nat \<Rightarrow> u64 \<times> u64 \<times> u64 \<times> u64 \<Rightarrow> u64 \<times> u64 \<times> u64 \<times> u64" where
  "half_G x s t = (\<lambda>(a, b, c, d).
     (let a = a + b + x; d = rotr64 (d XOR a) s; c = c + d; b = rotr64 (b XOR c) t in (a, b, c, d)))"

lemma half_G_inj:
  assumes "half_G x s t (a, b, c, d) = half_G x s t (a', b', c', d')" "0 < s" "s < 64" "0 < t" "t < 64"
  shows "(a, b, c, d) = (a', b', c', d')"
proof -
  note eq = assms(1) [unfolded half_G_def Let_def prod.case prod.inject]
  have a: "a + b + x = a' + b' + x" using eq by blast
  have dd: "rotr64 (d XOR (a + b + x)) s = rotr64 (d' XOR (a' + b' + x)) s" using eq by blast
  then have "d XOR (a + b + x) = d' XOR (a' + b' + x)" by (rule rotr64_inj) (use assms in simp_all)
  then have d: "d = d'" unfolding a xor_cancel .
  have cc: "c + rotr64 (d XOR (a + b + x)) s = c' + rotr64 (d' XOR (a' + b' + x)) s" using eq by blast
  then have c: "c = c'" unfolding dd by simp
  have "rotr64 (b XOR (c + rotr64 (d XOR (a + b + x)) s)) t = rotr64 (b' XOR (c' + rotr64 (d' XOR (a' + b' + x)) s)) t"
    using eq by blast
  then have "b XOR (c + rotr64 (d XOR (a + b + x)) s) = b' XOR (c' + rotr64 (d' XOR (a' + b' + x)) s)"
    by (rule rotr64_inj) (use assms in simp_all)
  then have b: "b = b'" unfolding cc xor_cancel .
  have "a = a'" using a b by simp
  then show ?thesis using b c d by simp
qed

lemma blake_G_halves:
  "blake_G r i m p = half_G (m ! (blake2b_sigma ! r ! (2 * i + 1))) 16 63
     (half_G (m ! (blake2b_sigma ! r ! (2 * i + 0))) 32 24 p)"
  by (cases p) (simp only: blake_G_def half_G_def Let_def prod.case)

lemma blake_G_inj:
  assumes "blake_G r i m p = blake_G r i m q"
  shows "p = q"
proof -
  have half: "p = q" if "half_G x s t p = half_G x s t q" "0 < s" "s < 64" "0 < t" "t < 64" for x s t p q
    using half_G_inj that by (cases p; cases q) blast
  show ?thesis
    by (rule half, rule half) (use assms in \<open>simp_all only: blake_G_halves\<close>, simp_all)
qed

lemma G_at_inj:
  assumes "G_at r m (i, a, b, c, d) v = G_at r m (i, a, b, c, d) w"
    and "length v = 16" "length w = 16" "distinct [a, b, c, d]" "set [a, b, c, d] \<subseteq> {..<16}"
  shows "v = w"
proof (rule nth_equalityI)
  obtain va vb vc vd where V: "blake_G r i m (v ! a, v ! b, v ! c, v ! d) = (va, vb, vc, vd)"
    by (metis prod_cases4)
  obtain wa wb wc wd where W: "blake_G r i m (w ! a, w ! b, w ! c, w ! d) = (wa, wb, wc, wd)"
    by (metis prod_cases4)
  have eq: "v[a := va, b := vb, c := vc, d := vd] = w[a := wa, b := wb, c := wc, d := wd]"
    using assms(1) V W by (simp add: G_at_def)
  have ne: "a \<noteq> b" "a \<noteq> c" "a \<noteq> d" "b \<noteq> c" "b \<noteq> d" "c \<noteq> d" using assms(4) by simp_all
  have lt: "a < 16" "b < 16" "c < 16" "d < 16" using assms(5) by simp_all
  note upd = nth_list_update assms(2,3)
  have "va = wa" using arg_cong [OF eq, of "\<lambda>l. l ! a"] ne lt(1) by (simp add: upd)
  moreover have "vb = wb" using arg_cong [OF eq, of "\<lambda>l. l ! b"] ne lt(2) by (simp add: upd)
  moreover have "vc = wc" using arg_cong [OF eq, of "\<lambda>l. l ! c"] ne lt(3) by (simp add: upd)
  moreover have "vd = wd" using arg_cong [OF eq, of "\<lambda>l. l ! d"] ne lt(4) by (simp add: upd)
  ultimately have "blake_G r i m (v ! a, v ! b, v ! c, v ! d) = blake_G r i m (w ! a, w ! b, w ! c, w ! d)"
    by (simp only: V W)
  then have "(v ! a, v ! b, v ! c, v ! d) = (w ! a, w ! b, w ! c, w ! d)" by (rule blake_G_inj)
  then have four: "v ! a = w ! a" "v ! b = w ! b" "v ! c = w ! c" "v ! d = w ! d" by simp_all
  fix k assume "k < length v"
  show "v ! k = w ! k"
  proof (cases "k = a \<or> k = b \<or> k = c \<or> k = d")
    case False
    then show ?thesis using arg_cong [OF eq, of "\<lambda>l. l ! k"] by simp
  qed (use four in blast)
qed (use assms in simp)

lemma length_G_at [simp]: "length (G_at r m x v) = length v"
  by (simp add: G_at_def Let_def split: prod.splits)

lemma fold_G_at_inj:
  assumes "fold (G_at r m) cs v = fold (G_at r m) cs w" "length v = 16" "length w = 16"
    and "\<forall>(i, a, b, c, d) \<in> set cs. distinct [a, b, c, d] \<and> set [a, b, c, d] \<subseteq> {..<16}"
  shows "v = w"
  using assms
proof (induction cs arbitrary: v w)
  case (Cons x cs)
  obtain i a b c d where x: "x = (i, a, b, c, d)" by (metis prod_cases5)
  have "fold (G_at r m) cs (G_at r m x v) = fold (G_at r m) cs (G_at r m x w)" using Cons.prems(1) by simp
  moreover have "\<forall>(i, a, b, c, d) \<in> set cs. distinct [a, b, c, d] \<and> set [a, b, c, d] \<subseteq> {..<16}"
    using Cons.prems(4) unfolding list.set Ball_def insert_iff by blast
  ultimately have "G_at r m x v = G_at r m x w"
    using Cons.IH [of "G_at r m x v" "G_at r m x w"] by (simp only: length_G_at Cons.prems(2,3) simp_thms)
  moreover have "distinct [a, b, c, d]" "set [a, b, c, d] \<subseteq> {..<16}"
    using bspec [OF Cons.prems(4), of x] x by simp_all
  ultimately show ?case using G_at_inj Cons.prems(2,3) x by blast
qed simp

section \<open>Properties\<close>

text \<open>
  Every round of BLAKE2b is a permutation of the 16-word state, whatever the message block:
  two states with the same image are equal.
\<close>

theorem ROUND_injective:
  assumes "length v = 16" "length w = 16" "ROUND r m v = ROUND r m w"
  shows "v = w"
  using assms(3) unfolding ROUND_def
  by (rule fold_G_at_inj) (use assms(1,2) in \<open>simp_all add: round_calls_def\<close>)

theorem ROUND_injective_witness:
  "ROUND 0 (replicate 16 0) (1 # replicate 15 0) \<noteq> ROUND 0 (replicate 16 0) (2 # replicate 15 0)"
  using ROUND_injective [of "1 # replicate 15 0" "2 # replicate 15 0" 0 "replicate 16 0"] by auto

text \<open>
  Every message word is used exactly once in each round: the ten rows of the schedule are
  permutations of the sixteen indices.
\<close>

theorem sigma_rows_permute:
  "\<forall>r < 10. sort (blake2b_sigma ! r) = [0..<16]"
  by code_simp

theorem sigma_rows_permute_witness:
  "sort (blake2b_sigma ! 3) = [0..<16]"
  using sigma_rows_permute by simp

text \<open>
  The sizes of the arguments decide.  \<open>blake2FCompression\<close> throws \<open>InvalidInputSize\<close> unless the
  state has 64 bytes, the counters 8 each and the block 128, and otherwise returns 64 bytes, for
  every number of rounds.
\<close>

theorem blake2F_sizes:
  "(length st = 64 \<and> length t0 = 8 \<and> length t1 = 8 \<and> length block = 128
      \<longrightarrow> (\<exists>out. blake2FCompression rounds st t0 t1 lastb block = Inr out \<and> length out = 64)) \<and>
   (\<not> (length st = 64 \<and> length t0 = 8 \<and> length t1 = 8 \<and> length block = 128)
      \<longrightarrow> blake2FCompression rounds st t0 t1 lastb block = Inl InvalidInputSize)"
proof -
  have "length (store_words ws) = 8 * length ws" for ws
    by (induction ws) (simp_all add: store_words_def)
  then show ?thesis
    by (simp add: blake2FCompression_def BLAKE2B_BLOCKBYTES_def Let_def blake2b_compress_def)
qed

theorem blake2F_sizes_witness:
  "(\<exists>out. blake2FCompression 0 (replicate 64 0) (replicate 8 0) (replicate 8 0) True (replicate 128 0) = Inr out
      \<and> length out = 64) \<and>
   blake2FCompression 0 [] (replicate 8 0) (replicate 8 0) True (replicate 128 0) = Inl InvalidInputSize"
  using blake2F_sizes [of "replicate 64 0" "replicate 8 0" "replicate 8 0" "replicate 128 0" 0 True]
    blake2F_sizes [of "[]" "replicate 8 0" "replicate 8 0" "replicate 128 0" 0 True]
  by simp

end
