(* ===== verification/Dev_Crypto.thy ===== *)
theory Dev_Crypto
  imports Rlp_Theorems Fixed_Hash
begin

text \<open>
  \<^verbatim>\<open>libdevcrypto/Common\<close>: signatures, keys and key derivation.  The libraries behind them are the
  fields of the record \<open>crypto\<close>: Keccak of ethash, the curve operations of libsecp256k1, SHA-256
  and the AES counter mode of Crypto++.  What is documented of the curve operations is the
  predicate \<open>crypto_ok\<close>.
\<close>

section \<open>The libraries\<close>

record crypto =
  keccak256 :: "bytes \<Rightarrow> bytes"
  ec_pubkey :: "bytes \<Rightarrow> bytes option"
  ec_sign :: "bytes \<Rightarrow> bytes \<Rightarrow> (bytes \<times> nat) option"
  ec_recover :: "bytes \<Rightarrow> nat \<Rightarrow> bytes \<Rightarrow> bytes option"
  sha256_of :: "bytes \<Rightarrow> bytes"
  aes_ctr :: "bytes \<Rightarrow> bytes \<Rightarrow> bytes \<Rightarrow> bytes option"

definition secp256k1n :: nat where
  "secp256k1n = 0xfffffffffffffffffffffffffffffffebaaedce6af48a03bbfd25e8cd0364141"

text \<open>
  Hashes have 32 bytes; a public key is serialised as the byte 4 and 64 bytes, not all zero; a
  signature has 64 bytes with \<open>0 < r < n\<close>, \<open>0 < s <= n/2\<close> and a recovery identifier of at most 3,
  every secret with a public key can sign, and recovery gives the public key of the signer.  The
  identifiers 2 and 3 are possible: \<open>isValid\<close> refuses them, and the statements on signing say what
  the code does then.
\<close>

definition crypto_ok :: "crypto \<Rightarrow> bool" where
  "crypto_ok C \<longleftrightarrow>
     (\<forall>x. length (keccak256 C x) = 32) \<and>
     (\<forall>k p. ec_pubkey C k = Some p \<longrightarrow> length p = 65 \<and> p ! 0 = 4 \<and> hash_bool (drop 1 p)) \<and>
     (\<forall>h k p. ec_pubkey C k = Some p \<longrightarrow> (\<exists>sg v. ec_sign C h k = Some (sg, v))) \<and>
     (\<forall>h k sg v. ec_sign C h k = Some (sg, v) \<longrightarrow>
        length sg = 64 \<and> v \<le> 3 \<and> 0 < be_nat (take 32 sg) \<and> be_nat (take 32 sg) < secp256k1n \<and>
        0 < be_nat (drop 32 sg) \<and> be_nat (drop 32 sg) \<le> secp256k1n div 2) \<and>
     (\<forall>h k sg v. ec_sign C h k = Some (sg, v) \<longrightarrow> ec_recover C sg v h = ec_pubkey C k)"

section \<open>Signatures\<close>

record SignatureStruct =
  sig_r :: FixedHash
  sig_s :: FixedHash
  sig_v :: byte

definition SignatureStruct_of :: "FixedHash \<Rightarrow> SignatureStruct" where
  "SignatureStruct_of b = \<lparr>sig_r = take 32 b, sig_s = take 32 (drop 32 b), sig_v = b ! 64\<rparr>"

definition Signature_of :: "SignatureStruct \<Rightarrow> FixedHash" where
  "Signature_of ss = sig_r ss @ sig_s ss @ [sig_v ss]"

definition s_max :: FixedHash where
  "s_max = nat_be 32 secp256k1n"

definition isValid :: "SignatureStruct \<Rightarrow> bool" where
  "isValid ss =
     (sig_v ss \<le> 1 \<and> hash_gt (sig_r ss) (hash_zero 32) \<and> hash_gt (sig_s ss) (hash_zero 32) \<and>
      hash_less (sig_r ss) s_max \<and> hash_less (sig_s ss) s_max)"

definition recover :: "crypto \<Rightarrow> FixedHash \<Rightarrow> FixedHash \<Rightarrow> FixedHash" where
  "recover C sig message =
     (let v = unat (sig ! 64) in
      if v > 3 then hash_zero 64
      else (case ec_recover C (take 64 sig) v message of
              None \<Rightarrow> hash_zero 64
            | Some p \<Rightarrow> drop 1 p))"

definition sign :: "crypto \<Rightarrow> FixedHash \<Rightarrow> FixedHash \<Rightarrow> FixedHash" where
  "sign C k h =
     (case ec_sign C h k of
        None \<Rightarrow> hash_zero 65
      | Some (sg, v) \<Rightarrow>
          (let ss = \<lparr>sig_r = take 32 sg, sig_s = take 32 (drop 32 sg), sig_v = of_nat v\<rparr>;
               ss = (if hash_gt (sig_s ss) (hash_of_arith 32 (of_nat (secp256k1n div 2) :: u256))
                     then ss\<lparr>sig_v := sig_v ss XOR 1,
                             sig_s := hash_of_arith 32 (of_nat secp256k1n - (hash_to_arith (sig_s ss) :: u256))\<rparr>
                     else ss)
           in Signature_of ss))"

definition verify :: "crypto \<Rightarrow> FixedHash \<Rightarrow> FixedHash \<Rightarrow> FixedHash \<Rightarrow> bool" where
  "verify C p s h = (if \<not> hash_bool p then False else hash_eq p (recover C s h))"

section \<open>Keys and addresses\<close>

definition toPublic :: "crypto \<Rightarrow> FixedHash \<Rightarrow> FixedHash" where
  "toPublic C secret = (case ec_pubkey C secret of None \<Rightarrow> hash_zero 64 | Some p \<Rightarrow> drop 1 p)"

definition toAddress_public :: "crypto \<Rightarrow> FixedHash \<Rightarrow> FixedHash" where
  "toAddress_public C p = right160 (keccak256 C p)"

definition toAddress_secret :: "crypto \<Rightarrow> FixedHash \<Rightarrow> FixedHash" where
  "toAddress_secret C secret = toAddress_public C (toPublic C secret)"

definition toAddress_nonce :: "crypto \<Rightarrow> FixedHash \<Rightarrow> u256 \<Rightarrow> rlp_error + FixedHash" where
  "toAddress_nonce C from nonce =
     bind_res (RLPStream_list 2) (\<lambda>r.
     bind_res (append_hash from False False r) (\<lambda>r.
     bind_res (append_word nonce r) (\<lambda>r.
     bind_res (stream_out r) (\<lambda>out. Inr (right160 (keccak256 C out))))))"

record KeyPair =
  kp_secret :: FixedHash
  kp_public :: FixedHash
  kp_address :: FixedHash

definition KeyPair_of :: "crypto \<Rightarrow> FixedHash \<Rightarrow> KeyPair" where
  "KeyPair_of C sec =
     (let p = toPublic C sec in
      \<lparr>kp_secret = sec, kp_public = p,
       kp_address = (if hash_bool p then toAddress_public C p else hash_zero 20)\<rparr>)"

section \<open>Symmetric encryption and key derivation\<close>

definition encryptAES128CTR :: "crypto \<Rightarrow> bytes \<Rightarrow> FixedHash \<Rightarrow> bytes \<Rightarrow> bytes" where
  "encryptAES128CTR C k iv plain =
     (if length k \<noteq> 16 \<and> length k \<noteq> 24 \<and> length k \<noteq> 32 then []
      else (case aes_ctr C k iv plain of None \<Rightarrow> [] | Some ret \<Rightarrow> ret))"

definition decryptAES128CTR :: "crypto \<Rightarrow> bytes \<Rightarrow> FixedHash \<Rightarrow> bytes \<Rightarrow> bytes" where
  "decryptAES128CTR C k iv cipher =
     (if length k \<noteq> 16 \<and> length k \<noteq> 24 \<and> length k \<noteq> 32 then []
      else (case aes_ctr C k iv cipher of None \<Rightarrow> [] | Some ret \<Rightarrow> ret))"

datatype crypto_error = InvalidState

text \<open>\<open>crypto::kdf\<close> with the random secret as an argument.\<close>

definition crypto_kdf :: "crypto \<Rightarrow> FixedHash \<Rightarrow> FixedHash \<Rightarrow> FixedHash \<Rightarrow> crypto_error + FixedHash" where
  "crypto_kdf C rnd priv h =
     (let s = keccak256 C (rnd @ priv);
          s = hash_xor s h;
          s = keccak256 C s
      in if \<not> hash_bool s \<or> \<not> hash_bool h \<or> \<not> hash_bool priv then Inl InvalidState else Inr s)"

text \<open>\<open>Nonce::next\<close>: the state \<open>m_value\<close> before and after, and the nonce.\<close>

definition Nonce_next :: "crypto \<Rightarrow> FixedHash \<Rightarrow> FixedHash \<Rightarrow> crypto_error + (FixedHash \<times> FixedHash)" where
  "Nonce_next C rnd m_value =
     bind_res (if \<not> hash_bool m_value then (if \<not> hash_bool rnd then Inl InvalidState else Inr rnd) else Inr m_value)
       (\<lambda>v. let v = keccak256 C v in Inr (v, keccak256 C (secure_not v)))"

text \<open>\<open>++ctr[3] || ++ctr[2] || ++ctr[1] || ++ctr[0]\<close> is the big-endian increment.\<close>

fun kdf_loop :: "crypto \<Rightarrow> nat \<Rightarrow> bytes \<Rightarrow> FixedHash \<Rightarrow> bytes \<Rightarrow> bytes \<Rightarrow> bytes" where
  "kdf_loop C 0 ctr z s1 k = k"
| "kdf_loop C (Suc n) ctr z s1 k = kdf_loop C n (hash_inc ctr) z s1 (k @ sha256_of C (ctr @ z @ s1))"

definition ecies_kdf :: "crypto \<Rightarrow> FixedHash \<Rightarrow> bytes \<Rightarrow> u32 \<Rightarrow> bytes" where
  "ecies_kdf C z s1 kdByteLen =
     (let reps = unat ((kdByteLen + 7) * 8) div 512;
          k = kdf_loop C (reps + 1) [0, 0, 0, 1] z s1 [];
          n = unat kdByteLen
      in take n k @ replicate (n - length k) 0)"

section \<open>Laws\<close>

lemma length_kdf_loop:
  "\<forall>x. length (sha256_of C x) = 32 \<Longrightarrow> length (kdf_loop C n ctr z s1 k) = length k + 32 * n"
  by (induction n arbitrary: ctr k) simp_all

lemma length_s_max [simp]: "length s_max = 32"
  by (simp add: s_max_def)

lemma be_nat_s_max: "be_nat s_max = secp256k1n"
  by (simp add: s_max_def secp256k1n_def)

lemma be_nat_zero [simp]: "be_nat (hash_zero n) = 0"
  by (induction n) (simp_all add: hash_zero_def replicate_append_same [symmetric] del: replicate.simps)

lemma length_hash_zero [simp]: "length (hash_zero n) = n"
  by (simp add: hash_zero_def)

lemma hash_gt_be_nat: "length a = length b \<Longrightarrow> hash_gt a b \<longleftrightarrow> be_nat b < be_nat a"
proof -
  assume "length a = length b"
  then have "hash_less a b \<longleftrightarrow> be_nat a < be_nat b" "a = b \<longleftrightarrow> be_nat a = be_nat b"
    using hash_less_be_nat be_nat_inj by blast+
  then show ?thesis by (auto simp: hash_gt_def hash_le_def hash_eq_def)
qed

lemma length_sign:
  assumes "crypto_ok C" shows "length (sign C k h) = 65"
proof (cases "ec_sign C h k")
  case (Some a)
  then show ?thesis
    using assms by (cases a) (simp add: sign_def crypto_ok_def Signature_of_def hash_of_arith_def Let_def)
qed (simp add: sign_def)

lemma hash_of_arith_nat: "n < 2 ^ 256 \<Longrightarrow> hash_of_arith 32 (of_nat n :: u256) = nat_be 32 n"
  by (simp add: hash_of_arith_def toBigEndian_eq unat_of_nat)

lemma secp_bound: "secp256k1n < 2 ^ 256"
  by (simp add: secp256k1n_def)

lemma gt_half: "length s = 32 \<Longrightarrow>
    hash_gt s (hash_of_arith 32 (of_nat (secp256k1n div 2) :: u256)) \<longleftrightarrow> secp256k1n div 2 < be_nat s"
proof -
  assume s: "length s = 32"
  have b: "secp256k1n div 2 < 2 ^ 256" by (simp add: secp256k1n_def)
  then show ?thesis
    unfolding hash_of_arith_nat [OF b] using hash_gt_be_nat [of s "nat_be 32 (secp256k1n div 2)"] s by simp
qed

text \<open>With a signature in lower-S form, \<open>sign\<close> changes nothing.\<close>

lemma sign_lower:
  assumes "crypto_ok C" "ec_sign C h k = Some (sg, v)"
  shows "sign C k h = sg @ [of_nat v]"
proof -
  have len: "length sg = 64" and low: "be_nat (drop 32 sg) \<le> secp256k1n div 2"
    using assms unfolding crypto_ok_def by blast+
  then have d: "take 32 (drop 32 sg) = drop 32 sg" "length (drop 32 sg) = 32" by simp_all
  have "\<not> hash_gt (drop 32 sg) (hash_of_arith 32 (of_nat (secp256k1n div 2) :: u256))"
    using gt_half [OF d(2)] low by simp
  then show ?thesis using assms(2) by (simp add: sign_def Signature_of_def d(1))
qed

lemma recover_sign:
  assumes "crypto_ok C" "ec_pubkey C k = Some p"
  shows "recover C (sign C k h) h = drop 1 p"
proof -
  obtain sg v where sg: "ec_sign C h k = Some (sg, v)" using assms unfolding crypto_ok_def by blast
  have len: "length sg = 64" "v \<le> 3" and rec: "ec_recover C sg v h = Some p"
    using assms sg unfolding crypto_ok_def by (metis, metis, metis)
  then have "unat (of_nat v :: byte) = v" by (simp add: unat_of_nat)
  then show ?thesis
    using sign_lower [OF assms(1) sg] len rec by (simp add: recover_def nth_append)
qed

lemma isValid_iff:
  assumes "length (sig_r ss) = 32" "length (sig_s ss) = 32"
  shows "isValid ss \<longleftrightarrow> sig_v ss \<le> 1 \<and> 0 < be_nat (sig_r ss) \<and> be_nat (sig_r ss) < secp256k1n \<and>
    0 < be_nat (sig_s ss) \<and> be_nat (sig_s ss) < secp256k1n"
  using assms by (auto simp: isValid_def hash_gt_be_nat hash_less_be_nat be_nat_s_max)

lemma isValid_sign:
  assumes "crypto_ok C" "ec_pubkey C k = Some p"
  shows "isValid (SignatureStruct_of (sign C k h)) \<longleftrightarrow> sig_v (SignatureStruct_of (sign C k h)) \<le> 1"
proof -
  obtain sg v where sg: "ec_sign C h k = Some (sg, v)" using assms unfolding crypto_ok_def by blast
  have f: "length sg = 64" "0 < be_nat (take 32 sg)" "be_nat (take 32 sg) < secp256k1n"
    "0 < be_nat (drop 32 sg)" "be_nat (drop 32 sg) \<le> secp256k1n div 2"
    using assms(1) sg unfolding crypto_ok_def by blast+
  have "secp256k1n div 2 < secp256k1n" by (simp add: secp256k1n_def)
  then have lt: "be_nat (drop 32 sg) < secp256k1n" using f(5) by (rule order.strict_trans1 [rotated])
  have ss: "SignatureStruct_of (sign C k h) = \<lparr>sig_r = take 32 sg, sig_s = drop 32 sg, sig_v = of_nat v\<rparr>"
    using sign_lower [OF assms(1) sg] f(1) by (simp add: SignatureStruct_of_def nth_append)
  show ?thesis
    unfolding ss by (subst isValid_iff) (use f lt in simp_all)
qed

section \<open>Properties\<close>

text \<open>
  C34: \<open>sign\<close> always returns a signature in lower-S form.  Whatever half the library's \<open>s\<close> is in, the
  result has \<open>s <= n/2\<close>: it is \<open>s\<close> unchanged with the same recovery identifier, or \<open>n - s\<close> with its
  lowest bit flipped.
\<close>

theorem sign_normalises_s:
  assumes "ec_sign C h k = Some (sg, v)" and "length sg = 64" and "be_nat (drop 32 sg) < secp256k1n"
  shows "\<exists>s' v'. sign C k h = take 32 sg @ s' @ [v'] \<and> length s' = 32 \<and> be_nat s' \<le> secp256k1n div 2 \<and>
    (be_nat s' = be_nat (drop 32 sg) \<and> v' = of_nat v \<or>
     be_nat s' = secp256k1n - be_nat (drop 32 sg) \<and> v' = of_nat v XOR 1)"
proof -
  define s where "s = drop 32 sg"
  have s: "take 32 (drop 32 sg) = s" "length s = 32" "be_nat s < secp256k1n" using assms by (simp_all add: s_def)
  show ?thesis
  proof (cases "secp256k1n div 2 < be_nat s")
    case True
    have u: "unat (of_nat secp256k1n - (hash_to_arith s :: u256)) = secp256k1n - be_nat s"
    proof -
      have "(hash_to_arith s :: u256) = of_nat (be_nat s)" by (simp add: hash_to_arith_def fromBigEndian_word)
      then have "of_nat secp256k1n - (hash_to_arith s :: u256) = of_nat (secp256k1n - be_nat s)"
        using s(3) by (simp add: of_nat_diff)
      then show ?thesis using secp_bound by (simp add: unat_of_nat)
    qed
    have "be_nat (hash_of_arith 32 (of_nat secp256k1n - (hash_to_arith s :: u256))) = secp256k1n - be_nat s"
      using secp_bound by (simp add: hash_of_arith_def toBigEndian_eq u)
    moreover have "sign C k h = take 32 sg @ hash_of_arith 32 (of_nat secp256k1n - (hash_to_arith s :: u256)) @ [of_nat v XOR 1]"
      using assms(1) gt_half [OF s(2)] True by (simp add: sign_def s(1) Signature_of_def Let_def)
    moreover have "secp256k1n - be_nat s \<le> secp256k1n div 2" using True by (simp add: secp256k1n_def)
    ultimately show ?thesis
      by (intro exI [of _ "hash_of_arith 32 (of_nat secp256k1n - (hash_to_arith s :: u256))"])
        (simp add: s_def hash_of_arith_def)
  next
    case False
    then have "sign C k h = take 32 sg @ s @ [of_nat v]"
      using assms(1) gt_half [OF s(2)] by (simp add: sign_def s(1) Signature_of_def Let_def)
    then show ?thesis using False s by (intro exI [of _ s]) (simp add: s_def)
  qed
qed

text \<open>A stand-in for the curve: the signature carries the secret.\<close>

definition demo_crypto :: crypto where
  "demo_crypto =
     (let ok = (\<lambda>k. length k = 32 \<and> 0 < be_nat k \<and> be_nat k < secp256k1n) in
      \<lparr>keccak256 = (\<lambda>x. replicate 31 0 @ [of_nat (length x)]),
       ec_pubkey = (\<lambda>k. if ok k then Some (4 # k @ k) else None),
       ec_sign = (\<lambda>h k. if ok k then Some (k @ nat_be 32 1, 0) else None),
       ec_recover = (\<lambda>sg v h. Some (4 # take 32 sg @ take 32 sg)),
       sha256_of = (\<lambda>x. replicate 32 1), aes_ctr = (\<lambda>k iv d. Some d)\<rparr>)"

lemma hash_bool_be_nat: "hash_bool h \<longleftrightarrow> 0 < be_nat h"
  by (induction h rule: rev_induct) (auto simp: hash_bool_def unat_gt_0)

lemma be_nat_append_pos: "0 < be_nat xs \<Longrightarrow> 0 < be_nat (xs @ ys)"
  using hash_bool_be_nat [of xs] hash_bool_be_nat [of "xs @ ys"] by (simp add: hash_bool_def)

lemma demo_crypto_ok: "crypto_ok demo_crypto"
proof -
  have "(1 :: nat) \<le> secp256k1n div 2" by (simp add: secp256k1n_def)
  moreover have "take 64 (k @ nat_be 32 1) = k @ nat_be 32 1" if "length k = 32" for k :: bytes
    using that by simp
  ultimately show ?thesis
    unfolding crypto_ok_def
    by (auto simp: demo_crypto_def Let_def hash_bool_be_nat be_nat_append_pos split: if_splits)
qed

theorem sign_normalises_s_witness:
  "\<exists>s' v'. sign demo_crypto (nat_be 32 5) [] = take 32 (nat_be 32 5 @ nat_be 32 1) @ s' @ [v'] \<and> length s' = 32 \<and>
    be_nat s' \<le> secp256k1n div 2 \<and>
    (be_nat s' = be_nat (drop 32 (nat_be 32 5 @ nat_be 32 1)) \<and> v' = of_nat 0 \<or>
     be_nat s' = secp256k1n - be_nat (drop 32 (nat_be 32 5 @ nat_be 32 1)) \<and> v' = of_nat 0 XOR 1)"
  by (rule sign_normalises_s) (simp_all add: demo_crypto_def Let_def secp256k1n_def)

text \<open>
  The key derivation of ECIES falls short.  The number of rounds is computed for blocks of 512
  bits and SHA-256 yields 256, so that for 33 to 56 requested bytes only one block is derived, and
  all bytes from the 33rd on are zero.
\<close>

theorem ecies_kdf_zero_tail:
  assumes "\<forall>x. length (sha256_of C x) = 32" and "32 < unat n" and "unat n \<le> 56"
  shows "drop 32 (ecies_kdf C z s1 n) = replicate (unat n - 32) 0"
proof -
  have "unat ((n + 7) * 8) = (unat n + 7) * 8"
    using assms(3) by (simp add: unat_word_ariths)
  then have "unat ((n + 7) * 8) div 512 = 0" using assms(3) by simp
  then show ?thesis
    using assms by (simp add: ecies_kdf_def Let_def length_kdf_loop)
qed

theorem ecies_kdf_zero_tail_witness:
  "drop 32 (ecies_kdf demo_crypto (replicate 32 9) [] 48) = replicate 16 0"
  using ecies_kdf_zero_tail [of demo_crypto 48 "replicate 32 9" "[]"]
  by (simp add: demo_crypto_def Let_def)

end
