(* ===== verification/User_Address.thy ===== *)
theory User_Address
  imports Dev_Crypto Cfx_Address
begin

text \<open>
  The addresses of accounts (\<^verbatim>\<open>libcfxcore/account.cpp\<close>, the two functions at its end): the
  Ethereum-style address of a key with the type bits of a Conflux user in its first byte.
\<close>

text \<open>\<open>addr[0] = (addr[0] & 0x0F) | 0x10\<close>\<close>

definition user_bits :: "FixedHash \<Rightarrow> FixedHash" where
  "user_bits addr = addr[0 := (addr ! 0 AND 0x0F) OR 0x10]"

definition getCfxUserAddress :: "FixedHash \<Rightarrow> u32 \<Rightarrow> addr_error + Address" where
  "getCfxUserAddress addr i = Address_ctor (''0x'' @ hash_hex (user_bits addr)) i"

definition Secret2CfxAddr :: "crypto \<Rightarrow> FixedHash \<Rightarrow> u32 \<Rightarrow> addr_error + Address" where
  "Secret2CfxAddr C key i =
     (let addr = toAddress_public C (toPublic C key) in
      Address_ctor (''0x'' @ hash_hex (user_bits addr)) i)"

section \<open>Laws\<close>

lemma length_user_bits [simp]: "length (user_bits a) = length a"
  by (simp add: user_bits_def)

lemma type_bits: "((b AND 0x0F) OR 0x10) AND 0xf0 = (0x10 :: byte)"
proof -
  have "((b AND 0x0F) OR 0x10) AND 0xf0 = (b AND (0x0F AND 0xf0)) OR (0x10 AND 0xf0 :: byte)"
    by (simp only: bit.conj_disj_distrib2 and.assoc)
  also have "\<dots> = 0x10" by simp
  finally show ?thesis .
qed

lemma CalcAddressType_user:
  assumes "length a = 20"
  shows "CalcAddressType (user_bits a) = Inr AddressTypeUser"
proof -
  have "a \<noteq> []" using assms by auto
  then have h: "hd (user_bits a) = (a ! 0 AND 0x0F) OR 0x10"
    by (simp add: user_bits_def hd_conv_nth)
  have z: "DecodeString ''0000000000000000000000000000000000000000'' = replicate 20 0" by code_simp
  have "user_bits a \<noteq> replicate 20 0"
  proof
    assume "user_bits a = replicate 20 0"
    then have "(a ! 0 AND 0x0F) OR 0x10 = 0" using h by (simp add: hd_replicate)
    then have "((a ! 0 AND 0x0F) OR 0x10) AND 0xf0 = 0" by simp
    then show False unfolding type_bits by simp
  qed
  moreover have "user_bits a \<noteq> []" using \<open>a \<noteq> []\<close> by (simp add: user_bits_def)
  ultimately show ?thesis
    by (simp only: CalcAddressType_def z h type_bits Let_def) simp
qed

text \<open>What the constructors build: every member is determined by the twenty bytes and the network.\<close>

definition user_address :: "Address \<Rightarrow> bool" where
  "user_address a \<longleftrightarrow>
     addressType a = AddressTypeUser \<and> length (hex a) = 20 \<and> hd (hex a) AND 0xf0 = 0x10 \<and>
     length (body a) = 34 \<and> symbols (body a) \<and> length (checksum a) = 8 \<and> symbols (checksum a) \<and>
     ToHexAddress (body a) = Inr (VersionByte_of 0, hex a) \<and>
     CalcChecksum (networkType a) (body a) = Inr (checksum a)"

lemma getCfxUserAddress_20:
  assumes "length h = 20" "unat i < 2 ^ 31"
  shows "\<exists>a. getCfxUserAddress h i = Inr a \<and> user_address a \<and> hex a = user_bits h \<and>
    networkType a = NetworkType_of_id i \<and> networkID a = Some i"
proof -
  have len: "length (user_bits h) = 20" using assms by simp
  obtain b c t where bct: "NewFromBytes (user_bits h) i (Address_init i) = Inr (1, address_of (user_bits h) i b c t)"
    "symbols b" "length b = 34" "ToHexAddress b = Inr (VersionByte_of 0, user_bits h)"
    "CalcChecksum (NetworkType_of_id i) b = Inr c" "symbols c" "length c = 8"
    "CalcAddressType (user_bits h) = Inr t"
    using NewFromBytes_20 [OF len assms(2), of i] by blast
  have t: "t = AddressTypeUser" using bct(8) CalcAddressType_user [OF assms(1)] by simp
  have ne: "h \<noteq> []" using assms by auto
  have "hd (user_bits h) AND 0xf0 = 0x10"
    using ne type_bits [of "h ! 0"] by (simp add: user_bits_def hd_conv_nth)
  moreover have "getCfxUserAddress h i = Inr (address_of (user_bits h) i b c t)"
    using Address_ctor_hex [OF len, of i] bct(1) by (simp add: getCfxUserAddress_def hash_hex_def)
  ultimately show ?thesis
    using bct t len by (intro exI [of _ "address_of (user_bits h) i b c t"])
      (simp add: user_address_def address_of_def)
qed

section \<open>User addresses as keys of a map\<close>

text \<open>The user addresses of one network, and the string \<open>operator<\<close> compares.\<close>

definition net_address :: "u32 \<Rightarrow> Address \<Rightarrow> bool" where
  "net_address i a \<longleftrightarrow>
     user_address a \<and> networkType a = NetworkType_of_id i \<and> networkID a = Some i"

definition verbose :: "Address \<Rightarrow> string" where
  "verbose a = networkType a @ '':'' @ AddressType_String (addressType a) @ '':'' @
     symbol_string (body a) @ symbol_string (checksum a)"

lemma GetVerbose_user:
  assumes "net_address i a" "unat i < 2 ^ 31"
  shows "GetVerboseBase32Address a = Inr (verbose a)"
proof -
  have u: "user_address a" "networkType a = NetworkType_of_id i" using assms by (simp_all add: net_address_def)
  then have b: "symbols (body a)" "symbols (checksum a)" "length (body a) = 34" "length (checksum a) = 8"
    "addressType a = AddressTypeUser"
    by (simp_all add: user_address_def)
  have "length (AddressType_String (addressType a)) = 9" by (simp add: b AddressType_String_def AddressTypeUser_def)
  moreover have "length (networkType a) \<le> 13" using network_facts(5) [OF assms(2)] u(2) by simp
  ultimately show ?thesis
    using b symbol_string_facts(5) [OF b(1)] symbol_string_facts(5) [OF b(2)]
    by (simp add: GetVerboseBase32Address_def bits5sToString_symbols sprintf128_def verbose_def)
qed

lemma verbose_inj:
  assumes "net_address i a" "net_address i a'" "verbose a = verbose a'"
  shows "a = a'"
proof -
  have u: "user_address a" "user_address a'" "networkType a = networkType a'" "networkID a = networkID a'"
    using assms by (simp_all add: net_address_def)
  then have b: "symbols (body a)" "symbols (body a')" "symbols (checksum a)" "symbols (checksum a')"
    "length (body a) = 34" "length (body a') = 34" "addressType a = addressType a'"
    by (simp_all add: user_address_def)
  have "symbol_string (body a) @ symbol_string (checksum a) = symbol_string (body a') @ symbol_string (checksum a')"
    using assms(3) u(3) b(7) by (simp add: verbose_def)
  moreover have "length (symbol_string (body a)) = length (symbol_string (body a'))"
    using b symbol_string_facts(5) by simp
  ultimately have "symbol_string (body a) = symbol_string (body a')"
    "symbol_string (checksum a) = symbol_string (checksum a')" by simp_all
  then have s: "body a = body a'" "checksum a = checksum a'" using b symbol_string_facts(1) by metis+
  then have "hex a = hex a'" using u(1,2) by (simp add: user_address_def)
  with s u b show ?thesis by (intro Address.equality) simp_all
qed

lemma Address_less_user:
  assumes "net_address i a" "net_address i a'" "unat i < 2 ^ 31"
  shows "Address_less a a' = Inr (string_less (verbose a) (verbose a'))"
  using assms by (simp add: Address_less_def GetVerbose_user)

section \<open>Properties\<close>

text \<open>
  C28: the address of an account is well formed.  Whatever the key, \<open>Secret2CfxAddr\<close> gives, on a
  network below \<open>2 ^ 31\<close>, a valid address of the user type whose checksum and body are those of its
  twenty bytes; these are the bytes of the key's address with the type nibble replaced.
\<close>

theorem account_address_type:
  assumes "crypto_ok C" "unat i < 2 ^ 31"
  shows "\<exists>a. Secret2CfxAddr C key i = Inr a \<and> IsValid a \<and> user_address a \<and> networkID a = Some i \<and>
    hex a = user_bits (toAddress_secret C key)"
proof -
  have "length (toAddress_secret C key) = 20"
    using assms(1) by (simp add: toAddress_secret_def toAddress_public_def right160_def crypto_ok_def)
  from getCfxUserAddress_20 [OF this assms(2)] show ?thesis
    by (auto simp: Secret2CfxAddr_def getCfxUserAddress_def toAddress_secret_def Let_def IsValid_def user_address_def)
qed

theorem account_address_type_witness:
  "\<exists>a. Secret2CfxAddr demo_crypto (nat_be 32 5) 1029 = Inr a \<and> IsValid a \<and> user_address a \<and>
    networkID a = Some 1029 \<and> hex a = user_bits (toAddress_secret demo_crypto (nat_be 32 5))"
  by (rule account_address_type [OF demo_crypto_ok]) simp

end
