(* ===== verification/Rlp_Trees.thy ===== *)
theory Rlp_Trees
  imports Rlp_Theorems
begin

text \<open>
  Writing a fixed shape of items with the operations of \<open>RLPStream\<close> is writing a tree: what the
  clients of the stream need to relate their code to the encoding of the specification.
\<close>

section \<open>Numbers\<close>

definition rlp_num :: "nat \<Rightarrow> rlp" where
  "rlp_num n = RStr (compact_be n 0)"

lemma bind_res_assoc: "bind_res (bind_res m f) g = bind_res m (\<lambda>x. bind_res (f x) g)"
  by (cases m) simp_all

lemma bind_res_return [simp]: "bind_res m Inr = m"
  by (cases m) simp_all

lemma bytes_u256: "bytesRequired (unat v) \<le> 32" for v :: u256
  using bytesRequired_le_iff [of "unat v" 32] unsigned_less [of v, where ?'a = nat] by simp

lemma bytes_byte: "bytesRequired (unat v) \<le> 1" for v :: byte
  using bytesRequired_le_iff [of "unat v" 1] unsigned_less [of v, where ?'a = nat] by simp

lemma append_word_tree:
  "bytesRequired (unat v) \<le> 32 \<Longrightarrow> append_word v s = write_rlp (rlp_num (unat v)) s"
  by (simp add: append_word_def rlp_num_def append_int_eq append_bytes_eq length_compact_be)

lemma write_rlps_fun: "write_rlps [] = Inr" "write_rlps (t # ts) = (\<lambda>r. bind_res (write_rlp t r) (write_rlps ts))"
  by (simp_all add: fun_eq_iff)

lemma write_list:
  "write_rlp (RList ts) r = bind_res (appendList (length ts) r) (write_rlps ts)"
  by simp

lemma append_all_trees: "append_all (\<lambda>x. write_rlp (g x)) xs = write_rlps (map g xs)"
proof (induction xs)
  case (Cons x xs)
  show ?case by (rule ext) (simp add: Cons.IH)
qed (simp add: fun_eq_iff)

section \<open>Sizes\<close>

lemma length_enc_str_le: "length bs < 2 ^ 64 \<Longrightarrow> length (enc_str bs) \<le> length bs + 9"
  using length_rlp_header_le [of "length bs" "0x80"] by (simp add: enc_str_def)

lemma length_enc_list_le: "length p < 2 ^ 64 \<Longrightarrow> length (enc_list p) \<le> length p + 9"
  using length_rlp_header_le [of "length p" "0xc0"] by (simp add: enc_list_def)

lemma length_num_le: "bytesRequired n \<le> 32 \<Longrightarrow> length (rlp_enc (rlp_num n)) \<le> 41"
  using length_enc_str_le [of "compact_be n 0"] by (simp add: rlp_num_def)

lemma tree_out:
  assumes "length (rlp_enc t) < 2 ^ 64"
  shows "\<exists>s. write_rlp t RLPStream_empty = Inr s \<and> stream_out s = Inr (rlp_enc t)"
  using write_rlp_eq [OF assms]
  by (simp add: writes_enc_def push_out_def RLPStream_empty_def noteAppended_def stream_out_def)

section \<open>Reading trees\<close>

lemma cache_ok_init: "cache_ok ts (RLP_init (rlp_enc (RList ts)))"
  by (simp add: cache_ok_def)

lemma cache_ok_data: "cache_ok ts r \<Longrightarrow> m_data r = rlp_enc (RList ts)"
  by (auto simp: cache_ok_def cache_at_def RLP_init_def)

lemma itemCount_enc: "length (rlp_enc (RList ts)) < rlp_limit \<Longrightarrow> itemCount (rlp_enc (RList ts)) = Inr (length ts)"
  using enc_list_reads [of ts "[]"] items_loop_encs [OF encs_less, of ts 0]
  by (simp add: itemCount_def items_def)

lemma str_lim: "length (rlp_enc (RList ts)) < rlp_limit \<Longrightarrow> RStr bs \<in> set ts \<Longrightarrow> length bs < rlp_limit"
  using length_rlp_enc_list [of ts] length_rlp_enc_mem [of "RStr bs" ts] length_enc_str [of bs] by simp

lemma list_lim: "length (rlp_enc (RList ts)) < rlp_limit \<Longrightarrow> t \<in> set ts \<Longrightarrow> length (rlp_enc t) < rlp_limit"
  using length_rlp_enc_list [of ts] length_rlp_enc_mem [of t ts] by simp

end
