(* ===== verification/Cfx_Transaction.thy ===== *)
theory Cfx_Transaction
  imports User_Address Rlp_Trees
begin

text \<open>
  \<^verbatim>\<open>libcfxcore/TransactionBase\<close>: building, encoding, hashing and signing a transaction.  The
  members declared \<open>mutable\<close> are part of the state, so that \<open>sha3\<close> and \<open>sender\<close> return it.  Text
  thrown with \<open>throw\<close> is a constructor of \<open>tx_error\<close>; reading an empty \<open>m_vrs\<close> is \<open>NoSignature\<close>.
\<close>

datatype tx_error =
    SecretIsEmpty | TransactionIsUnsigned | InvalidSignature | NoSignature
  | TxRlp rlp_error | TxAddress addr_error

datatype IncludeSignature = WithoutSignature | WithSignature

datatype tx_type = NullTransaction | ContractCreation | MessageCall

definition map_error :: "('e \<Rightarrow> 'f) \<Rightarrow> 'e + 'a \<Rightarrow> 'f + 'a" where
  "map_error f m = (case m of Inl e \<Rightarrow> Inl (f e) | Inr x \<Rightarrow> Inr x)"

record TransactionBase =
  m_from :: FixedHash
  m_storageLimit :: u256
  m_epochHeight :: u256
  m_chainId :: u256
  m_vrs :: "SignatureStruct option"
  m_nonce :: u256
  m_value :: u256
  m_receiveAddress :: FixedHash
  m_cfx_receiveAddress :: Address
  m_gasPrice :: u256
  m_gas :: u256
  m_data :: bytes
  m_sender :: "FixedHash option"
  m_hashWith :: FixedHash
  m_type :: tx_type
  m_secret :: FixedHash

section \<open>Construction\<close>

definition Invalid256 :: u256 where
  "Invalid256 = 0xffffffffffffffffffffffffffffffffffffffffffffffffffffffffffffffff"

definition MaxAddress :: FixedHash where
  "MaxAddress = replicate 20 0xff"

definition TransactionBase_null :: "tx_error + TransactionBase" where
  "TransactionBase_null =
     bind_res (map_error TxAddress TestnetNullAddress) (\<lambda>a. Inr
       \<lparr>m_from = hash_zero 20, m_storageLimit = Invalid256, m_epochHeight = Invalid256,
        m_chainId = Invalid256, m_vrs = None, m_nonce = Invalid256, m_value = 0,
        m_receiveAddress = hash_zero 20, m_cfx_receiveAddress = a, m_gasPrice = Invalid256,
        m_gas = Invalid256, m_data = [], m_sender = None, m_hashWith = hash_zero 32,
        m_type = NullTransaction, m_secret = hash_zero 32\<rparr>)"

definition TransactionBase_call :: "Address \<Rightarrow> u256 \<Rightarrow> FixedHash \<Rightarrow> tx_error + TransactionBase" where
  "TransactionBase_call dest v secret =
     bind_res (map_error TxAddress (toEthCommonAddr dest)) (\<lambda>e. Inr
       \<lparr>m_from = hash_zero 20, m_storageLimit = Invalid256, m_epochHeight = Invalid256,
        m_chainId = Invalid256, m_vrs = None, m_nonce = Invalid256, m_value = v,
        m_receiveAddress = e, m_cfx_receiveAddress = dest, m_gasPrice = Invalid256,
        m_gas = Invalid256, m_data = [], m_sender = None, m_hashWith = hash_zero 32,
        m_type = MessageCall, m_secret = secret\<rparr>)"

definition TransactionBase_create :: "bytes \<Rightarrow> FixedHash \<Rightarrow> tx_error + TransactionBase" where
  "TransactionBase_create d secret =
     bind_res (map_error TxAddress TestnetNullAddress) (\<lambda>a. Inr
       \<lparr>m_from = hash_zero 20, m_storageLimit = Invalid256, m_epochHeight = Invalid256,
        m_chainId = Invalid256, m_vrs = None, m_nonce = Invalid256, m_value = 0,
        m_receiveAddress = hash_zero 20, m_cfx_receiveAddress = a, m_gasPrice = Invalid256,
        m_gas = Invalid256, m_data = d, m_sender = None, m_hashWith = hash_zero 32,
        m_type = ContractCreation, m_secret = secret\<rparr>)"

definition withReceive :: "Address \<Rightarrow> TransactionBase \<Rightarrow> TransactionBase" where
  "withReceive addr tx = tx\<lparr>m_cfx_receiveAddress := addr\<rparr>"

definition withTo :: "Address \<Rightarrow> TransactionBase \<Rightarrow> TransactionBase" where
  "withTo addr tx = tx\<lparr>m_cfx_receiveAddress := addr\<rparr>"

definition withNonce :: "u256 \<Rightarrow> TransactionBase \<Rightarrow> TransactionBase" where
  "withNonce v tx = tx\<lparr>m_nonce := v\<rparr>"

definition withChainId :: "u256 \<Rightarrow> TransactionBase \<Rightarrow> TransactionBase" where
  "withChainId v tx = tx\<lparr>m_chainId := v\<rparr>"

definition withGasPrice :: "u256 \<Rightarrow> TransactionBase \<Rightarrow> TransactionBase" where
  "withGasPrice v tx = tx\<lparr>m_gasPrice := v\<rparr>"

definition withEpochHeight :: "u256 \<Rightarrow> TransactionBase \<Rightarrow> TransactionBase" where
  "withEpochHeight v tx = tx\<lparr>m_epochHeight := v\<rparr>"

definition withGas :: "u256 \<Rightarrow> TransactionBase \<Rightarrow> TransactionBase" where
  "withGas v tx = tx\<lparr>m_gas := v\<rparr>"

definition withStorageLimit :: "u256 \<Rightarrow> TransactionBase \<Rightarrow> TransactionBase" where
  "withStorageLimit v tx = tx\<lparr>m_storageLimit := v\<rparr>"

definition withValue :: "u256 \<Rightarrow> TransactionBase \<Rightarrow> TransactionBase" where
  "withValue v tx = tx\<lparr>m_value := v\<rparr>"

definition withData :: "bytes \<Rightarrow> TransactionBase \<Rightarrow> TransactionBase" where
  "withData d tx = tx\<lparr>m_data := d\<rparr>"

definition withSecret :: "FixedHash \<Rightarrow> TransactionBase \<Rightarrow> TransactionBase" where
  "withSecret s tx = tx\<lparr>m_secret := s\<rparr>"

definition isCreation :: "TransactionBase \<Rightarrow> bool" where
  "isCreation tx = (m_type tx = ContractCreation)"

definition isZeroSignature :: "u256 \<Rightarrow> u256 \<Rightarrow> bool" where
  "isZeroSignature r s = (r = 0 \<and> s = 0)"

definition hasZeroSignature :: "TransactionBase \<Rightarrow> bool" where
  "hasZeroSignature tx =
     (case m_vrs tx of None \<Rightarrow> False
      | Some vrs \<Rightarrow> isZeroSignature (hash_to_arith (sig_r vrs)) (hash_to_arith (sig_s vrs)))"

section \<open>Encoding, hash and signature\<close>

definition stream_body :: "TransactionBase \<Rightarrow> RLPStream \<Rightarrow> rlp_error + RLPStream" where
  "stream_body tx s =
     bind_res (appendList 9 s) (\<lambda>s.
     bind_res (append_word (m_nonce tx) s) (\<lambda>s.
     bind_res (append_word (m_gasPrice tx) s) (\<lambda>s.
     bind_res (append_word (m_gas tx) s) (\<lambda>s.
     bind_res (if m_type tx = MessageCall then append_hash (m_receiveAddress tx) False False s
               else append_string [] s) (\<lambda>s.
     bind_res (append_word (m_value tx) s) (\<lambda>s.
     bind_res (append_word (m_storageLimit tx) s) (\<lambda>s.
     bind_res (append_word (m_epochHeight tx) s) (\<lambda>s.
     bind_res (append_word (m_chainId tx) s) (\<lambda>s.
       if m_data tx = [] then append_string [] s else append_bytes (m_data tx) False s)))))))))"

definition streamRLP :: "TransactionBase \<Rightarrow> RLPStream \<Rightarrow> IncludeSignature \<Rightarrow> tx_error + RLPStream" where
  "streamRLP tx s sig =
     bind_res (if sig = WithSignature then map_error TxRlp (appendList 4 s) else Inr s) (\<lambda>s.
     bind_res (map_error TxRlp (stream_body tx s)) (\<lambda>s.
       if sig = WithSignature then
         (case m_vrs tx of None \<Rightarrow> Inl NoSignature
          | Some vrs \<Rightarrow> map_error TxRlp
              (bind_res (append_word (sig_v vrs) s) (\<lambda>s.
               bind_res (append_word (hash_to_arith (sig_r vrs) :: u256) s) (\<lambda>s.
               append_word (hash_to_arith (sig_s vrs) :: u256) s))))
       else Inr s))"

definition tx_sha3 :: "crypto \<Rightarrow> IncludeSignature \<Rightarrow> TransactionBase \<Rightarrow> tx_error + (FixedHash \<times> TransactionBase)" where
  "tx_sha3 C sig tx =
     (if sig = WithSignature \<and> hash_bool (m_hashWith tx) then Inr (m_hashWith tx, tx)
      else bind_res (streamRLP tx RLPStream_empty sig) (\<lambda>s.
           bind_res (map_error TxRlp (stream_out s)) (\<lambda>out.
             let ret = keccak256 C out in
             Inr (ret, if sig = WithSignature then tx\<lparr>m_hashWith := ret\<rparr> else tx))))"

definition tx_sign :: "crypto \<Rightarrow> FixedHash \<Rightarrow> TransactionBase \<Rightarrow> tx_error + TransactionBase" where
  "tx_sign C priv tx =
     bind_res (tx_sha3 C WithoutSignature tx) (\<lambda>(h, tx).
       let sigStruct = SignatureStruct_of (sign C priv h) in
       Inr (if isValid sigStruct then tx\<lparr>m_vrs := Some sigStruct\<rparr> else tx))"

definition SignTransaction :: "crypto \<Rightarrow> TransactionBase \<Rightarrow> tx_error + (bytes \<times> TransactionBase)" where
  "SignTransaction C tx =
     (if \<not> hash_bool (m_secret tx) then Inl SecretIsEmpty
      else bind_res (tx_sign C (m_secret tx) tx) (\<lambda>tx.
           bind_res (streamRLP tx RLPStream_empty WithSignature) (\<lambda>rlp.
           bind_res (map_error TxRlp (stream_out rlp)) (\<lambda>out. Inr (out, tx)))))"

definition SignTransactionWithSecret :: "crypto \<Rightarrow> FixedHash \<Rightarrow> TransactionBase \<Rightarrow> tx_error + (bytes \<times> TransactionBase)" where
  "SignTransactionWithSecret C secret tx = SignTransaction C (tx\<lparr>m_secret := secret\<rparr>)"

definition sender :: "crypto \<Rightarrow> TransactionBase \<Rightarrow> tx_error + (FixedHash \<times> TransactionBase)" where
  "sender C tx =
     (case m_sender tx of
        Some a \<Rightarrow> Inr (a, tx)
      | None \<Rightarrow>
          if hasZeroSignature tx then Inr (MaxAddress, tx\<lparr>m_sender := Some MaxAddress\<rparr>)
          else (case m_vrs tx of
                  None \<Rightarrow> Inl TransactionIsUnsigned
                | Some vrs \<Rightarrow>
                    bind_res (tx_sha3 C WithoutSignature tx) (\<lambda>(h, tx).
                      let p = recover C (Signature_of vrs) h in
                      if \<not> hash_bool p then Inl InvalidSignature
                      else (let a = right160 (keccak256 C p) in Inr (a, tx\<lparr>m_sender := Some a\<rparr>)))))"

definition cfx_sender :: "crypto \<Rightarrow> u32 \<Rightarrow> TransactionBase \<Rightarrow> tx_error + (Address \<times> TransactionBase)" where
  "cfx_sender C i tx =
     bind_res (sender C tx) (\<lambda>(ethAddr, tx).
     bind_res (map_error TxAddress (getCfxUserAddress ethAddr i)) (\<lambda>a. Inr (a, tx)))"

section \<open>The encoding as a tree\<close>

text \<open>
  The specification: a transaction is the list of its nine fields, numbers without leading zeros,
  and a signed one the list of this list and the three parts of the signature.
\<close>

definition tx_tree :: "TransactionBase \<Rightarrow> rlp" where
  "tx_tree tx = RList
     [rlp_num (unat (m_nonce tx)), rlp_num (unat (m_gasPrice tx)), rlp_num (unat (m_gas tx)),
      RStr (if m_type tx = MessageCall then m_receiveAddress tx else []),
      rlp_num (unat (m_value tx)), rlp_num (unat (m_storageLimit tx)), rlp_num (unat (m_epochHeight tx)),
      rlp_num (unat (m_chainId tx)), RStr (m_data tx)]"

definition signed_tree :: "TransactionBase \<Rightarrow> SignatureStruct \<Rightarrow> rlp" where
  "signed_tree tx vrs = RList
     [tx_tree tx, rlp_num (unat (sig_v vrs)), rlp_num (unat (hash_to_arith (sig_r vrs) :: u256)),
      rlp_num (unat (hash_to_arith (sig_s vrs) :: u256))]"

lemma map_error_simps [simp]:
  "map_error f (Inr x) = Inr x" "map_error f (Inl e) = Inl (f e)"
  by (simp_all add: map_error_def)

lemma map_error_bind: "map_error f (bind_res m g) = bind_res (map_error f m) (\<lambda>x. map_error f (g x))"
  by (cases m) simp_all

lemma stream_body_tree: "stream_body tx s = write_rlp (tx_tree tx) s"
proof -
  have addr: "(if m_type tx = MessageCall then append_hash (m_receiveAddress tx) False False s
      else append_string [] s) = write_rlp (RStr (if m_type tx = MessageCall then m_receiveAddress tx else [])) s" for s
    by (simp add: append_hash_def append_string_def asBytes_def)
  have data: "(if m_data tx = [] then append_string [] s else append_bytes (m_data tx) False s)
      = write_rlp (RStr (m_data tx)) s" for s
    by (simp add: append_string_def asBytes_def)
  show ?thesis
    unfolding stream_body_def tx_tree_def addr data append_word_tree [OF bytes_u256] write_list write_rlps_fun bind_res_return
    by (simp add: eval_nat_numeral)
qed

lemma streamRLP_without: "streamRLP tx s WithoutSignature = map_error TxRlp (write_rlp (tx_tree tx) s)"
  by (simp add: streamRLP_def stream_body_tree)

lemma streamRLP_with:
  assumes "m_vrs tx = Some vrs"
  shows "streamRLP tx s WithSignature = map_error TxRlp (write_rlp (signed_tree tx vrs) s)"
proof -
  have v: "append_word (sig_v vrs) r = write_rlp (rlp_num (unat (sig_v vrs))) r" for r
    by (rule append_word_tree) (use bytes_byte [of "sig_v vrs"] in simp)
  show ?thesis
    unfolding streamRLP_def stream_body_tree append_word_tree [OF bytes_u256] v signed_tree_def write_list write_rlps_fun bind_res_return
    by (simp add: assms map_error_bind v eval_nat_numeral)
qed

section \<open>Sizes\<close>

definition tx_sized :: "TransactionBase \<Rightarrow> bool" where
  "tx_sized tx \<longleftrightarrow> length (m_receiveAddress tx) = 20 \<and> length (m_data tx) < 2 ^ 60"

lemma length_tx_tree:
  assumes "tx_sized tx" shows "length (rlp_enc (tx_tree tx)) \<le> length (m_data tx) + 400"
proof -
  let ?a = "if m_type tx = MessageCall then m_receiveAddress tx else []"
  have n: "length (rlp_enc (rlp_num (unat v))) \<le> 41" for v :: u256 by (rule length_num_le [OF bytes_u256])
  have "length ?a \<le> 20" using assms by (simp add: tx_sized_def)
  then have a: "length (rlp_enc (RStr ?a)) \<le> 29"
    unfolding rlp_enc.simps(1) using order.trans [OF length_enc_str_le [of ?a], of 29] by simp
  have d: "length (rlp_enc (RStr (m_data tx))) \<le> length (m_data tx) + 9"
    using length_enc_str_le [of "m_data tx"] assms by (simp add: tx_sized_def)
  let ?ts = "[rlp_num (unat (m_nonce tx)), rlp_num (unat (m_gasPrice tx)), rlp_num (unat (m_gas tx)),
      RStr ?a, rlp_num (unat (m_value tx)), rlp_num (unat (m_storageLimit tx)), rlp_num (unat (m_epochHeight tx)),
      rlp_num (unat (m_chainId tx)), RStr (m_data tx)]"
  define pl where "pl = concat (map rlp_enc ?ts)"
  have le: "length pl \<le> 7 * 41 + 29 + (length (m_data tx) + 9)"
    using n [of "m_nonce tx"] n [of "m_gasPrice tx"] n [of "m_gas tx"] n [of "m_value tx"] n [of "m_storageLimit tx"]
      n [of "m_epochHeight tx"] n [of "m_chainId tx"] a d
    unfolding pl_def concat.simps list.map length_append by simp
  then have "length (enc_list pl) \<le> length pl + 9"
    using assms by (intro length_enc_list_le) (simp add: tx_sized_def)
  moreover have "rlp_enc (tx_tree tx) = enc_list pl"
    unfolding tx_tree_def rlp_enc.simps(2) pl_def ..
  ultimately show ?thesis using le by simp
qed

lemma length_signed_tree:
  assumes "tx_sized tx" shows "length (rlp_enc (signed_tree tx vrs)) < 2 ^ 64"
proof -
  let ?ts = "[tx_tree tx, rlp_num (unat (sig_v vrs)), rlp_num (unat (hash_to_arith (sig_r vrs) :: u256)),
      rlp_num (unat (hash_to_arith (sig_s vrs) :: u256))]"
  have "length (rlp_enc (rlp_num (unat v))) \<le> 41" for v :: u256 by (rule length_num_le [OF bytes_u256])
  from this [of "hash_to_arith (sig_r vrs)"] this [of "hash_to_arith (sig_s vrs)"]
  have le: "length (concat (map rlp_enc ?ts)) \<le> length (m_data tx) + 523"
    using length_num_le [of "unat (sig_v vrs)"] bytes_byte [of "sig_v vrs"] length_tx_tree [OF assms]
    unfolding concat.simps list.map length_append by simp
  then have "length (concat (map rlp_enc ?ts)) < 2 ^ 64" using assms by (simp add: tx_sized_def)
  then have "length (enc_list (concat (map rlp_enc ?ts))) \<le> length (concat (map rlp_enc ?ts)) + 9"
    by (rule length_enc_list_le)
  moreover have "rlp_enc (signed_tree tx vrs) = enc_list (concat (map rlp_enc ?ts))"
    unfolding signed_tree_def rlp_enc.simps(2) ..
  ultimately show ?thesis using le assms by (simp add: tx_sized_def)
qed

lemma tx_sha3_unsigned:
  assumes "tx_sized tx"
  shows "tx_sha3 C WithoutSignature tx = Inr (keccak256 C (rlp_enc (tx_tree tx)), tx)"
proof -
  have "length (rlp_enc (tx_tree tx)) < 2 ^ 64"
    using length_tx_tree [OF assms] assms by (simp add: tx_sized_def)
  from tree_out [OF this] show ?thesis by (auto simp: tx_sha3_def streamRLP_without)
qed

section \<open>Signing\<close>

lemma tx_tree_upd [simp]:
  "tx_tree (tx\<lparr>m_secret := k\<rparr>) = tx_tree tx" "tx_tree (tx\<lparr>m_vrs := w\<rparr>) = tx_tree tx"
  "tx_tree (tx\<lparr>m_cfx_receiveAddress := a\<rparr>) = tx_tree tx"
  by (simp_all add: tx_tree_def)

lemma signed_tree_upd [simp]:
  "signed_tree (tx\<lparr>m_secret := k\<rparr>) = signed_tree tx" "signed_tree (tx\<lparr>m_vrs := w\<rparr>) = signed_tree tx"
  "signed_tree (tx\<lparr>m_cfx_receiveAddress := a\<rparr>) = signed_tree tx"
  by (simp_all add: signed_tree_def fun_eq_iff)

lemma tx_sized_upd [simp]:
  "tx_sized (tx\<lparr>m_secret := k\<rparr>) = tx_sized tx" "tx_sized (tx\<lparr>m_vrs := w\<rparr>) = tx_sized tx"
  "tx_sized (tx\<lparr>m_cfx_receiveAddress := a\<rparr>) = tx_sized tx"
  by (simp_all add: tx_sized_def)

definition tx_signature :: "crypto \<Rightarrow> FixedHash \<Rightarrow> TransactionBase \<Rightarrow> FixedHash" where
  "tx_signature C k tx = sign C k (keccak256 C (rlp_enc (tx_tree tx)))"

lemma tx_signature_upd [simp]:
  "tx_signature C k (tx\<lparr>m_secret := j\<rparr>) = tx_signature C k tx" "tx_signature C k (tx\<lparr>m_vrs := w\<rparr>) = tx_signature C k tx"
  "tx_signature C k (tx\<lparr>m_cfx_receiveAddress := a\<rparr>) = tx_signature C k tx"
  by (simp_all add: tx_signature_def)

text \<open>
  The signature that the transaction holds after signing: the new one if its recovery identifier is
  at most 1, and otherwise the one it held before, if there was one.
\<close>

definition held_signature :: "crypto \<Rightarrow> FixedHash \<Rightarrow> TransactionBase \<Rightarrow> SignatureStruct option" where
  "held_signature C k tx =
     (if sig_v (SignatureStruct_of (tx_signature C k tx)) \<le> 1 then Some (SignatureStruct_of (tx_signature C k tx))
      else m_vrs tx)"

lemma streamRLP_none:
  assumes "tx_sized tx" "m_vrs tx = None"
  shows "streamRLP tx RLPStream_empty WithSignature = Inl NoSignature"
proof -
  let ?vrs = "SignatureStruct_of []" and ?tx = "tx\<lparr>m_vrs := Some (SignatureStruct_of [])\<rparr>"
  obtain s where "write_rlp (signed_tree tx ?vrs) RLPStream_empty = Inr s"
    using tree_out [OF length_signed_tree [OF assms(1)]] by blast
  then have "streamRLP ?tx RLPStream_empty WithSignature = Inr s"
    using streamRLP_with [of ?tx ?vrs RLPStream_empty] by simp
  moreover have "stream_body ?tx = stream_body tx" by (simp add: fun_eq_iff stream_body_tree)
  ultimately show ?thesis
    using assms(2) by (auto simp: streamRLP_def bind_res_eq_Inr)
qed

lemma streamRLP_some:
  assumes "tx_sized tx" "m_vrs tx = Some vrs"
  shows "\<exists>s. streamRLP tx RLPStream_empty WithSignature = Inr s \<and> stream_out s = Inr (rlp_enc (signed_tree tx vrs))"
  using tree_out [OF length_signed_tree [OF assms(1), of vrs]] streamRLP_with [OF assms(2)] by auto

lemma SignTransactionWithSecret_eq:
  assumes "crypto_ok C" "ec_pubkey C k = Some p" "hash_bool k" "tx_sized tx"
  shows "SignTransactionWithSecret C k tx =
    (case held_signature C k tx of None \<Rightarrow> Inl NoSignature
     | Some vrs \<Rightarrow> Inr (rlp_enc (signed_tree tx vrs), tx\<lparr>m_secret := k, m_vrs := Some vrs\<rparr>))"
proof -
  let ?tx = "tx\<lparr>m_secret := k, m_vrs := held_signature C k tx\<rparr>"
  have sign: "tx_sign C k (tx\<lparr>m_secret := k\<rparr>) = Inr ?tx"
    using tx_sha3_unsigned [of "tx\<lparr>m_secret := k\<rparr>" C] isValid_sign [OF assms(1,2)] assms(4)
    by (simp add: tx_sign_def held_signature_def tx_signature_def Let_def)
  show ?thesis
  proof (cases "held_signature C k tx")
    case None
    then show ?thesis
      using assms(3,4) sign streamRLP_none [of ?tx]
      by (simp add: SignTransactionWithSecret_def SignTransaction_def)
  next
    case (Some vrs)
    then show ?thesis
      using assms(3,4) sign streamRLP_some [of ?tx vrs]
      by (auto simp: SignTransactionWithSecret_def SignTransaction_def)
  qed
qed

lemma Signature_of_struct: "length g = 65 \<Longrightarrow> Signature_of (SignatureStruct_of g) = g"
proof -
  assume g: "length g = 65"
  have "take 32 g @ take 32 (drop 32 g) @ drop 64 g = g"
    using append_take_drop_id [of 32 g] append_take_drop_id [of 32 "drop 32 g"] by simp
  moreover have "drop 64 g = [g ! 64]" using g Cons_nth_drop_Suc [of 64 g] by simp
  ultimately show ?thesis by (simp add: Signature_of_def SignatureStruct_of_def)
qed

lemma sig_r_nonzero:
  assumes "isValid vrs" "length (sig_r vrs) = 32" "length (sig_s vrs) = 32"
  shows "(hash_to_arith (sig_r vrs) :: u256) \<noteq> 0"
proof -
  have r: "0 < be_nat (sig_r vrs)" "be_nat (sig_r vrs) < secp256k1n"
    using assms isValid_iff by blast+
  then have "unat (hash_to_arith (sig_r vrs) :: u256) = be_nat (sig_r vrs)"
    using secp_bound by (simp add: hash_to_arith_def fromBigEndian_word unat_of_nat)
  then show ?thesis using r(1) by (metis less_not_refl unat_0)
qed

lemma sender_signed:
  assumes "crypto_ok C" "ec_pubkey C k = Some p" "tx_sized tx" "m_sender tx = None"
    and "m_vrs tx = Some (SignatureStruct_of (tx_signature C k tx))"
    and "sig_v (SignatureStruct_of (tx_signature C k tx)) \<le> 1"
  shows "sender C tx = Inr (toAddress_secret C k, tx\<lparr>m_sender := Some (toAddress_secret C k)\<rparr>)"
proof -
  let ?g = "tx_signature C k tx" and ?h = "keccak256 C (rlp_enc (tx_tree tx))"
  have len: "length ?g = 65" using length_sign [OF assms(1)] by (simp add: tx_signature_def)
  have v: "isValid (SignatureStruct_of ?g)" using isValid_sign [OF assms(1,2)] assms(6) by (simp add: tx_signature_def)
  have "(hash_to_arith (sig_r (SignatureStruct_of ?g)) :: u256) \<noteq> 0"
    using sig_r_nonzero [OF v] len by (simp add: SignatureStruct_of_def)
  then have z: "\<not> hasZeroSignature tx" by (simp add: hasZeroSignature_def assms(5) isZeroSignature_def)
  have "recover C ?g ?h = drop 1 p" using recover_sign [OF assms(1,2)] by (simp add: tx_signature_def)
  moreover have "hash_bool (drop 1 p)" using assms(1,2) unfolding crypto_ok_def by blast
  moreover have "toAddress_secret C k = right160 (keccak256 C (drop 1 p))"
    using assms(2) by (simp add: toAddress_secret_def toPublic_def toAddress_public_def)
  ultimately show ?thesis
    using z tx_sha3_unsigned [OF assms(3), of C] Signature_of_struct [OF len]
    by (simp add: sender_def assms(4,5) Let_def)
qed

lemma signature_verifies:
  fixes tx :: TransactionBase
  assumes "crypto_ok C" "ec_pubkey C k = Some p"
  defines "vrs \<equiv> SignatureStruct_of (tx_signature C k tx)"
  shows "isValid vrs \<longleftrightarrow> sig_v vrs \<le> 1" "verify C (toPublic C k) (Signature_of vrs) (keccak256 C (rlp_enc (tx_tree tx)))"
proof -
  let ?g = "tx_signature C k tx"
  have len: "length ?g = 65" using length_sign [OF assms(1)] by (simp add: tx_signature_def)
  show "isValid vrs \<longleftrightarrow> sig_v vrs \<le> 1" using isValid_sign [OF assms(1,2)] by (simp add: vrs_def tx_signature_def)
  have "recover C ?g (keccak256 C (rlp_enc (tx_tree tx))) = drop 1 p" "hash_bool (drop 1 p)"
    using recover_sign [OF assms(1,2)] assms(1,2) unfolding crypto_ok_def
    by (simp add: tx_signature_def, blast)
  then show "verify C (toPublic C k) (Signature_of vrs) (keccak256 C (rlp_enc (tx_tree tx)))"
    using assms(2) Signature_of_struct [OF len] by (simp add: vrs_def verify_def toPublic_def hash_eq_def)
qed

section \<open>Properties\<close>

text \<open>
  C3: signing, for a usable secret and whatever recovery identifier (0 to 3) the curve library
  chooses.  The new signature verifies against the public key of the secret and the hash of the nine
  fields.  If its identifier is at most 1 it is valid, \<open>SignTransactionWithSecret\<close> returns the
  encoding of the list of the nine fields and the signature, and the signed transaction names as its
  sender the address of the secret, or the address cached in \<open>m_sender\<close> if there is one.  If the
  identifier is 2 or 3 the signature is not valid and is dropped: the transaction goes out with the
  signature it held before, and without one the absent signature is read.
\<close>

theorem signed_transaction:
  assumes "crypto_ok C" "ec_pubkey C k = Some p" "hash_bool k" and "tx_sized tx"
  shows "\<exists>vrs. vrs = SignatureStruct_of (sign C k (keccak256 C (rlp_enc (tx_tree tx)))) \<and>
    verify C (toPublic C k) (Signature_of vrs) (keccak256 C (rlp_enc (tx_tree tx))) \<and>
    (if sig_v vrs \<le> 1
     then isValid vrs \<and>
       SignTransactionWithSecret C k tx
         = Inr (rlp_enc (signed_tree tx vrs), tx\<lparr>m_secret := k, m_vrs := Some vrs\<rparr>) \<and>
       (\<exists>tx'. sender C (tx\<lparr>m_secret := k, m_vrs := Some vrs\<rparr>)
         = Inr (case m_sender tx of None \<Rightarrow> toAddress_secret C k | Some a \<Rightarrow> a, tx'))
     else \<not> isValid vrs \<and>
       SignTransactionWithSecret C k tx =
         (case m_vrs tx of None \<Rightarrow> Inl NoSignature
          | Some old \<Rightarrow> Inr (rlp_enc (signed_tree tx old), tx\<lparr>m_secret := k\<rparr>)))"
proof -
  define vrs where "vrs = SignatureStruct_of (tx_signature C k tx)"
  let ?tx = "tx\<lparr>m_secret := k, m_vrs := Some vrs\<rparr>"
  note sv = signature_verifies [OF assms(1,2), of tx, folded vrs_def]
  have low: "\<exists>tx'. sender C ?tx = Inr (case m_sender tx of None \<Rightarrow> toAddress_secret C k | Some a \<Rightarrow> a, tx')"
    if "sig_v vrs \<le> 1"
  proof (cases "m_sender tx")
    case None
    then show ?thesis using sender_signed [OF assms(1,2), of ?tx] assms(4) that by (simp add: vrs_def)
  qed (simp add: sender_def)
  have old: "tx\<lparr>m_secret := k, m_vrs := m_vrs tx\<rparr> = tx\<lparr>m_secret := k\<rparr>" by simp
  show ?thesis
    using sv low SignTransactionWithSecret_eq [OF assms]
    by (intro exI [of _ vrs]) (auto simp: held_signature_def tx_signature_def vrs_def split: option.split)
qed

definition demo_tx :: TransactionBase where
  "demo_tx =
     \<lparr>m_from = hash_zero 20, m_storageLimit = 0, m_epochHeight = 9, m_chainId = 1, m_vrs = None, m_nonce = 7,
      m_value = 1000, m_receiveAddress = replicate 20 0x1a, m_cfx_receiveAddress = Address_init 1,
      m_gasPrice = 1, m_gas = 21000, m_data = [], m_sender = None, m_hashWith = hash_zero 32,
      m_type = MessageCall, m_secret = hash_zero 32\<rparr>"

lemma demo_secret:
  "ec_pubkey demo_crypto (nat_be 32 5) = Some (4 # nat_be 32 5 @ nat_be 32 5)" "hash_bool (nat_be 32 5)"
  by (simp_all add: demo_crypto_def Let_def secp256k1n_def hash_bool_be_nat)

lemma demo_v: "sig_v (SignatureStruct_of (sign demo_crypto (nat_be 32 5) h)) = 0"
proof -
  have "ec_sign demo_crypto h (nat_be 32 5) = Some (nat_be 32 5 @ nat_be 32 1, 0)"
    by (simp add: demo_crypto_def Let_def secp256k1n_def)
  from sign_lower [OF demo_crypto_ok this] show ?thesis by (simp add: SignatureStruct_of_def nth_append)
qed

lemma demo_tx_sized: "tx_sized demo_tx"
  by (simp add: demo_tx_def tx_sized_def)

theorem signed_transaction_witness:
  "\<exists>vrs. isValid vrs \<and> verify demo_crypto (toPublic demo_crypto (nat_be 32 5)) (Signature_of vrs)
      (keccak256 demo_crypto (rlp_enc (tx_tree demo_tx))) \<and>
    SignTransactionWithSecret demo_crypto (nat_be 32 5) demo_tx
      = Inr (rlp_enc (signed_tree demo_tx vrs), demo_tx\<lparr>m_secret := nat_be 32 5, m_vrs := Some vrs\<rparr>) \<and>
    (\<exists>tx'. sender demo_crypto (demo_tx\<lparr>m_secret := nat_be 32 5, m_vrs := Some vrs\<rparr>)
      = Inr (toAddress_secret demo_crypto (nat_be 32 5), tx'))"
proof -
  have "m_sender demo_tx = None" by (simp add: demo_tx_def)
  then show ?thesis
    using signed_transaction [OF demo_crypto_ok demo_secret demo_tx_sized] demo_v by fastforce
qed

text \<open>
  \<open>withTo\<close> does not change the recipient.  It sets the member that \<open>to_cfx\<close> returns and not the
  one that is encoded, so the transaction signed afterwards is byte for byte the one without the call.
\<close>

theorem withTo_not_signed:
  assumes "crypto_ok C" "ec_pubkey C k = Some p" "hash_bool k" "tx_sized tx"
    and "held_signature C k tx = Some vrs"
  shows "\<exists>raw tx1 tx2. SignTransactionWithSecret C k tx = Inr (raw, tx1) \<and>
    SignTransactionWithSecret C k (withTo addr tx) = Inr (raw, tx2) \<and> m_cfx_receiveAddress tx2 = addr"
proof -
  have "held_signature C k (withTo addr tx) = Some vrs" "tx_sized (withTo addr tx)"
    using assms(4,5) by (auto simp: withTo_def held_signature_def split: if_splits)
  then show ?thesis
    using SignTransactionWithSecret_eq [OF assms(1-4)] SignTransactionWithSecret_eq [OF assms(1-3), of "withTo addr tx"] assms(5)
    by (simp add: withTo_def)
qed

theorem withTo_not_signed_witness:
  "\<exists>raw tx1 tx2. SignTransactionWithSecret demo_crypto (nat_be 32 5) demo_tx = Inr (raw, tx1) \<and>
    SignTransactionWithSecret demo_crypto (nat_be 32 5) (withTo (Address_init 1029) demo_tx) = Inr (raw, tx2) \<and>
    m_cfx_receiveAddress tx2 = Address_init 1029"
  by (rule withTo_not_signed [OF demo_crypto_ok demo_secret demo_tx_sized])
    (simp add: held_signature_def tx_signature_def demo_v)

text \<open>
  The caches go stale.  Once \<open>sha3\<close> has been asked for the hash of the signed transaction, and
  \<open>sender\<close> for its sender, both keep their answers: changing the nonce does not change the hash, and
  a new signature with another secret does not change the sender.
\<close>

theorem caches_go_stale:
  assumes "tx_sha3 C WithSignature tx = Inr (h, tx1)" "hash_bool h"
    and "sender C tx1 = Inr (a, tx2)"
    and "crypto_ok C" "ec_pubkey C k = Some p" "hash_bool k" "tx_sized tx2"
    and "held_signature C k (withNonce n tx2) = Some vrs"
  shows "\<exists>raw tx3. SignTransactionWithSecret C k (withNonce n tx2) = Inr (raw, tx3) \<and>
    sender C tx3 = Inr (a, tx3) \<and> tx_sha3 C WithSignature tx3 = Inr (h, tx3)"
proof -
  have "m_hashWith tx1 = h"
    using assms(1,2) by (auto simp: tx_sha3_def Let_def bind_res_eq_Inr split: if_splits)
  moreover have "m_sender tx2 = Some a" "m_hashWith tx2 = m_hashWith tx1"
    using assms(3) by (auto simp: sender_def tx_sha3_def Let_def bind_res_eq_Inr split: if_splits option.splits)
  moreover have "tx_sized (withNonce n tx2)" using assms(7) by (simp add: tx_sized_def withNonce_def)
  ultimately show ?thesis
    using SignTransactionWithSecret_eq [OF assms(4-6), of "withNonce n tx2"] assms(2,8)
    by (simp add: withNonce_def sender_def tx_sha3_def)
qed

theorem caches_go_stale_witness:
  "\<exists>raw tx3. SignTransactionWithSecret demo_crypto (nat_be 32 5)
      (withNonce 8 (demo_tx\<lparr>m_hashWith := replicate 32 1, m_sender := Some (replicate 20 2)\<rparr>)) = Inr (raw, tx3) \<and>
    sender demo_crypto tx3 = Inr (replicate 20 2, tx3) \<and>
    tx_sha3 demo_crypto WithSignature tx3 = Inr (replicate 32 1, tx3)"
  by (rule caches_go_stale [OF _ _ _ demo_crypto_ok demo_secret,
        of "demo_tx\<lparr>m_hashWith := replicate 32 1, m_sender := Some (replicate 20 2)\<rparr>" _
           "demo_tx\<lparr>m_hashWith := replicate 32 1, m_sender := Some (replicate 20 2)\<rparr>"])
    (simp_all add: tx_sha3_def hash_bool_def list_ex_iff sender_def demo_tx_def tx_sized_def held_signature_def
      tx_signature_def demo_v)

end
