(* ===== verification/Bloom_Filter.thy ===== *)
theory Bloom_Filter
  imports User_Address
begin

text \<open>
  \<^verbatim>\<open>libcfxcore/bloom_filter.h\<close>: the log filter of 2048 bits.  The state is the hash \<open>bloom\<close>; the
  abstract filter is the set of the bits that are set.
\<close>

section \<open>The operations\<close>

type_synonym LogBloom = FixedHash

record BloomFilter =
  bloom :: LogBloom

definition BloomFilter_new :: BloomFilter where
  "BloomFilter_new = \<lparr>bloom = hash_zero 256\<rparr>"

definition BloomFilter_of :: "LogBloom \<Rightarrow> BloomFilter" where
  "BloomFilter_of v = \<lparr>bloom = v\<rparr>"

definition Add_hash :: "crypto \<Rightarrow> FixedHash \<Rightarrow> BloomFilter \<Rightarrow> BloomFilter" where
  "Add_hash C h f = f\<lparr>bloom := shiftBloom 3 (bloom f) (keccak256 C h)\<rparr>"

definition Add_string :: "crypto \<Rightarrow> string \<Rightarrow> BloomFilter \<Rightarrow> BloomFilter" where
  "Add_string C str f = f\<lparr>bloom := shiftBloom 3 (bloom f) (keccak256 C (asBytes str))\<rparr>"

definition Add_address :: "crypto \<Rightarrow> Address \<Rightarrow> BloomFilter \<Rightarrow> addr_error + BloomFilter" where
  "Add_address C addr f =
     bind_res (toEthCommonAddr addr) (\<lambda>e. Inr (f\<lparr>bloom := shiftBloom 3 (bloom f) (keccak256 C e)\<rparr>))"

definition Contains_hash :: "crypto \<Rightarrow> FixedHash \<Rightarrow> BloomFilter \<Rightarrow> bool" where
  "Contains_hash C h f = containsBloom 3 (bloom f) (keccak256 C h)"

definition Contains_string :: "crypto \<Rightarrow> string \<Rightarrow> BloomFilter \<Rightarrow> bool" where
  "Contains_string C str f = containsBloom 3 (bloom f) (keccak256 C (asBytes str))"

definition Contains_address :: "crypto \<Rightarrow> Address \<Rightarrow> BloomFilter \<Rightarrow> addr_error + bool" where
  "Contains_address C addr f =
     bind_res (toEthCommonAddr addr) (\<lambda>e. Inr (containsBloom 3 (bloom f) (keccak256 C e)))"

definition Contains_bloom :: "LogBloom \<Rightarrow> BloomFilter \<Rightarrow> bool" where
  "Contains_bloom v f = hash_contains (bloom f) v"

definition Contains_filter :: "BloomFilter \<Rightarrow> BloomFilter \<Rightarrow> bool" where
  "Contains_filter v f = hash_contains (bloom f) (bloom v)"

definition SetValue :: "LogBloom \<Rightarrow> BloomFilter \<Rightarrow> BloomFilter" where
  "SetValue v f = f\<lparr>bloom := v\<rparr>"

section \<open>Filters as sets of bits\<close>

text \<open>Bit \<open>i\<close> of a hash, counted from its last byte as \<open>bloomPart\<close> does.\<close>

definition bits :: "FixedHash \<Rightarrow> nat set" where
  "bits h = {i. i < 8 * length h \<and> bit (h ! (length h - 1 - i div 8)) (i mod 8)}"

definition bloom_bits :: "nat \<Rightarrow> nat \<Rightarrow> FixedHash \<Rightarrow> nat set" where
  "bloom_bits P M h =
     (let nb = (StaticLog2 (M * 8) + 7) div 8 in (\<lambda>j. bloom_index (take nb (drop (j * nb) h)) M) ` {..<P})"

lemma bits_zero [simp]: "bits (hash_zero M) = {}"
  by (auto simp: bits_def hash_zero_def)

lemma bit_index: "i < 8 * length h \<Longrightarrow> length h - 1 - i div 8 < length h"
  by (cases h) auto

lemma bits_or: "length a = length b \<Longrightarrow> bits (hash_or a b) = bits a \<union> bits b"
  by (auto simp: bits_def hash_or_def bit_index bit_or_iff)

lemma byte_and_eq: "a AND b = b \<longleftrightarrow> (\<forall>n < 8. bit b n \<longrightarrow> bit a n)" for a b :: byte
  by (auto simp: bit_eq_iff bit_and_iff dest: bit_imp_le_length)

lemma map2_and_eq: "length a = length b \<Longrightarrow>
    map2 (AND) a b = b \<longleftrightarrow> (\<forall>k < length b. a ! k AND b ! k = (b ! k :: byte))"
  by (auto simp: list_eq_iff_nth_eq)

lemma hash_contains_bits:
  assumes "length a = length b"
  shows "hash_contains a b \<longleftrightarrow> bits b \<subseteq> bits a"
proof -
  have "hash_contains a b \<longleftrightarrow> (\<forall>k < length b. \<forall>n < 8. bit (b ! k) n \<longrightarrow> bit (a ! k) n)"
    using assms by (simp add: hash_contains_def hash_eq_def hash_and_def map2_and_eq byte_and_eq)
  also have "\<dots> \<longleftrightarrow> bits b \<subseteq> bits a"
  proof
    assume r: "\<forall>k < length b. \<forall>n < 8. bit (b ! k) n \<longrightarrow> bit (a ! k) n"
    show "bits b \<subseteq> bits a"
      using r assms bit_index [of _ b] by (auto simp: bits_def)
  next
    assume s: "bits b \<subseteq> bits a"
    show "\<forall>k < length b. \<forall>n < 8. bit (b ! k) n \<longrightarrow> bit (a ! k) n"
    proof (intro allI impI)
      fix k n assume k: "k < length b" "n < 8" "bit (b ! k) n"
      let ?i = "8 * (length b - 1 - k) + n"
      have i: "?i div 8 = length b - 1 - k" "?i mod 8 = n" "?i < 8 * length b"
        using k by auto
      have "length b - 1 - (length b - 1 - k) = k" using k by simp
      then have "?i \<in> bits b" using k i by (simp add: bits_def)
      then have "?i \<in> bits a" using s by blast
      then show "bit (a ! k) n"
        using k i assms \<open>length b - 1 - (length b - 1 - k) = k\<close> by (simp add: bits_def)
    qed
  qed
  finally show ?thesis .
qed

lemma bloom_index_less: "0 < M \<Longrightarrow> 8 * M < 2 ^ 32 \<Longrightarrow> bloom_index p M < 8 * M"
proof -
  assume M: "0 < M" "8 * M < 2 ^ 32"
  let ?m = "of_nat (M * 8 - 1) :: u32"
  have "x AND ?m \<le> ?m" for x by (rule word_and_le1)
  then have "bloom_index p M \<le> unat ?m" unfolding bloom_index_def word_le_nat_alt by blast
  moreover have "unat ?m = M * 8 - 1" unfolding unat_of_nat using M by (intro mod_less) simp
  ultimately show ?thesis using M by simp
qed

lemma bits_update:
  assumes "i < 8 * length h"
  shows "bits (h[length h - 1 - i div 8 := h ! (length h - 1 - i div 8) OR push_bit (i mod 8) 1]) = insert i (bits h)"
proof -
  let ?k = "length h - 1 - i div 8"
  define b where "b = (push_bit (i mod 8) 1 :: byte)"
  have k: "?k < length h" using assms by (rule bit_index)
  have b: "bit b n \<longleftrightarrow> n = i mod 8" for n
    by (auto simp: b_def bit_exp_iff)
  have same: "length h - 1 - j div 8 = ?k \<longleftrightarrow> j div 8 = i div 8" if "j < 8 * length h" for j
    using that assms by auto
  have ij: "j = i \<longleftrightarrow> j div 8 = i div 8 \<and> j mod 8 = i mod 8" for j
    by (metis div_mult_mod_eq)
  show ?thesis
    unfolding b_def [symmetric]
  proof (intro set_eqI)
    fix j
    show "j \<in> bits (h[?k := h ! ?k OR b]) \<longleftrightarrow> j \<in> insert i (bits h)"
    proof (cases "j < 8 * length h")
      case True
      then show ?thesis
        using same [OF True] ij [of j] assms k
        by (cases "j div 8 = i div 8") (auto simp: bits_def bit_or_iff b nth_list_update)
    qed (use assms in \<open>auto simp: bits_def\<close>)
  qed
qed

lemma bits_bloom_loop:
  assumes "0 < M" "8 * M < 2 ^ 32"
  shows "length ret = M \<Longrightarrow> bits (bloom_loop P nb M p ret) =
    bits ret \<union> (\<lambda>j. bloom_index (take nb (drop (j * nb) p)) M) ` {..<P}"
proof (induction P arbitrary: p ret)
  case (Suc P)
  let ?i = "bloom_index (take nb p) M"
  let ?r = "ret[M - 1 - ?i div 8 := ret ! (M - 1 - ?i div 8) OR push_bit (?i mod 8) 1]"
  have "bits ?r = insert ?i (bits ret)"
    using bits_update [of ?i ret] bloom_index_less [OF assms] Suc.prems by simp
  moreover have "bits (bloom_loop P nb M (drop nb p) ?r) =
      bits ?r \<union> (\<lambda>j. bloom_index (take nb (drop (Suc j * nb) p)) M) ` {..<P}"
    using Suc.IH [of ?r "drop nb p"] Suc.prems by (simp add: add.commute)
  ultimately show ?case by (simp add: lessThan_Suc_eq_insert_0 image_image Let_def)
qed simp

lemma bits_bloomPart:
  "0 < M \<Longrightarrow> 8 * M < 2 ^ 32 \<Longrightarrow> bits (bloomPart P M h) = bloom_bits P M h"
  by (simp add: bloomPart_def bloom_bits_def bits_bloom_loop Let_def)

section \<open>The contract of a filter\<close>

text \<open>
  A filter promises that an added item is found, and that adding does not lose items.  What follows
  holds for every sequence of additions.
\<close>

locale membership_filter =
  fixes add :: "'i \<Rightarrow> 'f \<Rightarrow> 'f" and contains :: "'i \<Rightarrow> 'f \<Rightarrow> bool"
  assumes contains_add: "contains x (add x f)"
    and contains_keep: "contains y f \<Longrightarrow> contains y (add x f)"
begin

lemma keep_all: "contains y f \<Longrightarrow> contains y (fold add xs f)"
  by (induction xs arbitrary: f) (simp_all add: contains_keep)

lemma no_false_negative: "y \<in> set xs \<Longrightarrow> contains y (fold add xs f)"
proof (induction xs arbitrary: f)
  case (Cons x xs)
  show ?case
  proof (cases "y = x")
    case True
    then show ?thesis using keep_all [OF contains_add [of x f], of xs] by simp
  next
    case False
    then show ?thesis using Cons by simp
  qed
qed simp

end

interpretation shift: membership_filter "\<lambda>h bl. shiftBloom 3 bl h" "\<lambda>h bl. containsBloom 3 bl h"
  by unfold_locales (auto intro: containsBloom_shift containsBloom_mono)

text \<open>Items of the three kinds \<open>Add\<close> takes; addresses by their bytes.\<close>

datatype bloom_item = HashItem FixedHash | StringItem string

fun Add_item :: "crypto \<Rightarrow> bloom_item \<Rightarrow> BloomFilter \<Rightarrow> BloomFilter" where
  "Add_item C (HashItem h) f = Add_hash C h f"
| "Add_item C (StringItem s) f = Add_string C s f"

fun Contains_item :: "crypto \<Rightarrow> bloom_item \<Rightarrow> BloomFilter \<Rightarrow> bool" where
  "Contains_item C (HashItem h) f = Contains_hash C h f"
| "Contains_item C (StringItem s) f = Contains_string C s f"

fun item_bytes :: "bloom_item \<Rightarrow> bytes" where
  "item_bytes (HashItem h) = h"
| "item_bytes (StringItem s) = asBytes s"

lemma Add_item_eq: "Add_item C x f = f\<lparr>bloom := shiftBloom 3 (bloom f) (keccak256 C (item_bytes x))\<rparr>"
  by (cases x) (simp_all add: Add_hash_def Add_string_def)

lemma Contains_item_eq: "Contains_item C x f = containsBloom 3 (bloom f) (keccak256 C (item_bytes x))"
  by (cases x) (simp_all add: Contains_hash_def Contains_string_def)

interpretation log_bloom: membership_filter "Add_item C" "Contains_item C" for C
  by unfold_locales (auto simp: Add_item_eq Contains_item_eq shift.contains_add shift.contains_keep)

text \<open>An address is added and looked up by its twenty bytes.\<close>

lemma address_items:
  "Add_address C a f = bind_res (toEthCommonAddr a) (\<lambda>e. Inr (Add_item C (HashItem e) f))"
  "Contains_address C a f = bind_res (toEthCommonAddr a) (\<lambda>e. Inr (Contains_item C (HashItem e) f))"
  by (simp_all add: Add_address_def Contains_address_def Add_hash_def Contains_hash_def)

lemma length_Add_item [simp]: "length (bloom (Add_item C x f)) = length (bloom f)"
  by (simp add: Add_item_eq)

lemma length_Add_items [simp]: "length (bloom (fold (Add_item C) xs f)) = length (bloom f)"
  by (induction xs arbitrary: f) simp_all

definition item_bits :: "crypto \<Rightarrow> bloom_item \<Rightarrow> nat set" where
  "item_bits C x = bloom_bits 3 256 (keccak256 C (item_bytes x))"

lemma bits_Add_item:
  "length (bloom f) = 256 \<Longrightarrow> bits (bloom (Add_item C x f)) = bits (bloom f) \<union> item_bits C x"
  by (simp add: Add_item_eq shiftBloom_def bits_or bits_bloomPart item_bits_def)

lemma bits_Add_items:
  "length (bloom f) = 256 \<Longrightarrow>
   bits (bloom (fold (Add_item C) xs f)) = bits (bloom f) \<union> (\<Union>x\<in>set xs. item_bits C x)"
  by (induction xs arbitrary: f) (auto simp: bits_Add_item)

lemma Contains_item_bits:
  "length (bloom f) = 256 \<Longrightarrow> Contains_item C x f \<longleftrightarrow> item_bits C x \<subseteq> bits (bloom f)"
  by (simp add: Contains_item_eq containsBloom_def hash_contains_bits bits_bloomPart item_bits_def)

section \<open>Properties\<close>

text \<open>
  C25: the filter refines a set of bits.  After any sequence of additions to an empty filter the bits
  set are the union of the bits of the items, three for each at most; an item is reported as
  contained exactly if all its bits are among them; and every item that was added is.
\<close>

theorem bloom_refines_bit_set:
  defines "after \<equiv> \<lambda>C xs. fold (Add_item C) xs BloomFilter_new"
  shows "bits (bloom (after C xs)) = (\<Union>x\<in>set xs. item_bits C x) \<and>
    (Contains_item C y (after C xs) \<longleftrightarrow> item_bits C y \<subseteq> (\<Union>x\<in>set xs. item_bits C x)) \<and>
    (y \<in> set xs \<longrightarrow> Contains_item C y (after C xs)) \<and> card (bits (bloom (after C xs))) \<le> 3 * length xs"
proof -
  have new: "length (bloom BloomFilter_new) = 256" "bits (bloom BloomFilter_new) = {}"
    by (simp_all add: BloomFilter_new_def)
  have b: "bits (bloom (after C xs)) = (\<Union>x\<in>set xs. item_bits C x)"
    unfolding after_def using bits_Add_items [OF new(1)] new(2) by simp
  have "card (item_bits C x) \<le> 3" for x
    unfolding item_bits_def bloom_bits_def Let_def using card_image_le [of "{..<3}"] by fastforce
  then have "card (\<Union>x\<in>set xs. item_bits C x) \<le> (\<Sum>x\<in>set xs. 3)"
    by (intro order.trans [OF card_UN_le] sum_mono) simp_all
  also have "\<dots> \<le> 3 * length xs" using card_length [of xs] by simp
  finally show ?thesis
    using b log_bloom.no_false_negative [of y xs C BloomFilter_new] Contains_item_bits [of "after C xs" C y] new(1)
    by (simp add: after_def)
qed

theorem bloom_refines_bit_set_witness:
  "Contains_item demo_crypto (StringItem ''Transfer'')
     (fold (Add_item demo_crypto) [HashItem [1, 2], StringItem ''Transfer''] BloomFilter_new)"
  using bloom_refines_bit_set [of demo_crypto "[HashItem [1, 2], StringItem ''Transfer'']" "StringItem ''Transfer''"]
  by simp

end
