(* ===== verification/Json_Spirit.thy ===== *)
theory Json_Spirit
  imports Cfx_Address
begin

text \<open>
  \<^verbatim>\<open>utils/json_spirit\<close>, the JSON library of the key files: values with map objects (\<open>mValue\<close>), the
  writer \<open>Generator\<close> and the reader.  The reader is the grammar of \<open>Json_grammer\<close> as a
  recursive-descent parser, fused with \<open>Semantic_actions\<close>: no alternative is retried after an action
  has run, so the value under construction is the value returned or, with an exception, left behind.  The primitive parsers of
  Boost.Spirit are the fields of the record \<open>spirit\<close>, with what is documented of them as the locale
  \<open>spirit_laws\<close>; \<open>iswprint\<close> and the printing of doubles depend on the C library and are fields too.
\<close>

section \<open>Values\<close>

text \<open>A double is its bit pattern.  An unsigned number carries its own tag (\<open>is_uint64_\<close>).\<close>

datatype mValue =
    JObj "(string \<times> mValue) list"
  | JArr "mValue list"
  | JStr string
  | JBool bool
  | JInt int
  | JUint nat
  | JReal u64
  | JNull

type_synonym mObject = "(string \<times> mValue) list"

datatype Value_type = obj_type | array_type | str_type | bool_type | int_type | real_type | null_type

fun type_of :: "mValue \<Rightarrow> Value_type" where
  "type_of (JObj _) = obj_type"
| "type_of (JArr _) = array_type"
| "type_of (JStr _) = str_type"
| "type_of (JBool _) = bool_type"
| "type_of (JInt _) = int_type"
| "type_of (JUint _) = int_type"
| "type_of (JReal _) = real_type"
| "type_of JNull = null_type"

datatype json_error = WrongType

definition check_type :: "Value_type \<Rightarrow> mValue \<Rightarrow> json_error + unit" where
  "check_type t v = (if type_of v \<noteq> t then Inl WrongType else Inr ())"

definition json_str :: "mValue \<Rightarrow> json_error + string" where
  "json_str v = (case v of JStr s \<Rightarrow> Inr s | _ \<Rightarrow> Inl WrongType)"

definition json_obj :: "mValue \<Rightarrow> json_error + mObject" where
  "json_obj v = (case v of JObj o' \<Rightarrow> Inr o' | _ \<Rightarrow> Inl WrongType)"

definition get_int64 :: "mValue \<Rightarrow> json_error + int" where
  "get_int64 v = (case v of JInt i \<Rightarrow> Inr i | JUint n \<Rightarrow> Inr (signed_take_bit 63 (int n)) | _ \<Rightarrow> Inl WrongType)"

definition json_int :: "mValue \<Rightarrow> json_error + int" where
  "json_int v = bind_res (get_int64 v) (\<lambda>i. Inr (signed_take_bit 31 i))"

text \<open>
  Objects are \<open>std::map\<close>: association lists with the keys in increasing order.  \<open>o[k]\<close> inserts a
  null value when the key is missing.
\<close>

fun obj_set :: "string \<Rightarrow> mValue \<Rightarrow> mObject \<Rightarrow> mObject" where
  "obj_set k v [] = [(k, v)]"
| "obj_set k v ((k', v') # o') =
     (if k = k' then (k, v) # o'
      else if string_less k k' then (k, v) # (k', v') # o'
      else (k', v') # obj_set k v o')"

definition obj_count :: "string \<Rightarrow> mObject \<Rightarrow> bool" where
  "obj_count k o' = (map_of o' k \<noteq> None)"

definition obj_at :: "string \<Rightarrow> mObject \<Rightarrow> mValue" where
  "obj_at k o' = (case map_of o' k of None \<Rightarrow> JNull | Some v \<Rightarrow> v)"

definition obj_erase :: "string \<Rightarrow> mObject \<Rightarrow> mObject" where
  "obj_erase k o' = filter (\<lambda>(k', v). k' \<noteq> k) o'"

section \<open>The libraries behind\<close>

record spirit =
  lex_escape :: "string \<Rightarrow> string option"
  strict_real_p :: "string \<Rightarrow> (u64 \<times> string) option"
  int64_p :: "string \<Rightarrow> (int \<times> string) option"
  uint64_p :: "string \<Rightarrow> (nat \<times> string) option"
  iswprint :: "nat \<Rightarrow> bool"
  show_real :: "u64 \<Rightarrow> string"

definition no_digit :: "string \<Rightarrow> bool" where
  "no_digit r = (r = [] \<or> \<not> is_digit (hd r))"

definition number_ends :: "string \<Rightarrow> bool" where
  "number_ends r = (r = [] \<or> \<not> is_digit (hd r) \<and> hd r \<notin> set ''.eE'')"

definition number_start :: "string \<Rightarrow> bool" where
  "number_start s = (s \<noteq> [] \<and> (is_digit (hd s) \<or> hd s \<in> set ''+-.''))"

definition show_int :: "int \<Rightarrow> string" where
  "show_int i = (if i < 0 then CHR ''-'' # show_nat (nat (- i)) else show_nat (nat i))"

text \<open>
  \<open>lex_escape\<close> matches what follows a backslash: one character for the escapes the writer uses.  The
  numeric parsers read the longest run of digits, fail on overflow and on anything that does not
  start like a number, and a strict real needs a point or an exponent.
\<close>

locale spirit_laws =
  fixes S :: spirit
  assumes lex_escape_char: "c \<in> set (CHR 0x22 # CHR 0x5C # ''bfnrtu'') \<Longrightarrow> lex_escape S (c # r) = Some r"
    and lex_escape_less: "lex_escape S s = Some r \<Longrightarrow> length r < length s"
    and int64_show: "- (2 ^ 63) \<le> i \<Longrightarrow> i < 2 ^ 63 \<Longrightarrow> no_digit r \<Longrightarrow> int64_p S (show_int i @ r) = Some (i, r)"
    and int64_overflow: "2 ^ 63 \<le> i \<Longrightarrow> no_digit r \<Longrightarrow> int64_p S (show_int i @ r) = None"
    and uint64_show: "n < 2 ^ 64 \<Longrightarrow> no_digit r \<Longrightarrow> uint64_p S (show_nat n @ r) = Some (n, r)"
    and real_int: "number_ends r \<Longrightarrow> strict_real_p S (show_int i @ r) = None"
    and number_prefix: "\<not> number_start s \<Longrightarrow> strict_real_p S s = None \<and> int64_p S s = None \<and> uint64_p S s = None"
    and number_less: "strict_real_p S s = Some (x, r) \<Longrightarrow> length r < length s"
      "int64_p S s = Some (i, r) \<Longrightarrow> length r < length s" "uint64_p S s = Some (n, r) \<Longrightarrow> length r < length s"

section \<open>The writer\<close>

definition to_hex_char :: "nat \<Rightarrow> char" where
  "to_hex_char c = (if c < 10 then char_of (48 + c) else char_of (65 - 10 + c))"

definition non_printable_to_string :: "nat \<Rightarrow> string" where
  "non_printable_to_string c =
     [CHR 0x5C, CHR ''u'', to_hex_char (c div 4096 mod 16), to_hex_char (c div 256 mod 16),
      to_hex_char (c div 16 mod 16), to_hex_char (c mod 16)]"

definition add_esc_char :: "char \<Rightarrow> string option" where
  "add_esc_char c =
     (if c = CHR 0x22 then Some [CHR 0x5C, CHR 0x22]
      else if c = CHR 0x5C then Some [CHR 0x5C, CHR 0x5C]
      else if c = CHR 0x08 then Some [CHR 0x5C, CHR ''b'']
      else if c = CHR 0x0C then Some [CHR 0x5C, CHR ''f'']
      else if c = CHR 0x0A then Some [CHR 0x5C, CHR ''n'']
      else if c = CHR 0x0D then Some [CHR 0x5C, CHR ''r'']
      else if c = CHR 0x09 then Some [CHR 0x5C, CHR ''t'']
      else None)"

definition esc_char :: "spirit \<Rightarrow> char \<Rightarrow> string" where
  "esc_char S c =
     (case add_esc_char c of Some e \<Rightarrow> e
      | None \<Rightarrow> if iswprint S (of_char c) then [c] else non_printable_to_string (of_char c))"

definition add_esc_chars :: "spirit \<Rightarrow> string \<Rightarrow> string" where
  "add_esc_chars S s = concat (map (esc_char S) s)"

definition json_indent :: "bool \<Rightarrow> nat \<Rightarrow> string" where
  "json_indent pretty level = (if pretty then concat (replicate level (replicate 4 (CHR '' ''))) else [])"

definition json_space :: "bool \<Rightarrow> string" where
  "json_space pretty = (if pretty then '' '' else [])"

definition json_new_line :: "bool \<Rightarrow> string" where
  "json_new_line pretty = (if pretty then [CHR 0x0A] else [])"

definition output_str :: "spirit \<Rightarrow> string \<Rightarrow> string" where
  "output_str S s = [CHR 0x22] @ add_esc_chars S s @ [CHR 0x22]"

text \<open>The loop of \<open>output_array_or_obj\<close> over the texts of the elements, at the level inside.\<close>

fun output_elems :: "bool \<Rightarrow> nat \<Rightarrow> string list \<Rightarrow> string" where
  "output_elems pretty level [] = []"
| "output_elems pretty level (t # ts) =
     json_indent pretty level @ t @ (if ts \<noteq> [] then '','' else []) @ json_new_line pretty @
     output_elems pretty level ts"

definition output_array_or_obj :: "bool \<Rightarrow> nat \<Rightarrow> string list \<Rightarrow> char \<Rightarrow> char \<Rightarrow> string" where
  "output_array_or_obj pretty level ts start_char end_char =
     [start_char] @ json_new_line pretty @ output_elems pretty (level + 1) ts @
     json_indent pretty level @ [end_char]"

fun output_value :: "spirit \<Rightarrow> bool \<Rightarrow> nat \<Rightarrow> mValue \<Rightarrow> string" where
  "output_value S pretty level (JObj ms) =
     output_array_or_obj pretty level
       (map (\<lambda>(k, v). output_str S k @ json_space pretty @ '':'' @ json_space pretty @
                      output_value S pretty (level + 1) v) ms) (CHR ''{'') (CHR ''}'')"
| "output_value S pretty level (JArr vs) =
     output_array_or_obj pretty level (map (output_value S pretty (level + 1)) vs) (CHR ''['') (CHR '']'')"
| "output_value S pretty level (JStr s) = output_str S s"
| "output_value S pretty level (JBool b) = (if b then ''true'' else ''false'')"
| "output_value S pretty level (JInt i) = show_int i"
| "output_value S pretty level (JUint n) = show_nat n"
| "output_value S pretty level (JReal d) = show_real S d"
| "output_value S pretty level JNull = ''null''"

definition write_string :: "spirit \<Rightarrow> mValue \<Rightarrow> bool \<Rightarrow> string" where
  "write_string S v pretty = output_value S pretty 0 v"

section \<open>The reader\<close>

definition hex_to_num :: "char \<Rightarrow> nat" where
  "hex_to_num c =
     (let n = (of_char c :: nat) in
      if 48 \<le> n \<and> n \<le> 57 then n - 48
      else if 97 \<le> n \<and> n \<le> 102 then n - 97 + 10
      else if 65 \<le> n \<and> n \<le> 70 then n - 65 + 10
      else 0)"

definition hex_str_to_char :: "char \<Rightarrow> char \<Rightarrow> char" where
  "hex_str_to_char c1 c2 = char_of (hex_to_num c1 * 16 + hex_to_num c2)"

definition unicode_str_to_char :: "char \<Rightarrow> char \<Rightarrow> char \<Rightarrow> char \<Rightarrow> char" where
  "unicode_str_to_char c1 c2 c3 c4 =
     char_of (hex_to_num c1 * 4096 + hex_to_num c2 * 256 + hex_to_num c3 * 16 + hex_to_num c4)"

text \<open>
  The character after the backslash and the text behind it, to what is appended and where the scan
  goes on.  A conversion to \<open>char\<close> keeps the low eight bits, as \<open>char_of\<close> does.
\<close>

definition append_esc_char :: "char \<Rightarrow> string \<Rightarrow> string \<times> string" where
  "append_esc_char c2 r =
     (if c2 = CHR ''t'' then ([CHR 0x09], r)
      else if c2 = CHR ''b'' then ([CHR 0x08], r)
      else if c2 = CHR ''f'' then ([CHR 0x0C], r)
      else if c2 = CHR ''n'' then ([CHR 0x0A], r)
      else if c2 = CHR ''r'' then ([CHR 0x0D], r)
      else if c2 = CHR 0x5C then ([CHR 0x5C], r)
      else if c2 = CHR ''/'' then ([CHR ''/''], r)
      else if c2 = CHR 0x22 then ([CHR 0x22], r)
      else if c2 = CHR ''x'' then (if length r \<ge> 2 then ([hex_str_to_char (r ! 0) (r ! 1)], drop 2 r) else ([], r))
      else if c2 = CHR ''u'' then
        (if length r \<ge> 4 then ([unicode_str_to_char (r ! 0) (r ! 1) (r ! 2) (r ! 3)], drop 4 r) else ([], r))
      else ([], r))"

lemma append_esc_char_less: "length (snd (append_esc_char c r)) \<le> length r"
  by (simp add: append_esc_char_def)

function substitute_esc_chars :: "string \<Rightarrow> string" where
  "substitute_esc_chars [] = []"
| "substitute_esc_chars [c] = [c]"
| "substitute_esc_chars (c # c2 # r) =
     (if c = CHR 0x5C then (let (a, r') = append_esc_char c2 r in a @ substitute_esc_chars r')
      else c # substitute_esc_chars (c2 # r))"
  by pat_completeness auto
termination
  by (relation "measure length") (use append_esc_char_less in \<open>auto simp: less_Suc_eq_le le_Suc_eq split: prod.splits\<close>,
      metis append_esc_char_less le_SucI snd_conv)

definition get_str :: "string \<Rightarrow> string" where
  "get_str quoted = substitute_esc_chars (butlast (tl quoted))"

text \<open>\<open>*(lex_escape_ch_p - '"')\<close>: how far a string literal goes, with the characters consumed.\<close>

fun lex_chars :: "spirit \<Rightarrow> nat \<Rightarrow> string \<Rightarrow> string" where
  "lex_chars S 0 s = s"
| "lex_chars S (Suc n) [] = []"
| "lex_chars S (Suc n) (c # r) =
     (if c = CHR 0x5C then (case lex_escape S r of None \<Rightarrow> c # r | Some r' \<Rightarrow> lex_chars S n r')
      else if c = CHR 0x22 then c # r
      else lex_chars S n r)"

definition json_skip :: "string \<Rightarrow> string" where
  "json_skip s = dropWhile is_space s"

definition string_p :: "spirit \<Rightarrow> string \<Rightarrow> (string \<times> string) option" where
  "string_p S s =
     (case json_skip s of
        [] \<Rightarrow> None
      | c # r \<Rightarrow>
          if c \<noteq> CHR 0x22 then None
          else (case lex_chars S (length r) r of
                  [] \<Rightarrow> None
                | q # r' \<Rightarrow>
                    if q \<noteq> CHR 0x22 then None
                    else Some (get_str (c # take (length r - length r') r), r')))"

definition number_p :: "spirit \<Rightarrow> string \<Rightarrow> (mValue \<times> string) option" where
  "number_p S s =
     (case strict_real_p S (json_skip s) of
        Some (d, r) \<Rightarrow> Some (JReal d, r)
      | None \<Rightarrow> (case int64_p S (json_skip s) of
          Some (i, r) \<Rightarrow> Some (JInt i, r)
        | None \<Rightarrow> (case uint64_p S (json_skip s) of
            Some (n, r) \<Rightarrow> Some (JUint n, r)
          | None \<Rightarrow> None)))"

definition char_p :: "char \<Rightarrow> string \<Rightarrow> string option" where
  "char_p c s = (case json_skip s of [] \<Rightarrow> None | c' # r \<Rightarrow> if c' = c then Some r else None)"

definition literal_p :: "string \<Rightarrow> string \<Rightarrow> string option" where
  "literal_p w s = (let t = json_skip s in if take (length w) t = w then Some (drop (length w) t) else None)"

datatype parse_error = NotAValue | NotAnArray | NotAnObject | NoColon | OutOfFuel

text \<open>
  A rule throws, or gives \<open>None\<close> when it does not match, or the value and the rest.  What is thrown
  carries what the semantic actions have built so far: they fill the caller's value while the text is
  being read, and an exception leaves it as it is.  The rules that contain values take the rule for
  values as an argument; \<open>value_p\<close> ties the knot, with a bound on the nesting.  Every repetition and
  every level of nesting consumes a character, so that the length of the text bounds both.
\<close>

type_synonym 'a rule = "string \<Rightarrow> (parse_error \<times> 'a option) + ('a \<times> string) option"

definition pair_p :: "spirit \<Rightarrow> mValue rule \<Rightarrow> (string \<times> mValue) rule" where
  "pair_p S val s =
     (case string_p S s of
        None \<Rightarrow> Inr None
      | Some (k, r) \<Rightarrow>
          (case char_p (CHR '':'') r of
             None \<Rightarrow> Inl (NoColon, None)
           | Some r' \<Rightarrow>
               (case val r' of
                  Inl (e, m) \<Rightarrow> Inl (e, map_option (\<lambda>v. (k, v)) m)
                | Inr None \<Rightarrow> Inl (NotAValue, None)
                | Inr (Some (v, r'')) \<Rightarrow> Inr (Some ((k, v), r'')))))"

text \<open>\<open>*(',' >> item)\<close>, with \<open>add\<close> as the action for an item.\<close>

fun list_loop :: "'a rule \<Rightarrow> ('a \<Rightarrow> 'b \<Rightarrow> 'b) \<Rightarrow> nat \<Rightarrow> 'b \<Rightarrow> string \<Rightarrow> (parse_error \<times> 'b) + ('b \<times> string)" where
  "list_loop item add 0 acc s = Inl (OutOfFuel, acc)"
| "list_loop item add (Suc n) acc s =
     (case char_p (CHR '','') s of
        None \<Rightarrow> Inr (acc, s)
      | Some r \<Rightarrow>
          (case item r of
             Inl (e, m) \<Rightarrow> Inl (e, case m of None \<Rightarrow> acc | Some x \<Rightarrow> add x acc)
           | Inr None \<Rightarrow> Inr (acc, s)
           | Inr (Some (x, r')) \<Rightarrow> list_loop item add n (add x acc) r'))"

text \<open>\<open>!(item >> *(',' >> item)) >> (close | eps_p[throw])\<close>, behind the opening bracket.\<close>

definition compound_p ::
  "'a rule \<Rightarrow> ('a \<Rightarrow> 'b \<Rightarrow> 'b) \<Rightarrow> 'b \<Rightarrow> char \<Rightarrow> parse_error \<Rightarrow> string \<Rightarrow> (parse_error \<times> 'b) + ('b \<times> string)" where
  "compound_p item add start close e s =
     bind_res
       (case item s of
          Inl (e, m) \<Rightarrow> Inl (e, case m of None \<Rightarrow> start | Some x \<Rightarrow> add x start)
        | Inr None \<Rightarrow> Inr (start, s)
        | Inr (Some (x, r)) \<Rightarrow> list_loop item add (length r + 1) (add x start) r)
       (\<lambda>(acc, r). case char_p close r of Some r' \<Rightarrow> Inr (acc, r') | None \<Rightarrow> Inl (e, acc))"

definition object_p :: "spirit \<Rightarrow> mValue rule \<Rightarrow> string \<Rightarrow> (parse_error \<times> mObject) + (mObject \<times> string)" where
  "object_p S val = compound_p (pair_p S val) (\<lambda>(k, v). obj_set k v) [] (CHR ''}'') NotAnObject"

definition array_p :: "mValue rule \<Rightarrow> string \<Rightarrow> (parse_error \<times> mValue list) + (mValue list \<times> string)" where
  "array_p val = compound_p val (\<lambda>v vs. vs @ [v]) [] (CHR '']'') NotAnArray"

definition compound_value :: "('b \<Rightarrow> mValue) \<Rightarrow> (parse_error \<times> 'b) + ('b \<times> string) \<Rightarrow> (parse_error \<times> mValue option) + (mValue \<times> string) option" where
  "compound_value f m = (case m of Inl (e, acc) \<Rightarrow> Inl (e, Some (f acc)) | Inr (acc, r) \<Rightarrow> Inr (Some (f acc, r)))"

primrec value_p :: "nat \<Rightarrow> spirit \<Rightarrow> mValue rule" where
  "value_p 0 S = (\<lambda>s. Inl (OutOfFuel, None))"
| "value_p (Suc n) S = (\<lambda>s.
     case string_p S s of Some (str, r) \<Rightarrow> Inr (Some (JStr str, r)) | None \<Rightarrow>
     case number_p S s of Some (v, r) \<Rightarrow> Inr (Some (v, r)) | None \<Rightarrow>
     case char_p (CHR ''{'') s of Some r \<Rightarrow> compound_value JObj (object_p S (value_p n S) r) | None \<Rightarrow>
     case char_p (CHR ''['') s of Some r \<Rightarrow> compound_value JArr (array_p (value_p n S) r) | None \<Rightarrow>
     case literal_p ''true'' s of Some r \<Rightarrow> Inr (Some (JBool True, r)) | None \<Rightarrow>
     case literal_p ''false'' s of Some r \<Rightarrow> Inr (Some (JBool False, r)) | None \<Rightarrow>
     case literal_p ''null'' s of Some r \<Rightarrow> Inr (Some (JNull, r)) | None \<Rightarrow> Inr None)"

definition read_range_or_throw :: "spirit \<Rightarrow> string \<Rightarrow> (parse_error \<times> mValue option) + (mValue \<times> string)" where
  "read_range_or_throw S s =
     (case value_p (length s + 1) S s of
        Inl e \<Rightarrow> Inl e
      | Inr None \<Rightarrow> Inl (NotAValue, None)
      | Inr (Some vr) \<Rightarrow> Inr vr)"

text \<open>\<open>read_string(s, value)\<close>: whether the text was read, and the value afterwards.\<close>

definition read_string :: "spirit \<Rightarrow> string \<Rightarrow> mValue \<Rightarrow> bool \<times> mValue" where
  "read_string S s v0 =
     (case read_range_or_throw S s of
        Inl (_, None) \<Rightarrow> (False, v0)
      | Inl (_, Some v) \<Rightarrow> (False, v)
      | Inr (v, _) \<Rightarrow> (True, v))"

section \<open>An instance of the libraries\<close>

definition int_digits :: "string \<Rightarrow> (nat \<times> string) option" where
  "int_digits s =
     (let ds = takeWhile is_digit s in
      if ds = [] then None else Some (pos_val 10 (map char_digit ds), dropWhile is_digit s))"

definition repo_spirit :: spirit where
  "repo_spirit =
     \<lparr>lex_escape = (\<lambda>s. case s of [] \<Rightarrow> None
        | c # r \<Rightarrow> if c \<in> set ''xX'' then (if r = [] then None else Some (tl r)) else Some r),
      strict_real_p = (\<lambda>s. None),
      int64_p = (\<lambda>s. case s of [] \<Rightarrow> None
        | c # r \<Rightarrow>
          (case int_digits (if c = CHR ''-'' \<or> c = CHR ''+'' then r else s) of None \<Rightarrow> None
           | Some (n, r') \<Rightarrow>
               if c = CHR ''-'' then (if n \<le> 2 ^ 63 then Some (- int n, r') else None)
               else if n < 2 ^ 63 then Some (int n, r') else None)),
      uint64_p = (\<lambda>s. case int_digits s of None \<Rightarrow> None
        | Some (n, r) \<Rightarrow> if n < 2 ^ 64 then Some (n, r) else None),
      iswprint = (\<lambda>n. 32 \<le> n \<and> n < 127),
      show_real = (\<lambda>d. ''0.'')\<rparr>"

lemma int_digits_show: "no_digit r \<Longrightarrow> int_digits (show_nat n @ r) = Some (n, r)"
proof -
  assume r: "no_digit r"
  have d: "\<forall>x \<in> set (show_nat n). is_digit x" using show_nat_digits by blast
  have "takeWhile is_digit (show_nat n @ r) = show_nat n" "dropWhile is_digit (show_nat n @ r) = r"
    using d r by (cases r; simp add: no_digit_def)+
  then show ?thesis by (simp add: int_digits_def pos_val_show_nat)
qed

lemma int_digits_start: "int_digits s = Some (n, r) \<Longrightarrow> s \<noteq> [] \<and> is_digit (hd s) \<and> length r < length s"
  by (cases s) (auto simp: int_digits_def Let_def length_dropWhile_le less_Suc_eq_le split: if_splits)

lemma show_nat_Cons: "\<exists>c cs. show_nat n = c # cs \<and> is_digit c \<and> c \<noteq> CHR ''-'' \<and> c \<noteq> CHR ''+''"
proof -
  obtain c cs where "show_nat n = c # cs" by (cases "show_nat n") simp_all
  moreover then have "is_digit c" using show_nat_digits [of c n] by simp
  ultimately show ?thesis using is_digit_char [of c] by blast
qed

lemma repo_int64: "no_digit r \<Longrightarrow> int64_p repo_spirit (show_int i @ r) =
    (if - (2 ^ 63) \<le> i \<and> i < 2 ^ 63 then Some (i, r) else None)"
proof (cases "i < 0")
  case True
  assume "no_digit r"
  then have "int_digits (show_nat (nat (- i)) @ r) = Some (nat (- i), r)" by (rule int_digits_show)
  moreover have "nat (- i) \<le> 2 ^ 63 \<longleftrightarrow> - (2 ^ 63) \<le> i" by (simp add: nat_le_iff) linarith
  ultimately show ?thesis using True by (simp add: repo_spirit_def show_int_def)
next
  case False
  assume "no_digit r"
  then have d: "int_digits (show_nat (nat i) @ r) = Some (nat i, r)" by (rule int_digits_show)
  obtain c cs where c: "show_nat (nat i) = c # cs" "c \<noteq> CHR ''-''" "c \<noteq> CHR ''+''" using show_nat_Cons by blast
  have "nat i < 2 ^ 63 \<longleftrightarrow> i < 2 ^ 63" using False by (simp add: nat_less_iff)
  then show ?thesis using False c d by (simp add: repo_spirit_def show_int_def)
qed

lemma repo_int64_less: "int64_p repo_spirit s = Some (i, r) \<Longrightarrow> length r < length s"
  using int_digits_start by (fastforce simp: repo_spirit_def split: list.splits option.splits if_splits)

lemma repo_number_prefix:
  "\<not> number_start s \<Longrightarrow> strict_real_p repo_spirit s = None \<and> int64_p repo_spirit s = None \<and> uint64_p repo_spirit s = None"
  using int_digits_start by (fastforce simp: repo_spirit_def number_start_def split: list.splits option.splits)

lemma repo_escape_less: "lex_escape repo_spirit s = Some r \<Longrightarrow> length r < length s"
  by (auto simp: repo_spirit_def split: list.splits if_splits)

lemma repo_escape_char: "c \<in> set (CHR 0x22 # CHR 0x5C # ''bfnrtu'') \<Longrightarrow> lex_escape repo_spirit (c # r) = Some r"
  by (auto simp: repo_spirit_def)

lemma repo_uint64:
  "n < 2 ^ 64 \<Longrightarrow> no_digit r \<Longrightarrow> uint64_p repo_spirit (show_nat n @ r) = Some (n, r)"
  "uint64_p repo_spirit s = Some (m, r) \<Longrightarrow> length r < length s"
  by (auto simp: repo_spirit_def int_digits_show dest: int_digits_start split: option.splits if_splits)

lemma repo_real: "strict_real_p repo_spirit s = None"
  by (simp add: repo_spirit_def)

interpretation repo_json: spirit_laws repo_spirit
  by unfold_locales
    (simp_all only: repo_int64 repo_int64_less repo_number_prefix repo_escape_less repo_escape_char repo_uint64
      repo_real, simp_all add: repo_number_prefix)

end
