(* ===== verification/Json_Theorems.thy ===== *)
theory Json_Theorems
  imports Json_Spirit
begin

text \<open>
  Reading what the writer wrote: string literals, numbers, and by induction all values without
  doubles whose objects have their keys in order.
\<close>

section \<open>Objects\<close>

definition keys_sorted :: "mObject \<Rightarrow> bool" where
  "keys_sorted ms = sorted_wrt (\<lambda>x y. string_less (fst x) (fst y)) ms"

lemma obj_set_last:
  assumes "\<forall>x \<in> set ms. string_less (fst x) k"
  shows "obj_set k v ms = ms @ [(k, v)]"
  using assms
proof (induction ms)
  case (Cons x ms)
  then obtain k' v' where x: "x = (k', v')" "string_less k' k" by (cases x) auto
  have "k \<noteq> k'" using x(2) by auto
  moreover have "\<not> string_less k k'" using x(2) string_less_trans [of k k' k] by auto
  ultimately show ?case using Cons x by simp
qed simp

fun json_wf :: "mValue \<Rightarrow> bool" where
  "json_wf (JObj ms) = (keys_sorted ms \<and> (\<forall>x \<in> set ms. json_wf (snd x)))"
| "json_wf (JArr vs) = (\<forall>v \<in> set vs. json_wf v)"
| "json_wf (JInt i) = (- (2 ^ 63) \<le> i \<and> i < 2 ^ 63)"
| "json_wf (JUint n) = (2 ^ 63 \<le> n \<and> n < 2 ^ 64)"
| "json_wf (JReal d) = False"
| "json_wf (JStr _) = True"
| "json_wf (JBool _) = True"
| "json_wf JNull = True"

section \<open>String literals\<close>

lemma of_to_hex_char: "n < 16 \<Longrightarrow> of_char (to_hex_char n) = (if n < 10 then 48 + n else 55 + n)"
  by (simp add: to_hex_char_def)

lemma hex_to_num_char: "n < 16 \<Longrightarrow> hex_to_num (to_hex_char n) = n"
  by (simp add: hex_to_num_def of_to_hex_char Let_def)

lemma to_hex_char_plain: "n < 16 \<Longrightarrow> to_hex_char n \<noteq> CHR 0x22 \<and> to_hex_char n \<noteq> CHR 0x5C"
  using of_to_hex_char [of n] by (auto split: if_splits)

lemma unicode_roundtrip:
  fixes c :: char
  defines "n \<equiv> of_char c :: nat"
  shows "unicode_str_to_char (to_hex_char (n div 4096 mod 16)) (to_hex_char (n div 256 mod 16))
     (to_hex_char (n div 16 mod 16)) (to_hex_char (n mod 16)) = c"
proof -
  have n: "n < 256" using nat_of_char_less_256 [of c] by (simp add: n_def)
  then have "n div 4096 = 0" "n div 256 = 0" "n div 16 mod 16 = n div 16" by simp_all
  then have "unicode_str_to_char (to_hex_char (n div 4096 mod 16)) (to_hex_char (n div 256 mod 16))
     (to_hex_char (n div 16 mod 16)) (to_hex_char (n mod 16)) = char_of (n div 16 * 16 + n mod 16)"
    using n by (simp add: unicode_str_to_char_def hex_to_num_char)
  then show ?thesis by (simp add: n_def)
qed

definition short_escapes :: "(char \<times> char) list" where
  "short_escapes = [(CHR 0x22, CHR 0x22), (CHR 0x5C, CHR 0x5C), (CHR 0x08, CHR ''b''), (CHR 0x0C, CHR ''f''),
     (CHR 0x0A, CHR ''n''), (CHR 0x0D, CHR ''r''), (CHR 0x09, CHR ''t'')]"

lemma add_esc_char_table:
  "add_esc_char c = map_option (\<lambda>d. [CHR 0x5C, d]) (map_of short_escapes c)"
  by (simp add: add_esc_char_def short_escapes_def)

lemma short_escapes_facts:
  assumes "(c, d) \<in> set short_escapes"
  shows "append_esc_char d r = ([c], r)" "d \<in> set (CHR 0x22 # CHR 0x5C # ''bfnrtu'')"
proof -
  have "\<forall>(c, d) \<in> set short_escapes. append_esc_char d r = ([c], r)"
    by (simp add: short_escapes_def append_esc_char_def)
  then show "append_esc_char d r = ([c], r)" using assms by blast
  have "\<forall>(c, d) \<in> set short_escapes. d \<in> set (CHR 0x22 # CHR 0x5C # ''bfnrtu'')"
    by (simp add: short_escapes_def)
  then show "d \<in> set (CHR 0x22 # CHR 0x5C # ''bfnrtu'')" using assms by blast
qed

text \<open>What the writer emits for one character: itself, two characters, or the six of \<open>\uXXXX\<close>.\<close>

lemma esc_char_cases:
  obtains (plain) "esc_char S c = [c]" "c \<noteq> CHR 0x22" "c \<noteq> CHR 0x5C"
  | (short) d where "esc_char S c = [CHR 0x5C, d]" "(c, d) \<in> set short_escapes"
  | (long) h1 h2 h3 h4 where "esc_char S c = [CHR 0x5C, CHR ''u'', h1, h2, h3, h4]"
      "unicode_str_to_char h1 h2 h3 h4 = c"
      "\<forall>h \<in> set [h1, h2, h3, h4]. h \<noteq> CHR 0x22 \<and> h \<noteq> CHR 0x5C"
proof (cases "map_of short_escapes c")
  case None
  then have c: "c \<noteq> CHR 0x22" "c \<noteq> CHR 0x5C" by (simp_all add: short_escapes_def split: if_splits)
  show ?thesis
  proof (cases "iswprint S (of_char c)")
    case True
    then show ?thesis using plain c None by (simp add: esc_char_def add_esc_char_table)
  next
    case False
    then have "esc_char S c = non_printable_to_string (of_char c)"
      using None by (simp add: esc_char_def add_esc_char_table)
    then show ?thesis
      using long [OF _ unicode_roundtrip [of c]] to_hex_char_plain by (simp add: non_printable_to_string_def)
  qed
next
  case (Some d)
  then show ?thesis using short map_of_SomeD [OF Some] by (simp add: esc_char_def add_esc_char_table)
qed

lemma substitute_Cons:
  "c \<noteq> CHR 0x5C \<Longrightarrow> substitute_esc_chars (c # r) = c # substitute_esc_chars r"
  by (cases r) simp_all

lemma substitute_esc_char: "substitute_esc_chars (esc_char S c @ r) = c # substitute_esc_chars r"
proof (cases S c rule: esc_char_cases)
  case plain
  then show ?thesis by (simp add: substitute_Cons)
next
  case (short d)
  then show ?thesis using short_escapes_facts(1) by simp
next
  case (long h1 h2 h3 h4)
  then show ?thesis by (simp add: append_esc_char_def)
qed

lemma substitute_add_esc: "substitute_esc_chars (add_esc_chars S s) = s"
  by (induction s) (simp_all add: add_esc_chars_def substitute_esc_char)

context spirit_laws
begin

text \<open>\<open>lex_chars\<close> with enough fuel, by its equations.\<close>

lemma lex_chars_fuel: "length s \<le> n \<Longrightarrow> lex_chars S n s = lex_chars S (length s) s"
proof (induction n arbitrary: s rule: less_induct)
  case (less n)
  show ?case
  proof (cases s)
    case (Cons c r)
    then obtain m where m: "n = Suc m" "length r \<le> m" using less.prems by (cases n) auto
    have "lex_chars S m r = lex_chars S (length r) r" using less.IH [of m r] m by simp
    moreover have "lex_chars S m r' = lex_chars S (length r) r'" if "lex_escape S r = Some r'" for r'
    proof -
      have l: "length r' < length r" using lex_escape_less that by blast
      have "lex_chars S m r' = lex_chars S (length r') r'" using less.IH [of m r'] m l by simp
      moreover have "lex_chars S (length r) r' = lex_chars S (length r') r'"
        using less.IH [of "length r" r'] m l by simp
      ultimately show ?thesis by simp
    qed
    ultimately show ?thesis using Cons m by (simp split: option.split)
  qed (cases n; simp)
qed

definition lexc :: "string \<Rightarrow> string" where
  "lexc s = lex_chars S (length s) s"

lemma lexc_Cons:
  "lexc (c # r) =
     (if c = CHR 0x5C then (case lex_escape S r of None \<Rightarrow> c # r | Some r' \<Rightarrow> lexc r')
      else if c = CHR 0x22 then c # r else lexc r)"
proof -
  have "lex_chars S (length r) r' = lexc r'" if "lex_escape S r = Some r'" for r'
    using lex_chars_fuel [of r' "length r"] lex_escape_less that by (simp add: lexc_def less_imp_le)
  then show ?thesis by (simp add: lexc_def split: option.split)
qed

lemma lexc_plain: "\<forall>h \<in> set hs. h \<noteq> CHR 0x22 \<and> h \<noteq> CHR 0x5C \<Longrightarrow> lexc (hs @ r) = lexc r"
  by (induction hs) (simp_all add: lexc_Cons)

lemma lexc_esc_char: "lexc (esc_char S c @ r) = lexc r"
proof (cases S c rule: esc_char_cases)
  case plain
  then show ?thesis by (simp add: lexc_Cons)
next
  case (short d)
  then show ?thesis using short_escapes_facts(2) [OF short(2)] lex_escape_char [of d r] by (simp add: lexc_Cons)
next
  case (long h1 h2 h3 h4)
  have "lexc ([h1, h2, h3, h4] @ r) = lexc r" using long(3) by (rule lexc_plain)
  then show ?thesis
    using long(1) lex_escape_char [of "CHR ''u''" "[h1, h2, h3, h4] @ r"] by (simp add: lexc_Cons [of "CHR 0x5C"])
qed

lemma lexc_add_esc: "lexc (add_esc_chars S s @ CHR 0x22 # r) = CHR 0x22 # r"
  by (induction s) (simp_all add: add_esc_chars_def lexc_esc_char, simp add: lexc_Cons)

lemma string_p_output:
  assumes "json_skip t = output_str S s @ r"
  shows "string_p S t = Some (s, r)"
proof -
  let ?q = "CHR 0x22" and ?e = "add_esc_chars S s"
  have t: "json_skip t = ?q # ?e @ ?q # r" using assms by (simp add: output_str_def)
  have "lex_chars S (length (?e @ ?q # r)) (?e @ ?q # r) = ?q # r"
    using lexc_add_esc by (simp only: lexc_def)
  moreover have "take (length (?e @ ?q # r) - length r) (?e @ ?q # r) = ?e @ [?q]" by simp
  ultimately show ?thesis
    unfolding string_p_def t list.case by (simp add: get_str_def substitute_add_esc)
qed

end

section \<open>White space and brackets\<close>

abbreviation ws :: "string \<Rightarrow> bool" where
  "ws w \<equiv> (\<forall>c \<in> set w. is_space c)"

definition ok_rest :: "string \<Rightarrow> bool" where
  "ok_rest r = (r = [] \<or> hd r \<in> {CHR '','', CHR ''}'', CHR '']'', CHR 0x0A})"

lemma ok_rest_number: "ok_rest r \<Longrightarrow> number_ends r \<and> no_digit r"
  by (auto simp: ok_rest_def number_ends_def no_digit_def is_digit_def)

lemma json_skip_ws [simp]: "ws w \<Longrightarrow> json_skip (w @ s) = json_skip s"
  by (simp add: json_skip_def dropWhile_append2)

lemma json_skip_Cons [simp]: "\<not> is_space c \<Longrightarrow> json_skip (c # s) = c # s"
  by (simp add: json_skip_def)

lemma char_p_Cons: "ws w \<Longrightarrow> \<not> is_space c' \<Longrightarrow> char_p c (w @ c' # s) = (if c' = c then Some s else None)"
  by (simp add: char_p_def)

lemma brackets_no_space [simp]:
  "\<not> is_space (CHR ''{'')" "\<not> is_space (CHR ''}'')" "\<not> is_space (CHR ''['')" "\<not> is_space (CHR '']'')"
  "\<not> is_space (CHR '','')" "\<not> is_space (CHR '':'')" "\<not> is_space (CHR 0x22)" "\<not> is_space (CHR ''t'')"
  "\<not> is_space (CHR ''f'')" "\<not> is_space (CHR ''n'')" "\<not> is_space (CHR ''-'')"
  by (simp_all add: is_space_def)

lemma layout_ws [simp]: "ws (json_new_line p)" "ws (json_indent p l)" "ws (json_space p)"
  by (auto simp: json_new_line_def json_indent_def json_space_def is_space_def)

section \<open>Lists of items\<close>

definition reads :: "'a rule \<Rightarrow> string \<Rightarrow> 'a \<Rightarrow> bool" where
  "reads item t x \<longleftrightarrow> (\<forall>w r. ws w \<longrightarrow> ok_rest r \<longrightarrow> item (w @ t @ r) = Inr (Some (x, r)))"

definition after_item :: "bool \<Rightarrow> nat \<Rightarrow> string list \<Rightarrow> string \<Rightarrow> string" where
  "after_item p l ts tail =
     (if ts \<noteq> [] then '','' else []) @ json_new_line p @ output_elems p l ts @ tail"

lemma output_elems_Cons: "output_elems p l (t # ts) @ tail = json_indent p l @ t @ after_item p l ts tail"
  by (simp add: after_item_def)

lemma ok_after_item:
  assumes "c \<in> {CHR ''}'', CHR '']''}"
  shows "ok_rest (after_item p l ts (json_indent p k @ c # r))"
  using assms by (auto simp: after_item_def ok_rest_def json_new_line_def json_indent_def)

lemma list_loop_reads:
  assumes "list_all2 (reads item) ts xs" "c \<in> {CHR ''}'', CHR '']''}" "length ts < n"
  shows "list_loop item add n acc (after_item p l ts (json_indent p k @ c # r)) =
    Inr (fold add xs acc, json_new_line p @ json_indent p k @ c # r)"
  using assms(1,3)
proof (induction arbitrary: n acc rule: list_all2_induct)
  case Nil
  then obtain m where n: "n = Suc m" by (cases n) simp_all
  have "char_p (CHR '','') ((json_new_line p @ json_indent p k) @ c # r) = None"
    using assms(2) by (subst char_p_Cons) auto
  then show ?case by (simp add: after_item_def n)
next
  case (Cons t ts x xs)
  then obtain m where n: "n = Suc m" "length ts < m" by (cases n) simp_all
  let ?tail = "json_indent p k @ c # r"
  have "after_item p l (t # ts) ?tail =
      CHR '','' # (json_new_line p @ json_indent p l) @ t @ after_item p l ts ?tail"
    by (simp add: after_item_def)
  moreover have "char_p (CHR '','') (CHR '','' # s) = Some s" for s
    using char_p_Cons [of "[]" "CHR '',''" "CHR '',''"] by simp
  moreover have "item ((json_new_line p @ json_indent p l) @ t @ after_item p l ts ?tail) =
      Inr (Some (x, after_item p l ts ?tail))"
  proof -
    have "ws (json_new_line p @ json_indent p l)" using layout_ws by auto
    then show ?thesis using Cons.hyps(1) ok_after_item [OF assms(2)] unfolding reads_def by blast
  qed
  ultimately show ?case using Cons.IH [OF n(2)] n(1) by simp
qed

declare list_loop.simps [simp del]

lemma compound_reads:
  assumes "list_all2 (reads item) ts xs" "c \<in> {CHR ''}'', CHR '']''}"
    and "ts = [] \<Longrightarrow> \<forall>w. ws w \<longrightarrow> item (w @ c # r) = Inr None"
  shows "compound_p item add start c e
      (json_new_line p @ output_elems p l ts @ json_indent p k @ c # r) = Inr (fold add xs start, r)"
proof -
  let ?tail = "json_indent p k @ c # r"
  have close: "char_p c ((json_new_line p @ json_indent p k) @ c # r) = Some r"
    using assms(2) by (subst char_p_Cons) auto
  show ?thesis
  proof (cases ts)
    case Nil
    have "ws (json_new_line p @ json_indent p k)" using layout_ws by auto
    then have "item ((json_new_line p @ json_indent p k) @ c # r) = Inr None" using assms(3) Nil by blast
    then show ?thesis using Nil assms(1) close by (simp add: compound_p_def)
  next
    case (Cons t ts')
    then obtain x xs' where xs: "xs = x # xs'" "reads item t x" "list_all2 (reads item) ts' xs'"
      using assms(1) by (auto simp: list_all2_Cons1)
    have "ws (json_new_line p @ json_indent p l)" using layout_ws by auto
    then have it: "item ((json_new_line p @ json_indent p l) @ t @ after_item p l ts' ?tail) =
        Inr (Some (x, after_item p l ts' ?tail))"
      using xs(2) ok_after_item [OF assms(2)] unfolding reads_def by blast
    have "length ts' < length (after_item p l ts' ?tail) + 1"
    proof -
      have "length ts' \<le> length (output_elems p l ts') + 1"
        by (induction ts') (auto split: if_splits)
      moreover have "length (output_elems p l ts') < length (after_item p l ts' ?tail)"
        by (simp add: after_item_def)
      ultimately show ?thesis by simp
    qed
    then have "list_loop item add (length (after_item p l ts' ?tail) + 1) (add x start) (after_item p l ts' ?tail) =
        Inr (fold add xs' (add x start), json_new_line p @ ?tail)"
      by (rule list_loop_reads [OF xs(3) assms(2)])
    then show ?thesis
      using it close xs(1) unfolding Cons output_elems_Cons by (simp add: compound_p_def)
  qed
qed

section \<open>Values\<close>

lemma fold_obj_set:
  "keys_sorted (ms @ ms') \<Longrightarrow> fold (\<lambda>(k, v). obj_set k v) ms' ms = ms @ ms'"
proof (induction ms' arbitrary: ms)
  case (Cons m ms')
  obtain k v where m: "m = (k, v)" by (cases m)
  have "obj_set k v ms = ms @ [(k, v)]"
    using Cons.prems by (intro obj_set_last) (auto simp: m keys_sorted_def sorted_wrt_append)
  then show ?case using Cons.IH [of "ms @ [m]"] Cons.prems by (simp add: m)
qed simp

lemma fold_snoc: "fold (\<lambda>v vs. vs @ [v]) vs us = us @ vs"
  by (induction vs arbitrary: us) simp_all

lemma length_output_elems: "t \<in> set ts \<Longrightarrow> length t \<le> length (output_elems p l ts)"
  by (induction ts) auto

lemma length_compound: "t \<in> set ts \<Longrightarrow> length t < length (output_array_or_obj p l ts c c')"
  using length_output_elems [of t ts p "l + 1"] by (simp add: output_array_or_obj_def)

lemma string_p_None: "json_skip t = c # r \<Longrightarrow> c \<noteq> CHR 0x22 \<Longrightarrow> string_p S t = None"
  by (simp add: string_p_def)

context spirit_laws
begin

lemma number_p_None:
  assumes "json_skip t = c # r" "\<not> is_digit c" "c \<notin> set ''+-.''"
  shows "number_p S t = None"
proof -
  have "\<not> number_start (c # r)" using assms by (auto simp: number_start_def)
  then show ?thesis using number_prefix [of "c # r"] by (simp add: number_p_def assms(1))
qed

lemma value_p_bracket:
  assumes "ws w" "0 < n" shows "value_p n S (w @ CHR '']'' # r) = Inr None"
proof -
  obtain m where m: "n = Suc m" using assms by (cases n) simp_all
  have sk: "json_skip (w @ CHR '']'' # r) = CHR '']'' # r" using assms by simp
  then show ?thesis
    using string_p_None [OF sk] number_p_None [OF sk] assms(1)
    by (simp add: m is_digit_def char_p_Cons literal_p_def)
qed

lemma pair_p_bracket:
  assumes "ws w" shows "pair_p S val (w @ CHR ''}'' # r) = Inr None"
  using string_p_None [of "w @ CHR ''}'' # r" "CHR ''}''" r S] assms by (simp add: pair_p_def)

lemma pair_reads:
  assumes "reads val t v"
  shows "reads (pair_p S val) (output_str S k @ json_space p @ '':'' @ json_space p @ t) (k, v)"
  unfolding reads_def
proof (intro allI impI)
  fix w r assume w: "ws w" and r: "ok_rest r"
  let ?u = "json_space p @ CHR '':'' # json_space p @ t @ r"
  have "json_skip (w @ output_str S k @ ?u) = output_str S k @ ?u"
    using w by (simp add: output_str_def)
  then have "string_p S (w @ output_str S k @ ?u) = Some (k, ?u)" by (rule string_p_output)
  moreover have "char_p (CHR '':'') ?u = Some (json_space p @ t @ r)"
    using char_p_Cons [OF layout_ws(3), of "CHR '':''" "CHR '':''"] by simp
  moreover have "val (json_space p @ t @ r) = Inr (Some (v, r))"
    using assms r layout_ws(3) unfolding reads_def by blast
  ultimately show "pair_p S val (w @ (output_str S k @ json_space p @ '':'' @ json_space p @ t) @ r)
      = Inr (Some ((k, v), r))"
    by (simp add: pair_p_def)
qed

lemma number_reads:
  assumes "ok_rest r" "json_skip t = show_int i @ r" "- (2 ^ 63) \<le> i" "i < 2 ^ 64"
  shows "number_p S t = Some (if i < 2 ^ 63 then JInt i else JUint (nat i), r)"
proof -
  note r = ok_rest_number [OF assms(1)]
  have "strict_real_p S (show_int i @ r) = None" using real_int r by blast
  moreover have "int64_p S (show_int i @ r) = (if i < 2 ^ 63 then Some (i, r) else None)"
    using int64_show [of i r] int64_overflow [of i r] r assms(3) by simp
  moreover have "uint64_p S (show_int i @ r) = Some (nat i, r)" if "\<not> i < 2 ^ 63"
    using that uint64_show [of "nat i" r] r assms(4) by (simp add: show_int_def nat_less_iff)
  ultimately show ?thesis by (simp add: number_p_def assms(2))
qed

lemma show_int_start: "\<exists>c cs. show_int i = c # cs \<and> \<not> is_space c \<and> c \<noteq> CHR 0x22"
proof (cases "i < 0")
  case False
  obtain c cs where "show_nat (nat i) = c # cs" "is_digit c" using show_nat_Cons by blast
  then show ?thesis using is_digit_char [of c] False by (auto simp: show_int_def is_digit_def)
qed (simp add: show_int_def is_space_def)

lemma int_reads:
  assumes "- (2 ^ 63) \<le> i" "i < 2 ^ 64" "0 < n"
  shows "reads (value_p n S) (show_int i) (if i < 2 ^ 63 then JInt i else JUint (nat i))"
  unfolding reads_def
proof (intro allI impI)
  fix w r assume w: "ws w" and r: "ok_rest r"
  obtain m where m: "n = Suc m" using assms(3) by (cases n) simp_all
  obtain c cs where c: "show_int i = c # cs" "\<not> is_space c" "c \<noteq> CHR 0x22" using show_int_start by blast
  have sk: "json_skip (w @ show_int i @ r) = show_int i @ r" using w c by simp
  then have "string_p S (w @ show_int i @ r) = None" using string_p_None c by fastforce
  then show "value_p n S (w @ show_int i @ r) = Inr (Some (if i < 2 ^ 63 then JInt i else JUint (nat i), r))"
    using number_reads [OF r sk assms(1,2)] by (simp add: m)
qed

lemma literal_reads:
  assumes "0 < n" "(t, v) \<in> {(''true'', JBool True), (''false'', JBool False), (''null'', JNull)}"
  shows "reads (value_p n S) t v"
  unfolding reads_def
proof (intro allI impI)
  fix w r assume w: "ws w"
  obtain m where m: "n = Suc m" using assms(1) by (cases n) simp_all
  obtain c cs where c: "t = c # cs" "c \<in> set ''tfn''" using assms(2) by auto
  have nc: "\<not> is_space c" "c \<noteq> CHR 0x22" "\<not> is_digit c" "c \<notin> set ''+-.''" "c \<noteq> CHR ''{''" "c \<noteq> CHR ''[''"
    using c(2) by (auto simp: is_digit_def)
  have sk: "json_skip (w @ t @ r) = t @ r" using w c nc by simp
  have "string_p S (w @ t @ r) = None" "number_p S (w @ t @ r) = None"
    using string_p_None [of "w @ t @ r" c] number_p_None [of "w @ t @ r" c] sk c(1) nc by simp_all
  moreover have "char_p (CHR ''{'') (w @ t @ r) = None" "char_p (CHR ''['') (w @ t @ r) = None"
    using nc(5,6) unfolding char_p_def sk by (simp_all add: c(1))
  moreover have "literal_p u (w @ t @ r) = (if take (length u) (t @ r) = u then Some (drop (length u) (t @ r)) else None)" for u
    by (simp only: literal_p_def sk Let_def)
  ultimately show "value_p n S (w @ t @ r) = Inr (Some (v, r))"
    using assms(2) unfolding m value_p.simps by (elim insertE) simp_all
qed

lemma value_p_compound:
  assumes "ws w" "c = CHR ''{'' \<or> c = CHR ''[''"
  shows "value_p (Suc m) S (w @ c # s) =
    (if c = CHR ''{'' then compound_value JObj (object_p S (value_p m S) s)
     else compound_value JArr (array_p (value_p m S) s))"
proof -
  have c: "\<not> is_space c" "c \<noteq> CHR 0x22" "\<not> is_digit c" "c \<notin> set ''+-.''"
    using assms(2) by (auto simp: is_digit_def)
  have sk: "json_skip (w @ c # s) = c # s" using assms(1) c by simp
  have "string_p S (w @ c # s) = None" "number_p S (w @ c # s) = None"
    using string_p_None [OF sk c(2)] number_p_None [OF sk c(3,4)] by simp_all
  then show ?thesis using assms(2) by (auto simp: char_p_def sk)
qed

declare value_p.simps [simp del]

lemma value_reads:
  "json_wf v \<Longrightarrow> length (output_value S p l v) < n \<Longrightarrow> reads (value_p n S) (output_value S p l v) v"
proof (induction v arbitrary: l n)
  case (JObj ms)
  define ts where "ts = map (\<lambda>(k, v). output_str S k @ json_space p @ '':'' @ json_space p @
      output_value S p (l + 1) v) ms"
  have out: "output_value S p l (JObj ms) = output_array_or_obj p l ts (CHR ''{'') (CHR ''}'')"
    by (simp add: ts_def)
  have "reads (pair_p S (value_p (n - 1) S)) t x" if "(t, x) \<in> set (zip ts ms)" for t x
  proof -
    obtain k v where x: "x = (k, v)" by (cases x)
    have t: "t = output_str S k @ json_space p @ '':'' @ json_space p @ output_value S p (l + 1) v"
      using that x by (auto simp: ts_def zip_map1 zip_same_conv_map)
    have mem: "(k, v) \<in> set ms" "t \<in> set ts" using that x by (auto dest: set_zip_rightD set_zip_leftD)
    have "length (output_value S p (l + 1) v) < n - 1"
      using length_compound [OF mem(2), of p l "CHR ''{''" "CHR ''}''"] JObj.prems(2) out t
      by (simp add: output_str_def)
    then have "reads (value_p (n - 1) S) (output_value S p (l + 1) v) v"
      using JObj.IH [OF mem(1), of v] JObj.prems(1) mem(1) by auto
    then show ?thesis unfolding t x by (rule pair_reads)
  qed
  then have all: "list_all2 (reads (pair_p S (value_p (n - 1) S))) ts ms"
    by (auto simp: list_all2_iff ts_def)
  show ?case
    unfolding reads_def
  proof (intro allI impI)
    fix w r assume w: "ws w"
    have "object_p S (value_p (n - 1) S) (json_new_line p @ output_elems p (l + 1) ts @ json_indent p l @ CHR ''}'' # r)
        = Inr (fold (\<lambda>(k, v). obj_set k v) ms [], r)"
      unfolding object_p_def by (rule compound_reads [OF all]) (auto simp: pair_p_bracket)
    moreover have "fold (\<lambda>(k, v). obj_set k v) ms [] = ms"
      using fold_obj_set [of "[]" ms] JObj.prems by simp
    moreover obtain m where "n = Suc m" using JObj.prems(2) by (cases n) simp_all
    ultimately show "value_p n S (w @ output_value S p l (JObj ms) @ r) = Inr (Some (JObj ms, r))"
      using w unfolding out output_array_or_obj_def by (simp add: value_p_compound compound_value_def)
  qed
next
  case (JArr vs)
  define ts where "ts = map (output_value S p (l + 1)) vs"
  have out: "output_value S p l (JArr vs) = output_array_or_obj p l ts (CHR ''['') (CHR '']'')"
    by (simp add: ts_def)
  have n: "2 \<le> n" using JArr.prems(2) unfolding out output_array_or_obj_def by simp
  have "reads (value_p (n - 1) S) t v" if "(t, v) \<in> set (zip ts vs)" for t v
  proof -
    have t: "t = output_value S p (l + 1) v"
      using that by (auto simp: ts_def zip_map1 zip_same_conv_map)
    have mem: "v \<in> set vs" "t \<in> set ts" using that by (auto dest: set_zip_rightD set_zip_leftD)
    have "length (output_value S p (l + 1) v) < n - 1"
      using length_compound [OF mem(2), of p l "CHR ''[''" "CHR '']''"] JArr.prems(2) out t by simp
    then show ?thesis using JArr.IH [OF mem(1)] JArr.prems(1) mem(1) t by auto
  qed
  then have all: "list_all2 (reads (value_p (n - 1) S)) ts vs"
    by (auto simp: list_all2_iff ts_def)
  show ?case
    unfolding reads_def
  proof (intro allI impI)
    fix w r assume w: "ws w"
    have "array_p (value_p (n - 1) S) (json_new_line p @ output_elems p (l + 1) ts @ json_indent p l @ CHR '']'' # r)
        = Inr (fold (\<lambda>v vs. vs @ [v]) vs [], r)"
      unfolding array_p_def by (rule compound_reads [OF all]) (use n value_p_bracket in auto)
    moreover obtain m where "n = Suc m" using n by (cases n) simp_all
    ultimately show "value_p n S (w @ output_value S p l (JArr vs) @ r) = Inr (Some (JArr vs, r))"
      using w fold_snoc [of vs "[]"] unfolding out output_array_or_obj_def
      by (simp add: value_p_compound compound_value_def)
  qed
next
  case (JStr s)
  then obtain m where m: "n = Suc m" by (cases n) simp_all
  have "string_p S (w @ output_str S s @ r) = Some (s, r)" if "ws w" for w r
    using that by (intro string_p_output) (simp add: output_str_def)
  then show ?case by (simp add: reads_def m value_p.simps)
next
  case (JBool b)
  then show ?case using literal_reads [of n] by (cases b) auto
next
  case (JInt i)
  then have "0 < n" by (cases n) simp_all
  then show ?case using int_reads [of i n] JInt.prems(1) by simp
next
  case (JUint k)
  then have "0 < n" by (cases n) simp_all
  moreover have "show_int (int k) = show_nat k" by (simp add: show_int_def)
  ultimately show ?case using int_reads [of "int k" n] JUint.prems(1) by simp
next
  case JNull
  then show ?case using literal_reads [of n] by (cases n) auto
qed simp

lemma read_write: "json_wf v \<Longrightarrow> read_string S (write_string S v p) v0 = (True, v)"
proof -
  assume wf: "json_wf v"
  let ?t = "output_value S p 0 v"
  have "reads (value_p (length ?t + 1) S) ?t v" using value_reads [OF wf] by simp
  moreover have "ok_rest []" by (simp add: ok_rest_def)
  ultimately have "value_p (length ?t + 1) S ([] @ ?t @ []) = Inr (Some (v, []))"
    unfolding reads_def by (metis empty_iff list.set(1))
  then show ?thesis by (simp add: read_string_def read_range_or_throw_def write_string_def)
qed

end

section \<open>Every text is read to an end\<close>

definition no_fuel_error :: "(parse_error \<times> 'b) + 'c \<Rightarrow> bool" where
  "no_fuel_error m = (case m of Inl (e, _) \<Rightarrow> e \<noteq> OutOfFuel | Inr _ \<Rightarrow> True)"

text \<open>A rule that, on texts shorter than \<open>N\<close>, never runs out of fuel and consumes what it matches.\<close>

definition progresses :: "nat \<Rightarrow> 'a rule \<Rightarrow> bool" where
  "progresses N item \<longleftrightarrow> (\<forall>s. length s < N \<longrightarrow>
     no_fuel_error (item s) \<and> (\<forall>x r. item s = Inr (Some (x, r)) \<longrightarrow> length r < length s))"

lemma length_json_skip: "length (json_skip s) \<le> length s"
  by (simp add: json_skip_def length_dropWhile_le)

lemma char_p_less: "char_p c s = Some r \<Longrightarrow> length r < length s"
  using length_json_skip [of s] by (auto simp: char_p_def split: list.splits if_splits)

lemma literal_p_less: "literal_p u s = Some r \<Longrightarrow> u \<noteq> [] \<Longrightarrow> length r < length s"
proof -
  assume l: "literal_p u s = Some r" and u: "u \<noteq> []"
  then have "take (length u) (json_skip s) = u" "r = drop (length u) (json_skip s)"
    by (auto simp: literal_p_def Let_def split: if_splits)
  then have "json_skip s = u @ r" by (metis append_take_drop_id)
  then have "length (json_skip s) = length u + length r" by simp
  then show ?thesis using length_json_skip [of s] u by (cases u) auto
qed

lemma list_loop_progress:
  assumes "progresses N item"
  shows "length s < N \<Longrightarrow> length s < n \<Longrightarrow> no_fuel_error (list_loop item add n acc s) \<and>
    (\<forall>acc' r. list_loop item add n acc s = Inr (acc', r) \<longrightarrow> length r \<le> length s)"
proof (induction n arbitrary: acc s)
  case (Suc n)
  show ?case
  proof (cases "char_p (CHR '','') s")
    case (Some r)
    then have r: "length r < length s" by (rule char_p_less)
    then have i: "no_fuel_error (item r)" "\<forall>x r'. item r = Inr (Some (x, r')) \<longrightarrow> length r' < length r"
      using assms Suc.prems(1) unfolding progresses_def by (meson order.strict_trans)+
    show ?thesis
    proof (cases "item r")
      case (Inl em)
      then show ?thesis using i Some by (cases em) (simp add: list_loop.simps no_fuel_error_def)
    next
      case (Inr m)
      show ?thesis
      proof (cases m)
        case None
        then show ?thesis using Inr Some \<open>char_p (CHR '','') s = Some r\<close>
          by (simp add: list_loop.simps no_fuel_error_def)
      next
        case (Some xr)
        obtain x r' where xr: "xr = (x, r')" by (cases xr)
        then have r': "length r' < length r" using i Inr Some by simp
        have "list_loop item add (Suc n) acc s = list_loop item add n (add x acc) r'"
          using Inr Some xr \<open>char_p (CHR '','') s = Some r\<close> by (simp add: list_loop.simps)
        moreover have "length r' < N" "length r' < n" using Suc.prems r r' by simp_all
        ultimately show ?thesis using Suc.IH [of r' "add x acc"] r r' by (metis le_trans less_imp_le)
      qed
    qed
  qed (simp add: list_loop.simps no_fuel_error_def)
qed simp

lemma compound_progress:
  assumes "progresses N item" "length s < N" "e \<noteq> OutOfFuel"
  shows "no_fuel_error (compound_p item add start c e s) \<and>
    (\<forall>acc r. compound_p item add start c e s = Inr (acc, r) \<longrightarrow> length r < length s)"
proof -
  define m where "m = (case item s of
          Inl (e, m) \<Rightarrow> Inl (e, case m of None \<Rightarrow> start | Some x \<Rightarrow> add x start)
        | Inr None \<Rightarrow> Inr (start, s)
        | Inr (Some (x, r)) \<Rightarrow> list_loop item add (length r + 1) (add x start) r)"
  have i: "no_fuel_error (item s)" "\<forall>x r. item s = Inr (Some (x, r)) \<longrightarrow> length r < length s"
    using assms unfolding progresses_def by blast+
  have m: "no_fuel_error m \<and> (\<forall>acc r. m = Inr (acc, r) \<longrightarrow> length r \<le> length s)"
  proof (cases "item s")
    case (Inl em)
    then show ?thesis using i by (cases em) (simp add: m_def no_fuel_error_def)
  next
    case (Inr o')
    show ?thesis
    proof (cases o')
      case None
      then show ?thesis using Inr by (simp add: m_def no_fuel_error_def)
    next
      case (Some xr)
      obtain x r where xr: "xr = (x, r)" by (cases xr)
      then have r: "length r < length s" using i Inr Some by simp
      then have "length r < N" using assms(2) by simp
      from list_loop_progress [OF assms(1) this, of "length r + 1" add "add x start"] r
      show ?thesis unfolding m_def Inr Some xr by (auto dest: order.strict_implies_order)
    qed
  qed
  have eq: "compound_p item add start c e s =
      bind_res m (\<lambda>(acc, r). case char_p c r of Some r' \<Rightarrow> Inr (acc, r') | None \<Rightarrow> Inl (e, acc))"
    by (simp add: compound_p_def m_def)
  show ?thesis
  proof (cases m)
    case (Inl em)
    then show ?thesis using m by (cases em) (simp add: eq no_fuel_error_def)
  next
    case (Inr ar)
    obtain acc r where ar: "ar = (acc, r)" by (cases ar)
    have r: "length r \<le> length s" using m Inr ar by simp
    show ?thesis
    proof (cases "char_p c r")
      case None
      then show ?thesis using Inr ar assms(3) by (simp add: eq no_fuel_error_def)
    next
      case (Some r')
      then have "length r' < length s" using char_p_less [OF Some] r by simp
      then show ?thesis using Inr ar Some by (simp add: eq no_fuel_error_def)
    qed
  qed
qed

context spirit_laws
begin

lemma lexc_le: "length (lexc s) \<le> length s"
proof (induction s rule: length_induct)
  case (1 s)
  show ?case
  proof (cases s)
    case (Cons c r)
    show ?thesis
    proof (cases "lex_escape S r")
      case None
      then show ?thesis using 1 Cons by (auto simp: lexc_Cons)
    next
      case (Some r')
      have "length r' < length r" using lex_escape_less Some by blast
      then have "length (lexc r') \<le> length r'" using 1 Cons by simp
      moreover have "length (lexc r) \<le> length r" using 1 Cons by simp
      ultimately have "length (lexc (c # r)) \<le> Suc (length r)"
        using \<open>length r' < length r\<close> unfolding lexc_Cons Some by (simp split: if_splits)
      then show ?thesis using Cons by simp
    qed
  qed (simp add: lexc_def)
qed

lemma string_p_less: "string_p S s = Some (str, r) \<Longrightarrow> length r < length s"
proof -
  assume a: "string_p S s = Some (str, r)"
  obtain c t where c: "json_skip s = c # t" using a by (cases "json_skip s") (simp_all add: string_p_def)
  have "lexc t = CHR 0x22 # r"
    using a unfolding string_p_def c lexc_def by (auto split: if_splits list.splits)
  then show ?thesis using lexc_le [of t] length_json_skip [of s] c by simp
qed

lemma number_p_less: "number_p S s = Some (v, r) \<Longrightarrow> length r < length s"
  using number_less [of "json_skip s"] length_json_skip [of s]
  by (fastforce simp: number_p_def split: option.splits)

lemma pair_progress: "progresses N val \<Longrightarrow> progresses N (pair_p S val)"
  unfolding progresses_def
proof (intro allI impI)
  fix s :: string assume val: "\<forall>s. length s < N \<longrightarrow>
      no_fuel_error (val s) \<and> (\<forall>x r. val s = Inr (Some (x, r)) \<longrightarrow> length r < length s)" and s: "length s < N"
  show "no_fuel_error (pair_p S val s) \<and> (\<forall>x r. pair_p S val s = Inr (Some (x, r)) \<longrightarrow> length r < length s)"
  proof (cases "string_p S s")
    case (Some kr)
    obtain k r where kr: "kr = (k, r)" by (cases kr)
    have r: "length r < length s" using string_p_less Some kr by blast
    show ?thesis
    proof (cases "char_p (CHR '':'') r")
      case None
      then show ?thesis using Some kr by (simp add: pair_p_def no_fuel_error_def)
    next
      case (Some r')
      have r': "length r' < length s" using char_p_less [OF Some] r by simp
      then have "no_fuel_error (val r')" "\<forall>x r''. val r' = Inr (Some (x, r'')) \<longrightarrow> length r'' < length r'"
        using val s by (meson order.strict_trans)+
      then show ?thesis
        using \<open>string_p S s = Some kr\<close> kr Some r'
        by (auto simp: pair_p_def no_fuel_error_def split: sum.splits option.splits)
    qed
  qed (simp add: pair_p_def no_fuel_error_def)
qed

lemma compound_value_progress:
  "no_fuel_error m \<and> (\<forall>acc r. m = Inr (acc, r) \<longrightarrow> length r < k) \<Longrightarrow>
   no_fuel_error (compound_value f m) \<and> (\<forall>x r. compound_value f m = Inr (Some (x, r)) \<longrightarrow> length r < k)"
  by (auto simp: compound_value_def no_fuel_error_def split: sum.splits)

lemma value_progress: "progresses n (value_p n S)"
proof (induction n)
  case (Suc n)
  show ?case
    unfolding progresses_def
  proof (intro allI impI)
    fix s :: string assume s: "length s < Suc n"
    have obj: "no_fuel_error (compound_value JObj (object_p S (value_p n S) r)) \<and>
        (\<forall>x r'. compound_value JObj (object_p S (value_p n S) r) = Inr (Some (x, r')) \<longrightarrow> length r' < length r)"
      if "length r < n" for r
      unfolding object_p_def using compound_progress [OF pair_progress [OF Suc] that, of NotAnObject]
      by (intro compound_value_progress) simp
    have arr: "no_fuel_error (compound_value JArr (array_p (value_p n S) r)) \<and>
        (\<forall>x r'. compound_value JArr (array_p (value_p n S) r) = Inr (Some (x, r')) \<longrightarrow> length r' < length r)"
      if "length r < n" for r
      unfolding array_p_def using compound_progress [OF Suc that, of NotAnArray]
      by (intro compound_value_progress) simp
    have br: "char_p c s = Some r \<Longrightarrow> length r < n \<and> length r < length s" for c r
      using char_p_less [of c s r] s by simp
    have obj': "no_fuel_error (compound_value JObj (object_p S (value_p n S) r)) \<and>
        (\<forall>x r'. compound_value JObj (object_p S (value_p n S) r) = Inr (Some (x, r')) \<longrightarrow> length r' < length s)"
      if "char_p (CHR ''{'') s = Some r" for r
      using obj [of r] br [OF that] by fastforce
    have arr': "no_fuel_error (compound_value JArr (array_p (value_p n S) r)) \<and>
        (\<forall>x r'. compound_value JArr (array_p (value_p n S) r) = Inr (Some (x, r')) \<longrightarrow> length r' < length s)"
      if "char_p (CHR ''['') s = Some r" for r
      using arr [of r] br [OF that] by fastforce
    show "no_fuel_error (value_p (Suc n) S s) \<and>
        (\<forall>x r. value_p (Suc n) S s = Inr (Some (x, r)) \<longrightarrow> length r < length s)"
      using string_p_less [of s] number_p_less [of s] literal_p_less [of _ s] obj' arr'
      by (auto simp: value_p.simps no_fuel_error_def [of "Inr _"] split: option.splits)
  qed
qed (simp add: progresses_def)

lemma read_ends: "read_range_or_throw S s \<noteq> Inl (OutOfFuel, m)"
proof -
  have "no_fuel_error (value_p (length s + 1) S s)"
    using value_progress [of "length s + 1"] unfolding progresses_def by simp
  then show ?thesis
    by (auto simp: read_range_or_throw_def no_fuel_error_def split: sum.splits option.splits)
qed

end

section \<open>Properties\<close>

text \<open>
  C9: what is written is read back.  For every value without doubles whose objects list their keys
  in order, \<open>read_string\<close> on the output of \<open>write_string\<close>, compact or indented, succeeds and gives
  the value: the escapes, the layout and the numbers of the writer are those the grammar accepts.
\<close>

theorem json_text_roundtrip:
  assumes "spirit_laws S" "json_wf v"
  shows "read_string S (write_string S v pretty) v0 = (True, v)"
  using assms by (rule spirit_laws.read_write)

theorem json_text_roundtrip_witness:
  "read_string repo_spirit (write_string repo_spirit
     (JObj [(''id'', JStr [CHR 0x22, CHR 0x0A, CHR 0x07]), (''n'', JArr [JInt (-5), JUint (2 ^ 63), JNull])]) True) JNull
   = (True, JObj [(''id'', JStr [CHR 0x22, CHR 0x0A, CHR 0x07]), (''n'', JArr [JInt (-5), JUint (2 ^ 63), JNull])])"
  by (rule json_text_roundtrip [OF repo_json.spirit_laws_axioms])
    (simp add: keys_sorted_def byte_of_char_def word_less_nat_alt)

text \<open>
  C30: reading ends on every text.  The bound on the nesting, and that of each repetition, is never
  reached, because every level and every repetition consumes a character.
\<close>

theorem json_reading_ends:
  assumes "spirit_laws S"
  shows "read_range_or_throw S s \<noteq> Inl (OutOfFuel, m)"
  using assms by (rule spirit_laws.read_ends)

theorem json_reading_ends_witness:
  "read_range_or_throw repo_spirit ''[[[[[[[['' \<noteq> Inl (OutOfFuel, None)"
  by (rule json_reading_ends [OF repo_json.spirit_laws_axioms])

end
