(* ===== verification/Secret_Store.thy ===== *)
theory Secret_Store
  imports Json_Theorems Dev_Crypto "HOL-Library.AList"
begin

text \<open>
  \<^verbatim>\<open>libdevcrypto/SecretStore\<close>: encrypted keys, in memory and as files of a directory.  The state is
  the two maps, the path and the files.  \<open>std::unordered_map\<close> is an association list, whose order is
  the order of iteration; paths are strings, equal when they name the same file.  Randomness is an
  argument of the operations that draw it.
\<close>

section \<open>The environment\<close>

text \<open>
  The hash, the curve and the cipher, the JSON primitives, the two key derivation functions (which
  throw when the library reports failure) and \<open>boost::replace_all_copy\<close>.
\<close>

record store_env =
  env_crypto :: crypto
  env_json :: spirit
  env_scrypt :: "string \<Rightarrow> bytes \<Rightarrow> nat \<Rightarrow> nat \<Rightarrow> nat \<Rightarrow> nat \<Rightarrow> bytes option"
  env_pbkdf2 :: "string \<Rightarrow> bytes \<Rightarrow> nat \<Rightarrow> nat \<Rightarrow> bytes option"
  env_replace_all :: "string \<Rightarrow> string \<Rightarrow> string \<Rightarrow> string"

datatype store_error = StJson json_error | StHex hex_error | StStoi stoi_error | CryptoException | OutOfRange

datatype KDF = PBKDF2_SHA256 | Scrypt

definition throw_as :: "('e \<Rightarrow> store_error) \<Rightarrow> 'e + 'a \<Rightarrow> store_error + 'a" where
  "throw_as f m = (case m of Inl e \<Rightarrow> Inl (f e) | Inr x \<Rightarrow> Inr x)"

definition str_at :: "string \<Rightarrow> mObject \<Rightarrow> store_error + string" where
  "str_at k o' = throw_as StJson (json_str (obj_at k o'))"

definition obj_in :: "string \<Rightarrow> mObject \<Rightarrow> store_error + mObject" where
  "obj_in k o' = throw_as StJson (json_obj (obj_at k o'))"

text \<open>\<open>get_int()\<close> passed where \<open>w\<close> unsigned bits are expected.\<close>

definition uint_at :: "nat \<Rightarrow> string \<Rightarrow> mObject \<Rightarrow> store_error + nat" where
  "uint_at w k o' = bind_res (throw_as StJson (json_int (obj_at k o'))) (\<lambda>i. Inr (nat (i mod 2 ^ w)))"

definition hash_at :: "nat \<Rightarrow> string \<Rightarrow> mObject \<Rightarrow> store_error + FixedHash" where
  "hash_at N k o' = bind_res (str_at k o') (\<lambda>s. throw_as StHex (hash_of_string N s FromHex FailIfDifferent))"

definition bytes_at :: "string \<Rightarrow> mObject \<Rightarrow> store_error + bytes" where
  "bytes_at k o' = bind_res (str_at k o') (\<lambda>s. throw_as StHex (fromHex s DontThrow))"

section \<open>Key files\<close>

definition c_keyFileVersion :: int where
  "c_keyFileVersion = 3"

text \<open>The parameters of version 1 under their new names, without \<open>SaltLen\<close>.\<close>

fun lower_params :: "mObject \<Rightarrow> mObject \<Rightarrow> mObject" where
  "lower_params [] kp = kp"
| "lower_params ((k, v) # ps) kp =
     lower_params ps (if k \<noteq> ''SaltLen'' then obj_set (tolower_string k) v kp else kp)"

definition upgrade_1 :: "string \<Rightarrow> mObject \<Rightarrow> store_error + mObject" where
  "upgrade_1 s old =
     bind_res (obj_in ''Crypto'' old) (\<lambda>cr.
     bind_res (obj_in ''KeyHeader'' cr) (\<lambda>kh.
     bind_res (obj_in ''KdfParams'' kh) (\<lambda>ps.
       let cp = obj_set ''iv'' (obj_at ''IV'' cr) [];
           kp = lower_params ps (obj_set ''salt'' (obj_at ''Salt'' cr) []);
           c = obj_set ''sillymacjson'' (JStr s)
                (obj_set ''sillymac'' (obj_at ''MAC'' cr)
                (obj_set ''kdfparams'' (JObj kp)
                (obj_set ''kdf'' (obj_at ''Kdf'' kh)
                (obj_set ''cipherparams'' (JObj cp)
                (obj_set ''cipher'' (JStr ''aes-128-cbc'')
                (obj_set ''ciphertext'' (obj_at ''CipherText'' cr) []))))))
       in Inr (obj_set ''crypto'' (JObj c) (obj_set ''id'' (obj_at ''Id'' old) [])))))"

definition upgrade_2 :: "mObject \<Rightarrow> store_error + mObject" where
  "upgrade_2 ret =
     bind_res (obj_in ''crypto'' ret) (\<lambda>c.
       Inr (obj_set ''crypto'' (JObj (obj_set ''compat'' (JStr ''2'') (obj_set ''cipher'' (JStr ''aes-128-ctr'') c))) ret))"

definition file_version :: "mObject \<Rightarrow> store_error + int" where
  "file_version ret =
     (if obj_count ''Version'' ret then bind_res (str_at ''Version'' ret) (\<lambda>s. throw_as StStoi (stoi s))
      else if obj_count ''version'' ret then throw_as StJson (json_int (obj_at ''version'' ret))
      else Inr 0)"

text \<open>The return value of \<open>read_string\<close> is ignored.\<close>

definition upgraded :: "store_env \<Rightarrow> string \<Rightarrow> store_error + mValue" where
  "upgraded E s =
     (case snd (read_string (env_json E) s JNull) of
        JObj ret \<Rightarrow>
          bind_res (file_version ret) (\<lambda>version.
          bind_res (if version = 1 then bind_res (upgrade_1 s ret) (\<lambda>r. Inr (r, 2)) else Inr (ret, version)) (\<lambda>(ret, version).
          let ret = (if obj_count ''Crypto'' ret \<and> \<not> obj_count ''crypto'' ret
                     then obj_erase ''Crypto'' (obj_set ''crypto'' (obj_at ''Crypto'' ret) ret) else ret) in
          bind_res (if version = 2 then bind_res (upgrade_2 ret) (\<lambda>r. Inr (r, 3)) else Inr (ret, version)) (\<lambda>(ret, version).
            Inr (if version = c_keyFileVersion then JObj ret else JNull))))
      | _ \<Rightarrow> Inr JNull)"

section \<open>Encryption\<close>

definition kdf_iterations :: nat where
  "kdf_iterations = 2 ^ 18"

definition deriveNewKey :: "store_env \<Rightarrow> bytes \<Rightarrow> string \<Rightarrow> KDF \<Rightarrow> mObject \<Rightarrow> store_error + (bytes \<times> mObject)" where
  "deriveNewKey E salt pass kdf ret =
     (let dklen = 32; r = 8; p = 1 in
      case kdf of
        Scrypt \<Rightarrow>
          (let params = obj_set ''salt'' (JStr (toHex salt)) (obj_set ''dklen'' (JInt (int dklen))
                (obj_set ''p'' (JInt (int p)) (obj_set ''r'' (JInt (int r))
                (obj_set ''n'' (JInt (int kdf_iterations)) []))));
               ret = obj_set ''kdfparams'' (JObj params) (obj_set ''kdf'' (JStr ''scrypt'') ret)
           in case env_scrypt E pass salt kdf_iterations r p dklen of
                None \<Rightarrow> Inl CryptoException | Some k \<Rightarrow> Inr (k, ret))
      | PBKDF2_SHA256 \<Rightarrow>
          (let params = obj_set ''dklen'' (JInt (int dklen)) (obj_set ''salt'' (JStr (toHex salt))
                (obj_set ''c'' (JInt (int kdf_iterations)) (obj_set ''prf'' (JStr ''hmac-sha256'') [])));
               ret = obj_set ''kdfparams'' (JObj params) (obj_set ''kdf'' (JStr ''pbkdf2'') ret)
           in case env_pbkdf2 E pass salt kdf_iterations dklen of
                None \<Rightarrow> Inl CryptoException | Some k \<Rightarrow> Inr (k, ret)))"

definition encrypt :: "store_env \<Rightarrow> bytes \<Rightarrow> FixedHash \<Rightarrow> bytes \<Rightarrow> string \<Rightarrow> KDF \<Rightarrow> store_error + string" where
  "encrypt E salt iv v pass kdf =
     bind_res (deriveNewKey E salt pass kdf []) (\<lambda>(derivedKey, ret).
       if derivedKey = [] then Inl CryptoException
       else (let ret = obj_set ''cipher'' (JStr ''aes-128-ctr'') ret;
                 key = hash_of_bytes 16 derivedKey AlignLeft;
                 ret = obj_set ''cipherparams'' (JObj (obj_set ''iv'' (JStr (toHex iv)) [])) ret;
                 cipherText = encryptAES128CTR (env_crypto E) key iv v in
             if cipherText = [] then Inl CryptoException
             else (let ret = obj_set ''ciphertext'' (JStr (toHex cipherText)) ret;
                       mac = keccak256 (env_crypto E) (cropped derivedKey 16 16 @ cipherText);
                       ret = obj_set ''mac'' (JStr (toHex mac)) ret
                   in Inr (write_string (env_json E) (JObj ret) True))))"

definition is_compat :: "mObject \<Rightarrow> store_error + bool" where
  "is_compat o' = (if obj_count ''compat'' o' then bind_res (str_at ''compat'' o') (\<lambda>s. Inr (s = ''2'')) else Inr False)"

text \<open>\<open>derivedKey.ref().cropped(derivedKey.size() - 16)\<close>, with the subtraction of \<open>size_t\<close>.\<close>

definition last_16 :: "bytes \<Rightarrow> bytes" where
  "last_16 d = cropped_from d ((length d + 2 ^ 64 - 16) mod 2 ^ 64)"

text \<open>The key, or \<open>None\<close> where the function returns the empty array.\<close>

definition derive_key :: "store_env \<Rightarrow> mObject \<Rightarrow> string \<Rightarrow> store_error + bytes option" where
  "derive_key E o' pass =
     bind_res (str_at ''kdf'' o') (\<lambda>kdf.
       if kdf = ''pbkdf2'' then
         bind_res (obj_in ''kdfparams'' o') (\<lambda>params.
         bind_res (str_at ''prf'' params) (\<lambda>prf.
           if prf \<noteq> ''hmac-sha256'' then Inr None
           else
             bind_res (uint_at 32 ''c'' params) (\<lambda>iterations.
             bind_res (bytes_at ''salt'' params) (\<lambda>salt.
             bind_res (uint_at 32 ''dklen'' params) (\<lambda>dklen.
               case env_pbkdf2 E pass salt iterations dklen of
                 None \<Rightarrow> Inl CryptoException | Some k \<Rightarrow> Inr (Some k))))))
       else if kdf = ''scrypt'' then
         bind_res (obj_in ''kdfparams'' o') (\<lambda>p.
         bind_res (bytes_at ''salt'' p) (\<lambda>salt.
         bind_res (uint_at 64 ''n'' p) (\<lambda>pn.
         bind_res (uint_at 32 ''r'' p) (\<lambda>pr.
         bind_res (uint_at 32 ''p'' p) (\<lambda>pp.
         bind_res (uint_at 32 ''dklen'' p) (\<lambda>dklen.
           case env_scrypt E pass salt pn pr pp dklen of
             None \<Rightarrow> Inl CryptoException | Some k \<Rightarrow> Inr (Some k)))))))
       else Inr None)"

definition mac_matches :: "store_env \<Rightarrow> mObject \<Rightarrow> bytes \<Rightarrow> bytes \<Rightarrow> store_error + bool" where
  "mac_matches E o' derivedKey cipherText =
     (if obj_count ''mac'' o' then
        bind_res (hash_at 32 ''mac'' o') (\<lambda>mac.
        bind_res (is_compat o') (\<lambda>compat.
          Inr (mac = keccak256 (env_crypto E)
            ((if compat then last_16 derivedKey else cropped derivedKey 16 16) @ cipherText))))
      else if obj_count ''sillymac'' o' then
        bind_res (hash_at 32 ''sillymac'' o') (\<lambda>mac.
        bind_res (str_at ''sillymacjson'' o') (\<lambda>js.
          Inr (mac = keccak256 (env_crypto E) (asBytes js @ last_16 derivedKey @ cipherText))))
      else Inr True)"

definition decrypt :: "store_env \<Rightarrow> string \<Rightarrow> string \<Rightarrow> store_error + bytes" where
  "decrypt E v pass =
     bind_res (throw_as StJson (json_obj (snd (read_string (env_json E) v JNull)))) (\<lambda>o'.
     bind_res (derive_key E o' pass) (\<lambda>dk.
       case dk of
         None \<Rightarrow> Inr []
       | Some derivedKey \<Rightarrow>
           bind_res (if length derivedKey < 32 then bind_res (is_compat o') (\<lambda>c. Inr (\<not> c)) else Inr False) (\<lambda>short.
             if short then Inr []
             else
               bind_res (bytes_at ''ciphertext'' o') (\<lambda>cipherText.
               bind_res (mac_matches E o' derivedKey cipherText) (\<lambda>ok.
                 if \<not> ok then Inr []
                 else
                   bind_res (str_at ''cipher'' o') (\<lambda>cipher.
                     if cipher = ''aes-128-ctr'' then
                       bind_res (obj_in ''cipherparams'' o') (\<lambda>params.
                       bind_res (hash_at 16 ''iv'' params) (\<lambda>iv.
                       bind_res (is_compat o') (\<lambda>compat.
                         let key = (if compat then hash_of_hash 16 (keccak256 (env_crypto E) (last_16 derivedKey)) AlignRight
                                    else hash_of_bytes 16 derivedKey AlignLeft)
                         in Inr (decryptAES128CTR (env_crypto E) key iv cipherText))))
                     else Inr []))))))"

section \<open>The store\<close>

record EncryptedKey =
  encryptedKey :: string
  filename :: string
  key_address :: FixedHash

record SecretStore =
  m_cached :: "FixedHash \<rightharpoonup> bytes"
  m_keys :: "(FixedHash \<times> EncryptedKey) list"
  m_path :: string
  disk :: "string \<rightharpoonup> string"

definition SecretStore_new :: "(string \<rightharpoonup> string) \<Rightarrow> SecretStore" where
  "SecretStore_new d = \<lparr>m_cached = Map.empty, m_keys = [], m_path = [], disk = d\<rparr>"

definition path_join :: "string \<Rightarrow> string \<Rightarrow> string" where
  "path_join p f = (if p \<noteq> [] \<and> last p = CHR ''/'' then p @ f else p @ ''/'' @ f)"

definition key_file :: "string \<Rightarrow> FixedHash \<Rightarrow> string" where
  "key_file keysPath u = path_join keysPath (toUUID u) @ ''.json''"

definition key_content :: "store_env \<Rightarrow> FixedHash \<Rightarrow> EncryptedKey \<Rightarrow> string" where
  "key_content E u k =
     (let crypto = snd (read_string (env_json E) (encryptedKey k) JNull);
          v = obj_set ''version'' (JInt c_keyFileVersion) (obj_set ''id'' (JStr (toUUID u))
                (obj_set ''crypto'' crypto (obj_set ''address'' (JStr (hash_hex (key_address k))) [])))
      in write_string (env_json E) (JObj v) True)"

fun save_loop :: "store_env \<Rightarrow> string \<Rightarrow> (FixedHash \<times> EncryptedKey) list \<Rightarrow> (string \<rightharpoonup> string) \<Rightarrow>
    (FixedHash \<times> EncryptedKey) list \<times> (string \<rightharpoonup> string)" where
  "save_loop E keysPath [] d = ([], d)"
| "save_loop E keysPath ((u, k) # ks) d =
     (let file = key_file keysPath u;
          d = d(file \<mapsto> key_content E u k);
          d = (if filename k \<noteq> [] \<and> filename k \<noteq> file then d(filename k := None) else d);
          (ks', d') = save_loop E keysPath ks d
      in ((u, k\<lparr>filename := file\<rparr>) # ks', d'))"

definition save_to :: "store_env \<Rightarrow> string \<Rightarrow> SecretStore \<Rightarrow> SecretStore" where
  "save_to E keysPath st =
     (if keysPath = [] then st
      else (let (ks, d) = save_loop E keysPath (m_keys st) (disk st) in st\<lparr>m_keys := ks, disk := d\<rparr>))"

definition save :: "store_env \<Rightarrow> SecretStore \<Rightarrow> SecretStore" where
  "save E st = save_to E (m_path st) st"

definition noteAddress :: "FixedHash \<Rightarrow> FixedHash \<Rightarrow> SecretStore \<Rightarrow> bool \<times> SecretStore" where
  "noteAddress uuid addr st =
     (case map_of (m_keys st) uuid of
        None \<Rightarrow> (False, st)
      | Some k \<Rightarrow>
          if hash_eq (key_address k) (hash_zero 20)
          then (True, st\<lparr>m_keys := AList.update uuid (k\<lparr>key_address := addr\<rparr>) (m_keys st)\<rparr>)
          else (False, st))"

definition Secret_of :: "bytes \<Rightarrow> FixedHash" where
  "Secret_of b = hash_of_bytes 32 b FailIfDifferent"

definition secret :: "store_env \<Rightarrow> FixedHash \<Rightarrow> string \<Rightarrow> bool \<Rightarrow> SecretStore \<Rightarrow> store_error + (bytes \<times> SecretStore)" where
  "secret E uuid pass useCache st =
     (case (if useCache then m_cached st uuid else None) of
        Some k \<Rightarrow> Inr (k, st)
      | None \<Rightarrow>
          (case map_of (m_keys st) uuid of
             None \<Rightarrow> Inr ([], st)
           | Some ek \<Rightarrow>
               bind_res (decrypt E (encryptedKey ek) pass) (\<lambda>key.
                 Inr (key, if key = [] then st
                           else snd (noteAddress uuid (toAddress_secret (env_crypto E) (Secret_of key))
                                       (st\<lparr>m_cached := (m_cached st)(uuid \<mapsto> key)\<rparr>))))))"

definition key_of :: "FixedHash \<Rightarrow> SecretStore \<Rightarrow> (FixedHash \<times> EncryptedKey) option" where
  "key_of addr st = find (\<lambda>(u, k). hash_eq (key_address k) addr) (m_keys st)"

definition secret_address :: "store_env \<Rightarrow> FixedHash \<Rightarrow> string \<Rightarrow> SecretStore \<Rightarrow> store_error + bytes" where
  "secret_address E addr pass st =
     (case key_of addr st of None \<Rightarrow> Inr [] | Some (u, k) \<Rightarrow> decrypt E (encryptedKey k) pass)"

definition secret_content :: "store_env \<Rightarrow> string \<Rightarrow> string \<Rightarrow> bytes" where
  "secret_content E content pass =
     (case bind_res (upgraded E content) (\<lambda>u.
             case u of JObj o' \<Rightarrow> decrypt E (write_string (env_json E) (obj_at ''crypto'' o') False) pass
             | _ \<Rightarrow> Inr []) of
        Inl _ \<Rightarrow> [] | Inr b \<Rightarrow> b)"

definition importSecret :: "store_env \<Rightarrow> FixedHash \<Rightarrow> bytes \<Rightarrow> FixedHash \<Rightarrow> bytes \<Rightarrow> string \<Rightarrow> SecretStore \<Rightarrow>
    store_error + (FixedHash \<times> SecretStore)" where
  "importSecret E r salt iv s pass st =
     bind_res (encrypt E salt iv s pass Scrypt) (\<lambda>e.
       let key = \<lparr>encryptedKey = e, filename = toUUID r,
                  key_address = kp_address (KeyPair_of (env_crypto E) (Secret_of s))\<rparr>
       in Inr (r, save E (st\<lparr>m_cached := (m_cached st)(r \<mapsto> s), m_keys := AList.update r key (m_keys st)\<rparr>)))"

definition kill :: "FixedHash \<Rightarrow> SecretStore \<Rightarrow> SecretStore" where
  "kill uuid st =
     (let st = st\<lparr>m_cached := (m_cached st)(uuid := None)\<rparr> in
      case map_of (m_keys st) uuid of
        None \<Rightarrow> st
      | Some k \<Rightarrow> st\<lparr>disk := (disk st)(filename k := None), m_keys := AList.delete uuid (m_keys st)\<rparr>)"

definition clearCache :: "SecretStore \<Rightarrow> SecretStore" where
  "clearCache st = st\<lparr>m_cached := Map.empty\<rparr>"

definition file_address :: "mObject \<Rightarrow> store_error + FixedHash" where
  "file_address o' =
     (if obj_count ''address'' o'
      then bind_res (str_at ''address'' o') (\<lambda>a.
             if isHex a then throw_as StHex (hash_of_string 20 a FromHex FailIfDifferent) else Inr (hash_zero 20))
      else Inr (hash_zero 20))"

definition read_key_object :: "store_env \<Rightarrow> mObject \<Rightarrow> string \<Rightarrow> SecretStore \<Rightarrow> store_error + (FixedHash \<times> SecretStore)" where
  "read_key_object E o' file st =
     bind_res (str_at ''id'' o') (\<lambda>id.
     bind_res (file_address o') (\<lambda>addr.
       let uuid = fromUUID (env_replace_all E) id;
           ek = \<lparr>encryptedKey = write_string (env_json E) (obj_at ''crypto'' o') False,
                 filename = file, key_address = addr\<rparr>
       in Inr (uuid, st\<lparr>m_keys := AList.update uuid ek (m_keys st)\<rparr>)))"

text \<open>Every exception is caught and answered with the zero identifier.\<close>

definition readKeyContent :: "store_env \<Rightarrow> string \<Rightarrow> string \<Rightarrow> SecretStore \<Rightarrow> FixedHash \<times> SecretStore" where
  "readKeyContent E content file st =
     (case bind_res (upgraded E content) (\<lambda>u.
             case u of JObj o' \<Rightarrow> read_key_object E o' file st | _ \<Rightarrow> Inr (hash_zero 16, st)) of
        Inl _ \<Rightarrow> (hash_zero 16, st)
      | Inr r \<Rightarrow> r)"

text \<open>\<open>contentsString\<close> gives the empty string for a file that cannot be read.\<close>

definition contentsString :: "string \<Rightarrow> SecretStore \<Rightarrow> string" where
  "contentsString file st = (case disk st file of None \<Rightarrow> [] | Some c \<Rightarrow> c)"

definition readKey :: "store_env \<Rightarrow> string \<Rightarrow> bool \<Rightarrow> SecretStore \<Rightarrow> FixedHash \<times> SecretStore" where
  "readKey E file takeFileOwnership st =
     readKeyContent E (contentsString file st) (if takeFileOwnership then file else []) st"

text \<open>The regular files of the directory, in the order of the directory iterator, are an argument.\<close>

definition load :: "store_env \<Rightarrow> string list \<Rightarrow> SecretStore \<Rightarrow> SecretStore" where
  "load E files st = fold (\<lambda>f st. snd (readKey E f True st)) files st"

definition setPath :: "store_env \<Rightarrow> string \<Rightarrow> string list \<Rightarrow> SecretStore \<Rightarrow> SecretStore" where
  "setPath E path files st = load E files (st\<lparr>m_path := path\<rparr>)"

definition SecretStore_open :: "store_env \<Rightarrow> string \<Rightarrow> string list \<Rightarrow> (string \<rightharpoonup> string) \<Rightarrow> SecretStore" where
  "SecretStore_open E path files d = load E files ((SecretStore_new d)\<lparr>m_path := path\<rparr>)"

definition importKey :: "store_env \<Rightarrow> string \<Rightarrow> SecretStore \<Rightarrow> FixedHash \<times> SecretStore" where
  "importKey E file st =
     (let (ret, st) = readKey E file False st in (ret, if hash_bool ret then save E st else st))"

definition importKeyContent :: "store_env \<Rightarrow> string \<Rightarrow> SecretStore \<Rightarrow> FixedHash \<times> SecretStore" where
  "importKeyContent E content st =
     (let (ret, st) = readKeyContent E content [] st in (ret, if hash_bool ret then save E st else st))"

text \<open>An exception of \<open>encrypt\<close> has already dropped the cached key; errors do not carry the state.\<close>

definition recode :: "store_env \<Rightarrow> bytes \<Rightarrow> FixedHash \<Rightarrow> FixedHash \<Rightarrow> string \<Rightarrow> string \<Rightarrow> KDF \<Rightarrow> SecretStore \<Rightarrow>
    store_error + (bool \<times> SecretStore)" where
  "recode E salt iv uuid newPass pass kdf st =
     bind_res (secret E uuid pass True st) (\<lambda>(s, st).
       if s = [] then Inr (False, st)
       else
         (let st = st\<lparr>m_cached := (m_cached st)(uuid := None)\<rparr> in
          bind_res (encrypt E salt iv s newPass kdf) (\<lambda>e.
            let k = (case map_of (m_keys st) uuid of
                       Some k \<Rightarrow> k | None \<Rightarrow> \<lparr>encryptedKey = [], filename = [], key_address = hash_zero 20\<rparr>)
            in Inr (True, save E (st\<lparr>m_keys := AList.update uuid (k\<lparr>encryptedKey := e\<rparr>) (m_keys st)\<rparr>)))))"

definition recode_address :: "store_env \<Rightarrow> bytes \<Rightarrow> FixedHash \<Rightarrow> FixedHash \<Rightarrow> string \<Rightarrow> string \<Rightarrow> KDF \<Rightarrow> SecretStore \<Rightarrow>
    store_error + (bool \<times> SecretStore)" where
  "recode_address E salt iv addr newPass pass kdf st =
     (case key_of addr st of
        None \<Rightarrow> Inr (False, st)
      | Some (u, k) \<Rightarrow>
          bind_res (secret_address E addr pass st) (\<lambda>s.
            if s = [] then Inr (False, st)
            else bind_res (encrypt E salt iv s newPass kdf) (\<lambda>e.
                   Inr (True, save E (st\<lparr>m_keys := AList.update u (k\<lparr>encryptedKey := e\<rparr>) (m_keys st)\<rparr>)))))"

definition store_keys :: "SecretStore \<Rightarrow> FixedHash list" where
  "store_keys st = map fst (m_keys st)"

definition store_contains :: "FixedHash \<Rightarrow> SecretStore \<Rightarrow> bool" where
  "store_contains u st = (map_of (m_keys st) u \<noteq> None)"

definition store_address :: "FixedHash \<Rightarrow> SecretStore \<Rightarrow> store_error + FixedHash" where
  "store_address u st = (case map_of (m_keys st) u of None \<Rightarrow> Inl OutOfRange | Some k \<Rightarrow> Inr (key_address k))"

end
