(* ===== verification/Secret_Theorems.thy ===== *)
theory Secret_Theorems
  imports Secret_Store
begin

text \<open>
  Laws of the secret store: a key is recovered by its passphrase from memory and from its file, a
  wrong one is refused, and which parts of the state the operations keep.
\<close>

section \<open>Objects\<close>

lemma map_of_obj_set [simp]: "map_of (obj_set k v o') = (map_of o')(k \<mapsto> v)"
  by (induction o') (auto simp: fun_eq_iff)

lemma obj_at_set [simp]: "obj_at k (obj_set k' v o') = (if k = k' then v else obj_at k o')"
  by (simp add: obj_at_def)

lemma obj_count_set [simp]: "obj_count k (obj_set k' v o') = (k = k' \<or> obj_count k o')"
  by (simp add: obj_count_def)

lemma obj_Nil [simp]: "obj_count k [] = False" "obj_at k [] = JNull"
  by (simp_all add: obj_count_def obj_at_def)

lemma set_obj_set: "set (obj_set k v o') \<subseteq> insert (k, v) (set o')"
  by (induction o') (auto split: if_splits)

lemma keys_sorted_obj_set: "keys_sorted o' \<Longrightarrow> keys_sorted (obj_set k v o')"
proof (induction o')
  case (Cons x o')
  obtain k' v' where x: "x = (k', v')" by (cases x)
  have tail: "\<forall>y \<in> set o'. string_less k' (fst y)" "keys_sorted o'" using Cons.prems x by (simp_all add: keys_sorted_def)
  consider "k = k'" | "string_less k k'" "k \<noteq> k'" | "\<not> string_less k k'" "k \<noteq> k'" "string_less k' k"
    using string_less_linear [of k k'] by blast
  then show ?case
  proof cases
    case 1
    then show ?thesis using tail x by (simp add: keys_sorted_def)
  next
    case 2
    then show ?thesis using tail x string_less_trans [of k k'] by (auto simp: keys_sorted_def)
  next
    case 3
    then have "\<forall>y \<in> set (obj_set k v o'). string_less k' (fst y)"
      using tail set_obj_set [of k v o'] by auto
    then show ?thesis using 3 Cons.IH [OF tail(2)] x by (simp add: keys_sorted_def)
  qed
qed (simp add: keys_sorted_def)

lemma json_wf_obj_set [simp]: "json_wf v \<Longrightarrow> json_wf (JObj o') \<Longrightarrow> json_wf (JObj (obj_set k v o'))"
  using set_obj_set [of k v o'] keys_sorted_obj_set by fastforce

lemma json_wf_Nil [simp]: "json_wf (JObj [])"
  by (simp add: keys_sorted_def)

declare json_wf.simps(1) [simp del] obj_set.simps [simp del]

lemma throw_as_simps [simp]: "throw_as f (Inr x) = Inr x" "throw_as f (Inl e) = Inl (f e)"
  by (simp_all add: throw_as_def)

lemma fromHex_toHex [simp]: "fromHex (toHex b) w = Inr b"
  by (simp add: toHex_eq fromHex_hex_pairs)

lemma hash_of_toHex: "length b = N \<Longrightarrow> hash_of_string N (toHex b) FromHex t = Inr b"
  using hash_hex_roundtrip [of b t] by (simp add: hash_hex_def)

lemmas field_defs = str_at_def obj_in_def uint_at_def bytes_at_def hash_at_def json_str_def json_obj_def
  json_int_def get_int64_def is_compat_def

section \<open>The contract of the environment\<close>

text \<open>
  Hashes have 32 bytes; the derivation functions yield as many bytes as asked for; AES in counter mode
  with a 16-byte key keeps the length and undoes itself; \<open>replace_all_copy(s, "-", "")\<close> removes the
  dashes.
\<close>

locale store_laws =
  fixes E :: store_env
  assumes json_laws: "spirit_laws (env_json E)"
    and length_keccak: "length (keccak256 (env_crypto E) x) = 32"
    and scrypt_length: "\<exists>k. env_scrypt E pass salt kdf_iterations 8 1 32 = Some k \<and> length k = 32"
    and pbkdf2_length: "\<exists>k. env_pbkdf2 E pass salt kdf_iterations n = Some k \<and> length k = n"
    and aes_inverse: "length k = 16 \<Longrightarrow> length iv = 16 \<Longrightarrow>
      \<exists>c. aes_ctr (env_crypto E) k iv v = Some c \<and> length c = length v \<and> aes_ctr (env_crypto E) k iv c = Some v"
    and replace_dashes: "env_replace_all E s ''-'' [] = filter (\<lambda>c. c \<noteq> CHR ''-'') s"
begin

lemmas read_write_json = spirit_laws.read_write [OF json_laws]

lemma read_back [simp]:
  "json_wf v \<Longrightarrow> snd (read_string (env_json E) (write_string (env_json E) v p) JNull) = v"
  by (simp add: read_write_json)

text \<open>What \<open>deriveNewKey\<close> puts into the object, \<open>derive_key\<close> finds there.\<close>

lemma derive_roundtrip:
  "\<exists>k ret. deriveNewKey E salt pass kdf [] = Inr (k, ret) \<and> length k = 32 \<and> json_wf (JObj ret) \<and>
    \<not> obj_count ''compat'' ret \<and>
    (\<forall>o'. obj_at ''kdf'' o' = obj_at ''kdf'' ret \<longrightarrow> obj_at ''kdfparams'' o' = obj_at ''kdfparams'' ret \<longrightarrow>
      derive_key E o' pass = Inr (Some k))"
proof (cases kdf)
  case Scrypt
  obtain k where k: "env_scrypt E pass salt kdf_iterations 8 1 32 = Some k" "length k = 32"
    using scrypt_length by blast
  then show ?thesis
    using Scrypt by (simp add: deriveNewKey_def derive_key_def Let_def field_defs kdf_iterations_def)
next
  case PBKDF2_SHA256
  obtain k where k: "env_pbkdf2 E pass salt kdf_iterations 32 = Some k" "length k = 32"
    using pbkdf2_length by blast
  then show ?thesis
    using PBKDF2_SHA256
    by (simp add: deriveNewKey_def derive_key_def Let_def field_defs kdf_iterations_def)
qed

lemma encrypt_decrypt:
  assumes "length iv = 16" "v \<noteq> []"
  shows "\<exists>o'. json_wf (JObj o') \<and> encrypt E salt iv v pass kdf = Inr (write_string (env_json E) (JObj o') True) \<and>
    (\<forall>p. decrypt E (write_string (env_json E) (JObj o') p) pass = Inr v)"
proof -
  obtain k ret where k: "deriveNewKey E salt pass kdf [] = Inr (k, ret)" "length k = 32" "json_wf (JObj ret)"
      "\<not> obj_count ''compat'' ret"
      "\<forall>o'. obj_at ''kdf'' o' = obj_at ''kdf'' ret \<longrightarrow> obj_at ''kdfparams'' o' = obj_at ''kdfparams'' ret \<longrightarrow>
        derive_key E o' pass = Inr (Some k)"
    using derive_roundtrip [of salt pass kdf] by blast
  let ?k = "hash_of_bytes 16 k AlignLeft"
  obtain c where c: "aes_ctr (env_crypto E) ?k iv v = Some c" "length c = length v"
      "aes_ctr (env_crypto E) ?k iv c = Some v"
    using aes_inverse [of ?k iv v] assms(1) by auto
  have ne: "k \<noteq> []" "c \<noteq> []" using k(2) c(2) assms(2) by auto
  define o' where "o' = obj_set ''mac'' (JStr (toHex (keccak256 (env_crypto E) (cropped k 16 16 @ c))))
    (obj_set ''ciphertext'' (JStr (toHex c)) (obj_set ''cipherparams'' (JObj (obj_set ''iv'' (JStr (toHex iv)) []))
      (obj_set ''cipher'' (JStr ''aes-128-ctr'') ret)))"
  have wf: "json_wf (JObj o')" unfolding o'_def using k(3) by (auto)
  have enc: "encrypt E salt iv v pass kdf = Inr (write_string (env_json E) (JObj o') True)"
    using k(1) ne c(1) by (simp add: encrypt_def o'_def encryptAES128CTR_def Let_def)
  have "derive_key E o' pass = Inr (Some k)" using k(5) by (simp add: o'_def)
  moreover have "is_compat o' = Inr False" using k(4) by (simp add: o'_def is_compat_def)
  moreover have "bytes_at ''ciphertext'' o' = Inr c" by (simp add: o'_def field_defs)
  moreover have "mac_matches E o' k c = Inr True"
    using k(4) by (simp add: mac_matches_def o'_def field_defs hash_of_toHex length_keccak)
  moreover have "str_at ''cipher'' o' = Inr ''aes-128-ctr''" by (simp add: o'_def field_defs)
  moreover have "obj_in ''cipherparams'' o' = Inr (obj_set ''iv'' (JStr (toHex iv)) [])" by (simp add: o'_def field_defs)
  moreover have "hash_at 16 ''iv'' (obj_set ''iv'' (JStr (toHex iv)) []) = Inr iv"
    using assms(1) by (simp add: field_defs hash_of_toHex)
  ultimately have "decrypt E (write_string (env_json E) (JObj o') p) pass = Inr v" for p
    using k(2) c(3) wf by (simp add: decrypt_def json_obj_def decryptAES128CTR_def Let_def)
  then show ?thesis using wf enc by blast
qed

text \<open>Another passphrase fails at the message authentication code, unless the hashes collide.\<close>

lemma decrypt_wrong:
  assumes "length iv = 16" "v \<noteq> []" "encrypt E salt iv v pass Scrypt = Inr e"
    and k: "env_scrypt E pass salt kdf_iterations 8 1 32 = Some k"
      "env_scrypt E pass' salt kdf_iterations 8 1 32 = Some k'"
    and c: "aes_ctr (env_crypto E) (hash_of_bytes 16 k AlignLeft) iv v = Some c"
    and mac: "keccak256 (env_crypto E) (cropped k' 16 16 @ c) \<noteq> keccak256 (env_crypto E) (cropped k 16 16 @ c)"
  shows "decrypt E e pass' = Inr []"
proof -
  have len: "length k = 32" "length k' = 32"
    using k scrypt_length [of pass salt] scrypt_length [of pass' salt] by auto
  obtain c' where "aes_ctr (env_crypto E) (hash_of_bytes 16 k AlignLeft) iv v = Some c'" "length c' = length v"
    using aes_inverse [of "hash_of_bytes 16 k AlignLeft" iv v] assms(1) by auto
  then have ne: "k \<noteq> []" "c \<noteq> []" using len c assms(2) by auto
  define kdfp where "kdfp = obj_set ''salt'' (JStr (toHex salt)) (obj_set ''dklen'' (JInt 32)
    (obj_set ''p'' (JInt 1) (obj_set ''r'' (JInt 8) (obj_set ''n'' (JInt (int kdf_iterations)) []))))"
  define o' where "o' = obj_set ''mac'' (JStr (toHex (keccak256 (env_crypto E) (cropped k 16 16 @ c))))
    (obj_set ''ciphertext'' (JStr (toHex c)) (obj_set ''cipherparams'' (JObj (obj_set ''iv'' (JStr (toHex iv)) []))
      (obj_set ''cipher'' (JStr ''aes-128-ctr'') (obj_set ''kdfparams'' (JObj kdfp) (obj_set ''kdf'' (JStr ''scrypt'') [])))))"
  have e: "e = write_string (env_json E) (JObj o') True"
    using assms(3) k(1) ne c
    by (simp add: encrypt_def deriveNewKey_def o'_def kdfp_def encryptAES128CTR_def Let_def)
  have "json_wf (JObj o')"
    unfolding o'_def kdfp_def by (simp add: kdf_iterations_def)
  moreover have "derive_key E o' pass' = Inr (Some k')"
    using k(2) by (simp add: derive_key_def o'_def kdfp_def field_defs kdf_iterations_def)
  moreover have "bytes_at ''ciphertext'' o' = Inr c" by (simp add: o'_def field_defs)
  moreover have "mac_matches E o' k' c = Inr False"
    using mac by (auto simp: mac_matches_def o'_def field_defs hash_of_toHex length_keccak)
  ultimately show ?thesis unfolding e using len(2) by (simp add: decrypt_def json_obj_def)
qed

end

section \<open>The keys of a store\<close>

definition keys_in :: "SecretStore \<Rightarrow> FixedHash set" where
  "keys_in st = fst ` set (m_keys st)"

text \<open>The well-formed stores: one entry for each identifier, addresses of twenty bytes.\<close>

definition store_ok :: "SecretStore \<Rightarrow> bool" where
  "store_ok st \<longleftrightarrow> distinct (map fst (m_keys st)) \<and> (\<forall>(u, k) \<in> set (m_keys st). length (key_address k) = 20)"

lemma keys_in_iff: "u \<in> keys_in st \<longleftrightarrow> store_contains u st"
  by (auto simp: keys_in_def store_contains_def map_of_eq_None_iff)

lemma update_fst: "fst ` set (AList.update u k ks) = insert u (fst ` set ks)"
  using dom_update [of u k ks] by (simp add: dom_map_of_conv_image_fst)

lemma update_mem: "(u', k') \<in> set (AList.update u k ks) \<Longrightarrow> (u' = u \<and> k' = k) \<or> (u', k') \<in> set ks"
  by (induction ks) (auto split: if_splits)

lemma store_ok_update:
  assumes "store_ok st" "length (key_address k) = 20"
  shows "store_ok (st\<lparr>m_keys := AList.update u k (m_keys st)\<rparr>)"
proof -
  have "distinct (map fst (AList.update u k (m_keys st)))"
    using assms(1) distinct_update [of "m_keys st" u k] by (simp add: store_ok_def)
  then show ?thesis using assms update_mem by (fastforce simp: store_ok_def)
qed

lemma store_ok_cached [simp]: "store_ok (st\<lparr>m_cached := c\<rparr>) = store_ok st"
  by (simp add: store_ok_def)

lemma keys_in_update: "keys_in (st\<lparr>m_keys := AList.update u k (m_keys st)\<rparr>) = insert u (keys_in st)"
  by (simp add: keys_in_def update_fst)

lemma keys_in_cached [simp]: "keys_in (st\<lparr>m_cached := c\<rparr>) = keys_in st"
  by (simp add: keys_in_def)

lemma save_loop_keys:
  "fst (save_loop E p ks d) = map (\<lambda>(u, k). (u, k\<lparr>filename := key_file p u\<rparr>)) ks"
  by (induction ks arbitrary: d) (auto simp: Let_def case_prod_beta)

lemma save_keys:
  "m_keys (save_to E p st) = (if p = [] then m_keys st else map (\<lambda>(u, k). (u, k\<lparr>filename := key_file p u\<rparr>)) (m_keys st))"
  using save_loop_keys [of E p "m_keys st" "disk st"] by (auto simp: save_to_def split: prod.splits)

lemma map_of_save:
  "map_of (m_keys (save_to E p st)) u =
     map_option (\<lambda>k. if p = [] then k else k\<lparr>filename := key_file p u\<rparr>) (map_of (m_keys st) u)"
proof -
  have "map_of (map (\<lambda>(u, k). (u, f u k)) ks) u = map_option (f u) (map_of ks u)" for f :: "FixedHash \<Rightarrow> EncryptedKey \<Rightarrow> EncryptedKey" and ks
    by (induction ks) auto
  then show ?thesis by (simp add: save_keys option.map_ident)
qed

lemma save_state [simp]:
  "m_cached (save_to E p st) = m_cached st" "m_path (save_to E p st) = m_path st"
  by (auto simp: save_to_def split: prod.splits)

lemma keys_in_save [simp]: "keys_in (save_to E p st) = keys_in st"
  by (force simp: keys_in_def save_keys image_image)

lemma store_ok_save [simp]: "store_ok (save_to E p st) = store_ok st"
  by (auto simp: store_ok_def save_keys comp_def case_prod_beta)

lemma length_toAddress_public:
  "length (keccak256 C p) = 32 \<Longrightarrow> length (toAddress_public C p) = 20"
  by (simp add: toAddress_public_def right160_def)

section \<open>What the operations keep\<close>

context store_laws
begin

lemma length_kp_address: "length (kp_address (KeyPair_of (env_crypto E) x)) = 20"
  by (simp add: KeyPair_of_def Let_def length_toAddress_public length_keccak)

lemma noteAddress_keeps:
  assumes "length a = 20"
  shows "keys_in (snd (noteAddress u a st)) = keys_in st" "store_ok st \<Longrightarrow> store_ok (snd (noteAddress u a st))"
    "m_cached (snd (noteAddress u a st)) = m_cached st"
proof -
  show "keys_in (snd (noteAddress u a st)) = keys_in st"
    by (auto simp: noteAddress_def keys_in_update keys_in_iff store_contains_def split: option.splits)
  show "store_ok st \<Longrightarrow> store_ok (snd (noteAddress u a st))"
    using assms by (auto simp: noteAddress_def store_ok_update split: option.splits)
  show "m_cached (snd (noteAddress u a st)) = m_cached st" by (simp add: noteAddress_def split: option.splits)
qed

lemma secret_keeps:
  assumes "secret E u pass useCache st = Inr (k, st')"
  shows "keys_in st' = keys_in st" "store_ok st \<Longrightarrow> store_ok st'"
proof -
  have len: "length (toAddress_secret (env_crypto E) x) = 20" for x
    by (simp add: toAddress_secret_def length_toAddress_public length_keccak)
  show "keys_in st' = keys_in st" "store_ok st \<Longrightarrow> store_ok st'"
    using assms noteAddress_keeps [OF len]
    by (auto simp: secret_def bind_res_eq_Inr split: option.splits if_splits)
qed

lemma importSecret_keeps:
  assumes "importSecret E r salt iv s pass st = Inr (u, st')"
  shows "u = r" "keys_in st' = insert r (keys_in st)" "store_ok st \<Longrightarrow> store_ok st'"
proof -
  obtain e where st': "u = r" "st' = save E (st\<lparr>m_cached := (m_cached st)(r \<mapsto> s), m_keys := AList.update r
      \<lparr>encryptedKey = e, filename = toUUID r, key_address = kp_address (KeyPair_of (env_crypto E) (Secret_of s))\<rparr> (m_keys st)\<rparr>)"
    using assms by (auto simp: importSecret_def bind_res_eq_Inr Let_def)
  then show "u = r" "keys_in st' = insert r (keys_in st)" "store_ok st \<Longrightarrow> store_ok st'"
    using keys_in_update [where st = "st\<lparr>m_cached := (m_cached st)(r \<mapsto> s)\<rparr>"]
      store_ok_update [where st = "st\<lparr>m_cached := (m_cached st)(r \<mapsto> s)\<rparr>"] length_kp_address
    by (simp_all add: save_def)
qed

lemma kill_keeps: "keys_in (kill u st) = keys_in st - {u}" "store_ok st \<Longrightarrow> store_ok (kill u st)"
proof -
  have "fst ` set (AList.delete u (m_keys st)) = fst ` set (m_keys st) - {u}" 
    by (force simp: AList.delete_eq)
  then show "keys_in (kill u st) = keys_in st - {u}"
    by (auto simp: kill_def keys_in_def Let_def map_of_eq_None_iff split: option.splits)
  show "store_ok st \<Longrightarrow> store_ok (kill u st)"
    by (auto simp: kill_def store_ok_def Let_def AList.delete_eq distinct_map_filter split: option.splits)
qed

lemma readKeyContent_keeps:
  assumes "readKeyContent E c f st = (u, st')"
  shows "st' = st \<and> u = hash_zero 16 \<or> keys_in st' = insert u (keys_in st)" "store_ok st \<Longrightarrow> store_ok st'"
proof -
  have len: "file_address o' = Inr a \<Longrightarrow> length a = 20" for o' a
    by (auto simp: file_address_def hash_of_string_def throw_as_def bind_res_eq_Inr split: if_splits sum.splits)
  define M where "M = bind_res (upgraded E c) (\<lambda>u. case u of JObj o' \<Rightarrow> read_key_object E o' f st | _ \<Rightarrow> Inr (hash_zero 16, st))"
  have "st' = st \<and> u = hash_zero 16 \<or> (\<exists>k. length (key_address k) = 20 \<and> st' = st\<lparr>m_keys := AList.update u k (m_keys st)\<rparr>)"
  proof (cases M)
    case (Inl e)
    then show ?thesis using assms by (simp add: readKeyContent_def M_def)
  next
    case (Inr r)
    then have "r = (u, st')" using assms by (simp add: readKeyContent_def M_def)
    then have "u = hash_zero 16 \<and> st' = st \<or> (\<exists>o'. read_key_object E o' f st = Inr (u, st'))"
      using Inr by (auto simp: M_def bind_res_eq_Inr split: mValue.splits) (metis mValue.exhaust)+
    moreover have "\<exists>k. length (key_address k) = 20 \<and> st' = st\<lparr>m_keys := AList.update u k (m_keys st)\<rparr>"
      if "read_key_object E o' f st = Inr (u, st')" for o'
    proof -
      from that obtain a where a: "file_address o' = Inr a" "st' = st\<lparr>m_keys := AList.update u
          \<lparr>encryptedKey = write_string (env_json E) (obj_at ''crypto'' o') False, filename = f, key_address = a\<rparr> (m_keys st)\<rparr>"
        by (auto simp: read_key_object_def bind_res_eq_Inr Let_def)
      then show ?thesis using len [OF a(1)] by (intro exI) auto
    qed
    ultimately show ?thesis by blast
  qed
  then show "st' = st \<and> u = hash_zero 16 \<or> keys_in st' = insert u (keys_in st)" "store_ok st \<Longrightarrow> store_ok st'"
    using keys_in_update store_ok_update by auto
qed

lemma importKey_keeps:
  assumes "importKey E f st = (u, st')"
  shows "hash_bool u \<Longrightarrow> keys_in st' = insert u (keys_in st)" "store_ok st \<Longrightarrow> store_ok st'"
    "\<not> hash_bool u \<Longrightarrow> keys_in st' = keys_in st \<or> keys_in st' = insert u (keys_in st)"
proof -
  obtain st1 where st1: "readKeyContent E (contentsString f st) [] st = (u, st1)"
      "st' = (if hash_bool u then save E st1 else st1)"
    using assms by (auto simp: importKey_def readKey_def Let_def split: prod.splits)
  have z: "\<not> hash_bool (hash_zero 16)" by (simp add: hash_bool_def hash_zero_def list_ex_iff)
  show "hash_bool u \<Longrightarrow> keys_in st' = insert u (keys_in st)" "store_ok st \<Longrightarrow> store_ok st'"
    "\<not> hash_bool u \<Longrightarrow> keys_in st' = keys_in st \<or> keys_in st' = insert u (keys_in st)"
    using readKeyContent_keeps [OF st1(1)] st1(2) z by (auto simp: save_def)
qed

lemma recode_keeps:
  assumes "recode E salt iv u newPass pass kdf st = Inr (b, st')" "u \<in> keys_in st"
  shows "keys_in st' = keys_in st" "store_ok st \<Longrightarrow> store_ok st'"
proof -
  obtain s st1 where s: "secret E u pass True st = Inr (s, st1)"
    using assms(1) by (auto simp: recode_def bind_res_eq_Inr)
  note k = secret_keeps [OF s]
  define st2 where "st2 = st1\<lparr>m_cached := (m_cached st1)(u := None)\<rparr>"
  have st2: "keys_in st2 = keys_in st" "store_ok st \<Longrightarrow> store_ok st2" using k by (simp_all add: st2_def)
  then obtain ek where ek: "map_of (m_keys st2) u = Some ek" using assms(2) by (metis keys_in_iff option.exhaust_sel store_contains_def)
  have "st' = st1 \<or> (\<exists>e. st' = save E (st2\<lparr>m_keys := AList.update u (ek\<lparr>encryptedKey := e\<rparr>) (m_keys st2)\<rparr>))"
    using assms(1) s ek by (auto simp: recode_def bind_res_eq_Inr Let_def st2_def split: if_splits)
  moreover have "store_ok st2 \<Longrightarrow> length (key_address ek) = 20"
    using ek map_of_SomeD unfolding store_ok_def by fastforce
  ultimately show "keys_in st' = keys_in st" "store_ok st \<Longrightarrow> store_ok st'"
    using k st2 assms(2) keys_in_update [where st = st2] store_ok_update [where st = st2] by (auto simp: save_def)
qed

lemma recode_ok:
  assumes "recode E salt iv u newPass pass kdf st = Inr (b, st')" "store_ok st"
  shows "store_ok st'"
proof -
  obtain s st1 where s: "secret E u pass True st = Inr (s, st1)"
    using assms(1) by (auto simp: recode_def bind_res_eq_Inr)
  define st2 where "st2 = st1\<lparr>m_cached := (m_cached st1)(u := None)\<rparr>"
  have ok: "store_ok st1" "store_ok st2" using secret_keeps(2) [OF s assms(2)] by (simp_all add: st2_def)
  define ek where "ek = (case map_of (m_keys st2) u of
    Some k \<Rightarrow> k | None \<Rightarrow> \<lparr>encryptedKey = [], filename = [], key_address = hash_zero 20\<rparr>)"
  have "length (key_address ek) = 20"
    using ok(2) map_of_SomeD unfolding ek_def store_ok_def by (fastforce split: option.split)
  moreover have "st' = st1 \<or> (\<exists>e. st' = save E (st2\<lparr>m_keys := AList.update u (ek\<lparr>encryptedKey := e\<rparr>) (m_keys st2)\<rparr>))"
    using assms(1) s by (auto simp: recode_def bind_res_eq_Inr Let_def st2_def ek_def split: if_splits)
  ultimately show ?thesis using ok store_ok_update [where st = st2] by (auto simp: save_def)
qed

end

section \<open>Files\<close>

lemma toUUID_inj: "toUUID a = toUUID b \<Longrightarrow> a = b"
proof -
  assume "toUUID a = toUUID b"
  then have "toHex a = toHex b" using toUUID_undashed [of a] toUUID_undashed [of b] by simp
  then have "fromHex (toHex a) Throw = fromHex (toHex b) Throw" by simp
  then show ?thesis by simp
qed

lemma key_file_inj: "key_file p a = key_file p b \<Longrightarrow> a = b"
  using toUUID_inj by (auto simp: key_file_def path_join_def split: if_splits)

lemma save_loop_frame:
  "\<forall>(u', k') \<in> set ks. key_file p u' \<noteq> f \<and> filename k' \<noteq> f \<Longrightarrow> snd (save_loop E p ks d) f = d f"
  by (induction ks arbitrary: d) (auto simp: Let_def case_prod_beta)

lemma save_loop_disk:
  "distinct (map fst ks) \<Longrightarrow> (u, k) \<in> set ks \<Longrightarrow> \<forall>(u', k') \<in> set ks. u' \<noteq> u \<longrightarrow> filename k' \<noteq> key_file p u \<Longrightarrow>
   snd (save_loop E p ks d) (key_file p u) = Some (key_content E u k)"
proof (induction ks arbitrary: d)
  case (Cons x ks)
  obtain u1 k1 where x: "x = (u1, k1)" by (cases x)
  show ?case
  proof (cases "u1 = u")
    case True
    then have "k1 = k" using eq_key_imp_eq_value [OF Cons.prems(1), of u k1 k] Cons.prems(2) x by simp
    moreover have "\<forall>(u', k') \<in> set ks. key_file p u' \<noteq> key_file p u \<and> filename k' \<noteq> key_file p u"
    proof (intro ballI, clarify)
      fix u' k' assume m: "(u', k') \<in> set ks"
      then have "u' \<in> fst ` set ks" by (rule rev_image_eqI) simp
      then have u': "u' \<noteq> u" using Cons.prems(1) True x by auto
      moreover have "filename k' \<noteq> key_file p u" using Cons.prems(3) m u' x by auto
      ultimately show "key_file p u' \<noteq> key_file p u \<and> filename k' \<noteq> key_file p u" using key_file_inj by blast
    qed
    ultimately show ?thesis using True x by (simp add: Let_def case_prod_beta save_loop_frame)
  next
    case False
    then have "(u, k) \<in> set ks" using Cons.prems x by simp
    then show ?thesis using Cons.IH Cons.prems x by (simp add: Let_def case_prod_beta)
  qed
qed simp

lemma isHex_toHex: "isHex (toHex b)"
  using fromHex_error_iff [of "toHex b"] by simp

context store_laws
begin

lemma fromUUID_toUUID: "length u = 16 \<Longrightarrow> fromUUID (env_replace_all E) (toUUID u) = u"
  by (simp add: fromUUID_def replace_dashes toUUID_undashed hash_of_toHex)

lemma readKeyContent_key:
  assumes "json_wf (JObj o')" "encryptedKey k = write_string (env_json E) (JObj o') p"
    and "length u = 16" "length (key_address k) = 20"
  shows "readKeyContent E (key_content E u k) f st =
    (u, st\<lparr>m_keys := AList.update u \<lparr>encryptedKey = write_string (env_json E) (JObj o') False, filename = f,
      key_address = key_address k\<rparr> (m_keys st)\<rparr>)"
proof -
  define v where "v = obj_set ''version'' (JInt c_keyFileVersion) (obj_set ''id'' (JStr (toUUID u))
    (obj_set ''crypto'' (JObj o') (obj_set ''address'' (JStr (hash_hex (key_address k))) [])))"
  have wf: "json_wf (JObj v)" unfolding v_def using assms(1) by (simp add: c_keyFileVersion_def)
  have "key_content E u k = write_string (env_json E) (JObj v) True"
    using assms(1,2) by (simp add: key_content_def v_def Let_def)
  moreover have "file_version v = Inr 3"
    by (simp add: file_version_def v_def c_keyFileVersion_def json_int_def get_int64_def)
  ultimately have up: "upgraded E (key_content E u k) = Inr (JObj v)"
    using wf by (simp add: upgraded_def v_def [symmetric] Let_def) (simp add: v_def c_keyFileVersion_def)
  have "file_address v = Inr (key_address k)"
    using assms(4) by (simp add: file_address_def v_def field_defs hash_hex_def isHex_toHex hash_of_toHex)
  moreover have "str_at ''id'' v = Inr (toUUID u)" "obj_at ''crypto'' v = JObj o'" by (simp_all add: v_def field_defs)
  ultimately show ?thesis
    using assms(3) by (simp add: readKeyContent_def up read_key_object_def fromUUID_toUUID)
qed

lemma importSecret_ok:
  assumes "length iv = 16" "s \<noteq> []"
  shows "\<exists>st' o' k. importSecret E r salt iv s pass st = Inr (r, st') \<and> m_cached st' r = Some s \<and>
    map_of (m_keys st') r = Some k \<and> key_address k = kp_address (KeyPair_of (env_crypto E) (Secret_of s)) \<and>
    encryptedKey k = write_string (env_json E) (JObj o') True \<and> json_wf (JObj o') \<and>
    (\<forall>p. decrypt E (write_string (env_json E) (JObj o') p) pass = Inr s) \<and>
    (store_ok st \<longrightarrow> m_path st \<noteq> [] \<longrightarrow> (\<forall>(u', k') \<in> set (m_keys st). u' \<noteq> r \<longrightarrow> filename k' \<noteq> key_file (m_path st) r) \<longrightarrow>
      disk st' (key_file (m_path st) r) = Some (key_content E r k))"
proof -
  obtain o' where o': "json_wf (JObj o')" "encrypt E salt iv s pass Scrypt = Inr (write_string (env_json E) (JObj o') True)"
      "\<forall>p. decrypt E (write_string (env_json E) (JObj o') p) pass = Inr s"
    using encrypt_decrypt [OF assms, of salt pass Scrypt] by blast
  let ?p = "m_path st"
  define k where "k = \<lparr>encryptedKey = write_string (env_json E) (JObj o') True, filename = toUUID r,
    key_address = kp_address (KeyPair_of (env_crypto E) (Secret_of s))\<rparr>"
  define st1 where "st1 = st\<lparr>m_cached := (m_cached st)(r \<mapsto> s), m_keys := AList.update r k (m_keys st)\<rparr>"
  have imp: "importSecret E r salt iv s pass st = Inr (r, save E st1)"
    by (simp add: importSecret_def o'(2) st1_def k_def Let_def)
  have key: "map_of (m_keys (save E st1)) r = Some (if ?p = [] then k else k\<lparr>filename := key_file ?p r\<rparr>)"
    by (simp add: save_def map_of_save st1_def update_conv')
  have "disk (save E st1) (key_file ?p r) = Some (key_content E r k)"
    if "store_ok st" "?p \<noteq> []" "\<forall>(u', k') \<in> set (m_keys st). u' \<noteq> r \<longrightarrow> filename k' \<noteq> key_file ?p r"
  proof -
    have "distinct (map fst (m_keys st1))" using that(1) distinct_update by (auto simp: st1_def store_ok_def)
    moreover have "(r, k) \<in> set (m_keys st1)"
      using map_of_SomeD [of "m_keys st1" r k] by (simp add: st1_def update_conv')
    moreover have "\<forall>(u', k') \<in> set (m_keys st1). u' \<noteq> r \<longrightarrow> filename k' \<noteq> key_file ?p r"
      using that(3) update_mem unfolding st1_def by fastforce
    ultimately have "snd (save_loop E ?p (m_keys st1) (disk st1)) (key_file ?p r) = Some (key_content E r k)"
      by (rule save_loop_disk)
    then show ?thesis using that(2) by (simp add: save_def save_to_def st1_def case_prod_beta)
  qed
  moreover define k2 where "k2 = (if ?p = [] then k else k\<lparr>filename := key_file ?p r\<rparr>)"
  moreover have "key_content E r k2 = key_content E r k" "key_address k2 = key_address k" "encryptedKey k2 = encryptedKey k"
    by (simp_all add: k2_def key_content_def)
  moreover have "m_cached (save E st1) r = Some s" by (simp add: save_def st1_def)
  ultimately show ?thesis
    using imp key o'(1,3) by (intro exI [of _ "save E st1"] exI [of _ o'] exI [of _ k2]) (auto simp: k_def)
qed

text \<open>Reading a file into a store: the identifier and what is entered depend on the file alone.\<close>

lemma readKeyContent_shape:
  "\<exists>u g. (\<forall>st. readKeyContent E c f st = (u, st\<lparr>m_keys := g (m_keys st)\<rparr>)) \<and> (g = (\<lambda>ks. ks) \<or> (\<exists>k. g = AList.update u k))"
proof (cases "\<exists>o' i a. upgraded E c = Inr (JObj o') \<and> str_at ''id'' o' = Inr i \<and> file_address o' = Inr a")
  case True
  then obtain o' i a where o: "upgraded E c = Inr (JObj o')" "str_at ''id'' o' = Inr i" "file_address o' = Inr a" by blast
  show ?thesis
    by (rule exI [of _ "fromUUID (env_replace_all E) i"], rule exI [of _ "AList.update (fromUUID (env_replace_all E) i)
        \<lparr>encryptedKey = write_string (env_json E) (obj_at ''crypto'' o') False, filename = f, key_address = a\<rparr>"])
      (auto simp: readKeyContent_def read_key_object_def Let_def o)
next
  case False
  have "readKeyContent E c f st = (hash_zero 16, st)" for st
  proof (cases "upgraded E c")
    case (Inr u)
    then show ?thesis
    proof (cases u)
      case (JObj o')
      then show ?thesis
        using False Inr by (cases "str_at ''id'' o'"; cases "file_address o'") (auto simp: readKeyContent_def read_key_object_def)
    qed (simp_all add: readKeyContent_def)
  qed (simp add: readKeyContent_def)
  then show ?thesis by (intro exI [of _ "hash_zero 16"] exI [of _ "\<lambda>ks. ks"]) simp
qed

lemma readKey_shape:
  assumes "disk st = disk st0"
  shows "\<exists>g. fst (readKey E f True st) = fst (readKey E f True st0) \<and>
    snd (readKey E f True st) = st\<lparr>m_keys := g (m_keys st)\<rparr> \<and>
    (g = (\<lambda>ks. ks) \<or> (\<exists>k. g = AList.update (fst (readKey E f True st0)) k))"
proof -
  have c: "contentsString f st = contentsString f st0" using assms by (simp add: contentsString_def)
  obtain u g where g: "\<forall>st. readKeyContent E (contentsString f st0) f st = (u, st\<lparr>m_keys := g (m_keys st)\<rparr>)"
      "g = (\<lambda>ks. ks) \<or> (\<exists>k. g = AList.update u k)"
    using readKeyContent_shape [of "contentsString f st0" f] by (elim exE conjE) (rule that; assumption)
  then show ?thesis by (intro exI [of _ g]) (simp add: readKey_def c)
qed

text \<open>Loading a directory: a key whose identifier no other file carries is found, wherever its file stands.\<close>

lemma load_key:
  assumes F: "\<And>st. disk st = d \<Longrightarrow> readKey E F True st = (r, st\<lparr>m_keys := AList.update r K (m_keys st)\<rparr>)"
    and "disk st0 = d"
  shows "disk st = d \<Longrightarrow> \<forall>f \<in> set files. f \<noteq> F \<longrightarrow> fst (readKey E f True st0) \<noteq> r \<Longrightarrow>
    map_of (m_keys (load E files st)) r = (if F \<in> set files then Some K else map_of (m_keys st) r) \<and>
    m_cached (load E files st) = m_cached st"
proof (induction files arbitrary: st)
  case (Cons f files)
  have "disk st = disk st0" using Cons.prems(1) assms(2) by simp
  from readKey_shape [OF this, of f] obtain g where g: "snd (readKey E f True st) = st\<lparr>m_keys := g (m_keys st)\<rparr>"
      "g = (\<lambda>ks. ks) \<or> (\<exists>k. g = AList.update (fst (readKey E f True st0)) k)" by (elim exE conjE) (rule that; assumption)
  define st1 where "st1 = snd (readKey E f True st)"
  have st1: "disk st1 = d" "m_cached st1 = m_cached st" using g(1) Cons.prems(1) by (simp_all add: st1_def)
  have key: "map_of (m_keys st1) r = (if f = F then Some K else map_of (m_keys st) r)"
  proof (cases "f = F")
    case True
    then show ?thesis using F [OF Cons.prems(1)] by (simp add: st1_def update_conv')
  next
    case False
    then have "fst (readKey E f True st0) \<noteq> r" using Cons.prems(2) by simp
    then show ?thesis using g False by (auto simp: st1_def update_conv')
  qed
  have "load E (f # files) st = load E files st1" by (simp add: load_def st1_def)
  then show ?case using Cons.IH [OF st1(1)] Cons.prems(2) st1(2) key by simp
qed (simp add: load_def)

lemma load_keeps: "disk (load E files st) = disk st \<and> keys_in st \<subseteq> keys_in (load E files st)"
proof (induction files arbitrary: st)
  case (Cons f files)
  obtain g where g: "snd (readKey E f True st) = st\<lparr>m_keys := g (m_keys st)\<rparr>"
      "g = (\<lambda>ks. ks) \<or> (\<exists>k. g = AList.update (fst (readKey E f True st)) k)"
    using readKey_shape [OF refl, of f st] by (elim exE conjE) (rule that; assumption)
  then have "keys_in st \<subseteq> keys_in (snd (readKey E f True st))" by (auto simp: keys_in_update)
  then show ?case using Cons.IH [of "snd (readKey E f True st)"] g(1) by (auto simp: load_def)
qed (simp add: load_def)

lemma load_contains:
  "disk st = disk st0 \<Longrightarrow> f \<in> set files \<Longrightarrow> hash_bool (fst (readKey E f True st0)) \<Longrightarrow>
   fst (readKey E f True st0) \<in> keys_in (load E files st)"
proof (induction files arbitrary: st)
  case (Cons f' files)
  have l: "load E (f' # files) st = load E files (snd (readKey E f' True st))" by (simp add: load_def)
  have d: "disk (snd (readKey E f' True st)) = disk st0" using readKey_shape [OF refl, of f' st] Cons.prems(1) by (elim exE conjE) simp
  show ?case
  proof (cases "f = f'")
    case True
    have same: "fst (readKey E f True st) = fst (readKey E f True st0)"
      using readKey_shape [OF Cons.prems(1), of f] by blast
    have z: "\<not> hash_bool (hash_zero 16)" by (simp add: hash_bool_def hash_zero_def list_ex_iff)
    have "fst (readKey E f True st0) \<in> keys_in (snd (readKey E f True st))"
      using readKeyContent_keeps(1) [of "contentsString f st" f st] Cons.prems(3) z same
      unfolding readKey_def by (metis (full_types) insertI1 prod.collapse)
    then show ?thesis using load_keeps [of files "snd (readKey E f' True st)"] True unfolding l by blast
  next
    case False
    then show ?thesis unfolding l using Cons.IH [OF d] Cons.prems(2,3) by simp
  qed
qed simp

lemma reopen_ok:
  assumes "length r = 16" "length iv = 16" "s \<noteq> []" "store_ok st" "m_path st \<noteq> []"
    and "\<forall>(u', k') \<in> set (m_keys st). u' \<noteq> r \<longrightarrow> filename k' \<noteq> key_file (m_path st) r"
  shows "\<exists>st'. importSecret E r salt iv s pass st = Inr (r, st') \<and>
    (\<forall>files. key_file (m_path st) r \<in> set files \<longrightarrow>
      (\<forall>f \<in> set files. f \<noteq> key_file (m_path st) r \<longrightarrow> fst (readKey E f True st') \<noteq> r) \<longrightarrow>
      (\<exists>st2 st3. SecretStore_open E (m_path st) files (disk st') = st2 \<and>
        store_address r st2 = Inr (kp_address (KeyPair_of (env_crypto E) (Secret_of s))) \<and>
        secret E r pass True st2 = Inr (s, st3) \<and>
        (\<forall>f \<in> set files. hash_bool (fst (readKey E f True st')) \<longrightarrow> store_contains (fst (readKey E f True st')) st2)))"
proof -
  let ?f = "key_file (m_path st) r"
  obtain st' o' k where imp: "importSecret E r salt iv s pass st = Inr (r, st')"
      "key_address k = kp_address (KeyPair_of (env_crypto E) (Secret_of s))"
      "encryptedKey k = write_string (env_json E) (JObj o') True" "json_wf (JObj o')"
      "\<forall>p. decrypt E (write_string (env_json E) (JObj o') p) pass = Inr s"
      "disk st' ?f = Some (key_content E r k)"
    using importSecret_ok [OF assms(2,3), of r salt pass st] assms(4-6) by blast
  define K where "K = \<lparr>encryptedKey = write_string (env_json E) (JObj o') False, filename = ?f, key_address = key_address k\<rparr>"
  have "length (key_address k) = 20" using imp(2) length_kp_address by simp
  then have F: "readKey E ?f True st0 = (r, st0\<lparr>m_keys := AList.update r K (m_keys st0)\<rparr>)" if "disk st0 = disk st'" for st0
    using readKeyContent_key [OF imp(4,3) assms(1)] imp(6) that by (simp add: readKey_def contentsString_def K_def)
  have "\<exists>st2 st3. SecretStore_open E (m_path st) files (disk st') = st2 \<and>
        store_address r st2 = Inr (kp_address (KeyPair_of (env_crypto E) (Secret_of s))) \<and>
        secret E r pass True st2 = Inr (s, st3) \<and>
        (\<forall>f \<in> set files. hash_bool (fst (readKey E f True st')) \<longrightarrow> store_contains (fst (readKey E f True st')) st2)"
    if files: "?f \<in> set files" "\<forall>f \<in> set files. f \<noteq> ?f \<longrightarrow> fst (readKey E f True st') \<noteq> r" for files
  proof -
    define st2 where "st2 = SecretStore_open E (m_path st) files (disk st')"
    let ?st = "(SecretStore_new (disk st'))\<lparr>m_path := m_path st\<rparr>"
    have d: "disk ?st = disk st'" by (simp add: SecretStore_new_def)
    have keys: "map_of (m_keys st2) r = Some K" "m_cached st2 = Map.empty"
      using load_key [OF F refl d files(2)] files(1)
      by (simp_all add: st2_def SecretStore_open_def SecretStore_new_def)
    have "\<exists>st3. secret E r pass True st2 = Inr (s, st3)" using imp(5) assms(3) by (simp add: secret_def keys K_def)
    moreover have "store_address r st2 = Inr (kp_address (KeyPair_of (env_crypto E) (Secret_of s)))"
      by (simp add: store_address_def keys imp(2) K_def)
    moreover have "\<forall>f \<in> set files. hash_bool (fst (readKey E f True st')) \<longrightarrow> store_contains (fst (readKey E f True st')) st2"
      using load_contains [OF d] unfolding st2_def SecretStore_open_def keys_in_iff [symmetric] by blast
    ultimately show ?thesis using st2_def by blast
  qed
  then show ?thesis using imp(1) by blast
qed

end

section \<open>An environment\<close>

definition demo_env :: store_env where
  "demo_env =
     \<lparr>env_crypto = demo_crypto\<lparr>keccak256 := \<lambda>x. replicate 31 0 @ [if x = [] then 0 else hd x]\<rparr>,
      env_json = repo_spirit,
      env_scrypt = (\<lambda>pass salt n r p dk. Some (replicate dk (of_nat (length pass)))),
      env_pbkdf2 = (\<lambda>pass salt c dk. Some (replicate dk (of_nat (length pass)))),
      env_replace_all = (\<lambda>s a b. filter (\<lambda>c. [c] \<noteq> a) s)\<rparr>"

interpretation demo_store: store_laws demo_env
  by (rule store_laws.intro) (simp_all add: demo_env_def demo_crypto_def Let_def repo_json.spirit_laws_axioms)

lemma cropped_replicate: "cropped (replicate 32 x) 16 16 = replicate 16 x"
  by (simp add: cropped_def)

section \<open>Properties\<close>

text \<open>
  C7: a key survives a restart.  After \<open>importSecret\<close> into a store with a directory, take any listing of
  the directory, in any order and with any other files in it, that has the file of the key, and in
  which no other file carries the same identifier.  A new store that opens the directory then has the
  key under the same identifier and with the same address, and \<open>secret\<close> with the passphrase gives the
  secret: through encryption, two different layouts of JSON, and the file.  It also has the key of
  every other file of the listing that reads as one.  The directory path is not empty, and no other
  key of the store claims the name of the file.
\<close>

theorem key_survives_restart:
  assumes "store_laws E" "length r = 16" "length iv = 16" "s \<noteq> []" "store_ok st" "m_path st \<noteq> []"
    and "\<forall>(u', k') \<in> set (m_keys st). u' \<noteq> r \<longrightarrow> filename k' \<noteq> key_file (m_path st) r"
  shows "\<exists>st'. importSecret E r salt iv s pass st = Inr (r, st') \<and>
    (\<forall>files. key_file (m_path st) r \<in> set files \<longrightarrow>
      (\<forall>f \<in> set files. f \<noteq> key_file (m_path st) r \<longrightarrow> fst (readKey E f True st') \<noteq> r) \<longrightarrow>
      (\<exists>st2 st3. SecretStore_open E (m_path st) files (disk st') = st2 \<and>
        store_address r st2 = Inr (kp_address (KeyPair_of (env_crypto E) (Secret_of s))) \<and>
        secret E r pass True st2 = Inr (s, st3) \<and>
        (\<forall>f \<in> set files. hash_bool (fst (readKey E f True st')) \<longrightarrow> store_contains (fst (readKey E f True st')) st2)))"
  using assms by (rule store_laws.reopen_ok)

text \<open>A directory with a file that is not a key.\<close>

definition demo_dir :: SecretStore where
  "demo_dir = (SecretStore_new [''keys/note'' \<mapsto> ''x''])\<lparr>m_path := ''keys''\<rparr>"

lemma demo_note:
  assumes "importSecret demo_env (replicate 16 7) [1] (replicate 16 0) (nat_be 32 5) ''pass'' demo_dir = Inr (replicate 16 7, st')"
  shows "fst (readKey demo_env ''keys/note'' True st') = hash_zero 16"
proof -
  have f: "key_file ''keys'' (replicate 16 7) \<noteq> ''keys/note''" "toUUID (replicate 16 7) \<noteq> ''keys/note''" by code_simp+
  have "disk st' ''keys/note'' = Some ''x''"
    using assms f by (auto simp: importSecret_def bind_res_eq_Inr Let_def save_def save_to_def demo_dir_def SecretStore_new_def)
  moreover have "upgraded demo_env ''x'' = Inr JNull" by code_simp
  ultimately show ?thesis by (simp add: readKey_def contentsString_def readKeyContent_def)
qed

theorem key_survives_restart_witness:
  "\<exists>st' st2 st3. importSecret demo_env (replicate 16 7) [1] (replicate 16 0) (nat_be 32 5) ''pass'' demo_dir
      = Inr (replicate 16 7, st') \<and>
    SecretStore_open demo_env ''keys'' [''keys/note'', key_file ''keys'' (replicate 16 7)] (disk st') = st2 \<and>
    store_address (replicate 16 7) st2 = Inr (kp_address (KeyPair_of (env_crypto demo_env) (Secret_of (nat_be 32 5)))) \<and>
    secret demo_env (replicate 16 7) ''pass'' True st2 = Inr (nat_be 32 5, st3)"
proof -
  have p: "m_path demo_dir = ''keys''" "store_ok demo_dir" "m_keys demo_dir = []"
    by (simp_all add: demo_dir_def SecretStore_new_def store_ok_def)
  have "nat_be 32 5 \<noteq> []" using length_nat_be [of 32 5] by (metis list.size(3) zero_neq_numeral)
  then obtain st' where st': "importSecret demo_env (replicate 16 7) [1] (replicate 16 0) (nat_be 32 5) ''pass'' demo_dir
      = Inr (replicate 16 7, st')"
    and open_ok: "\<And>files. key_file ''keys'' (replicate 16 7) \<in> set files \<Longrightarrow>
      (\<forall>f \<in> set files. f \<noteq> key_file ''keys'' (replicate 16 7) \<longrightarrow> fst (readKey demo_env f True st') \<noteq> replicate 16 7) \<Longrightarrow>
      (\<exists>st2 st3. SecretStore_open demo_env ''keys'' files (disk st') = st2 \<and>
        store_address (replicate 16 7) st2 = Inr (kp_address (KeyPair_of (env_crypto demo_env) (Secret_of (nat_be 32 5)))) \<and>
        secret demo_env (replicate 16 7) ''pass'' True st2 = Inr (nat_be 32 5, st3))"
    using key_survives_restart [OF demo_store.store_laws_axioms, of "replicate 16 7" "replicate 16 0" "nat_be 32 5"
        demo_dir "[1]" "''pass''", unfolded p(1)] p(2,3) by auto
  have "hash_zero 16 \<noteq> replicate 16 (7 :: byte)" by code_simp
  then show ?thesis
    using open_ok [of "[''keys/note'', key_file ''keys'' (replicate 16 7)]"] demo_note [OF st'] st' by auto
qed

text \<open>
  C29: another passphrase is refused.  Without the cache, \<open>secret\<close> returns the empty array and leaves
  the store as it is whenever the authentication code under the key derived from that passphrase
  differs from the stored one.
\<close>

theorem wrong_passphrase_refused:
  assumes "store_laws E" "length iv = 16" "s \<noteq> []"
    and "importSecret E r salt iv s pass st = Inr (r, st')"
    and "env_scrypt E pass salt kdf_iterations 8 1 32 = Some k"
    and "env_scrypt E pass' salt kdf_iterations 8 1 32 = Some k'"
    and "aes_ctr (env_crypto E) (hash_of_bytes 16 k AlignLeft) iv s = Some c"
    and "keccak256 (env_crypto E) (cropped k' 16 16 @ c) \<noteq> keccak256 (env_crypto E) (cropped k 16 16 @ c)"
  shows "secret E r pass' False st' = Inr ([], st')"
proof -
  obtain e where e: "encrypt E salt iv s pass Scrypt = Inr e" "st' = save E (st\<lparr>m_cached := (m_cached st)(r \<mapsto> s),
      m_keys := AList.update r \<lparr>encryptedKey = e, filename = toUUID r,
        key_address = kp_address (KeyPair_of (env_crypto E) (Secret_of s))\<rparr> (m_keys st)\<rparr>)"
    using assms(4) by (auto simp: importSecret_def bind_res_eq_Inr Let_def)
  have "decrypt E e pass' = Inr []" by (rule store_laws.decrypt_wrong [OF assms(1-3) e(1) assms(5-8)])
  then show ?thesis using e(2) by (simp add: secret_def save_def map_of_save update_conv')
qed

theorem wrong_passphrase_refused_witness:
  "\<exists>st'. importSecret demo_env (replicate 16 7) [1] (replicate 16 0) [9] ''pass'' (SecretStore_new Map.empty) =
      Inr (replicate 16 7, st') \<and> secret demo_env (replicate 16 7) ''guess'' False st' = Inr ([], st')"
proof -
  obtain st' where st': "importSecret demo_env (replicate 16 7) [1] (replicate 16 0) [9] ''pass''
      (SecretStore_new Map.empty) = Inr (replicate 16 7, st')"
    using demo_store.importSecret_ok [of "replicate 16 0" "[9]" "replicate 16 7" "[1]" "''pass''" "SecretStore_new Map.empty"]
    by auto
  have "secret demo_env (replicate 16 7) ''guess'' False st' = Inr ([], st')"
  proof (rule wrong_passphrase_refused [OF demo_store.store_laws_axioms _ _ st'])
    show "env_scrypt demo_env ''pass'' [1] kdf_iterations 8 1 32 = Some (replicate 32 4)"
      "env_scrypt demo_env ''guess'' [1] kdf_iterations 8 1 32 = Some (replicate 32 5)"
      "aes_ctr (env_crypto demo_env) (hash_of_bytes 16 (replicate 32 4) AlignLeft) (replicate 16 0) [9] = Some [9]"
      by (simp_all add: demo_env_def demo_crypto_def Let_def)
    have "replicate 16 (x :: byte) = x # replicate 15 x" for x by (simp add: numeral_eq_Suc)
    then show "keccak256 (env_crypto demo_env) (cropped (replicate 32 5) 16 16 @ [9]) \<noteq>
        keccak256 (env_crypto demo_env) (cropped (replicate 32 4) 16 16 @ [9])"
      unfolding cropped_replicate by (simp add: demo_env_def)
  qed simp_all
  with st' show ?thesis by blast
qed

end
