(* ===== verification/Account_Manager.thy ===== *)
theory Account_Manager
  imports User_Address Secret_Theorems
begin

text \<open>
  \<^verbatim>\<open>libcfxcore/account\<close>: the accounts of one network.  \<open>cfxAddressDic\<close> is the \<open>std::map\<close> from addresses
  to the identifiers of a secret store; it is the list of its entries in increasing order, searched
  and changed by \<open>Address::operator<\<close>.  The mutex makes every operation atomic.
\<close>

section \<open>The map of addresses\<close>

type_synonym dic = "(Address \<times> FixedHash) list"

fun dic_find :: "Address \<Rightarrow> dic \<Rightarrow> addr_error + FixedHash option" where
  "dic_find k [] = Inr None"
| "dic_find k ((a, u) # d) =
     bind_res (Address_less a k) (\<lambda>lt.
       if lt then dic_find k d
       else bind_res (Address_less k a) (\<lambda>gt. Inr (if gt then None else Some u)))"

fun dic_set :: "Address \<Rightarrow> FixedHash \<Rightarrow> dic \<Rightarrow> addr_error + dic" where
  "dic_set k v [] = Inr [(k, v)]"
| "dic_set k v ((a, u) # d) =
     bind_res (Address_less a k) (\<lambda>lt.
       if lt then bind_res (dic_set k v d) (\<lambda>d'. Inr ((a, u) # d'))
       else bind_res (Address_less k a) (\<lambda>gt. Inr (if gt then (k, v) # (a, u) # d else (a, v) # d)))"

fun dic_erase :: "Address \<Rightarrow> dic \<Rightarrow> addr_error + dic" where
  "dic_erase k [] = Inr []"
| "dic_erase k ((a, u) # d) =
     bind_res (Address_less a k) (\<lambda>lt.
       if lt then bind_res (dic_erase k d) (\<lambda>d'. Inr ((a, u) # d'))
       else bind_res (Address_less k a) (\<lambda>gt. Inr (if gt then (a, u) # d else d)))"

section \<open>The manager\<close>

record AccountManager =
  am_networkID :: u32
  ks :: SecretStore
  cfxAddressDic :: dic

datatype account_error = AcAddress addr_error | AcStore store_error

definition in_dic :: "addr_error + 'a \<Rightarrow> account_error + 'a" where
  "in_dic m = (case m of Inl e \<Rightarrow> Inl (AcAddress e) | Inr x \<Rightarrow> Inr x)"

definition in_store :: "store_error + 'a \<Rightarrow> account_error + 'a" where
  "in_store m = (case m of Inl e \<Rightarrow> Inl (AcStore e) | Inr x \<Rightarrow> Inr x)"

definition register :: "FixedHash \<Rightarrow> FixedHash \<Rightarrow> AccountManager \<Rightarrow> account_error + (Address \<times> AccountManager)" where
  "register ethAddr uuid m =
     bind_res (in_dic (getCfxUserAddress ethAddr (am_networkID m))) (\<lambda>cfxaddr.
     bind_res (in_dic (dic_set cfxaddr uuid (cfxAddressDic m))) (\<lambda>d.
       Inr (cfxaddr, m\<lparr>cfxAddressDic := d\<rparr>)))"

fun initialize_loop :: "FixedHash list \<Rightarrow> AccountManager \<Rightarrow> account_error + AccountManager" where
  "initialize_loop [] m = Inr m"
| "initialize_loop (k # keys) m =
     bind_res (in_store (store_address k (ks m))) (\<lambda>ethHexAddress.
     bind_res (register ethHexAddress k m) (\<lambda>(_, m). initialize_loop keys m))"

definition initialize :: "AccountManager \<Rightarrow> account_error + AccountManager" where
  "initialize m = initialize_loop (store_keys (ks m)) m"

text \<open>The constructors, with the files the store finds in the directory.\<close>

definition AccountManager_new :: "u32 \<Rightarrow> (string \<rightharpoonup> string) \<Rightarrow> account_error + AccountManager" where
  "AccountManager_new i d = initialize \<lparr>am_networkID = i, ks = SecretStore_new d, cfxAddressDic = []\<rparr>"

definition AccountManager_open :: "store_env \<Rightarrow> string \<Rightarrow> string list \<Rightarrow> (string \<rightharpoonup> string) \<Rightarrow> u32 \<Rightarrow>
    account_error + AccountManager" where
  "AccountManager_open E path files d i =
     initialize \<lparr>am_networkID = i, ks = SecretStore_open E path files d, cfxAddressDic = []\<rparr>"

text \<open>The draws of \<open>Create\<close> and \<open>importSecret\<close>: a secret, an identifier, a salt and an initial vector.\<close>

record draws =
  d_secret :: FixedHash
  d_uuid :: FixedHash
  d_salt :: bytes
  d_iv :: FixedHash

definition Create :: "store_env \<Rightarrow> draws \<Rightarrow> string \<Rightarrow> AccountManager \<Rightarrow> account_error + (Address \<times> AccountManager)" where
  "Create E w passphrase m =
     (let k = KeyPair_of (env_crypto E) (keccak256 (env_crypto E) (d_secret w)) in
      bind_res (in_store (importSecret E (d_uuid w) (d_salt w) (d_iv w) (kp_secret k) passphrase (ks m))) (\<lambda>(uuid, st).
        register (kp_address k) uuid (m\<lparr>ks := st\<rparr>)))"

definition List :: "AccountManager \<Rightarrow> Address list" where
  "List m = map fst (cfxAddressDic m)"

definition ImportKeystore :: "store_env \<Rightarrow> string \<Rightarrow> AccountManager \<Rightarrow> account_error + (Address \<times> bool \<times> AccountManager)" where
  "ImportKeystore E file m =
     (let (uuid, st) = importKey E file (ks m); m = m\<lparr>ks := st\<rparr> in
      if hash_bool uuid then
        bind_res (in_store (store_address uuid st)) (\<lambda>a.
        bind_res (register a uuid m) (\<lambda>(cfxaddr, m). Inr (cfxaddr, True, m)))
      else bind_res (in_dic TestnetNullAddress) (\<lambda>a. Inr (a, False, m)))"

text \<open>
  The overload for a path: what is not a regular file gives the null address and leaves \<open>*ok\<close> as it
  was.
\<close>

definition ImportKeystore_path :: "store_env \<Rightarrow> string \<Rightarrow> bool \<Rightarrow> AccountManager \<Rightarrow> account_error + (Address \<times> bool \<times> AccountManager)" where
  "ImportKeystore_path E path ok m =
     (if disk (ks m) path = None then bind_res (in_dic TestnetNullAddress) (\<lambda>a. Inr (a, ok, m))
      else ImportKeystore E path m)"

definition GetSecret :: "store_env \<Rightarrow> Address \<Rightarrow> string \<Rightarrow> AccountManager \<Rightarrow> account_error + (FixedHash \<times> AccountManager)" where
  "GetSecret E addr passphrase m =
     bind_res (in_dic (dic_find addr (cfxAddressDic m))) (\<lambda>it.
       case it of
         None \<Rightarrow> Inr (hash_zero 32, m)
       | Some uuid \<Rightarrow>
           bind_res (in_store (secret E uuid passphrase True (ks m))) (\<lambda>(secbytes, st).
             Inr (Secret_of secbytes, m\<lparr>ks := st\<rparr>)))"

definition ImportPrivateKey :: "store_env \<Rightarrow> draws \<Rightarrow> FixedHash \<Rightarrow> string \<Rightarrow> AccountManager \<Rightarrow>
    account_error + (Address \<times> AccountManager)" where
  "ImportPrivateKey E w secret_key passphrase m =
     bind_res (in_dic (Secret2CfxAddr (env_crypto E) secret_key (am_networkID m))) (\<lambda>addr.
     bind_res (in_dic (dic_find addr (cfxAddressDic m))) (\<lambda>it.
       if it \<noteq> None then Inr (addr, m)
       else
         bind_res (in_store (importSecret E (d_uuid w) (d_salt w) (d_iv w) secret_key passphrase (ks m))) (\<lambda>(uuid, st).
         bind_res (in_dic (Secret2CfxAddr (env_crypto E) secret_key (am_networkID m))) (\<lambda>cfxaddr.
         bind_res (in_dic (dic_set cfxaddr uuid (cfxAddressDic m))) (\<lambda>d.
           Inr (cfxaddr, m\<lparr>ks := st, cfxAddressDic := d\<rparr>))))))"

definition UpdatePassphrase :: "store_env \<Rightarrow> draws \<Rightarrow> Address \<Rightarrow> string \<Rightarrow> string \<Rightarrow> AccountManager \<Rightarrow>
    account_error + (bool \<times> AccountManager)" where
  "UpdatePassphrase E w addr passphrase newPassphrase m =
     bind_res (in_dic (dic_find addr (cfxAddressDic m))) (\<lambda>it.
       case it of
         None \<Rightarrow> Inr (False, m)
       | Some uuid \<Rightarrow>
           bind_res (in_store (recode E (d_salt w) (d_iv w) uuid newPassphrase passphrase Scrypt (ks m))) (\<lambda>(b, st).
             Inr (b, m\<lparr>ks := st\<rparr>)))"

definition Delete :: "store_env \<Rightarrow> Address \<Rightarrow> string \<Rightarrow> AccountManager \<Rightarrow> account_error + (bool \<times> AccountManager)" where
  "Delete E addr passphrase m =
     bind_res (in_dic (dic_find addr (cfxAddressDic m))) (\<lambda>it.
       case it of
         None \<Rightarrow> Inr (False, m)
       | Some uuid \<Rightarrow>
           bind_res (in_store (secret E uuid passphrase False (ks m))) (\<lambda>(secbytes, st).
             if \<not> hash_bool (Secret_of secbytes) then Inr (False, m\<lparr>ks := st\<rparr>)
             else bind_res (in_dic (dic_erase addr (cfxAddressDic m))) (\<lambda>d.
                    Inr (True, m\<lparr>ks := kill uuid st, cfxAddressDic := d\<rparr>))))"

definition GetDefault :: "AccountManager \<Rightarrow> account_error + Address" where
  "GetDefault m =
     (case cfxAddressDic m of [] \<Rightarrow> in_dic TestnetNullAddress | _ \<Rightarrow> Inr (List m ! 0))"

end
