(* ===== verification/Account_Theorems.thy ===== *)
theory Account_Theorems
  imports Account_Manager
begin

text \<open>
  The manager as a state machine: the map of addresses against its order, the contract between an
  index and the store it points into, the invariant of all reachable states, the stronger one of the
  states reached without a reused identifier, and what follows for the accounts.
\<close>

section \<open>The map by its strings\<close>

definition dic_ok :: "u32 \<Rightarrow> dic \<Rightarrow> bool" where
  "dic_ok i d \<longleftrightarrow> (\<forall>(a, u) \<in> set d. net_address i a) \<and>
     sorted_wrt (\<lambda>x y. string_less (verbose (fst x)) (verbose (fst y))) d"

lemma dic_ok_Cons:
  "dic_ok i ((a, u) # d) \<longleftrightarrow> net_address i a \<and> (\<forall>(a', u') \<in> set d. string_less (verbose a) (verbose a')) \<and> dic_ok i d"
  by (auto simp: dic_ok_def)

definition by_string :: "dic \<Rightarrow> string \<rightharpoonup> FixedHash" where
  "by_string d = map_of (map (\<lambda>(a, u). (verbose a, u)) d)"

lemma by_string_simps [simp]:
  "by_string [] = Map.empty" "by_string ((a, u) # d) = (by_string d)(verbose a \<mapsto> u)"
  by (simp_all add: by_string_def)

lemma by_string_greater:
  "\<forall>(a', u') \<in> set d. string_less s (verbose a') \<Longrightarrow> by_string d s = None"
  by (induction d) auto

lemma Address_less_verbose:
  assumes "net_address i a" "unat i < 2 ^ 31" "GetVerboseBase32Address k = Inr s"
  shows "Address_less a k = Inr (string_less (verbose a) s)" "Address_less k a = Inr (string_less s (verbose a))"
  using assms GetVerbose_user by (simp_all add: Address_less_def)

lemma dic_find_eq:
  assumes "unat i < 2 ^ 31" "GetVerboseBase32Address k = Inr s"
  shows "dic_ok i d \<Longrightarrow> dic_find k d = Inr (by_string d s)"
proof (induction d)
  case (Cons x d)
  obtain a u where x: "x = (a, u)" by (cases x)
  have a: "net_address i a" "\<forall>(a', u') \<in> set d. string_less (verbose a) (verbose a')" "dic_ok i d"
    using Cons.prems x by (auto simp: dic_ok_Cons)
  note less = Address_less_verbose [OF a(1) assms]
  consider "string_less (verbose a) s" | "verbose a = s" | "string_less s (verbose a)"
    using string_less_linear by blast
  then show ?case
  proof cases
    case 1
    then have "verbose a \<noteq> s" by auto
    then show ?thesis using 1 x less Cons.IH [OF a(3)] by simp
  next
    case 2
    then show ?thesis using x less by simp
  next
    case 3
    then have "verbose a \<noteq> s" "\<not> string_less (verbose a) s" using string_less_trans [of "verbose a" s "verbose a"] by auto
    moreover have "by_string d s = None"
      using a(2) string_less_trans [OF 3] by (intro by_string_greater) auto
    ultimately show ?thesis using 3 x less by simp
  qed
qed simp

lemma dic_find_Some:
  assumes "dic_find k d = Inr (Some u)" shows "\<exists>s. GetVerboseBase32Address k = Inr s"
  using assms by (cases d) (auto simp: Address_less_def bind_res_eq_Inr)

lemma dic_erase_eq:
  assumes "unat i < 2 ^ 31" "GetVerboseBase32Address k = Inr s"
  shows "dic_ok i d \<Longrightarrow> dic_erase k d = Inr (filter (\<lambda>(a, u). verbose a \<noteq> s) d)"
proof (induction d)
  case (Cons x d)
  obtain a u where x: "x = (a, u)" by (cases x)
  have a: "net_address i a" "\<forall>(a', u') \<in> set d. string_less (verbose a) (verbose a')" "dic_ok i d"
    using Cons.prems x by (auto simp: dic_ok_Cons)
  note less = Address_less_verbose [OF a(1) assms]
  have keep: "filter (\<lambda>(a, u). verbose a \<noteq> s) d = d" if "\<forall>(a', u') \<in> set d. string_less s (verbose a')"
    using that by (intro filter_True) auto
  consider "string_less (verbose a) s" | "verbose a = s" | "string_less s (verbose a)"
    using string_less_linear by blast
  then show ?case
  proof cases
    case 1
    then have "verbose a \<noteq> s" by auto
    then show ?thesis using 1 x less Cons.IH [OF a(3)] by simp
  next
    case 2
    then show ?thesis using x less a(2) keep by simp
  next
    case 3
    then have "verbose a \<noteq> s" "\<not> string_less (verbose a) s" using string_less_trans [of "verbose a" s "verbose a"] by auto
    moreover have "\<forall>(a', u') \<in> set d. string_less s (verbose a')" using a(2) string_less_trans [OF 3] by auto
    ultimately show ?thesis using 3 x less keep by simp
  qed
qed simp

lemma dic_set_eq:
  assumes "unat i < 2 ^ 31" "net_address i k"
  shows "dic_ok i d \<Longrightarrow> \<exists>d'. dic_set k v d = Inr d' \<and> dic_ok i d' \<and>
    set d' = insert (k, v) {x \<in> set d. fst x \<noteq> k} \<and> (distinct (map snd d) \<longrightarrow> v \<notin> snd ` set d \<longrightarrow> distinct (map snd d'))"
proof (induction d)
  case (Cons x d)
  obtain a u where x: "x = (a, u)" by (cases x)
  have a: "net_address i a" "\<forall>(a', u') \<in> set d. string_less (verbose a) (verbose a')" "dic_ok i d"
    using Cons.prems x by (auto simp: dic_ok_Cons)
  note less = Address_less_verbose [OF a(1) assms(1) GetVerbose_user [OF assms(2,1)]]
  have later: "k \<notin> fst ` set d" if "\<not> string_less (verbose a) (verbose k)" using a(2) that by auto
  consider "string_less (verbose a) (verbose k)" | "verbose a = verbose k" | "string_less (verbose k) (verbose a)"
    using string_less_linear by blast
  then show ?case
  proof cases
    case 1
    then have ak: "a \<noteq> k" by auto
    obtain d' where d': "dic_set k v d = Inr d'" "dic_ok i d'" "set d' = insert (k, v) {x \<in> set d. fst x \<noteq> k}"
      "distinct (map snd d) \<longrightarrow> v \<notin> snd ` set d \<longrightarrow> distinct (map snd d')"
      using Cons.IH [OF a(3)] by blast
    have "dic_ok i ((a, u) # d')" unfolding dic_ok_Cons using a(1,2) d'(2,3) 1 by auto
    moreover have "u \<notin> snd ` set d'" if "distinct (map snd (x # d))" "v \<notin> snd ` set (x # d)"
      using that d'(3) x by auto
    moreover have "dic_set k v (x # d) = Inr ((a, u) # d')" using d'(1) x 1 less by simp
    moreover have "set ((a, u) # d') = insert (k, v) {y \<in> set (x # d). fst y \<noteq> k}" using d'(3) ak x by auto
    ultimately show ?thesis using d'(4) x by (intro exI [of _ "(a, u) # d'"]) simp
  next
    case 2
    then have "a = k" using verbose_inj [OF a(1) assms(2)] by simp
    moreover have "k \<notin> fst ` set d" using later 2 by simp
    moreover have "dic_ok i ((a, v) # d)" using a by (simp add: dic_ok_Cons)
    ultimately show ?thesis using x 2 less by (auto simp: image_iff)
  next
    case 3
    then have n: "\<not> string_less (verbose a) (verbose k)" "a \<noteq> k"
      using string_less_trans [of "verbose a" "verbose k" "verbose a"] by auto
    have "dic_ok i ((k, v) # (a, u) # d)"
      unfolding dic_ok_Cons using assms(2) a 3 string_less_trans [OF 3] by auto
    then show ?thesis using x 3 less n later by (auto simp: image_iff)
  qed
qed (use assms in \<open>simp add: dic_ok_def\<close>)

section \<open>An index into a store\<close>

text \<open>
  What the manager relies on: a store has a set of keys, which an import extends by the identifier it
  returns, a removal shrinks by the one removed, and a use leaves alone.  Under this contract an index
  that points to keys, no two entries to the same one, stays one.
\<close>

definition indexed :: "'u set \<Rightarrow> 'u list \<Rightarrow> bool" where
  "indexed K us \<longleftrightarrow> distinct us \<and> set us \<subseteq> K"

locale store_index =
  fixes keys :: "'s \<Rightarrow> 'u set"
    and import drop use :: "'s \<Rightarrow> 'u \<Rightarrow> 's \<Rightarrow> bool"
  assumes import_keys: "import s u s' \<Longrightarrow> keys s' = insert u (keys s)"
    and drop_keys: "drop s u s' \<Longrightarrow> keys s' = keys s - {u}"
    and use_keys: "use s u s' \<Longrightarrow> u \<in> keys s \<Longrightarrow> keys s' = keys s"
begin

lemma indexed_import:
  "import s u s' \<Longrightarrow> u \<notin> keys s \<Longrightarrow> indexed (keys s) us \<Longrightarrow> indexed (keys s') us \<and> u \<notin> set us \<and> u \<in> keys s'"
  by (auto simp: indexed_def import_keys)

lemma indexed_drop:
  "drop s u s' \<Longrightarrow> indexed (keys s) us \<Longrightarrow> indexed (keys s') (removeAll u us)"
  by (auto simp: indexed_def drop_keys distinct_removeAll)

lemma indexed_use:
  "use s u s' \<Longrightarrow> u \<in> set us \<Longrightarrow> indexed (keys s) us \<Longrightarrow> indexed (keys s') us"
  using use_keys [of s u s'] by (auto simp: indexed_def)

end

definition st_import :: "store_env \<Rightarrow> SecretStore \<Rightarrow> FixedHash \<Rightarrow> SecretStore \<Rightarrow> bool" where
  "st_import E s u s' \<longleftrightarrow>
     (\<exists>salt iv x pass. importSecret E u salt iv x pass s = Inr (u, s')) \<or> (\<exists>f. importKey E f s = (u, s') \<and> hash_bool u)"

definition st_drop :: "SecretStore \<Rightarrow> FixedHash \<Rightarrow> SecretStore \<Rightarrow> bool" where
  "st_drop s u s' \<longleftrightarrow> s' = kill u s"

definition st_use :: "store_env \<Rightarrow> SecretStore \<Rightarrow> FixedHash \<Rightarrow> SecretStore \<Rightarrow> bool" where
  "st_use E s u s' \<longleftrightarrow> (\<exists>pass c k. secret E u pass c s = Inr (k, s')) \<or>
     (\<exists>salt iv new pass kdf b. recode E salt iv u new pass kdf s = Inr (b, s'))"

sublocale store_laws \<subseteq> ix: store_index keys_in "st_import E" st_drop "st_use E"
proof (unfold_locales)
  fix s u s'
  show "st_import E s u s' \<Longrightarrow> keys_in s' = insert u (keys_in s)"
    using importSecret_keeps(2) importKey_keeps(1) unfolding st_import_def by blast
  show "st_drop s u s' \<Longrightarrow> keys_in s' = keys_in s - {u}"
    by (simp add: st_drop_def kill_keeps(1))
  show "st_use E s u s' \<Longrightarrow> u \<in> keys_in s \<Longrightarrow> keys_in s' = keys_in s"
    using secret_keeps(1) recode_keeps(1) unfolding st_use_def by blast
qed

interpretation demo_index: store_index keys_in "st_import demo_env" st_drop "st_use demo_env"
  by (rule demo_store.ix.store_index_axioms)

section \<open>The invariant\<close>

text \<open>What always holds, and what holds as long as no identifier is used twice.\<close>

definition acc_wf :: "u32 \<Rightarrow> AccountManager \<Rightarrow> bool" where
  "acc_wf i m \<longleftrightarrow> am_networkID m = i \<and> store_ok (ks m) \<and> dic_ok i (cfxAddressDic m)"

definition acc_inv :: "u32 \<Rightarrow> AccountManager \<Rightarrow> bool" where
  "acc_inv i m \<longleftrightarrow> acc_wf i m \<and> indexed (keys_in (ks m)) (map snd (cfxAddressDic m))"

lemma in_dic_simps [simp]: "in_dic (Inr x) = Inr x" "in_dic m = Inr x \<longleftrightarrow> m = Inr x"
  by (auto simp: in_dic_def split: sum.splits)

lemma in_store_simps [simp]: "in_store (Inr x) = Inr x" "in_store m = Inr x \<longleftrightarrow> m = Inr x"
  by (auto simp: in_store_def split: sum.splits)

lemma insert_inv:
  assumes "store_ok (ks m)" "dic_ok i (cfxAddressDic m)" "indexed (keys_in (ks m)) (map snd (cfxAddressDic m))"
    and "am_networkID m = i" "unat i < 2 ^ 31" "net_address i a" "u \<in> keys_in (ks m)" "u \<notin> set (map snd (cfxAddressDic m))"
  shows "\<exists>d. dic_set a u (cfxAddressDic m) = Inr d \<and> acc_inv i (m\<lparr>cfxAddressDic := d\<rparr>) \<and>
    set d = insert (a, u) {x \<in> set (cfxAddressDic m). fst x \<noteq> a}"
proof -
  obtain d where d: "dic_set a u (cfxAddressDic m) = Inr d" "dic_ok i d"
    "set d = insert (a, u) {x \<in> set (cfxAddressDic m). fst x \<noteq> a}"
    "distinct (map snd (cfxAddressDic m)) \<longrightarrow> u \<notin> snd ` set (cfxAddressDic m) \<longrightarrow> distinct (map snd d)"
    using dic_set_eq [OF assms(5,6,2), of u] by blast
  have "indexed (keys_in (ks m)) (map snd d)"
    using assms(3,7,8) d(3,4) unfolding indexed_def by auto
  then show ?thesis using d assms(1,4) by (simp add: acc_inv_def acc_wf_def)
qed

lemma acc_wf_store: "acc_wf i m \<Longrightarrow> store_ok st \<Longrightarrow> acc_wf i (m\<lparr>ks := st\<rparr>)"
  by (simp add: acc_wf_def)

lemma insert_wf:
  assumes "acc_wf i m" "unat i < 2 ^ 31" "net_address i a"
  shows "\<exists>d. dic_set a u (cfxAddressDic m) = Inr d \<and> acc_wf i (m\<lparr>cfxAddressDic := d\<rparr>) \<and>
    set d = insert (a, u) {x \<in> set (cfxAddressDic m). fst x \<noteq> a}"
  using dic_set_eq [OF assms(2,3), of "cfxAddressDic m" u] assms(1) by (auto simp: acc_wf_def)

lemma register_wf:
  assumes "acc_wf i m" "unat i < 2 ^ 31" "length e = 20"
  shows "\<exists>a m'. register e u m = Inr (a, m') \<and> acc_wf i m' \<and> ks m' = ks m \<and> net_address i a \<and>
    set (cfxAddressDic m') = insert (a, u) {x \<in> set (cfxAddressDic m). fst x \<noteq> a}"
proof -
  have i: "am_networkID m = i" using assms(1) by (simp add: acc_wf_def)
  obtain a where a: "getCfxUserAddress e i = Inr a" "net_address i a"
    using getCfxUserAddress_20 [OF assms(3,2)] by (auto simp: net_address_def)
  obtain d where "dic_set a u (cfxAddressDic m) = Inr d" "acc_wf i (m\<lparr>cfxAddressDic := d\<rparr>)"
    "set d = insert (a, u) {x \<in> set (cfxAddressDic m). fst x \<noteq> a}"
    using insert_wf [OF assms(1,2) a(2)] by blast
  then show ?thesis using a i by (simp add: register_def)
qed

lemma register_inv:
  assumes "acc_inv i m" "unat i < 2 ^ 31" "length e = 20" "u \<in> keys_in (ks m)" "u \<notin> set (map snd (cfxAddressDic m))"
  shows "\<exists>a m'. register e u m = Inr (a, m') \<and> acc_inv i m' \<and> ks m' = ks m \<and> net_address i a \<and>
    set (cfxAddressDic m') = insert (a, u) {x \<in> set (cfxAddressDic m). fst x \<noteq> a}"
proof -
  have inv: "am_networkID m = i" "store_ok (ks m)" "dic_ok i (cfxAddressDic m)"
    "indexed (keys_in (ks m)) (map snd (cfxAddressDic m))"
    using assms(1) by (simp_all add: acc_inv_def acc_wf_def)
  obtain a where a: "getCfxUserAddress e i = Inr a" "net_address i a"
    using getCfxUserAddress_20 [OF assms(3,2)] by (auto simp: net_address_def)
  obtain d where "dic_set a u (cfxAddressDic m) = Inr d" "acc_inv i (m\<lparr>cfxAddressDic := d\<rparr>)"
    "set d = insert (a, u) {x \<in> set (cfxAddressDic m). fst x \<noteq> a}"
    using insert_inv [OF inv(2-4) inv(1) assms(2) a(2) assms(4,5)] by blast
  then show ?thesis using a inv(1) by (simp add: register_def)
qed

lemma key_entry:
  assumes "u \<in> keys_in st" shows "\<exists>k. map_of (m_keys st) u = Some k \<and> (store_ok st \<longrightarrow> length (key_address k) = 20)"
proof -
  obtain k where k: "map_of (m_keys st) u = Some k"
    using assms unfolding keys_in_iff store_contains_def by blast
  then show ?thesis using map_of_SomeD [OF k] unfolding store_ok_def by blast
qed

lemma initialize_inv:
  assumes "unat i < 2 ^ 31"
  shows "acc_inv i m \<Longrightarrow> distinct us \<Longrightarrow> set us \<subseteq> keys_in (ks m) \<Longrightarrow> set us \<inter> set (map snd (cfxAddressDic m)) = {} \<Longrightarrow>
    \<exists>m'. initialize_loop us m = Inr m' \<and> acc_inv i m'"
proof (induction us arbitrary: m)
  case (Cons u us)
  have u: "u \<in> keys_in (ks m)" "u \<notin> set (map snd (cfxAddressDic m))" using Cons.prems(3,4) by auto
  obtain k where k: "map_of (m_keys (ks m)) u = Some k" "length (key_address k) = 20"
    using key_entry [OF u(1)] Cons.prems(1) unfolding acc_inv_def acc_wf_def by blast
  obtain a m1 where m1: "register (key_address k) u m = Inr (a, m1)" "acc_inv i m1" "ks m1 = ks m"
      "set (cfxAddressDic m1) = insert (a, u) {x \<in> set (cfxAddressDic m). fst x \<noteq> a}"
    using register_inv [OF Cons.prems(1) assms k(2) u] by blast
  have "set us \<inter> set (map snd (cfxAddressDic m1)) = {}" using m1(4) Cons.prems(2,4) by auto
  then obtain m' where "initialize_loop us m1 = Inr m'" "acc_inv i m'"
    using Cons.IH [OF m1(2)] Cons.prems(2,3) m1(3) by auto
  then show ?case using m1(1) k(1) by (simp add: store_address_def)
qed simp

lemma by_string_mem:
  assumes "by_string d s = Some u" shows "\<exists>a. (a, u) \<in> set d \<and> verbose a = s"
  using map_of_SomeD [OF assms [unfolded by_string_def]] by auto

lemma dic_ok_distinct: "dic_ok i d \<Longrightarrow> distinct (map (verbose \<circ> fst) d)"
proof (induction d)
  case (Cons x d)
  obtain a u where x: "x = (a, u)" by (cases x)
  have "\<forall>y \<in> set d. string_less (verbose a) (verbose (fst y))" "dic_ok i d"
    using Cons.prems x by (auto simp: dic_ok_Cons)
  then have "verbose a \<notin> (verbose \<circ> fst) ` set d" by force
  then show ?case using Cons.IH [OF \<open>dic_ok i d\<close>] x by simp
qed simp

lemma erase_removes:
  assumes "dic_ok i d" "distinct (map snd d)" "by_string d s = Some u"
  shows "map snd (filter (\<lambda>(a, u). verbose a \<noteq> s) d) = removeAll u (map snd d)"
proof -
  obtain a where a: "(a, u) \<in> set d" "verbose a = s" using by_string_mem [OF assms(3)] by blast
  have v: "inj_on (verbose \<circ> fst) (set d)" and n: "inj_on snd (set d)"
    using dic_ok_distinct [OF assms(1)] assms(2) by (simp_all add: distinct_map)
  have "verbose (fst x) \<noteq> s \<longleftrightarrow> snd x \<noteq> u" if x: "x \<in> set d" for x
    using inj_onD [OF v _ x a(1)] inj_onD [OF n _ x a(1)] a(2) by (cases x) auto
  then have "filter (\<lambda>(a, u). verbose a \<noteq> s) d = filter (\<lambda>x. snd x \<noteq> u) d"
    by (intro filter_cong refl) (simp add: case_prod_beta)
  then show ?thesis by (simp add: removeAll_filter_not_eq filter_map comp_def eq_commute)
qed

lemma acc_inv_store:
  "acc_inv i m \<Longrightarrow> store_ok st \<Longrightarrow> indexed (keys_in st) (map snd (cfxAddressDic m)) \<Longrightarrow> acc_inv i (m\<lparr>ks := st\<rparr>)"
  by (simp add: acc_inv_def acc_wf_def)

lemma acc_inv_found:
  assumes "acc_inv i m" "unat i < 2 ^ 31" "dic_find a (cfxAddressDic m) = Inr (Some u)"
  shows "\<exists>s. GetVerboseBase32Address a = Inr s \<and> by_string (cfxAddressDic m) s = Some u"
    "u \<in> set (map snd (cfxAddressDic m))" "u \<in> keys_in (ks m)"
proof -
  obtain s where s: "GetVerboseBase32Address a = Inr s" using dic_find_Some [OF assms(3)] by blast
  have "dic_find a (cfxAddressDic m) = Inr (by_string (cfxAddressDic m) s)"
    using assms(1) by (intro dic_find_eq [OF assms(2) s]) (simp add: acc_inv_def acc_wf_def)
  then have b: "by_string (cfxAddressDic m) s = Some u" using assms(3) by simp
  then show "\<exists>s. GetVerboseBase32Address a = Inr s \<and> by_string (cfxAddressDic m) s = Some u" using s by blast
  show u: "u \<in> set (map snd (cfxAddressDic m))" using by_string_mem [OF b] by force
  then show "u \<in> keys_in (ks m)" using assms(1) unfolding acc_inv_def acc_wf_def indexed_def by blast
qed

section \<open>The steps\<close>

text \<open>
  A step is an operation that returns, with any arguments and any draws, or a change of the directory
  by another program.  Its label is the identifier under which it may store a key: the drawn one, or
  that of the imported file.  Nothing keeps it from being in use already.
\<close>

inductive account_step :: "store_env \<Rightarrow> AccountManager \<Rightarrow> FixedHash option \<Rightarrow> AccountManager \<Rightarrow> bool" for E where
  create: "Create E w pass m = Inr (a, m') \<Longrightarrow> account_step E m (Some (d_uuid w)) m'"
| import_file: "ImportKeystore E f m = Inr (a, ok, m') \<Longrightarrow> account_step E m (Some (fst (importKey E f (ks m)))) m'"
| import_key: "ImportPrivateKey E w s pass m = Inr (a, m') \<Longrightarrow> account_step E m (Some (d_uuid w)) m'"
| get_secret: "GetSecret E a pass m = Inr (s, m') \<Longrightarrow> account_step E m None m'"
| update: "UpdatePassphrase E w a pass newPass m = Inr (b, m') \<Longrightarrow> account_step E m None m'"
| delete: "Delete E a pass m = Inr (b, m') \<Longrightarrow> account_step E m None m'"
| outside: "account_step E m None (m\<lparr>ks := (ks m)\<lparr>disk := d\<rparr>\<rparr>)"

inductive account_reach :: "store_env \<Rightarrow> u32 \<Rightarrow> AccountManager \<Rightarrow> bool" for E i where
  new: "AccountManager_new i d = Inr m \<Longrightarrow> account_reach E i m"
| opened: "AccountManager_open E path files d i = Inr m \<Longrightarrow> account_reach E i m"
| step: "account_reach E i m \<Longrightarrow> account_step E m l m' \<Longrightarrow> account_reach E i m'"

text \<open>The states reached by steps that store keys only under identifiers not in use.\<close>

definition unused :: "FixedHash option \<Rightarrow> SecretStore \<Rightarrow> bool" where
  "unused l st = (case l of None \<Rightarrow> True | Some u \<Rightarrow> u \<notin> keys_in st)"

inductive account_fresh :: "store_env \<Rightarrow> u32 \<Rightarrow> AccountManager \<Rightarrow> bool" for E i where
  new: "AccountManager_new i d = Inr m \<Longrightarrow> account_fresh E i m"
| opened: "AccountManager_open E path files d i = Inr m \<Longrightarrow> account_fresh E i m"
| step: "account_fresh E i m \<Longrightarrow> account_step E m l m' \<Longrightarrow> unused l (ks m) \<Longrightarrow> account_fresh E i m'"

lemma fresh_reach: "account_fresh E i m \<Longrightarrow> account_reach E i m"
  by (induction rule: account_fresh.induct) (auto intro: account_reach.intros)

lemma initialized_inv:
  assumes "unat i < 2 ^ 31" "store_ok st"
  shows "\<exists>m. initialize \<lparr>am_networkID = i, ks = st, cfxAddressDic = []\<rparr> = Inr m \<and> acc_inv i m"
proof -
  let ?m = "\<lparr>am_networkID = i, ks = st, cfxAddressDic = []\<rparr>"
  have "acc_inv i ?m" using assms(2) by (simp add: acc_inv_def acc_wf_def dic_ok_def indexed_def)
  moreover have "distinct (store_keys st)" "set (store_keys st) \<subseteq> keys_in st"
    using assms(2) by (simp_all add: store_keys_def store_ok_def keys_in_def)
  ultimately show ?thesis using initialize_inv [OF assms(1), of ?m "store_keys st"] by (simp add: initialize_def)
qed

context store_laws
begin

lemma load_ok: "store_ok st \<Longrightarrow> store_ok (load E files st)"
proof (induction files arbitrary: st)
  case (Cons f files)
  have "store_ok (snd (readKey E f True st))"
    using readKeyContent_keeps(2) [OF prod.collapse [symmetric] Cons.prems] by (simp add: readKey_def)
  then show ?case using Cons.IH by (simp add: load_def)
qed (simp add: load_def)

lemma address_of_secret:
  assumes "acc_wf i m" "unat i < 2 ^ 31"
  shows "\<exists>b. Secret2CfxAddr (env_crypto E) s (am_networkID m) = Inr b \<and> net_address i b"
proof -
  have "Secret2CfxAddr (env_crypto E) s (am_networkID m) = getCfxUserAddress (toAddress_secret (env_crypto E) s) i"
    using assms(1) by (simp add: Secret2CfxAddr_def getCfxUserAddress_def toAddress_secret_def acc_wf_def)
  then show ?thesis
    using getCfxUserAddress_20 [of "toAddress_secret (env_crypto E) s" i] assms(2)
    by (auto simp: net_address_def toAddress_secret_def length_toAddress_public length_keccak)
qed

lemma Create_wf:
  assumes "acc_wf i m" "unat i < 2 ^ 31" "Create E w pass m = Inr (a, m')"
  shows "acc_wf i m'"
proof -
  let ?k = "KeyPair_of (env_crypto E) (keccak256 (env_crypto E) (d_secret w))"
  obtain u st where st: "importSecret E (d_uuid w) (d_salt w) (d_iv w) (kp_secret ?k) pass (ks m) = Inr (u, st)"
      "register (kp_address ?k) u (m\<lparr>ks := st\<rparr>) = Inr (a, m')"
    using assms(3) by (auto simp: Create_def Let_def bind_res_eq_Inr)
  have "acc_wf i (m\<lparr>ks := st\<rparr>)"
    using acc_wf_store [OF assms(1)] importSecret_keeps(3) [OF st(1)] assms(1) by (simp add: acc_wf_def)
  then show ?thesis
    using register_wf [of i "m\<lparr>ks := st\<rparr>" "kp_address ?k" u] assms(2) length_kp_address st(2) by auto
qed

lemma ImportPrivateKey_wf:
  assumes "acc_wf i m" "unat i < 2 ^ 31" "ImportPrivateKey E w s pass m = Inr (a, m')"
  shows "acc_wf i m'"
proof -
  obtain b where b: "Secret2CfxAddr (env_crypto E) s (am_networkID m) = Inr b" "net_address i b"
    using address_of_secret [OF assms(1,2)] by blast
  consider "m' = m"
    | u st d where "importSecret E (d_uuid w) (d_salt w) (d_iv w) s pass (ks m) = Inr (u, st)"
        "dic_set b u (cfxAddressDic m) = Inr d" "m' = m\<lparr>ks := st, cfxAddressDic := d\<rparr>"
    using assms(3) by (auto simp: ImportPrivateKey_def b(1) bind_res_eq_Inr split: if_splits)
  then show ?thesis
  proof cases
    case 2
    have "store_ok st" using importSecret_keeps(3) [OF 2(1)] assms(1) by (simp add: acc_wf_def)
    then show ?thesis using insert_wf [OF assms(1,2) b(2), of u] 2(2,3) by (simp add: acc_wf_def)
  qed (use assms(1) in simp)
qed

lemma ImportKeystore_wf:
  assumes "acc_wf i m" "unat i < 2 ^ 31" "ImportKeystore E f m = Inr (a, ok, m')"
  shows "acc_wf i m'"
proof -
  obtain u st where st: "importKey E f (ks m) = (u, st)" by (cases "importKey E f (ks m)")
  have ok: "store_ok st" using importKey_keeps(2) [OF st] assms(1) by (simp add: acc_wf_def)
  have wf: "acc_wf i (m\<lparr>ks := st\<rparr>)" by (rule acc_wf_store [OF assms(1) ok])
  show ?thesis
  proof (cases "hash_bool u")
    case True
    then have "u \<in> keys_in st" using importKey_keeps(1) [OF st] by simp
    then obtain k where k: "map_of (m_keys st) u = Some k" "length (key_address k) = 20"
      using key_entry ok by blast
    then show ?thesis
      using assms(3) True st register_wf [OF wf assms(2) k(2), of u]
      by (auto simp: ImportKeystore_def store_address_def bind_res_eq_Inr Let_def)
  next
    case False
    then have "m' = m\<lparr>ks := st\<rparr>" using assms(3) st by (auto simp: ImportKeystore_def bind_res_eq_Inr Let_def)
    then show ?thesis using wf by simp
  qed
qed

lemma GetSecret_wf:
  assumes "acc_wf i m" "unat i < 2 ^ 31" "GetSecret E a pass m = Inr (s, m')"
  shows "acc_wf i m'"
  using assms(1,3) secret_keeps(2)
  by (auto simp: GetSecret_def bind_res_eq_Inr acc_wf_def split: option.splits)

lemma UpdatePassphrase_wf:
  assumes "acc_wf i m" "unat i < 2 ^ 31" "UpdatePassphrase E w a pass newPass m = Inr (b, m')"
  shows "acc_wf i m'"
  using assms(1,3) recode_ok
  by (auto simp: UpdatePassphrase_def bind_res_eq_Inr acc_wf_def split: option.splits)

lemma Delete_wf:
  assumes "acc_wf i m" "unat i < 2 ^ 31" "Delete E a pass m = Inr (b, m')"
  shows "acc_wf i m'"
proof -
  have dic: "dic_ok i d" if e: "dic_erase a (cfxAddressDic m) = Inr d" and f: "dic_find a (cfxAddressDic m) = Inr (Some u)" for d u
  proof -
    obtain s where "GetVerboseBase32Address a = Inr s" using dic_find_Some [OF f] by blast
    then have "d = filter (\<lambda>(a, u). verbose a \<noteq> s) (cfxAddressDic m)"
      using dic_erase_eq [OF assms(2)] e assms(1) by (simp add: acc_wf_def)
    then show ?thesis using assms(1) unfolding acc_wf_def dic_ok_def by (auto intro: sorted_wrt_filter)
  qed
  show ?thesis
    using assms(1,3) secret_keeps(2) kill_keeps(2) dic
    by (fastforce simp: Delete_def bind_res_eq_Inr acc_wf_def split: option.splits if_splits)
qed

lemmas operation_wf = Create_wf ImportKeystore_wf ImportPrivateKey_wf GetSecret_wf UpdatePassphrase_wf Delete_wf

lemma step_wf:
  assumes "account_step E m l m'" "acc_wf i m" "unat i < 2 ^ 31" shows "acc_wf i m'"
  using assms(1)
proof cases
  case (outside d)
  then show ?thesis using assms(2) by (simp add: acc_wf_def store_ok_def)
qed (auto intro: operation_wf [OF assms(2,3)])

lemma use_inv:
  assumes "acc_inv i m" "unat i < 2 ^ 31" "dic_find a (cfxAddressDic m) = Inr (Some u)" "st_use E (ks m) u st"
    and "store_ok st"
  shows "acc_inv i (m\<lparr>ks := st\<rparr>)"
proof (rule acc_inv_store [OF assms(1,5)])
  show "indexed (keys_in st) (map snd (cfxAddressDic m))"
    using ix.indexed_use [OF assms(4) acc_inv_found(2) [OF assms(1-3)]] assms(1) by (simp add: acc_inv_def acc_wf_def)
qed

lemma import_inv:
  assumes "acc_inv i m" "st_import E (ks m) u st" "u \<notin> keys_in (ks m)" "store_ok st"
  shows "acc_inv i (m\<lparr>ks := st\<rparr>)" "u \<in> keys_in st" "u \<notin> set (map snd (cfxAddressDic m))"
  using ix.indexed_import [OF assms(2,3), of "map snd (cfxAddressDic m)"] assms(1)
    acc_inv_store [OF assms(1,4)] by (auto simp: acc_inv_def acc_wf_def)

lemma Create_inv:
  assumes "acc_inv i m" "unat i < 2 ^ 31" "Create E w pass m = Inr (a, m')" "d_uuid w \<notin> keys_in (ks m)"
  shows "acc_inv i m'"
proof -
  let ?k = "KeyPair_of (env_crypto E) (keccak256 (env_crypto E) (d_secret w))"
  obtain u st where st: "importSecret E (d_uuid w) (d_salt w) (d_iv w) (kp_secret ?k) pass (ks m) = Inr (u, st)"
      "register (kp_address ?k) u (m\<lparr>ks := st\<rparr>) = Inr (a, m')"
    using assms(3) by (auto simp: Create_def Let_def bind_res_eq_Inr)
  note keep = importSecret_keeps [OF st(1)]
  have "st_import E (ks m) u st" using st(1) keep(1) unfolding st_import_def by blast
  then have im: "acc_inv i (m\<lparr>ks := st\<rparr>)" "u \<in> keys_in st" "u \<notin> set (map snd (cfxAddressDic m))"
    using import_inv [OF assms(1) _ _ keep(3)] keep(1) assms(1,4) by (auto simp: acc_inv_def acc_wf_def)
  have "length (kp_address ?k) = 20" by (rule length_kp_address)
  then show ?thesis using register_inv [OF im(1) assms(2), of "kp_address ?k" u] im(2,3) st(2) by auto
qed

lemma ImportPrivateKey_inv:
  assumes "acc_inv i m" "unat i < 2 ^ 31" "ImportPrivateKey E w s pass m = Inr (a, m')" "d_uuid w \<notin> keys_in (ks m)"
  shows "acc_inv i m'"
proof -
  obtain b where b: "Secret2CfxAddr (env_crypto E) s (am_networkID m) = Inr b" "net_address i b"
    using address_of_secret [OF _ assms(2)] assms(1) unfolding acc_inv_def by blast
  consider "m' = m"
    | u st d where "importSecret E (d_uuid w) (d_salt w) (d_iv w) s pass (ks m) = Inr (u, st)"
        "dic_set b u (cfxAddressDic m) = Inr d" "m' = m\<lparr>ks := st, cfxAddressDic := d\<rparr>"
    using assms(3) by (auto simp: ImportPrivateKey_def b(1) bind_res_eq_Inr split: if_splits)
  then show ?thesis
  proof cases
    case 2
    note keep = importSecret_keeps [OF 2(1)]
    have "st_import E (ks m) u st" using 2(1) keep(1) unfolding st_import_def by blast
    then have im: "acc_inv i (m\<lparr>ks := st\<rparr>)" "u \<in> keys_in st" "u \<notin> set (map snd (cfxAddressDic m))"
      using import_inv [OF assms(1) _ _ keep(3)] keep(1) assms(1,4) by (auto simp: acc_inv_def acc_wf_def)
    show ?thesis using insert_inv [of "m\<lparr>ks := st\<rparr>" i b u] im b(2) assms(2) 2(2,3) by (auto simp: acc_inv_def acc_wf_def)
  qed (use assms(1) in simp)
qed

lemma ImportKeystore_inv:
  assumes "acc_inv i m" "unat i < 2 ^ 31" "ImportKeystore E f m = Inr (a, ok, m')"
    and "fst (importKey E f (ks m)) \<notin> keys_in (ks m)"
  shows "acc_inv i m'"
proof -
  obtain u st where st: "importKey E f (ks m) = (u, st)" by (cases "importKey E f (ks m)")
  have ok: "store_ok st" using importKey_keeps(2) [OF st] assms(1) by (simp add: acc_inv_def acc_wf_def)
  show ?thesis
  proof (cases "hash_bool u")
    case True
    then have "st_import E (ks m) u st" using st unfolding st_import_def by blast
    then have im: "acc_inv i (m\<lparr>ks := st\<rparr>)" "u \<in> keys_in st" "u \<notin> set (map snd (cfxAddressDic m))"
      using import_inv [OF assms(1) _ _ ok] assms(4) st by auto
    obtain k where k: "map_of (m_keys st) u = Some k" "length (key_address k) = 20"
      using key_entry [OF im(2)] ok by blast
    then show ?thesis
      using assms(3) True st register_inv [OF im(1) assms(2) k(2), of u] im(2,3)
      by (auto simp: ImportKeystore_def store_address_def bind_res_eq_Inr Let_def)
  next
    case False
    have "keys_in (ks m) \<subseteq> keys_in st" using importKey_keeps(3) [OF st False] by blast
    then have "indexed (keys_in st) (map snd (cfxAddressDic m))"
      using assms(1) unfolding acc_inv_def acc_wf_def indexed_def by blast
    then have "acc_inv i (m\<lparr>ks := st\<rparr>)" by (rule acc_inv_store [OF assms(1) ok])
    moreover have "m' = m\<lparr>ks := st\<rparr>" using assms(3) False st by (auto simp: ImportKeystore_def bind_res_eq_Inr Let_def)
    ultimately show ?thesis by simp
  qed
qed

lemma GetSecret_inv:
  assumes "acc_inv i m" "unat i < 2 ^ 31" "GetSecret E a pass m = Inr (s, m')"
  shows "acc_inv i m'"
proof -
  consider "m' = m" | u b st where "dic_find a (cfxAddressDic m) = Inr (Some u)"
      "secret E u pass True (ks m) = Inr (b, st)" "m' = m\<lparr>ks := st\<rparr>"
    using assms(3) by (auto simp: GetSecret_def bind_res_eq_Inr split: option.splits)
  then show ?thesis
  proof cases
    case 2
    have "st_use E (ks m) u st" using 2(2) unfolding st_use_def by blast
    then show ?thesis using use_inv [OF assms(1,2) 2(1)] secret_keeps(2) [OF 2(2)] assms(1) 2(3) by (simp add: acc_inv_def acc_wf_def)
  qed (use assms(1) in simp)
qed

lemma UpdatePassphrase_inv:
  assumes "acc_inv i m" "unat i < 2 ^ 31" "UpdatePassphrase E w a pass newPass m = Inr (b, m')"
  shows "acc_inv i m'"
proof -
  consider "m' = m" | u st where "dic_find a (cfxAddressDic m) = Inr (Some u)"
      "recode E (d_salt w) (d_iv w) u newPass pass Scrypt (ks m) = Inr (b, st)" "m' = m\<lparr>ks := st\<rparr>"
    using assms(3) by (auto simp: UpdatePassphrase_def bind_res_eq_Inr split: option.splits)
  then show ?thesis
  proof cases
    case 2
    have "st_use E (ks m) u st" using 2(2) unfolding st_use_def by blast
    moreover have "store_ok st"
      using recode_keeps(2) [OF 2(2) acc_inv_found(3) [OF assms(1,2) 2(1)]] assms(1) by (simp add: acc_inv_def acc_wf_def)
    ultimately show ?thesis using use_inv [OF assms(1,2) 2(1)] 2(3) by simp
  qed (use assms(1) in simp)
qed

lemma Delete_inv:
  assumes "acc_inv i m" "unat i < 2 ^ 31" "Delete E a pass m = Inr (b, m')"
  shows "acc_inv i m'"
proof -
  consider "m' = m" | u s st where "dic_find a (cfxAddressDic m) = Inr (Some u)"
      "secret E u pass False (ks m) = Inr (s, st)" "m' = m\<lparr>ks := st\<rparr>"
    | u s st d where "dic_find a (cfxAddressDic m) = Inr (Some u)" "secret E u pass False (ks m) = Inr (s, st)"
      "dic_erase a (cfxAddressDic m) = Inr d" "m' = m\<lparr>ks := kill u st, cfxAddressDic := d\<rparr>"
    using assms(3) by (auto simp: Delete_def bind_res_eq_Inr split: option.splits if_splits)
  then show ?thesis
  proof cases
    case 2
    have "st_use E (ks m) u st" using 2(2) unfolding st_use_def by blast
    then show ?thesis using use_inv [OF assms(1,2) 2(1)] secret_keeps(2) [OF 2(2)] assms(1) 2(3) by (simp add: acc_inv_def acc_wf_def)
  next
    case 3
    have "st_use E (ks m) u st" using 3(2) unfolding st_use_def by blast
    then have inv: "acc_inv i (m\<lparr>ks := st\<rparr>)"
      using use_inv [OF assms(1,2) 3(1)] secret_keeps(2) [OF 3(2)] assms(1) by (simp add: acc_inv_def acc_wf_def)
    obtain s where s: "GetVerboseBase32Address a = Inr s" "by_string (cfxAddressDic m) s = Some u"
      using acc_inv_found(1) [OF assms(1,2) 3(1)] by blast
    have dic: "dic_ok i (cfxAddressDic m)" "distinct (map snd (cfxAddressDic m))"
      using assms(1) by (simp_all add: acc_inv_def acc_wf_def indexed_def)
    have d: "d = filter (\<lambda>(a, u). verbose a \<noteq> s) (cfxAddressDic m)"
      using dic_erase_eq [OF assms(2) s(1) dic(1)] 3(3) by simp
    have "dic_ok i d" using dic(1) unfolding d dic_ok_def by (auto intro: sorted_wrt_filter)
    moreover have "indexed (keys_in (kill u st)) (map snd d)"
      unfolding d erase_removes [OF dic s(2)]
      by (rule ix.indexed_drop [where s = st]) (use inv in \<open>simp_all add: st_drop_def acc_inv_def acc_wf_def del: set_map\<close>)
    ultimately show ?thesis using inv kill_keeps(2) [of st u] 3(4) by (simp add: acc_inv_def acc_wf_def)
  qed (use assms(1) in simp)
qed

lemmas operation_inv = Create_inv ImportKeystore_inv ImportPrivateKey_inv GetSecret_inv UpdatePassphrase_inv Delete_inv

lemma step_inv:
  assumes "account_step E m l m'" "unused l (ks m)" "acc_inv i m" "unat i < 2 ^ 31" shows "acc_inv i m'"
  using assms(1)
proof cases
  case (outside d)
  moreover have "store_ok ((ks m)\<lparr>disk := d\<rparr>)" "keys_in ((ks m)\<lparr>disk := d\<rparr>) = keys_in (ks m)"
    using assms(3) by (simp_all add: acc_inv_def acc_wf_def store_ok_def keys_in_def)
  ultimately show ?thesis using assms(3) by (simp add: acc_inv_def acc_wf_def)
qed (use assms(2) in \<open>auto simp: unused_def intro: operation_inv [OF assms(3,4)]\<close>)

lemma new_inv: "unat i < 2 ^ 31 \<Longrightarrow> AccountManager_new i d = Inr m \<Longrightarrow> acc_inv i m"
  using initialized_inv [of i "SecretStore_new d"]
  by (auto simp: AccountManager_new_def SecretStore_new_def store_ok_def)

lemma opened_inv:
  assumes "unat i < 2 ^ 31" "AccountManager_open E path files d i = Inr m" shows "acc_inv i m"
proof -
  have "store_ok (SecretStore_open E path files d)"
    unfolding SecretStore_open_def by (rule load_ok) (simp add: SecretStore_new_def store_ok_def)
  then show ?thesis using initialized_inv [OF assms(1), of "SecretStore_open E path files d"] assms(2) by (auto simp: AccountManager_open_def)
qed

lemma reach_wf: "account_reach E i m \<Longrightarrow> unat i < 2 ^ 31 \<Longrightarrow> acc_wf i m"
  by (induction rule: account_reach.induct) (use new_inv opened_inv step_wf in \<open>auto simp: acc_inv_def\<close>)

lemma fresh_inv: "account_fresh E i m \<Longrightarrow> unat i < 2 ^ 31 \<Longrightarrow> acc_inv i m"
  by (induction rule: account_fresh.induct) (use new_inv opened_inv step_inv in auto)

lemma dic_find_in:
  assumes "acc_wf i m" "unat i < 2 ^ 31" "(a, u) \<in> set (cfxAddressDic m)"
  shows "dic_find a (cfxAddressDic m) = Inr (Some u)"
proof -
  have ok: "dic_ok i (cfxAddressDic m)" using assms(1) by (simp add: acc_wf_def)
  then have "net_address i a" using assms(3) unfolding dic_ok_def by blast
  then have "dic_find a (cfxAddressDic m) = Inr (by_string (cfxAddressDic m) (verbose a))"
    using dic_find_eq [OF assms(2) GetVerbose_user ok] assms(2) by blast
  moreover have "distinct (map fst (map (\<lambda>(a, u). (verbose a, u)) (cfxAddressDic m)))"
    using dic_ok_distinct [OF ok] by (simp add: comp_def case_prod_beta)
  then have "by_string (cfxAddressDic m) (verbose a) = Some u"
    unfolding by_string_def using assms(3) by (intro map_of_is_SomeI) force+
  ultimately show ?thesis by simp
qed

lemma Create_ok:
  assumes "acc_wf i m" "unat i < 2 ^ 31" "length (d_iv w) = 16"
    and "k = keccak256 (env_crypto E) (d_secret w)"
  shows "\<exists>a m'. Create E w pass m = Inr (a, m') \<and> acc_wf i m' \<and> (a, d_uuid w) \<in> set (cfxAddressDic m') \<and>
    m_cached (ks m') (d_uuid w) = Some k \<and>
    (\<exists>ek. map_of (m_keys (ks m')) (d_uuid w) = Some ek \<and> decrypt E (encryptedKey ek) pass = Inr k)"
proof -
  let ?k = "KeyPair_of (env_crypto E) k"
  have len: "length k = 32" "k \<noteq> []" using assms(4) length_keccak by (auto simp flip: length_greater_0_conv)
  obtain st o' ek where st: "importSecret E (d_uuid w) (d_salt w) (d_iv w) k pass (ks m) = Inr (d_uuid w, st)"
      "m_cached st (d_uuid w) = Some k" "map_of (m_keys st) (d_uuid w) = Some ek"
      "encryptedKey ek = write_string (env_json E) (JObj o') True"
      "\<forall>p. decrypt E (write_string (env_json E) (JObj o') p) pass = Inr k"
    using importSecret_ok [OF assms(3) len(2), of "d_uuid w" "d_salt w" pass "ks m"] by blast
  have wf: "acc_wf i (m\<lparr>ks := st\<rparr>)"
    using acc_wf_store [OF assms(1)] importSecret_keeps(3) [OF st(1)] assms(1) by (simp add: acc_wf_def)
  obtain a m' where m': "register (kp_address ?k) (d_uuid w) (m\<lparr>ks := st\<rparr>) = Inr (a, m')" "acc_wf i m'" "ks m' = st"
      "set (cfxAddressDic m') = insert (a, d_uuid w) {x \<in> set (cfxAddressDic m). fst x \<noteq> a}"
    using register_wf [OF wf assms(2), of "kp_address ?k" "d_uuid w"] length_kp_address by auto
  moreover have "Create E w pass m = Inr (a, m')"
    using st(1) m'(1) assms(4) by (simp add: Create_def Let_def KeyPair_of_def)
  ultimately show ?thesis using st(2-5) by auto
qed

end

section \<open>Properties\<close>

text \<open>
  C6: in every state the manager can reach, whatever operations are called in whatever order with
  whatever files and draws, and whatever other programs do to the key directory, the accounts listed
  are user addresses of the manager's network in strictly increasing order.  If moreover no step on
  the way stored a key under an identifier that was already in use, each account belongs to a key of
  the store, and no two to the same key.  The condition is needed: \<open>ImportKeystore\<close> does not look
  whether the identifier of the file is in use, and then replaces the key of another account
  (\<open>reused_id_shares_key\<close> below).
\<close>

theorem account_invariant:
  assumes "store_laws E" "unat i < 2 ^ 31" "account_reach E i m"
  shows "am_networkID m = i \<and> sorted_wrt (\<lambda>a b. Address_less a b = Inr True) (List m) \<and>
    (\<forall>a \<in> set (List m). net_address i a) \<and>
    (account_fresh E i m \<longrightarrow>
      (\<forall>(a, u) \<in> set (cfxAddressDic m). store_contains u (ks m)) \<and> distinct (map snd (cfxAddressDic m)))"
proof -
  have d: "dic_ok i (cfxAddressDic m)" "am_networkID m = i"
    using store_laws.reach_wf [OF assms(1,3,2)] by (simp_all add: acc_wf_def)
  have net: "net_address i (fst x)" if "x \<in> set (cfxAddressDic m)" for x
    using d(1) that unfolding dic_ok_def by (cases x) auto
  have "sorted_wrt (\<lambda>x y. string_less (verbose (fst x)) (verbose (fst y))) (cfxAddressDic m)"
    using d(1) by (simp add: dic_ok_def)
  then have "sorted_wrt (\<lambda>x y. Address_less (fst x) (fst y) = Inr True) (cfxAddressDic m)"
    by (rule sorted_wrt_mono_rel [rotated])
      (simp add: Address_less_verbose [OF net assms(2) GetVerbose_user [OF net assms(2)]])
  then have "sorted_wrt (\<lambda>a b. Address_less a b = Inr True) (List m)" by (simp add: List_def sorted_wrt_map)
  moreover have "\<forall>a \<in> set (List m). net_address i a" using net by (simp add: List_def)
  moreover have "(\<forall>(a, u) \<in> set (cfxAddressDic m). store_contains u (ks m)) \<and> distinct (map snd (cfxAddressDic m))"
    if "account_fresh E i m"
    using store_laws.fresh_inv [OF assms(1) that assms(2)] unfolding acc_inv_def indexed_def keys_in_iff [symmetric] by force
  ultimately show ?thesis using d(2) by blast
qed

text \<open>
  A file whose identifier is in use: the import succeeds, and afterwards the old account and that of
  the file belong to one key, the one of the file.
\<close>

lemma reused_id_shares_key:
  assumes "store_laws E" "unat i < 2 ^ 31" "account_reach E i m"
    and "(a, u) \<in> set (cfxAddressDic m)" "importKey E f (ks m) = (u, st)" "hash_bool u"
  shows "\<exists>b m'. ImportKeystore E f m = Inr (b, True, m') \<and> account_reach E i m' \<and> ks m' = st \<and>
    {(a, u), (b, u)} \<subseteq> set (cfxAddressDic m')"
proof -
  have wf: "acc_wf i m" by (rule store_laws.reach_wf [OF assms(1,3,2)])
  have ok: "store_ok st" using store_laws.importKey_keeps(2) [OF assms(1,5)] wf by (simp add: acc_wf_def)
  have "u \<in> keys_in st" using store_laws.importKey_keeps(1) [OF assms(1,5,6)] by simp
  then obtain k where k: "map_of (m_keys st) u = Some k" "length (key_address k) = 20" using key_entry ok by blast
  obtain b m' where m': "register (key_address k) u (m\<lparr>ks := st\<rparr>) = Inr (b, m')" "ks m' = st"
      "set (cfxAddressDic m') = insert (b, u) {x \<in> set (cfxAddressDic m). fst x \<noteq> b}"
    using register_wf [OF acc_wf_store [OF wf ok] assms(2) k(2), of u] by auto
  have im: "ImportKeystore E f m = Inr (b, True, m')"
    using assms(5,6) k(1) m'(1) by (simp add: ImportKeystore_def store_address_def)
  moreover have "account_reach E i m'" using account_reach.step [OF assms(3) account_step.import_file [OF im]] .
  ultimately show ?thesis using m'(2,3) assms(4) by auto
qed

text \<open>
  C15: from every reachable state \<open>Create\<close> succeeds, lists the new address, and the account works: while
  the key is cached \<open>GetSecret\<close> returns its secret, whatever passphrase is given, and once the cache is
  cleared it returns it for the passphrase of \<open>Create\<close>.  \<open>Delete\<close> with the passphrase then takes
  the address off the list and the key out of the store.
\<close>

theorem create_then_use:
  assumes "store_laws E" "unat i < 2 ^ 31" "account_reach E i m"
    and "length (d_iv w) = 16" "d_uuid w \<notin> keys_in (ks m)"
    and "k = keccak256 (env_crypto E) (d_secret w)" "hash_bool k"
  shows "\<exists>a m'. Create E w pass m = Inr (a, m') \<and> account_reach E i m' \<and> a \<in> set (List m') \<and>
    (\<forall>p. GetSecret E a p m' = Inr (k, m')) \<and>
    (\<exists>m2. GetSecret E a pass (m'\<lparr>ks := clearCache (ks m')\<rparr>) = Inr (k, m2)) \<and>
    (\<exists>m2. Delete E a pass m' = Inr (True, m2) \<and> a \<notin> set (List m2) \<and> \<not> store_contains (d_uuid w) (ks m2))"
proof -
  let ?u = "d_uuid w"
  obtain a m' ek where c: "Create E w pass m = Inr (a, m')" "acc_wf i m'" "(a, ?u) \<in> set (cfxAddressDic m')"
      "m_cached (ks m') ?u = Some k" "map_of (m_keys (ks m')) ?u = Some ek" "decrypt E (encryptedKey ek) pass = Inr k"
    using store_laws.Create_ok [OF assms(1) store_laws.reach_wf [OF assms(1,3,2)] assms(2,4,6), of pass] by blast
  have len: "length k = 32" "k \<noteq> []" "Secret_of k = k"
    using assms(1,6) store_laws.length_keccak by (auto simp: Secret_of_def hash_of_bytes_def simp flip: length_greater_0_conv)
  have find: "dic_find a (cfxAddressDic m') = Inr (Some ?u)"
    by (rule store_laws.dic_find_in [OF assms(1) c(2) assms(2) c(3)])
  have dic: "dic_ok i (cfxAddressDic m')" using c(2) by (simp add: acc_wf_def)
  then have a: "net_address i a" using c(3) unfolding dic_ok_def by blast
  have "account_reach E i m'" using account_step.create [OF c(1)] assms(3) by (blast intro: account_reach.step)
  moreover have "a \<in> set (List m')" using c(3) by (force simp: List_def)
  moreover have "GetSecret E a p m' = Inr (k, m')" for p by (simp add: GetSecret_def find secret_def c(4) len(3))
  moreover have "\<exists>m2. GetSecret E a pass (m'\<lparr>ks := clearCache (ks m')\<rparr>) = Inr (k, m2)"
    by (simp add: GetSecret_def find secret_def clearCache_def c(5,6) len)
  moreover obtain st where st: "secret E ?u pass False (ks m') = Inr (k, st)"
    by (simp add: secret_def c(5,6))
  define d where "d = filter (\<lambda>(a', u). verbose a' \<noteq> verbose a) (cfxAddressDic m')"
  have erase: "dic_erase a (cfxAddressDic m') = Inr d"
    unfolding d_def by (rule dic_erase_eq [OF assms(2) GetVerbose_user [OF a assms(2)] dic])
  define m2 where "m2 = m'\<lparr>ks := kill ?u st, cfxAddressDic := d\<rparr>"
  have "Delete E a pass m' = Inr (True, m2)"
    by (simp add: Delete_def find st len(3) assms(7) erase m2_def)
  moreover have "a \<notin> set (List m2)" by (auto simp: List_def m2_def d_def)
  moreover have "\<not> store_contains ?u (ks m2)"
    unfolding keys_in_iff [symmetric] by (simp add: m2_def store_laws.kill_keeps(1) [OF assms(1)])
  ultimately show ?thesis using c(1) by blast
qed

text \<open>The account of the smallest secret, created in an empty manager of network 1.\<close>

definition demo_draws :: draws where
  "demo_draws = \<lparr>d_secret = replicate 32 9, d_uuid = replicate 16 7, d_salt = [1], d_iv = replicate 16 0\<rparr>"

definition demo_manager :: AccountManager where
  "demo_manager = \<lparr>am_networkID = 1, ks = SecretStore_new Map.empty, cfxAddressDic = []\<rparr>"

lemma demo_manager_fresh: "account_fresh demo_env 1 demo_manager"
  by (rule account_fresh.new [of _ Map.empty])
    (simp add: AccountManager_new_def initialize_def store_keys_def SecretStore_new_def demo_manager_def)

lemmas demo_manager_reached = fresh_reach [OF demo_manager_fresh]

lemma demo_draws_ok:
  "length (d_iv demo_draws) = 16" "d_uuid demo_draws \<notin> keys_in (ks demo_manager)"
  "keccak256 (env_crypto demo_env) (d_secret demo_draws) = replicate 31 0 @ [9]"
  by (simp_all add: demo_draws_def demo_manager_def keys_in_def SecretStore_new_def demo_env_def)

theorem create_then_use_witness:
  "\<exists>a m'. Create demo_env demo_draws ''pass'' demo_manager = Inr (a, m') \<and> account_reach demo_env 1 m' \<and> a \<in> set (List m') \<and>
    (\<forall>p. GetSecret demo_env a p m' = Inr (replicate 31 0 @ [9], m')) \<and>
    (\<exists>m2. GetSecret demo_env a ''pass'' (m'\<lparr>ks := clearCache (ks m')\<rparr>) = Inr (replicate 31 0 @ [9], m2)) \<and>
    (\<exists>m2. Delete demo_env a ''pass'' m' = Inr (True, m2) \<and> a \<notin> set (List m2) \<and>
      \<not> store_contains (d_uuid demo_draws) (ks m2))"
  by (rule create_then_use [OF demo_store.store_laws_axioms _ demo_manager_reached demo_draws_ok(1,2) demo_draws_ok(3) [symmetric]])
    (simp_all add: hash_bool_def)

theorem account_invariant_witness:
  "\<exists>a m. account_reach demo_env 1 m \<and> a \<in> set (List m) \<and> sorted_wrt (\<lambda>a b. Address_less a b = Inr True) (List m) \<and>
    net_address 1 a \<and> account_fresh demo_env 1 m \<and> store_contains (d_uuid demo_draws) (ks m)"
proof -
  obtain a m where m: "Create demo_env demo_draws ''pass'' demo_manager = Inr (a, m)" "(a, d_uuid demo_draws) \<in> set (cfxAddressDic m)"
    using demo_store.Create_ok [OF demo_store.reach_wf [OF demo_manager_reached] _ demo_draws_ok(1) refl, of "''pass''"] by auto
  have f: "account_fresh demo_env 1 m"
    using account_fresh.step [OF demo_manager_fresh account_step.create [OF m(1)]] demo_draws_ok(2) by (simp add: unused_def)
  note r = fresh_reach [OF f]
  have "sorted_wrt (\<lambda>a b. Address_less a b = Inr True) (List m)" "\<forall>a \<in> set (List m). net_address 1 a"
    "\<forall>(a, u) \<in> set (cfxAddressDic m). store_contains u (ks m)"
    using account_invariant [OF demo_store.store_laws_axioms _ r] f by simp_all
  moreover have "a \<in> set (List m)" using m(2) by (force simp: List_def)
  ultimately show ?thesis using r f m(2) by blast
qed

end
