(* ===== verification/Key_Manager.thy ===== *)
theory Key_Manager
  imports Secret_Theorems Rlp_Trees
begin

text \<open>
  \<^verbatim>\<open>libdevcore/KeyManager\<close>: names, password hints and password hashes of keys, over a secret store.
  The index is kept in an encrypted file of RLP data.  An operation takes the state to its result or
  a thrown exception, and to the state at that point, so that what a failing operation has already
  changed is visible.  A query function for passwords is the list of its answers; it throws
  \<open>PasswordUnknown\<close> when they are used up, as \<open>DontKnowThrow\<close> does at once.
\<close>

section \<open>The state\<close>

record KeyInfo =
  passHash :: FixedHash
  accountName :: string
  infoHint :: string

record KeyManager =
  m_uuidLookup :: "FixedHash \<rightharpoonup> FixedHash"
  m_addrLookup :: "FixedHash \<rightharpoonup> FixedHash"
  m_keyInfo :: "(FixedHash \<times> KeyInfo) list"
  m_passwordHint :: "(FixedHash \<times> string) list"
  m_cachedPasswords :: "FixedHash \<rightharpoonup> string"
  m_defaultPasswordDeprecated :: string
  m_keysFile :: string
  m_keysFileKey :: FixedHash
  m_master :: FixedHash
  m_store :: SecretStore

datatype km_error = KmStore store_error | KmRlp rlp_error | PasswordUnknown | KmOutOfRange | EncseedType | Endless

type_synonym 'a act = "KeyManager \<Rightarrow> (km_error + 'a) \<times> KeyManager"

definition return :: "'a \<Rightarrow> 'a act" where
  "return x m = (Inr x, m)"

definition throw :: "km_error \<Rightarrow> 'a act" where
  "throw e m = (Inl e, m)"

definition bind_act :: "'a act \<Rightarrow> ('a \<Rightarrow> 'b act) \<Rightarrow> 'b act" where
  "bind_act f g m = (case f m of (Inl e, m') \<Rightarrow> (Inl e, m') | (Inr x, m') \<Rightarrow> g x m')"

definition modify :: "(KeyManager \<Rightarrow> KeyManager) \<Rightarrow> unit act" where
  "modify f m = (Inr (), f m)"

definition gets :: "(KeyManager \<Rightarrow> 'a) \<Rightarrow> 'a act" where
  "gets f m = (Inr (f m), m)"

definition lift_err :: "('e \<Rightarrow> km_error) \<Rightarrow> 'e + 'a \<Rightarrow> 'a act" where
  "lift_err f x m = (case x of Inl e \<Rightarrow> (Inl (f e), m) | Inr v \<Rightarrow> (Inr v, m))"

text \<open>An operation of the store; one that throws leaves it as it was.\<close>

definition on_store :: "(SecretStore \<Rightarrow> store_error + ('a \<times> SecretStore)) \<Rightarrow> 'a act" where
  "on_store f m = (case f (m_store m) of Inl e \<Rightarrow> (Inl (KmStore e), m) | Inr (x, st) \<Rightarrow> (Inr x, m\<lparr>m_store := st\<rparr>))"

section \<open>Files\<close>

definition appendToFilename :: "string \<Rightarrow> string \<Rightarrow> string" where
  "appendToFilename orig suffix = orig @ suffix"

definition contents :: "string \<Rightarrow> KeyManager \<Rightarrow> bytes" where
  "contents file m = asBytes (contentsString file (m_store m))"

definition writeFile :: "string \<Rightarrow> bytes \<Rightarrow> unit act" where
  "writeFile file data = modify (\<lambda>m. m\<lparr>m_store := (m_store m)\<lparr>disk := (disk (m_store m))(file \<mapsto> asString data)\<rparr>\<rparr>)"

definition km_exists :: "KeyManager \<Rightarrow> bool" where
  "km_exists m = (contents (appendToFilename (m_keysFile m) ''.salt'') m \<noteq> [] \<and> contents (m_keysFile m) m \<noteq> [])"

definition setKeysFile :: "string \<Rightarrow> unit act" where
  "setKeysFile keysFile = modify (\<lambda>m. m\<lparr>m_keysFile := keysFile\<rparr>)"

section \<open>Passwords\<close>

definition derive :: "store_env \<Rightarrow> string \<Rightarrow> bytes \<Rightarrow> nat \<Rightarrow> bytes act" where
  "derive E pass salt dklen =
     (case env_pbkdf2 E pass salt 262144 dklen of None \<Rightarrow> throw (KmStore CryptoException) | Some k \<Rightarrow> return k)"

definition hashPassword :: "store_env \<Rightarrow> string \<Rightarrow> FixedHash act" where
  "hashPassword E pass =
     bind_act (gets m_defaultPasswordDeprecated) (\<lambda>dflt.
     bind_act (derive E pass (asBytes dflt) 32) (\<lambda>k. return (hash_of_bytes 32 k FailIfDifferent)))"

definition cachePassword :: "store_env \<Rightarrow> string \<Rightarrow> unit act" where
  "cachePassword E password =
     bind_act (hashPassword E password) (\<lambda>h.
       modify (\<lambda>m. m\<lparr>m_cachedPasswords := (m_cachedPasswords m)(h \<mapsto> password)\<rparr>))"

definition notePassword :: "store_env \<Rightarrow> string \<Rightarrow> unit act" where
  "notePassword E pass =
     bind_act (hashPassword E pass) (\<lambda>h. modify (\<lambda>m. m\<lparr>m_cachedPasswords := (m_cachedPasswords m)(h \<mapsto> pass)\<rparr>))"

definition noteHint :: "store_env \<Rightarrow> string \<Rightarrow> string \<Rightarrow> unit act" where
  "noteHint E pass hint =
     (if hint \<noteq> [] then bind_act (hashPassword E pass) (\<lambda>h.
        modify (\<lambda>m. m\<lparr>m_passwordHint := AList.update h hint (m_passwordHint m)\<rparr>))
      else return ())"

definition haveHint :: "store_env \<Rightarrow> string \<Rightarrow> bool act" where
  "haveHint E pass =
     bind_act (hashPassword E pass) (\<lambda>h.
     bind_act (gets m_cachedPasswords) (\<lambda>c. return (case c h of None \<Rightarrow> False | Some p \<Rightarrow> p \<noteq> [])))"

definition UnknownPassword :: FixedHash where
  "UnknownPassword = hash_zero 32"

text \<open>At most ten questions; an empty answer gives up.\<close>

fun ask_loop :: "store_env \<Rightarrow> nat \<Rightarrow> FixedHash \<Rightarrow> string list \<Rightarrow> string act" where
  "ask_loop E 0 ph pass = return []"
| "ask_loop E (Suc i) ph [] = throw PasswordUnknown"
| "ask_loop E (Suc i) ph (p # pass) =
     (if p = [] then return []
      else bind_act (if ph = UnknownPassword then return True
                     else bind_act (hashPassword E p) (\<lambda>h. return (h = ph))) (\<lambda>ok.
        if ok then bind_act (cachePassword E p) (\<lambda>_. return p) else ask_loop E i ph pass))"

definition getPassword_hash :: "store_env \<Rightarrow> FixedHash \<Rightarrow> string list \<Rightarrow> string act" where
  "getPassword_hash E ph pass =
     bind_act (gets m_cachedPasswords) (\<lambda>c.
       case c ph of Some p \<Rightarrow> return p | None \<Rightarrow> ask_loop E 10 ph pass)"

definition passHash_of :: "FixedHash \<Rightarrow> KeyManager \<Rightarrow> FixedHash" where
  "passHash_of uuid m =
     (case m_uuidLookup m uuid of
        None \<Rightarrow> hash_zero 32
      | Some a \<Rightarrow> (case map_of (m_keyInfo m) a of None \<Rightarrow> hash_zero 32 | Some k \<Rightarrow> passHash k))"

definition getPassword_uuid :: "store_env \<Rightarrow> FixedHash \<Rightarrow> string list \<Rightarrow> string act" where
  "getPassword_uuid E uuid pass = bind_act (gets (passHash_of uuid)) (\<lambda>ph. getPassword_hash E ph pass)"

definition defaultPassword :: "store_env \<Rightarrow> string act" where
  "defaultPassword E = bind_act (gets m_master) (\<lambda>h. getPassword_hash E h [])"

section \<open>Look-ups\<close>

definition km_uuid :: "FixedHash \<Rightarrow> KeyManager \<Rightarrow> FixedHash" where
  "km_uuid a m = (case m_addrLookup m a of None \<Rightarrow> hash_zero 16 | Some u \<Rightarrow> u)"

definition km_address :: "FixedHash \<Rightarrow> KeyManager \<Rightarrow> FixedHash" where
  "km_address u m = (case m_uuidLookup m u of None \<Rightarrow> hash_zero 20 | Some a \<Rightarrow> a)"

definition km_link :: "FixedHash \<Rightarrow> FixedHash \<Rightarrow> KeyManager \<Rightarrow> KeyManager" where
  "km_link a u m = m\<lparr>m_addrLookup := (m_addrLookup m)(a \<mapsto> u), m_uuidLookup := (m_uuidLookup m)(u \<mapsto> a)\<rparr>"

definition hasAccount :: "FixedHash \<Rightarrow> KeyManager \<Rightarrow> bool" where
  "hasAccount a m =
     (if \<not> hash_bool a then False
      else if map_of (m_keyInfo m) a \<noteq> None then True
      else list_ex (\<lambda>(u, k). hash_eq (key_address k) a) (m_keys (m_store m)))"

fun hash_insert :: "FixedHash \<Rightarrow> FixedHash list \<Rightarrow> FixedHash list" where
  "hash_insert a [] = [a]"
| "hash_insert a (b # bs) =
     (if hash_less a b then a # b # bs else if hash_less b a then b # hash_insert a bs else b # bs)"

text \<open>The addresses above zero, in order.\<close>

definition accounts :: "KeyManager \<Rightarrow> FixedHash list" where
  "accounts m =
     filter (hash_less (hash_zero 20))
       (fold hash_insert (map fst (m_keyInfo m) @ map (\<lambda>(u, k). key_address k) (m_keys (m_store m))) [])"

definition km_accountName :: "FixedHash \<Rightarrow> KeyManager \<Rightarrow> string" where
  "km_accountName a m = (case map_of (m_keyInfo m) a of None \<Rightarrow> [] | Some k \<Rightarrow> accountName k)"

definition km_passwordHint :: "FixedHash \<Rightarrow> KeyManager \<Rightarrow> string" where
  "km_passwordHint a m =
     (case map_of (m_keyInfo m) a of
        None \<Rightarrow> []
      | Some k \<Rightarrow>
          if infoHint k \<noteq> [] then infoHint k
          else (case map_of (m_passwordHint m) (passHash k) of None \<Rightarrow> [] | Some h \<Rightarrow> h))"

section \<open>Writing the index\<close>

definition append_info :: "KeyManager \<Rightarrow> FixedHash \<times> KeyInfo \<Rightarrow> RLPStream \<Rightarrow> rlp_error + RLPStream" where
  "append_info m info s =
     (let id = km_uuid (fst info) m; ki = snd info in
      bind_res (appendList 5 s) (\<lambda>s.
      bind_res (append_hash (fst info) False False s) (\<lambda>s.
      bind_res (append_hash id False False s) (\<lambda>s.
      bind_res (append_hash (passHash ki) False False s) (\<lambda>s.
      bind_res (append_string (accountName ki) s) (append_string (infoHint ki)))))))"

definition append_hint :: "FixedHash \<times> string \<Rightarrow> RLPStream \<Rightarrow> rlp_error + RLPStream" where
  "append_hint i s =
     bind_res (appendList 2 s) (\<lambda>s. bind_res (append_hash (fst i) False False s) (append_string (snd i)))"

definition write_index :: "KeyManager \<Rightarrow> rlp_error + bytes" where
  "write_index m =
     bind_res (RLPStream_list 4) (\<lambda>s.
     bind_res (append_word (1 :: u32) s) (\<lambda>s.
     bind_res (appendList (length (m_keyInfo m)) s) (\<lambda>s.
     bind_res (append_all (append_info m) (m_keyInfo m) s) (\<lambda>s.
     bind_res (appendList (length (m_passwordHint m)) s) (\<lambda>s.
     bind_res (append_all append_hint (m_passwordHint m) s) (\<lambda>s.
     bind_res (append_string (m_defaultPasswordDeprecated m) s) stream_out))))))"

definition write_key :: "store_env \<Rightarrow> FixedHash \<Rightarrow> string \<Rightarrow> unit act" where
  "write_key E key keysFile =
     bind_act (gets write_index) (\<lambda>out.
     bind_act (lift_err KmRlp out) (\<lambda>out.
     bind_act (writeFile keysFile (encryptAES128CTR (env_crypto E) key (hash_zero 16) out)) (\<lambda>_.
     bind_act (modify (\<lambda>m. m\<lparr>m_keysFileKey := key\<rparr>)) (\<lambda>_.
     bind_act (defaultPassword E) (cachePassword E)))))"

definition write_file :: "store_env \<Rightarrow> string \<Rightarrow> bool act" where
  "write_file E keysFile =
     bind_act (gets m_keysFileKey) (\<lambda>key.
       if \<not> hash_bool key then return False
       else bind_act (write_key E key keysFile) (\<lambda>_. return True))"

definition write_pass :: "store_env \<Rightarrow> bytes \<Rightarrow> string \<Rightarrow> string \<Rightarrow> unit act" where
  "write_pass E salt pass keysFile =
     bind_act (writeFile (appendToFilename keysFile ''.salt'') salt) (\<lambda>_.
     bind_act (derive E pass salt 16) (\<lambda>k.
     let key = hash_of_bytes 16 k FailIfDifferent in
     bind_act (cachePassword E pass) (\<lambda>_.
     bind_act (hashPassword E pass) (\<lambda>h.
     bind_act (modify (\<lambda>m. m\<lparr>m_master := h\<rparr>)) (\<lambda>_. write_key E key keysFile)))))"

definition km_save :: "store_env \<Rightarrow> bytes \<Rightarrow> string \<Rightarrow> unit act" where
  "km_save E salt pass = bind_act (gets m_keysFile) (write_pass E salt pass)"

definition km_create :: "store_env \<Rightarrow> bytes \<Rightarrow> bytes \<Rightarrow> string \<Rightarrow> unit act" where
  "km_create E rnd salt pass =
     bind_act (modify (\<lambda>m. m\<lparr>m_defaultPasswordDeprecated := asString rnd\<rparr>)) (\<lambda>_.
     bind_act (gets m_keysFile) (write_pass E salt pass))"

section \<open>Reading the index\<close>

fun note_keys :: "(FixedHash \<times> EncryptedKey) list \<Rightarrow> KeyManager \<Rightarrow> KeyManager" where
  "note_keys [] m = m"
| "note_keys ((uuid, k) # keys) m = note_keys keys (km_link (key_address k) uuid m)"

definition KeyManager_open :: "store_env \<Rightarrow> string \<Rightarrow> string \<Rightarrow> string list \<Rightarrow> (string \<rightharpoonup> string) \<Rightarrow> KeyManager" where
  "KeyManager_open E keysFile secretsPath files d =
     (let st = SecretStore_open E secretsPath files d in
      note_keys (m_keys st)
        \<lparr>m_uuidLookup = Map.empty, m_addrLookup = Map.empty, m_keyInfo = [], m_passwordHint = [],
         m_cachedPasswords = Map.empty, m_defaultPasswordDeprecated = [], m_keysFile = keysFile,
         m_keysFileKey = hash_zero 16, m_master = hash_zero 32, m_store = st\<rparr>)"

text \<open>\<open>conv(r[i])\<close>, with the reader's cache afterwards.\<close>

definition item_field :: "nat \<Rightarrow> (bytes \<Rightarrow> rlp_error + 'a) \<Rightarrow> RLP \<Rightarrow> rlp_error + ('a \<times> RLP)" where
  "item_field i conv r =
     (case operator_index i r of (x, r') \<Rightarrow>
        bind_res x (\<lambda>y. bind_res (conv (m_data y)) (\<lambda>v. Inr (v, r'))))"

definition rlp_hash :: "nat \<Rightarrow> bytes \<Rightarrow> rlp_error + FixedHash" where
  "rlp_hash N d = toHash N d Strict"

definition rlp_string :: "bytes \<Rightarrow> rlp_error + string" where
  "rlp_string d = toString_rlp d LaissezFaire"

definition read_info :: "RLP \<Rightarrow> rlp_error + KeyInfo" where
  "read_info i =
     bind_res (item_field 2 (rlp_hash 32) i) (\<lambda>(h, i).
     bind_res (item_field 3 rlp_string i) (\<lambda>(name, i).
     bind_res (itemCount (m_data i)) (\<lambda>n.
     bind_res (if n > 4 then item_field 4 rlp_string i else Inr ([], i)) (\<lambda>(hint, i).
       Inr \<lparr>passHash = h, accountName = name, infoHint = hint\<rparr>))))"

definition set_info :: "FixedHash \<Rightarrow> KeyInfo \<Rightarrow> KeyManager \<Rightarrow> KeyManager" where
  "set_info a k m = m\<lparr>m_keyInfo := AList.update a k (m_keyInfo m)\<rparr>"

definition load_entry :: "RLP \<Rightarrow> bool \<Rightarrow> bool act" where
  "load_entry i saveRequired =
     bind_act (lift_err KmRlp (item_field 1 (rlp_hash 16) i)) (\<lambda>(uuid, i).
     bind_act (lift_err KmRlp (item_field 0 (rlp_hash 20) i)) (\<lambda>(addr, i).
       if hash_bool uuid then
         bind_act (gets (\<lambda>m. store_contains uuid (m_store m))) (\<lambda>known.
           if known then
             bind_act (modify (km_link addr uuid)) (\<lambda>_.
             bind_act (lift_err KmRlp (read_info i)) (\<lambda>k.
             bind_act (modify (set_info addr k)) (\<lambda>_.
             bind_act (on_store (\<lambda>st. Inr (noteAddress uuid addr st))) (\<lambda>noted.
               return (saveRequired \<or> noted)))))
           else return saveRequired)
       else
         bind_act (lift_err KmRlp (read_info i)) (\<lambda>k.
         bind_act (modify (set_info addr k)) (\<lambda>_. return saveRequired))))"

definition load_hint :: "RLP \<Rightarrow> unit \<Rightarrow> unit act" where
  "load_hint i _ =
     bind_act (lift_err KmRlp (item_field 0 (rlp_hash 32) i)) (\<lambda>(h, i).
     bind_act (lift_err KmRlp (item_field 1 rlp_string i)) (\<lambda>(hint, i).
       modify (\<lambda>m. m\<lparr>m_passwordHint := AList.update h hint (m_passwordHint m)\<rparr>)))"

text \<open>
  \<open>for (auto const& i: d) x = f(i, x)\<close>.  Every round consumes a byte of an item that ends with
  its data, so the rounds allowed are never used up there; elsewhere the loop is \<open>Endless\<close>.
\<close>

fun each_item :: "nat \<Rightarrow> (RLP \<Rightarrow> 'b \<Rightarrow> 'b act) \<Rightarrow> bytes \<Rightarrow> iterator \<Rightarrow> 'b \<Rightarrow> 'b act" where
  "each_item 0 f d it x = (if iter_eq it (iter_end d) then return x else throw Endless)"
| "each_item (Suc n) f d it x =
     (if iter_eq it (iter_end d) then return x
      else
        bind_act (lift_err KmRlp (iter_deref d it)) (\<lambda>i.
        bind_act (f i x) (\<lambda>x.
        bind_act (lift_err KmRlp (iter_next d it)) (\<lambda>it. each_item n f d it x))))"

definition for_items :: "(RLP \<Rightarrow> 'b \<Rightarrow> 'b act) \<Rightarrow> bytes \<Rightarrow> 'b \<Rightarrow> 'b act" where
  "for_items f d x = bind_act (lift_err KmRlp (iter_begin d)) (\<lambda>it. each_item (length d) f d it x)"

definition load_index :: "store_env \<Rightarrow> RLP \<Rightarrow> unit act" where
  "load_index E s =
     bind_act (lift_err KmRlp (item_field 0 (\<lambda>d. toInt d Strict :: rlp_error + u32) s)) (\<lambda>(version, s).
       if version = 1 then
         bind_act (lift_err KmRlp (item_field 1 Inr s)) (\<lambda>(infos, s).
         bind_act (for_items load_entry infos False) (\<lambda>saveRequired.
         bind_act (if saveRequired then on_store (\<lambda>st. Inr ((), save E st)) else return ()) (\<lambda>_.
         bind_act (lift_err KmRlp (item_field 2 Inr s)) (\<lambda>(hints, s).
         bind_act (for_items load_hint hints ()) (\<lambda>_.
         bind_act (lift_err KmRlp (item_field 3 rlp_string s)) (\<lambda>(dflt, s).
           modify (\<lambda>m. m\<lparr>m_defaultPasswordDeprecated := dflt\<rparr>)))))))
       else return ())"

definition load_body :: "store_env \<Rightarrow> string \<Rightarrow> bool act" where
  "load_body E pass =
     bind_act (gets (\<lambda>m. contents (appendToFilename (m_keysFile m) ''.salt'') m)) (\<lambda>salt.
     bind_act (gets (\<lambda>m. contents (m_keysFile m) m)) (\<lambda>encKeys.
       if encKeys = [] then return False
       else
         bind_act (derive E pass salt 16) (\<lambda>k.
         let key = hash_of_bytes 16 k FailIfDifferent in
         bind_act (modify (\<lambda>m. m\<lparr>m_keysFileKey := key\<rparr>)) (\<lambda>_.
         bind_act (lift_err KmRlp (RLP_ctor (decryptAES128CTR (env_crypto E) key (hash_zero 16) encKeys) VeryStrict)) (\<lambda>s.
         bind_act (load_index E s) (\<lambda>_.
         bind_act (gets m_defaultPasswordDeprecated) (\<lambda>dflt.
         bind_act (cachePassword E dflt) (\<lambda>_.
         bind_act (cachePassword E (asString key)) (\<lambda>_.
         bind_act (hashPassword E pass) (\<lambda>h.
         bind_act (modify (\<lambda>m. m\<lparr>m_master := h\<rparr>)) (\<lambda>_.
         bind_act (cachePassword E pass) (\<lambda>_. return True))))))))))))"

text \<open>Every exception is caught; the state keeps what was changed before.\<close>

definition km_load :: "store_env \<Rightarrow> string \<Rightarrow> KeyManager \<Rightarrow> bool \<times> KeyManager" where
  "km_load E pass m = (case load_body E pass m of (Inl _, m') \<Rightarrow> (False, m') | (Inr b, m') \<Rightarrow> (b, m'))"

section \<open>Keys\<close>

text \<open>The store asks for the password only when it has to decrypt.\<close>

definition needs_password :: "FixedHash \<Rightarrow> bool \<Rightarrow> KeyManager \<Rightarrow> bool" where
  "needs_password uuid useCache m =
     ((if useCache then m_cached (m_store m) uuid else None) = None \<and> store_contains uuid (m_store m))"

definition ask_once :: "string list \<Rightarrow> string act" where
  "ask_once pass = (case pass of [] \<Rightarrow> throw PasswordUnknown | p # _ \<Rightarrow> return p)"

definition password_for :: "store_env \<Rightarrow> FixedHash \<Rightarrow> string list \<Rightarrow> bool \<Rightarrow> string act" where
  "password_for E uuid pass useCache =
     bind_act (gets (needs_password uuid useCache)) (\<lambda>need.
       if \<not> need then return []
       else if useCache then getPassword_uuid E uuid pass else ask_once pass)"

definition km_secret :: "store_env \<Rightarrow> FixedHash \<Rightarrow> string list \<Rightarrow> bool \<Rightarrow> FixedHash act" where
  "km_secret E uuid pass useCache =
     bind_act (password_for E uuid pass useCache) (\<lambda>p.
     bind_act (on_store (secret E uuid p useCache)) (\<lambda>k. return (Secret_of k)))"

definition km_secret_address :: "store_env \<Rightarrow> FixedHash \<Rightarrow> string list \<Rightarrow> bool \<Rightarrow> FixedHash act" where
  "km_secret_address E addr pass useCache =
     bind_act (gets (\<lambda>m. m_addrLookup m addr)) (\<lambda>u.
       case u of None \<Rightarrow> throw KmOutOfRange | Some uuid \<Rightarrow> km_secret E uuid pass useCache)"

definition info_of :: "FixedHash \<Rightarrow> KeyManager \<Rightarrow> KeyInfo" where
  "info_of a m =
     (case map_of (m_keyInfo m) a of
        None \<Rightarrow> \<lparr>passHash = hash_zero 32, accountName = [], infoHint = []\<rparr> | Some k \<Rightarrow> k)"

definition km_recode :: "store_env \<Rightarrow> bytes \<Rightarrow> FixedHash \<Rightarrow> FixedHash \<Rightarrow> string \<Rightarrow> string \<Rightarrow> string list \<Rightarrow> KDF \<Rightarrow> bool act" where
  "km_recode E salt iv addr newPass hint pass kdf =
     bind_act (noteHint E newPass hint) (\<lambda>_.
     bind_act (gets (km_uuid addr)) (\<lambda>u.
     bind_act (password_for E u pass True) (\<lambda>p.
     bind_act (on_store (recode E salt iv u newPass p kdf)) (\<lambda>ok.
       if \<not> ok then return False
       else
         bind_act (hashPassword E newPass) (\<lambda>h.
         bind_act (modify (\<lambda>m. set_info addr ((info_of addr m)\<lparr>passHash := h\<rparr>) m)) (\<lambda>_.
         bind_act (gets m_keysFile) (\<lambda>f.
         bind_act (write_file E f) (\<lambda>_. return True))))))))"

definition km_import :: "store_env \<Rightarrow> FixedHash \<Rightarrow> bytes \<Rightarrow> FixedHash \<Rightarrow> FixedHash \<Rightarrow> string \<Rightarrow> string \<Rightarrow> string \<Rightarrow> FixedHash act" where
  "km_import E r salt iv s name pass hint =
     (let addr = kp_address (KeyPair_of (env_crypto E) s) in
      bind_act (hashPassword E pass) (\<lambda>h.
      bind_act (cachePassword E pass) (\<lambda>_.
      bind_act (modify (\<lambda>m. m\<lparr>m_passwordHint := AList.update h hint (m_passwordHint m)\<rparr>)) (\<lambda>_.
      bind_act (on_store (importSecret E r salt iv s pass)) (\<lambda>uuid.
      bind_act (modify (\<lambda>m. km_link addr uuid (set_info addr \<lparr>passHash = h, accountName = name, infoHint = []\<rparr> m))) (\<lambda>_.
      bind_act (gets m_keysFile) (\<lambda>f.
      bind_act (write_file E f) (\<lambda>_. return uuid))))))))"

definition km_import_default :: "store_env \<Rightarrow> FixedHash \<Rightarrow> bytes \<Rightarrow> FixedHash \<Rightarrow> FixedHash \<Rightarrow> string \<Rightarrow> FixedHash act" where
  "km_import_default E r salt iv s name =
     bind_act (defaultPassword E) (\<lambda>p. km_import E r salt iv s name p [])"

definition importExisting_as :: "store_env \<Rightarrow> FixedHash \<Rightarrow> string \<Rightarrow> FixedHash \<Rightarrow> FixedHash \<Rightarrow> string \<Rightarrow> unit act" where
  "importExisting_as E uuid name addr h hint =
     bind_act (modify (\<lambda>m. if map_of (m_passwordHint m) h = None
                            then m\<lparr>m_passwordHint := AList.update h hint (m_passwordHint m)\<rparr> else m)) (\<lambda>_.
     bind_act (modify (km_link addr uuid)) (\<lambda>_.
     bind_act (modify (\<lambda>m. set_info addr ((info_of addr m)\<lparr>passHash := h, accountName := name\<rparr>) m)) (\<lambda>_.
     bind_act (gets m_keysFile) (\<lambda>f.
     bind_act (write_file E f) (\<lambda>_. return ())))))"

definition importExisting :: "store_env \<Rightarrow> FixedHash \<Rightarrow> string \<Rightarrow> string \<Rightarrow> string \<Rightarrow> unit act" where
  "importExisting E uuid info pass hint =
     bind_act (on_store (secret E uuid pass True)) (\<lambda>key.
       if key = [] then return ()
       else
         bind_act (hashPassword E pass) (\<lambda>h.
         bind_act (gets m_cachedPasswords) (\<lambda>c.
         bind_act (if c h = None then cachePassword E pass else return ()) (\<lambda>_.
           importExisting_as E uuid info (kp_address (KeyPair_of (env_crypto E) (Secret_of key))) h hint))))"

definition km_kill :: "store_env \<Rightarrow> FixedHash \<Rightarrow> unit act" where
  "km_kill E a =
     bind_act (gets (km_uuid a)) (\<lambda>u.
     bind_act (modify (\<lambda>m. m\<lparr>m_uuidLookup := (m_uuidLookup m)(u := None), m_addrLookup := (m_addrLookup m)(a := None),
       m_keyInfo := AList.delete a (m_keyInfo m), m_store := kill u (m_store m)\<rparr>)) (\<lambda>_.
     bind_act (gets m_keysFile) (\<lambda>f.
     bind_act (write_file E f) (\<lambda>_. return ()))))"

definition km_kill_id :: "store_env \<Rightarrow> FixedHash \<Rightarrow> unit act" where
  "km_kill_id E u = bind_act (gets (km_address u)) (km_kill E)"

text \<open>
  The key of a presale wallet, with \<open>aesDecrypt\<close> as an argument: a wrong password is asked for
  again until an empty one is given.
\<close>

fun presale_loop :: "crypto \<Rightarrow> (bytes \<Rightarrow> string \<Rightarrow> bytes) \<Rightarrow> bytes \<Rightarrow> FixedHash option \<Rightarrow> string \<Rightarrow> string list \<Rightarrow> km_error + KeyPair" where
  "presale_loop C dec encseed ethaddr p pass =
     (let k = KeyPair_of C (keccak256 C (dec encseed p)) in
      case ethaddr of
        None \<Rightarrow> Inr k
      | Some a \<Rightarrow>
          if a \<noteq> kp_address k then
            (case pass of [] \<Rightarrow> Inl PasswordUnknown
             | p # ps \<Rightarrow> if p = [] then Inl PasswordUnknown else presale_loop C dec encseed ethaddr p ps)
          else Inr k)"

definition presaleSecret :: "store_env \<Rightarrow> (bytes \<Rightarrow> string \<Rightarrow> bytes) \<Rightarrow> string \<Rightarrow> string list \<Rightarrow> km_error + KeyPair" where
  "presaleSecret E dec json pass =
     bind_res (case json_obj (snd (read_string (env_json E) json JNull)) of Inl e \<Rightarrow> Inl (KmStore (StJson e)) | Inr o' \<Rightarrow> Inr o') (\<lambda>obj.
       case pass of
         [] \<Rightarrow> Inl PasswordUnknown
       | p # ps \<Rightarrow>
           (case obj_at ''encseed'' obj of
              JStr e \<Rightarrow>
                bind_res (case fromHex e DontThrow of Inl x \<Rightarrow> Inl (KmStore (StHex x)) | Inr b \<Rightarrow> Inr b) (\<lambda>encseed.
                  case obj_at ''ethaddr'' obj of
                    JStr a \<Rightarrow>
                      (case hash_of_string 20 a FromHex FailIfDifferent of
                         Inl x \<Rightarrow> Inl (KmStore (StHex x))
                       | Inr a \<Rightarrow> presale_loop (env_crypto E) dec encseed (Some a) p ps)
                  | _ \<Rightarrow> presale_loop (env_crypto E) dec encseed None p ps)
            | _ \<Rightarrow> Inl EncseedType))"

end
