(* ===== verification/Key_Theorems.thy ===== *)
theory Key_Theorems
  imports Key_Manager
begin

text \<open>
  The index of the key manager survives on disk: writing it is writing a tree, and \<open>load\<close> runs
  through the tree.  What a failed \<open>load\<close> leaves behind.
\<close>

section \<open>Acts\<close>

lemma act_simps [simp]:
  "return x m = (Inr x, m)" "throw e m = (Inl e, m)" "modify f m = (Inr (), f m)" "gets g m = (Inr (g m), m)"
  "lift_err w (Inr x) m = (Inr x, m)" "lift_err w (Inl y) m = (Inl (w y), m)"
  by (simp_all add: return_def throw_def modify_def gets_def lift_err_def)

lemma bind_act_Inr [simp]: "f m = (Inr x, m') \<Longrightarrow> bind_act f g m = g x m'"
  and bind_act_Inl [simp]: "f m = (Inl e, m') \<Longrightarrow> bind_act f g m = (Inl e, m')"
  by (simp_all add: bind_act_def)

section \<open>The index as a tree\<close>

definition info_tree :: "KeyManager \<Rightarrow> FixedHash \<times> KeyInfo \<Rightarrow> rlp" where
  "info_tree m i = RList [RStr (fst i), RStr (km_uuid (fst i) m), RStr (passHash (snd i)),
     RStr (asBytes (accountName (snd i))), RStr (asBytes (infoHint (snd i)))]"

definition hint_tree :: "FixedHash \<times> string \<Rightarrow> rlp" where
  "hint_tree i = RList [RStr (fst i), RStr (asBytes (snd i))]"

definition index_tree :: "KeyManager \<Rightarrow> rlp" where
  "index_tree m = RList [rlp_num 1, RList (map (info_tree m) (m_keyInfo m)),
     RList (map hint_tree (m_passwordHint m)), RStr (asBytes (m_defaultPasswordDeprecated m))]"

lemma append_string_fun: "append_string s = append_bytes (asBytes s) False"
  by (simp add: append_string_def fun_eq_iff)

lemma append_info_tree: "append_info m i s = write_rlp (info_tree m i) s"
  unfolding append_info_def info_tree_def write_list write_rlps_fun bind_res_return
  by (simp add: Let_def append_hash_def append_string_fun eval_nat_numeral)

lemma append_hint_tree: "append_hint i s = write_rlp (hint_tree i) s"
  unfolding append_hint_def hint_tree_def write_list write_rlps_fun bind_res_return
  by (simp add: append_hash_def append_string_fun eval_nat_numeral)

lemma write_index_tree: "write_index m = bind_res (write_rlp (index_tree m) RLPStream_empty) stream_out"
proof -
  have one: "append_word (1 :: u32) s = write_rlp (rlp_num 1) s" for s
    using append_word_tree [of "1 :: u32" s] by (simp add: bytesRequired_le_iff)
  show ?thesis
    unfolding write_index_def index_tree_def RLPStream_list_def one
      ext [of "append_info m", OF ext [OF append_info_tree]] ext [of append_hint, OF ext [OF append_hint_tree]] append_all_trees
    by (simp add: bind_res_assoc append_string_fun eval_nat_numeral)
qed

lemma write_index_out:
  assumes "length (rlp_enc (index_tree m)) < rlp_limit"
  shows "write_index m = Inr (rlp_enc (index_tree m))"
proof -
  have "length (rlp_enc (index_tree m)) < 2 ^ 64" using assms by (rule rlp_limit_less)
  then obtain s where "write_rlp (index_tree m) RLPStream_empty = Inr s" "stream_out s = Inr (rlp_enc (index_tree m))"
    using tree_out by blast
  then show ?thesis by (simp add: write_index_tree)
qed

section \<open>Reading trees\<close>

lemma item_field_enc:
  assumes "length (rlp_enc (RList ts)) < rlp_limit" "cache_ok ts r" "i < length ts" "conv (rlp_enc (ts ! i)) = Inr v"
  shows "\<exists>r'. item_field i conv r = Inr (v, r') \<and> cache_ok ts r'"
proof -
  obtain r' where "operator_index i r = (Inr (RLP_init (item_at ts i)), r')" "cache_ok ts r'"
    using operator_index_cache [OF assms(1,2)] by blast
  then show ?thesis using assms(3,4) by (simp add: item_field_def item_at_def RLP_init_def)
qed

lemma rlp_hash_enc: "length h = N \<Longrightarrow> N < rlp_limit \<Longrightarrow> rlp_hash N (enc_str h) = Inr h"
  using enc_str_reads [of h "[]"] by (simp add: rlp_hash_def toHash_def Let_def)

lemma text_of_bytes [simp]: "asString (asBytes s) = s"
  by (simp add: asString_def asBytes_def comp_def)

lemma rlp_string_enc: "length (asBytes s) < rlp_limit \<Longrightarrow> rlp_string (enc_str (asBytes s)) = Inr s"
  using enc_str_reads [of "asBytes s" "[]"] cropped_0 [of "asBytes s" "[]"]
  by (simp add: rlp_string_def toString_rlp_def)

section \<open>Entries\<close>

definition load_one :: "FixedHash \<Rightarrow> FixedHash \<Rightarrow> KeyInfo \<Rightarrow> bool \<times> KeyManager \<Rightarrow> bool \<times> KeyManager" where
  "load_one u a k bm =
     (if hash_bool u then
        if store_contains u (m_store (snd bm)) then
          (let m = set_info a k (km_link a u (snd bm)); n = noteAddress u a (m_store m)
           in (fst bm \<or> fst n, m\<lparr>m_store := snd n\<rparr>))
        else bm
      else (fst bm, set_info a k (snd bm)))"

lemma load_entry_enc:
  assumes lim: "length (rlp_enc (info_tree m0 (a, k))) < rlp_limit"
    and len: "length a = 20" "length (km_uuid a m0) = 16" "length (passHash k) = 32"
  shows "load_entry (RLP_init (rlp_enc (info_tree m0 (a, k)))) b m =
    (Inr (fst (load_one (km_uuid a m0) a k (b, m))), snd (load_one (km_uuid a m0) a k (b, m)))"
proof -
  define ts where "ts = [RStr a, RStr (km_uuid a m0), RStr (passHash k), RStr (asBytes (accountName k)), RStr (asBytes (infoHint k))]"
  have t: "info_tree m0 (a, k) = RList ts" by (simp add: info_tree_def ts_def)
  have lim: "length (rlp_enc (RList ts)) < rlp_limit" using lim t by simp
  have small: "20 < rlp_limit" "16 < rlp_limit" "32 < rlp_limit" by (simp_all add: rlp_limit_def size_max_def)
  have names: "length (asBytes (accountName k)) < rlp_limit" "length (asBytes (infoHint k)) < rlp_limit"
    by (rule str_lim [OF lim], simp add: ts_def)+
  let ?r = "RLP_init (rlp_enc (RList ts))"
  obtain r1 where r1: "item_field 1 (rlp_hash 16) ?r = Inr (km_uuid a m0, r1)" "cache_ok ts r1"
    using item_field_enc [OF lim cache_ok_init, of 1 "rlp_hash 16"] rlp_hash_enc [OF len(2) small(2)] by (auto simp: ts_def)
  obtain r2 where r2: "item_field 0 (rlp_hash 20) r1 = Inr (a, r2)" "cache_ok ts r2"
    using item_field_enc [OF lim r1(2), of 0 "rlp_hash 20"] rlp_hash_enc [OF len(1) small(1)] by (auto simp: ts_def)
  obtain r3 where r3: "item_field 2 (rlp_hash 32) r2 = Inr (passHash k, r3)" "cache_ok ts r3"
    using item_field_enc [OF lim r2(2), of 2 "rlp_hash 32"] rlp_hash_enc [OF len(3) small(3)] by (auto simp: ts_def)
  obtain r4 where r4: "item_field 3 rlp_string r3 = Inr (accountName k, r4)" "cache_ok ts r4"
    using item_field_enc [OF lim r3(2), of 3 rlp_string] rlp_string_enc [OF names(1)] by (auto simp: ts_def)
  obtain r5 where r5: "item_field 4 rlp_string r4 = Inr (infoHint k, r5)"
    using item_field_enc [OF lim r4(2), of 4 rlp_string] rlp_string_enc [OF names(2)] by (auto simp: ts_def)
  have "itemCount (m_data r4) = Inr 5"
    using itemCount_enc [OF lim] cache_ok_data [OF r4(2)] by (simp add: ts_def)
  then have info: "read_info r2 = Inr k" using r3(1) r4(1) r5 by (simp add: read_info_def)
  show ?thesis
    using r1(1) r2(1) info
    by (simp add: t load_entry_def load_one_def on_store_def case_prod_beta Let_def split: prod.split)
qed

lemma load_hint_enc:
  assumes lim: "length (rlp_enc (hint_tree (h, s))) < rlp_limit" and len: "length h = 32"
  shows "load_hint (RLP_init (rlp_enc (hint_tree (h, s)))) () m =
    (Inr (), m\<lparr>m_passwordHint := AList.update h s (m_passwordHint m)\<rparr>)"
proof -
  define ts where "ts = [RStr h, RStr (asBytes s)]"
  have t: "hint_tree (h, s) = RList ts" by (simp add: hint_tree_def ts_def)
  have lim: "length (rlp_enc (RList ts)) < rlp_limit" using lim t by simp
  have small: "32 < rlp_limit" by (simp add: rlp_limit_def size_max_def)
  have name: "length (asBytes s) < rlp_limit" by (rule str_lim [OF lim]) (simp add: ts_def)
  obtain r1 where r1: "item_field 0 (rlp_hash 32) (RLP_init (rlp_enc (RList ts))) = Inr (h, r1)" "cache_ok ts r1"
    using item_field_enc [OF lim cache_ok_init, of 0 "rlp_hash 32"] rlp_hash_enc [OF len small] by (auto simp: ts_def)
  obtain r2 where "item_field 1 rlp_string r1 = Inr (s, r2)"
    using item_field_enc [OF lim r1(2), of 1 rlp_string] rlp_string_enc [OF name] by (auto simp: ts_def)
  then show ?thesis using r1(1) by (simp add: t load_hint_def)
qed

section \<open>Loops\<close>

lemma each_item_encs:
  fixes T :: "'c \<Rightarrow> rlp" and ys
  defines "ts \<equiv> map T ys"
  assumes lim: "length (rlp_enc (RList ts)) < rlp_limit"
    and f: "\<And>y x m. y \<in> set ys \<Longrightarrow> f (RLP_init (rlp_enc (T y))) x m = (Inr (fst (g y (x, m))), snd (g y (x, m)))"
  shows "k \<le> length ys \<Longrightarrow> length ys - k \<le> n \<Longrightarrow> each_item n f (rlp_enc (RList ts)) (it_at ts k) x m =
    (Inr (fst (fold g (drop k ys) (x, m))), snd (fold g (drop k ys) (x, m)))"
proof (induction "length ys - k" arbitrary: k n x m)
  case 0
  then show ?case using it_end_at [of ts k "[]"] by (cases n) (simp_all add: ts_def)
next
  case (Suc j)
  then have k: "k < length ys" by simp
  obtain n' where n: "n = Suc n'" using Suc by (cases n) simp_all
  have d: "drop k ys = ys ! k # drop (Suc k) ys" using k by (simp add: Cons_nth_drop_Suc)
  define y where "y = g (ys ! k) (x, m)"
  have "item_at ts k = rlp_enc (T (ys ! k))" using k by (simp add: item_at_def ts_def)
  then have deref: "iter_deref (rlp_enc (RList ts)) (it_at ts k) = Inr (RLP_init (rlp_enc (T (ys ! k))))"
    using it_deref_at [OF lim, of "[]" k] by simp
  have next_: "iter_next (rlp_enc (RList ts)) (it_at ts k) = Inr (it_at ts (Suc k))"
    using it_next_at [OF lim, of "[]" k] by simp
  have "f (RLP_init (rlp_enc (T (ys ! k)))) x m = (Inr (fst y), snd y)" using f k by (simp add: y_def)
  moreover have "each_item n' f (rlp_enc (RList ts)) (it_at ts (Suc k)) (fst y) (snd y) =
      (Inr (fst (fold g (drop (Suc k) ys) y)), snd (fold g (drop (Suc k) ys) y))"
    using Suc.hyps(1) [of "Suc k" n' "fst y" "snd y"] Suc.hyps(2) Suc.prems n by simp
  moreover have "\<not> iter_eq (it_at ts k) (iter_end (rlp_enc (RList ts)))"
    using it_end_at [of ts k "[]"] k by (simp add: ts_def)
  ultimately show ?case by (simp add: n d deref next_ y_def)
qed

lemma for_items_encs:
  fixes T :: "'c \<Rightarrow> rlp"
  assumes lim: "length (rlp_enc (RList (map T ys))) < rlp_limit"
    and f: "\<And>y x m. y \<in> set ys \<Longrightarrow> f (RLP_init (rlp_enc (T y))) x m = (Inr (fst (g y (x, m))), snd (g y (x, m)))"
  shows "for_items f (rlp_enc (RList (map T ys))) x m = (Inr (fst (fold g ys (x, m))), snd (fold g ys (x, m)))"
proof -
  have "length ys \<le> length (rlp_enc (RList (map T ys)))" using encs_ge_length [of "map T ys"] by (simp add: rlp_enc_RList)
  then show ?thesis
    using each_item_encs [where T = T and ys = ys and f = f and g = g and k = 0
        and n = "length (rlp_enc (RList (map T ys)))" and x = x and m = m] lim f
      it_begin_at [OF lim, of "[]"]
    by (simp add: for_items_def)
qed

section \<open>What an index puts into the state\<close>

definition load_infos :: "KeyManager \<Rightarrow> (FixedHash \<times> KeyInfo) list \<Rightarrow> bool \<times> KeyManager \<Rightarrow> bool \<times> KeyManager" where
  "load_infos m0 = fold (\<lambda>i. load_one (km_uuid (fst i) m0) (fst i) (snd i))"

lemma noteAddress_contains: "store_contains u (snd (noteAddress v a st)) = store_contains u st"
  by (auto simp: noteAddress_def store_contains_def update_conv' split: option.splits)

lemma load_one_simps [simp]:
  "store_contains v (m_store (snd (load_one u a k bm))) = store_contains v (m_store (snd bm))"
  "m_passwordHint (snd (load_one u a k bm)) = m_passwordHint (snd bm)"
  "m_keysFile (snd (load_one u a k bm)) = m_keysFile (snd bm)"
  by (auto simp: load_one_def Let_def set_info_def km_link_def noteAddress_contains)

lemma load_infos_hints [simp]: "m_passwordHint (snd (load_infos m0 is bm)) = m_passwordHint (snd bm)"
  by (induction "is" arbitrary: bm) (simp_all add: load_infos_def)

text \<open>The entries whose keys the store has, and those without a key, are all there afterwards.\<close>

lemma load_infos_maps:
  assumes "distinct (map fst is)" "\<forall>(a, k) \<in> set is. hash_bool (km_uuid a m0) \<longrightarrow> store_contains (km_uuid a m0) (m_store (snd bm))"
  shows "map_of (m_keyInfo (snd (load_infos m0 is bm))) = map_of (m_keyInfo (snd bm)) ++ map_of is"
    "\<forall>(a, k) \<in> set is. hash_bool (km_uuid a m0) \<longrightarrow> m_addrLookup (snd (load_infos m0 is bm)) a = Some (km_uuid a m0)"
    "a \<notin> fst ` set is \<Longrightarrow> m_addrLookup (snd (load_infos m0 is bm)) a = m_addrLookup (snd bm) a"
proof -
  have "map_of (m_keyInfo (snd (load_infos m0 is bm))) = map_of (m_keyInfo (snd bm)) ++ map_of is \<and>
    (\<forall>(a, k) \<in> set is. hash_bool (km_uuid a m0) \<longrightarrow> m_addrLookup (snd (load_infos m0 is bm)) a = Some (km_uuid a m0)) \<and>
    (\<forall>a. a \<notin> fst ` set is \<longrightarrow> m_addrLookup (snd (load_infos m0 is bm)) a = m_addrLookup (snd bm) a)"
    using assms
  proof (induction "is" arbitrary: bm)
    case (Cons i "is")
    obtain a k where i: "i = (a, k)" by (cases i)
    let ?u = "km_uuid a m0"
    define bm' where "bm' = load_one ?u a k bm"
    have step: "load_infos m0 (i # is) bm = load_infos m0 is bm'" by (simp add: load_infos_def bm'_def i)
    have IH: "map_of (m_keyInfo (snd (load_infos m0 is bm'))) = map_of (m_keyInfo (snd bm')) ++ map_of is"
      "\<forall>(a, k) \<in> set is. hash_bool (km_uuid a m0) \<longrightarrow> m_addrLookup (snd (load_infos m0 is bm')) a = Some (km_uuid a m0)"
      "\<forall>a. a \<notin> fst ` set is \<longrightarrow> m_addrLookup (snd (load_infos m0 is bm')) a = m_addrLookup (snd bm') a"
      using Cons.IH [of bm'] Cons.prems by (simp_all add: bm'_def)
    have known: "hash_bool ?u \<Longrightarrow> store_contains ?u (m_store (snd bm))" using Cons.prems(2) i by simp
    have one: "map_of (m_keyInfo (snd bm')) = (map_of (m_keyInfo (snd bm)))(a \<mapsto> k)"
      "hash_bool ?u \<Longrightarrow> m_addrLookup (snd bm') = (m_addrLookup (snd bm))(a \<mapsto> ?u)"
      "\<not> hash_bool ?u \<Longrightarrow> m_addrLookup (snd bm') = m_addrLookup (snd bm)"
      using known by (auto simp: bm'_def load_one_def Let_def set_info_def km_link_def update_conv')
    have new: "a \<notin> fst ` set is" using Cons.prems(1) i by simp
    then have "map_of is a = None" by (simp add: map_of_eq_None_iff)
    then have "map_of (m_keyInfo (snd (load_infos m0 (i # is) bm))) = map_of (m_keyInfo (snd bm)) ++ map_of (i # is)"
      unfolding step IH(1) one(1) by (auto simp: i map_add_def fun_eq_iff split: option.splits)
    moreover have "m_addrLookup (snd (load_infos m0 is bm')) a = Some ?u" if "hash_bool ?u"
      using IH(3) new one(2) [OF that] by simp
    then have "\<forall>(a, k) \<in> set (i # is). hash_bool (km_uuid a m0) \<longrightarrow> m_addrLookup (snd (load_infos m0 (i # is) bm)) a = Some (km_uuid a m0)"
      unfolding step using IH(2) by (simp add: i)
    moreover have "\<forall>b. b \<notin> fst ` set (i # is) \<longrightarrow> m_addrLookup (snd (load_infos m0 (i # is) bm)) b = m_addrLookup (snd bm) b"
      unfolding step using IH(3) one(2,3) by (cases "hash_bool ?u") (simp_all add: i)
    ultimately show ?case by blast
  qed (simp add: load_infos_def)
  then show "map_of (m_keyInfo (snd (load_infos m0 is bm))) = map_of (m_keyInfo (snd bm)) ++ map_of is"
    "\<forall>(a, k) \<in> set is. hash_bool (km_uuid a m0) \<longrightarrow> m_addrLookup (snd (load_infos m0 is bm)) a = Some (km_uuid a m0)"
    "a \<notin> fst ` set is \<Longrightarrow> m_addrLookup (snd (load_infos m0 is bm)) a = m_addrLookup (snd bm) a"
    by blast+
qed

definition index_ok :: "KeyManager \<Rightarrow> bool" where
  "index_ok m \<longleftrightarrow> distinct (map fst (m_keyInfo m)) \<and> distinct (map fst (m_passwordHint m)) \<and>
     (\<forall>(a, k) \<in> set (m_keyInfo m). length a = 20 \<and> length (km_uuid a m) = 16 \<and> length (passHash k) = 32) \<and>
     (\<forall>(h, s) \<in> set (m_passwordHint m). length h = 32) \<and> length (rlp_enc (index_tree m)) < rlp_limit"

text \<open>\<open>m2\<close> has the index of \<open>m\<close>, and the identifiers of its accounts.\<close>

definition same_index :: "KeyManager \<Rightarrow> KeyManager \<Rightarrow> bool" where
  "same_index m m2 \<longleftrightarrow> map_of (m_keyInfo m2) = map_of (m_keyInfo m) \<and> map_of (m_passwordHint m2) = map_of (m_passwordHint m) \<and>
     m_defaultPasswordDeprecated m2 = m_defaultPasswordDeprecated m \<and>
     (\<forall>(a, k) \<in> set (m_keyInfo m). hash_bool (km_uuid a m) \<longrightarrow> m_addrLookup m2 a = Some (km_uuid a m))"

lemma same_index_cached [simp]:
  "same_index m (m2\<lparr>m_cachedPasswords := c\<rparr>) = same_index m m2" "same_index m (m2\<lparr>m_master := h\<rparr>) = same_index m m2"
  by (simp_all add: same_index_def)

lemma map_of_fold_update: "map_of (fold (\<lambda>i. AList.update (fst i) (snd i)) is xs) = map_of xs ++ map_of (rev is)"
  by (induction "is" arbitrary: xs) (simp_all add: update_conv' map_add_def fun_eq_iff split: option.splits)

lemma map_of_rev_distinct: "distinct (map fst xs) \<Longrightarrow> map_of (rev xs) = map_of xs"
  by (subst map_of_inject_set) (simp_all add: rev_map [symmetric])

lemma index_parts:
  assumes "index_ok m"
  shows "length (rlp_enc (RList (map (info_tree m) (m_keyInfo m)))) < rlp_limit"
    "length (rlp_enc (RList (map hint_tree (m_passwordHint m)))) < rlp_limit"
    "length (asBytes (m_defaultPasswordDeprecated m)) < rlp_limit"
proof -
  define ts where "ts = [rlp_num 1, RList (map (info_tree m) (m_keyInfo m)),
     RList (map hint_tree (m_passwordHint m)), RStr (asBytes (m_defaultPasswordDeprecated m))]"
  have lim: "length (rlp_enc (RList ts)) < rlp_limit" using assms by (simp add: index_ok_def index_tree_def ts_def)
  show "length (rlp_enc (RList (map (info_tree m) (m_keyInfo m)))) < rlp_limit"
    "length (rlp_enc (RList (map hint_tree (m_passwordHint m)))) < rlp_limit"
    by (rule list_lim [OF lim], simp add: ts_def)+
  show "length (asBytes (m_defaultPasswordDeprecated m)) < rlp_limit"
    by (rule str_lim [OF lim]) (simp add: ts_def)
qed

lemma for_infos:
  assumes "index_ok m0"
  shows "for_items load_entry (rlp_enc (RList (map (info_tree m0) (m_keyInfo m0)))) b m =
    (Inr (fst (load_infos m0 (m_keyInfo m0) (b, m))), snd (load_infos m0 (m_keyInfo m0) (b, m)))"
  unfolding load_infos_def
proof (rule for_items_encs [OF index_parts(1) [OF assms]])
  fix i x m assume i: "i \<in> set (m_keyInfo m0)"
  obtain a k where ak: "i = (a, k)" by (cases i)
  have "length (rlp_enc (info_tree m0 (a, k))) < rlp_limit"
    using i by (intro list_lim [OF index_parts(1) [OF assms]]) (force simp: ak)
  moreover have "length a = 20 \<and> length (km_uuid a m0) = 16 \<and> length (passHash k) = 32"
    using assms i unfolding index_ok_def ak by blast
  ultimately show "load_entry (RLP_init (rlp_enc (info_tree m0 i))) x m =
      (Inr (fst (load_one (km_uuid (fst i) m0) (fst i) (snd i) (x, m))), snd (load_one (km_uuid (fst i) m0) (fst i) (snd i) (x, m)))"
    using load_entry_enc [of m0 a k x m] by (simp add: ak)
qed

lemma for_hints:
  assumes "index_ok m0"
  shows "for_items load_hint (rlp_enc (RList (map hint_tree (m_passwordHint m0)))) () m =
    (Inr (), m\<lparr>m_passwordHint := fold (\<lambda>i. AList.update (fst i) (snd i)) (m_passwordHint m0) (m_passwordHint m)\<rparr>)"
proof -
  let ?g = "\<lambda>i xm. ((), (snd xm)\<lparr>m_passwordHint := AList.update (fst i) (snd i) (m_passwordHint (snd xm))\<rparr>)"
  have "for_items load_hint (rlp_enc (RList (map hint_tree (m_passwordHint m0)))) () m =
      (Inr (fst (fold ?g (m_passwordHint m0) ((), m))), snd (fold ?g (m_passwordHint m0) ((), m)))"
  proof (rule for_items_encs [OF index_parts(2) [OF assms]])
    fix i and x :: unit and m assume i: "i \<in> set (m_passwordHint m0)"
    obtain h s where hs: "i = (h, s)" by (cases i)
    have "length (rlp_enc (hint_tree (h, s))) < rlp_limit"
      using i by (intro list_lim [OF index_parts(2) [OF assms]]) (force simp: hs)
    moreover have "length h = 32" using assms i unfolding index_ok_def hs by blast
    ultimately show "load_hint (RLP_init (rlp_enc (hint_tree i))) x m = (Inr (fst (?g i (x, m))), snd (?g i (x, m)))"
      using load_hint_enc [of h s m] by (simp add: hs)
  qed
  moreover have "snd (fold ?g is xm) = (snd xm)\<lparr>m_passwordHint := fold (\<lambda>i. AList.update (fst i) (snd i)) is (m_passwordHint (snd xm))\<rparr>"
    for "is" and xm :: "unit \<times> KeyManager"
    by (induction "is" arbitrary: xm) simp_all
  ultimately show ?thesis by simp
qed

lemma load_index_enc:
  assumes ok: "index_ok m0" and fresh: "m_keyInfo m = []" "m_passwordHint m = []"
    and keys: "\<forall>(a, k) \<in> set (m_keyInfo m0). hash_bool (km_uuid a m0) \<longrightarrow> store_contains (km_uuid a m0) (m_store m)"
  shows "\<exists>m2. load_index E (RLP_init (rlp_enc (index_tree m0))) m = (Inr (), m2) \<and> same_index m0 m2"
proof -
  define ts where "ts = [rlp_num 1, RList (map (info_tree m0) (m_keyInfo m0)),
     RList (map hint_tree (m_passwordHint m0)), RStr (asBytes (m_defaultPasswordDeprecated m0))]"
  have t: "index_tree m0 = RList ts" by (simp add: index_tree_def ts_def)
  have lim: "length (rlp_enc (RList ts)) < rlp_limit" using ok by (simp add: index_ok_def t)
  have "toInt_payload 4 (enc_str (compact_be 1 0)) Strict = Inr (Some (compact_be 1 0))"
    by (rule toInt_payload_enc) (simp_all add: compact_be_canon compact_be_single rlp_limit_def size_max_def)
  moreover have "fromBigEndian (compact_be 1 0) = (1 :: u32)"
    by (simp add: fromBigEndian_word)
  ultimately have one: "toInt (rlp_enc (rlp_num 1)) Strict = (Inr 1 :: rlp_error + u32)"
    by (simp add: toInt_def rlp_num_def)
  obtain r0 where r0: "item_field 0 (\<lambda>d. toInt d Strict :: rlp_error + u32) (RLP_init (rlp_enc (RList ts))) = Inr (1, r0)" "cache_ok ts r0"
    using item_field_enc [OF lim cache_ok_init, of 0 "\<lambda>d. toInt d Strict :: rlp_error + u32"] one by (auto simp: ts_def)
  obtain r1 where r1: "item_field 1 Inr r0 = Inr (rlp_enc (RList (map (info_tree m0) (m_keyInfo m0))), r1)" "cache_ok ts r1"
    using item_field_enc [OF lim r0(2), of 1 Inr] by (auto simp: ts_def)
  obtain r2 where r2: "item_field 2 Inr r1 = Inr (rlp_enc (RList (map hint_tree (m_passwordHint m0))), r2)" "cache_ok ts r2"
    using item_field_enc [OF lim r1(2), of 2 Inr] by (auto simp: ts_def)
  obtain r3 where r3: "item_field 3 rlp_string r2 = Inr (m_defaultPasswordDeprecated m0, r3)"
    using item_field_enc [OF lim r2(2), of 3 rlp_string] rlp_string_enc [OF index_parts(3) [OF ok]] by (auto simp: ts_def)
  define bm where "bm = load_infos m0 (m_keyInfo m0) (False, m)"
  define ma where "ma = (if fst bm then (snd bm)\<lparr>m_store := save E (m_store (snd bm))\<rparr> else snd bm)"
  define mb where "mb = ma\<lparr>m_passwordHint := fold (\<lambda>i. AList.update (fst i) (snd i)) (m_passwordHint m0) (m_passwordHint ma),
    m_defaultPasswordDeprecated := m_defaultPasswordDeprecated m0\<rparr>"
  have "load_index E (RLP_init (rlp_enc (index_tree m0))) m = (Inr (), mb)"
    using r0(1) r1(1) r2(1) r3 for_infos [OF ok, of False m] for_hints [OF ok]
    by (simp add: t load_index_def bm_def [symmetric] on_store_def mb_def ma_def)
  moreover have "same_index m0 mb"
  proof -
    have dist: "distinct (map fst (m_keyInfo m0))" "distinct (map fst (m_passwordHint m0))" using ok by (simp_all add: index_ok_def)
    have "\<forall>(a, k) \<in> set (m_keyInfo m0). hash_bool (km_uuid a m0) \<longrightarrow> store_contains (km_uuid a m0) (m_store (snd (False, m)))"
      using keys by simp
    note maps = load_infos_maps(1,2) [OF dist(1) this]
    have "m_passwordHint ma = []" using fresh(2) by (simp add: ma_def bm_def)
    then have "map_of (m_passwordHint mb) = map_of (m_passwordHint m0)"
      using dist(2) by (simp add: mb_def map_of_fold_update map_of_rev_distinct)
    then show ?thesis using maps fresh(1) by (simp add: same_index_def mb_def ma_def bm_def)
  qed
  ultimately show ?thesis by blast
qed

section \<open>Writing and loading\<close>

definition pw_hash :: "store_env \<Rightarrow> string \<Rightarrow> string \<Rightarrow> FixedHash" where
  "pw_hash E dflt pass = the (env_pbkdf2 E pass (asBytes dflt) 262144 32)"

definition index_key :: "store_env \<Rightarrow> bytes \<Rightarrow> string \<Rightarrow> FixedHash" where
  "index_key E salt pass = the (env_pbkdf2 E pass salt 262144 16)"

context store_laws
begin

lemma pbkdf2_index: "\<exists>k. env_pbkdf2 E pass salt 262144 n = Some k \<and> length k = n"
  using pbkdf2_length [of pass salt n] by (simp add: kdf_iterations_def)

lemma hashPassword_ok [simp]: "hashPassword E pass m = (Inr (pw_hash E (m_defaultPasswordDeprecated m) pass), m)"
proof -
  obtain k where "env_pbkdf2 E pass (asBytes (m_defaultPasswordDeprecated m)) 262144 32 = Some k" "length k = 32"
    using pbkdf2_index by blast
  then show ?thesis by (simp add: hashPassword_def derive_def pw_hash_def hash_of_bytes_def)
qed

lemma cachePassword_ok [simp]: "cachePassword E pass m =
    (Inr (), m\<lparr>m_cachedPasswords := (m_cachedPasswords m)(pw_hash E (m_defaultPasswordDeprecated m) pass \<mapsto> pass)\<rparr>)"
  by (simp add: cachePassword_def)

lemma derive_key_ok [simp]: "derive E pass salt 16 m = (Inr (index_key E salt pass), m)"
  using pbkdf2_index [of pass salt 16] by (auto simp: derive_def index_key_def)

lemma length_index_key [simp]: "length (index_key E salt pass) = 16"
  using pbkdf2_index [of pass salt 16] by (auto simp: index_key_def)

lemma index_key_hash [simp]: "hash_of_bytes 16 (index_key E salt pass) FailIfDifferent = index_key E salt pass"
  by (simp add: hash_of_bytes_def)

lemma index_cipher:
  assumes "length key = 16"
  shows "\<exists>c. encryptAES128CTR (env_crypto E) key (hash_zero 16) v = c \<and> length c = length v \<and>
    decryptAES128CTR (env_crypto E) key (hash_zero 16) c = v"
  using aes_inverse [OF assms, of "hash_zero 16" v] assms
  by (auto simp: encryptAES128CTR_def decryptAES128CTR_def hash_zero_def)

lemma write_pass_ok:
  assumes "index_ok m"
  shows "\<exists>m1. write_pass E salt pass f m = (Inr (), m1) \<and> disk (m_store m1) (f @ ''.salt'') = Some (asString salt) \<and>
    disk (m_store m1) f = Some (asString (encryptAES128CTR (env_crypto E) (index_key E salt pass) (hash_zero 16) (rlp_enc (index_tree m))))"
proof -
  define m' where "m' = m\<lparr>m_store := (m_store m)\<lparr>disk := (disk (m_store m))(f @ ''.salt'' \<mapsto> asString salt)\<rparr>,
    m_cachedPasswords := (m_cachedPasswords m)(pw_hash E (m_defaultPasswordDeprecated m) pass \<mapsto> pass),
    m_master := pw_hash E (m_defaultPasswordDeprecated m) pass\<rparr>"
  have "index_tree m' = index_tree m" by (simp add: m'_def index_tree_def info_tree_def [abs_def] km_uuid_def)
  moreover have "length (rlp_enc (index_tree m)) < rlp_limit" using assms by (simp add: index_ok_def)
  ultimately have "write_index m' = Inr (rlp_enc (index_tree m))" using write_index_out [of m'] by simp
  moreover have "m_cachedPasswords m' (m_master m') = Some pass" by (simp add: m'_def)
  moreover have "write_pass E salt pass f m = write_key E (index_key E salt pass) f m'"
    by (simp add: write_pass_def writeFile_def appendToFilename_def m'_def Let_def)
  ultimately show ?thesis
    by (simp add: write_key_def writeFile_def defaultPassword_def getPassword_hash_def) (simp add: m'_def)
qed

lemma load_ok_index:
  assumes "index_ok m0" "m_keyInfo m = []" "m_passwordHint m = []"
    and "\<forall>(a, k) \<in> set (m_keyInfo m0). hash_bool (km_uuid a m0) \<longrightarrow> store_contains (km_uuid a m0) (m_store m)"
    and salt: "disk (m_store m) (m_keysFile m @ ''.salt'') = Some (asString salt)"
    and enc: "disk (m_store m) (m_keysFile m) =
      Some (asString (encryptAES128CTR (env_crypto E) (index_key E salt pass) (hash_zero 16) (rlp_enc (index_tree m0))))"
  shows "\<exists>m2. km_load E pass m = (True, m2) \<and> same_index m0 m2"
proof -
  let ?k = "index_key E salt pass" and ?t = "rlp_enc (index_tree m0)"
  have str: "asBytes (asString b) = b" for b by (simp add: asBytes_def asString_def comp_def)
  obtain c where c: "encryptAES128CTR (env_crypto E) ?k (hash_zero 16) ?t = c" "length c = length ?t"
      "decryptAES128CTR (env_crypto E) ?k (hash_zero 16) c = ?t"
    using index_cipher [of ?k ?t] by auto
  have "?t \<noteq> []" by simp
  then have ne: "c \<noteq> []" using c(2) by (metis length_0_conv)
  have read: "contents (m_keysFile m) m = c" "contents (appendToFilename (m_keysFile m) ''.salt'') m = salt"
    using salt enc c(1) by (simp_all add: contents_def contentsString_def appendToFilename_def str)
  have ctor: "RLP_ctor ?t VeryStrict = Inr (RLP_init ?t)" using assms(1) by (intro RLP_ctor_enc) (simp add: index_ok_def)
  obtain m2 where m2: "load_index E (RLP_init ?t) (m\<lparr>m_keysFileKey := ?k\<rparr>) = (Inr (), m2)" "same_index m0 m2"
    using load_index_enc [OF assms(1), of "m\<lparr>m_keysFileKey := ?k\<rparr>" E] assms(2-4) by auto
  show ?thesis
    using m2 ne read c(3) ctor by (simp add: km_load_def load_body_def Let_def)
qed

end

section \<open>A manager\<close>

lemma note_keys_keeps:
  "m_keyInfo (note_keys ks m) = m_keyInfo m" "m_passwordHint (note_keys ks m) = m_passwordHint m"
  "m_cachedPasswords (note_keys ks m) = m_cachedPasswords m" "m_keysFile (note_keys ks m) = m_keysFile m"
  "m_defaultPasswordDeprecated (note_keys ks m) = m_defaultPasswordDeprecated m"
  by (induction ks m rule: note_keys.induct) (simp_all add: km_link_def)

lemma ask_nobody: "ask_loop E 10 ph [] m = (Inl PasswordUnknown, m)"
  by (simp add: eval_nat_numeral)

definition demo_keys :: KeyManager where
  "demo_keys =
     \<lparr>m_uuidLookup = Map.empty, m_addrLookup = Map.empty,
      m_keyInfo = [(replicate 20 3, \<lparr>passHash = replicate 32 1, accountName = ''savings'', infoHint = []\<rparr>)],
      m_passwordHint = [(replicate 32 1, ''the usual'')], m_cachedPasswords = Map.empty,
      m_defaultPasswordDeprecated = [], m_keysFile = ''keys.info'', m_keysFileKey = hash_zero 16,
      m_master = hash_zero 32, m_store = SecretStore_new Map.empty\<rparr>"

lemma demo_pbkdf2: "env_pbkdf2 demo_env pass salt c n = Some (replicate n (of_nat (length pass)))"
  by (simp add: demo_env_def)

lemma demo_aes:
  assumes "length k = 16"
  shows "decryptAES128CTR (env_crypto demo_env) k iv x = x" "encryptAES128CTR (env_crypto demo_env) k iv x = x"
proof -
  have "aes_ctr (env_crypto demo_env) k iv x = Some x" by (simp add: demo_env_def demo_crypto_def Let_def)
  then show "decryptAES128CTR (env_crypto demo_env) k iv x = x" "encryptAES128CTR (env_crypto demo_env) k iv x = x"
    using assms by (simp_all add: decryptAES128CTR_def encryptAES128CTR_def)
qed

lemma demo_keys_ok: "index_ok demo_keys"
proof -
  have "length (rlp_enc (index_tree demo_keys)) < 500" by code_simp
  then show ?thesis
    by (simp add: index_ok_def demo_keys_def km_uuid_def hash_zero_def rlp_limit_def size_max_def)
qed

section \<open>Properties\<close>

text \<open>
  C17: the index of the key manager survives a restart.  After \<open>write\<close> under a master password, every
  manager without entries that finds the two files and whose store has the keys loads, with that
  password, all names, password hashes, hints and identifiers: through the RLP stream, the cipher,
  the files, the RLP reader and its iterator.
\<close>

theorem index_survives_restart:
  assumes "store_laws E" "index_ok m"
  shows "\<exists>m1. write_pass E salt pass f m = (Inr (), m1) \<and>
    (\<forall>m0. m_keysFile m0 = f \<and> m_keyInfo m0 = [] \<and> m_passwordHint m0 = [] \<and> disk (m_store m0) = disk (m_store m1) \<and>
      (\<forall>(a, k) \<in> set (m_keyInfo m). hash_bool (km_uuid a m) \<longrightarrow> store_contains (km_uuid a m) (m_store m0)) \<longrightarrow>
      (\<exists>m2. km_load E pass m0 = (True, m2) \<and> same_index m m2))"
proof -
  obtain m1 where m1: "write_pass E salt pass f m = (Inr (), m1)" "disk (m_store m1) (f @ ''.salt'') = Some (asString salt)"
    "disk (m_store m1) f = Some (asString (encryptAES128CTR (env_crypto E) (index_key E salt pass) (hash_zero 16) (rlp_enc (index_tree m))))"
    using store_laws.write_pass_ok [OF assms] by blast
  then show ?thesis using store_laws.load_ok_index [OF assms, of _ salt pass] by (intro exI [of _ m1]) simp
qed

theorem index_survives_restart_witness:
  "\<exists>m1 m2. write_pass demo_env [1] ''pass'' ''keys.info'' demo_keys = (Inr (), m1) \<and>
    km_load demo_env ''pass'' (demo_keys\<lparr>m_keyInfo := [], m_passwordHint := [], m_store := m_store m1\<rparr>) = (True, m2) \<and>
    km_accountName (replicate 20 3) m2 = ''savings''"
proof -
  have ok: "index_ok demo_keys" by (rule demo_keys_ok)
  obtain m1 where m1: "write_pass demo_env [1] ''pass'' ''keys.info'' demo_keys = (Inr (), m1)"
    "\<forall>m0. m_keysFile m0 = ''keys.info'' \<and> m_keyInfo m0 = [] \<and> m_passwordHint m0 = [] \<and> disk (m_store m0) = disk (m_store m1) \<and>
      (\<forall>(a, k) \<in> set (m_keyInfo demo_keys). hash_bool (km_uuid a demo_keys) \<longrightarrow> store_contains (km_uuid a demo_keys) (m_store m0)) \<longrightarrow>
      (\<exists>m2. km_load demo_env ''pass'' m0 = (True, m2) \<and> same_index demo_keys m2)"
    using index_survives_restart [OF demo_store.store_laws_axioms ok, of "[1]" "''pass''" "''keys.info''"] by blast
  let ?m0 = "demo_keys\<lparr>m_keyInfo := [], m_passwordHint := [], m_store := m_store m1\<rparr>"
  have "m_keysFile ?m0 = ''keys.info''" "m_keyInfo ?m0 = []" "m_passwordHint ?m0 = []" "m_store ?m0 = m_store m1"
    "\<forall>(a, k) \<in> set (m_keyInfo demo_keys). \<not> hash_bool (km_uuid a demo_keys)"
    by (simp_all add: demo_keys_def km_uuid_def hash_zero_def hash_bool_def list_ex_iff)
  then obtain m2 where m2: "km_load demo_env ''pass'' ?m0 = (True, m2)" "same_index demo_keys m2" using m1(2) by fastforce
  have "km_accountName (replicate 20 3) m2 = ''savings''"
    using m2(2) by (simp add: same_index_def km_accountName_def demo_keys_def)
  then show ?thesis using m1(1) m2(1) by blast
qed

text \<open>
  C39: a wrong master password can destroy the index.  \<open>load\<close> sets the key of the keys file before it
  has read the file with it.  So when a manager has just been opened, \<open>load\<close> fails on data that it
  decrypts to nothing readable, and the next operation is \<open>kill\<close> of any address, the keys file is
  replaced by an index without entries under the wrong key, and \<open>kill\<close> then throws.
\<close>

theorem failed_load_overwrites_index:
  assumes "store_laws E" "m = KeyManager_open E f path files d"
    and "key = index_key E (contents (f @ ''.salt'') m) pass" "contents f m \<noteq> []" "hash_bool key"
    and "RLP_ctor (decryptAES128CTR (env_crypto E) key (hash_zero 16) (contents f m)) VeryStrict = Inl e"
  shows "\<exists>m1 m2. km_load E pass m = (False, m1) \<and> km_kill E a m1 = (Inl PasswordUnknown, m2) \<and>
    disk (m_store m2) f = Some (asString (encryptAES128CTR (env_crypto E) key (hash_zero 16)
      (rlp_enc (RList [rlp_num 1, RList [], RList [], RStr []]))))"
proof -
  have open_: "m_keyInfo m = []" "m_passwordHint m = []" "m_cachedPasswords m = Map.empty" "m_keysFile m = f"
    "m_defaultPasswordDeprecated m = []"
    unfolding assms(2) KeyManager_open_def by (simp_all add: Let_def note_keys_keeps)
  define m1 where "m1 = m\<lparr>m_keysFileKey := key\<rparr>"
  have load: "km_load E pass m = (False, m1)"
    using assms(3,4,6) store_laws.derive_key_ok [OF assms(1)] store_laws.index_key_hash [OF assms(1)]
    by (simp add: km_load_def load_body_def open_ appendToFilename_def m1_def Let_def)
  define m2 where "m2 = m1\<lparr>m_uuidLookup := (m_uuidLookup m1)(km_uuid a m1 := None), m_addrLookup := (m_addrLookup m1)(a := None),
       m_keyInfo := AList.delete a (m_keyInfo m1), m_store := kill (km_uuid a m1) (m_store m1)\<rparr>"
  have m2: "m_keysFile m2 = f" "m_keysFile m1 = f" "m_keysFileKey m2 = key" "m_cachedPasswords m2 = Map.empty"
    by (simp_all add: m2_def m1_def open_)
  have tree: "index_tree m2 = RList [rlp_num 1, RList [], RList [], RStr []]"
    by (simp add: index_tree_def m2_def m1_def open_ asBytes_def)
  have "rlp_enc (index_tree m2) = [0xc4, 1, 0xc0, 0xc0, 0x80]"
    unfolding tree by code_simp
  then have "write_index m2 = Inr (rlp_enc (index_tree m2))"
    by (intro write_index_out) (simp add: rlp_limit_def size_max_def)
  then show ?thesis
    using load m2 assms(5) unfolding tree
    by (simp add: km_kill_def m2_def [symmetric] write_file_def write_key_def writeFile_def defaultPassword_def
        getPassword_hash_def ask_nobody)
qed

theorem failed_load_overwrites_index_witness:
  "\<exists>m1 m2. km_load demo_env ''guess'' (KeyManager_open demo_env ''keys.info'' [] [] [''keys.info'' \<mapsto> asString [0x81, 0]]) = (False, m1) \<and>
    km_kill demo_env (hash_zero 20) m1 = (Inl PasswordUnknown, m2) \<and>
    disk (m_store m2) ''keys.info'' = Some (asString [0xc4, 1, 0xc0, 0xc0, 0x80])"
proof -
  let ?m = "KeyManager_open demo_env ''keys.info'' [] [] [''keys.info'' \<mapsto> asString [0x81, 0]]"
  let ?k = "replicate 16 5 :: bytes"
  have c: "contents ''keys.info'' ?m = [0x81, 0]"
    by (simp add: contents_def contentsString_def KeyManager_open_def SecretStore_open_def load_def SecretStore_new_def
        asBytes_def asString_def Let_def)
  have k: "?k = index_key demo_env (contents (''keys.info'' @ ''.salt'') ?m) ''guess''"
    unfolding index_key_def demo_pbkdf2 option.sel list.size by simp
  have "length ?k = 16" by simp
  note id = demo_aes [OF this]
  have "RLP_ctor [0x81, 0] VeryStrict = Inl BadRLP"
    by (simp add: RLP_ctor_def flag_defs actualSize_def length_rlp_def requireGood_def isNull_def isSingleByte_def
        isData_def rlp_consts)
  then have bad: "RLP_ctor (decryptAES128CTR (env_crypto demo_env) ?k (hash_zero 16) (contents ''keys.info'' ?m)) VeryStrict = Inl BadRLP"
    unfolding id c .
  have ne: "contents ''keys.info'' ?m \<noteq> []" "hash_bool ?k" unfolding c by (simp_all add: hash_bool_def list_ex_iff)
  obtain m1 m2 where "km_load demo_env ''guess'' ?m = (False, m1)" "km_kill demo_env (hash_zero 20) m1 = (Inl PasswordUnknown, m2)"
    "disk (m_store m2) ''keys.info'' = Some (asString (rlp_enc (RList [rlp_num 1, RList [], RList [], RStr []])))"
    using failed_load_overwrites_index [OF demo_store.store_laws_axioms refl k ne bad, of "hash_zero 20"] unfolding id by blast
  moreover have "rlp_enc (RList [rlp_num 1, RList [], RList [], RStr []]) = [0xc4, 1, 0xc0, 0xc0, 0x80]" by code_simp
  ultimately show ?thesis by metis
qed

end
