(* ===== verification/Rpc_Json.thy ===== *)
theory Rpc_Json
  imports Cfx_Transaction Abi_Decode Common_JS "HOL-Library.AList"
begin

text \<open>
  \<^verbatim>\<open>libcfxcore/common/util/json_convert.h\<close>: reading the members of an answer of the node.  The
  \<open>Json::Value\<close> of jsoncpp is the type \<open>'v\<close>, its operations are the fields of the record
  \<open>jsoncpp\<close>, and what the SDK relies on is the locale \<open>jsoncpp_laws\<close>; \<open>None\<close> stands for a thrown
  \<open>Json::LogicError\<close>.  A function \<open>jsMem2...(js, mem, v)\<close> returns the value assigned to \<open>v\<close>, or
  \<open>None\<close> where it returns \<open>false\<close> and leaves \<open>v\<close> alone.
\<close>

record 'v jsoncpp =
  js_null :: 'v
  js_string :: "string \<Rightarrow> 'v"
  js_bool :: "bool \<Rightarrow> 'v"
  js_set :: "string \<Rightarrow> 'v \<Rightarrow> 'v \<Rightarrow> 'v"
  js_append :: "'v \<Rightarrow> 'v \<Rightarrow> 'v"
  js_resize :: "nat \<Rightarrow> 'v \<Rightarrow> 'v"
  js_put :: "nat \<Rightarrow> 'v \<Rightarrow> 'v \<Rightarrow> 'v"
  js_isObject :: "'v \<Rightarrow> bool"
  js_isArray :: "'v \<Rightarrow> bool"
  js_isString :: "'v \<Rightarrow> bool"
  js_isBool :: "'v \<Rightarrow> bool"
  js_isMember :: "'v \<Rightarrow> string \<Rightarrow> bool option"
  js_get :: "'v \<Rightarrow> string \<Rightarrow> 'v option"
  js_asString :: "'v \<Rightarrow> string option"
  js_asBool :: "'v \<Rightarrow> bool option"
  js_asInt64 :: "'v \<Rightarrow> int option"
  js_size :: "'v \<Rightarrow> nat"
  js_at :: "'v \<Rightarrow> nat \<Rightarrow> 'v option"
  js_items :: "'v \<Rightarrow> 'v list"

text \<open>
  What a call can end in: the exceptions of libjson-rpc-cpp, of jsoncpp and of the SDK, and two ends
  that are not exceptions, a failed assertion and a read of a member that was never assigned.
\<close>

datatype rpc_error =
    JsonRpcException | JsonLogicError | RpcHex hex_error | RpcAddress addr_error | RpcTx tx_error
  | RpcAbi abi_error | RpcRlp rlp_error | AssertionFailed | Unassigned

section \<open>Members\<close>

definition js_lift :: "'a option \<Rightarrow> rpc_error + 'a" where
  "js_lift m = (case m of None \<Rightarrow> Inl JsonLogicError | Some x \<Rightarrow> Inr x)"

definition jsHasStringValue :: "'v jsoncpp \<Rightarrow> 'v \<Rightarrow> string \<Rightarrow> rpc_error + bool" where
  "jsHasStringValue J js mem =
     bind_res (js_lift (js_isMember J js mem)) (\<lambda>has.
       if has then bind_res (js_lift (js_get J js mem)) (\<lambda>v. Inr (js_isString J v)) else Inr False)"

definition jsHasBooleanValue :: "'v jsoncpp \<Rightarrow> 'v \<Rightarrow> string \<Rightarrow> rpc_error + bool" where
  "jsHasBooleanValue J js mem =
     bind_res (js_lift (js_isMember J js mem)) (\<lambda>has.
       if has then bind_res (js_lift (js_get J js mem)) (\<lambda>v. Inr (js_isBool J v)) else Inr False)"

text \<open>\<open>js[mem].asString()\<close>\<close>

definition mem_string :: "'v jsoncpp \<Rightarrow> 'v \<Rightarrow> string \<Rightarrow> rpc_error + string" where
  "mem_string J js mem = bind_res (js_lift (js_get J js mem)) (\<lambda>v. js_lift (js_asString J v))"

definition jsMem2Hash :: "'v jsoncpp \<Rightarrow> (string \<Rightarrow> nat) \<Rightarrow> nat \<Rightarrow> 'v \<Rightarrow> string \<Rightarrow> rpc_error + FixedHash option" where
  "jsMem2Hash J D N js mem =
     bind_res (jsHasStringValue J js mem) (\<lambda>has.
       if has then bind_res (mem_string J js mem) (\<lambda>s.
         bind_res (map_error RpcHex (jsToFixed D N s)) (\<lambda>h. Inr (Some h)))
       else Inr None)"

definition jsMem2U256 :: "'v jsoncpp \<Rightarrow> (string \<Rightarrow> nat) \<Rightarrow> 'v \<Rightarrow> string \<Rightarrow> rpc_error + u256 option" where
  "jsMem2U256 J D js mem =
     bind_res (jsHasStringValue J js mem) (\<lambda>has.
       if has then bind_res (mem_string J js mem) (\<lambda>s.
         bind_res (map_error RpcHex (jsToU256 D s)) (\<lambda>u. Inr (Some u)))
       else Inr None)"

definition jsMem2Uint64 :: "'v jsoncpp \<Rightarrow> 'v \<Rightarrow> string \<Rightarrow> rpc_error + u64 option" where
  "jsMem2Uint64 J js mem =
     bind_res (jsHasStringValue J js mem) (\<lambda>has.
       if has then bind_res (mem_string J js mem) (\<lambda>s. Inr (Some (of_int (jsToInt s))))
       else Inr None)"

definition jsMem2CfxAddress :: "'v jsoncpp \<Rightarrow> 'v \<Rightarrow> string \<Rightarrow> rpc_error + Address option" where
  "jsMem2CfxAddress J js mem =
     bind_res (jsHasStringValue J js mem) (\<lambda>has.
       if has then bind_res (mem_string J js mem) (\<lambda>s.
         bind_res (map_error RpcAddress (Address_ctor (tolower_string s) NetworkTypeTestnetID)) (\<lambda>a. Inr (Some a)))
       else Inr None)"

definition jsMem2String :: "'v jsoncpp \<Rightarrow> 'v \<Rightarrow> string \<Rightarrow> rpc_error + string option" where
  "jsMem2String J js mem =
     bind_res (jsHasStringValue J js mem) (\<lambda>has.
       if has then bind_res (mem_string J js mem) (\<lambda>s. Inr (Some s)) else Inr None)"

definition jsMem2Boolean :: "'v jsoncpp \<Rightarrow> 'v \<Rightarrow> string \<Rightarrow> rpc_error + bool option" where
  "jsMem2Boolean J js mem =
     bind_res (jsHasBooleanValue J js mem) (\<lambda>has.
       if has then bind_res (js_lift (js_get J js mem)) (\<lambda>v.
         bind_res (js_lift (js_asBool J v)) (\<lambda>b. Inr (Some b)))
       else Inr None)"

text \<open>A string of at most two characters leaves \<open>v\<close> alone and returns \<open>true\<close> nevertheless.\<close>

definition jsMem2Bytes :: "'v jsoncpp \<Rightarrow> 'v \<Rightarrow> string \<Rightarrow> bytes \<Rightarrow> rpc_error + bytes option" where
  "jsMem2Bytes J js mem v =
     bind_res (jsHasStringValue J js mem) (\<lambda>has.
       if has then bind_res (mem_string J js mem) (\<lambda>str.
         Inr (Some (if length str > 2 then DecodeString (drop 2 str) else v)))
       else Inr None)"

section \<open>Structures and arrays\<close>

text \<open>\<open>set_mem\<close> is one statement of a \<open>fromJson\<close>, \<open>steps\<close> their sequence.\<close>

definition set_mem :: "rpc_error + 'a option \<Rightarrow> ('a \<Rightarrow> 'r \<Rightarrow> 'r) \<Rightarrow> 'r \<Rightarrow> rpc_error + 'r" where
  "set_mem m upd r = bind_res m (\<lambda>v. Inr (case v of None \<Rightarrow> r | Some x \<Rightarrow> upd x r))"

fun steps :: "('r \<Rightarrow> rpc_error + 'r) list \<Rightarrow> 'r \<Rightarrow> rpc_error + 'r" where
  "steps [] r = Inr r"
| "steps (f # fs) r = bind_res (f r) (steps fs)"

text \<open>A loop that converts the elements in turn and stops at the first exception.\<close>

fun map_res :: "('a \<Rightarrow> 'e + 'b) \<Rightarrow> 'a list \<Rightarrow> 'e + 'b list" where
  "map_res f [] = Inr []"
| "map_res f (x # xs) = bind_res (f x) (\<lambda>y. bind_res (map_res f xs) (\<lambda>ys. Inr (y # ys)))"

text \<open>\<open>js.isMember(mem) && js[mem].isArray()\<close>, and then \<open>js[mem]\<close>.\<close>

definition array_member :: "'v jsoncpp \<Rightarrow> 'v \<Rightarrow> string \<Rightarrow> rpc_error + 'v option" where
  "array_member J js mem =
     bind_res (js_lift (js_isMember J js mem)) (\<lambda>has.
       if has then bind_res (js_lift (js_get J js mem)) (\<lambda>v. Inr (if js_isArray J v then Some v else None))
       else Inr None)"

text \<open>\<open>for (i = 0; i < a.size(); i++) ... a[i] ...\<close>\<close>

definition each_index :: "'v jsoncpp \<Rightarrow> ('v \<Rightarrow> rpc_error + 'b) \<Rightarrow> 'v \<Rightarrow> rpc_error + 'b list" where
  "each_index J f a = map_res (\<lambda>i. bind_res (js_lift (js_at J a i)) f) [0..<js_size J a]"

definition item_hash :: "'v jsoncpp \<Rightarrow> (string \<Rightarrow> nat) \<Rightarrow> 'v \<Rightarrow> rpc_error + FixedHash" where
  "item_hash J D v = bind_res (js_lift (js_asString J v)) (\<lambda>s. map_error RpcHex (jsToFixed D 32 s))"

section \<open>Laws of jsoncpp\<close>

locale jsoncpp_laws =
  fixes J :: "'v jsoncpp"
  assumes null_kind: "\<not> js_isObject J (js_null J)" "\<not> js_isArray J (js_null J)" "\<not> js_isString J (js_null J)"
      "\<not> js_isBool J (js_null J)"
    and null_empty: "js_isMember J (js_null J) k = Some False" "js_items J (js_null J) = []"
    and string_kind: "js_isString J (js_string J s)" "js_asString J (js_string J s) = Some s"
    and bool_kind: "js_isBool J (js_bool J b)" "js_asBool J (js_bool J b) = Some b"
    and object_kind: "js_isObject J x \<Longrightarrow> \<not> js_isArray J x \<and> \<not> js_isString J x \<and> js_isMember J x k \<noteq> None"
    and set_kind: "x = js_null J \<or> js_isObject J x \<Longrightarrow> js_isObject J (js_set J k v x)"
    and isMember_set: "x = js_null J \<or> js_isObject J x \<Longrightarrow>
      js_isMember J (js_set J k v x) k' = (if k' = k then Some True else js_isMember J x k')"
    and get_set: "x = js_null J \<or> js_isObject J x \<Longrightarrow>
      js_get J (js_set J k v x) k' = (if k' = k then Some v else js_get J x k')"
    and append_kind: "x = js_null J \<or> js_isArray J x \<Longrightarrow> js_isArray J (js_append J x y)"
    and items_append: "x = js_null J \<or> js_isArray J x \<Longrightarrow> js_items J (js_append J x y) = js_items J x @ [y]"
    and resize_null: "js_isArray J (js_resize J n (js_null J))" "js_items J (js_resize J n (js_null J)) = replicate n (js_null J)"
    and put_kind: "js_isArray J x \<Longrightarrow> i < js_size J x \<Longrightarrow> js_isArray J (js_put J i v x)"
    and items_put: "js_isArray J x \<Longrightarrow> i < js_size J x \<Longrightarrow> js_items J (js_put J i v x) = (js_items J x)[i := v]"
    and size_items: "js_isArray J x \<Longrightarrow> js_size J x = length (js_items J x)"
    and at_items: "js_isArray J x \<Longrightarrow> i < js_size J x \<Longrightarrow> js_at J x i = Some (js_items J x ! i)"

section \<open>JSON values that satisfy the laws\<close>

text \<open>Values as a tree, objects as association lists: the laws above hold for it.\<close>

datatype Value =
    nullValue | intValue int | stringValue string | booleanValue bool
  | arrayValue "Value list" | objectValue "(string \<times> Value) list"

fun value_set :: "string \<Rightarrow> Value \<Rightarrow> Value \<Rightarrow> Value" where
  "value_set k v (objectValue kvs) = objectValue (AList.update k v kvs)"
| "value_set k v x = objectValue [(k, v)]"

fun value_items :: "Value \<Rightarrow> Value list" where
  "value_items (arrayValue vs) = vs"
| "value_items (objectValue kvs) = map snd kvs"
| "value_items _ = []"

fun value_member :: "Value \<Rightarrow> string \<Rightarrow> bool option" where
  "value_member (objectValue kvs) k = Some (map_of kvs k \<noteq> None)"
| "value_member nullValue k = Some False"
| "value_member _ k = None"

fun value_get :: "Value \<Rightarrow> string \<Rightarrow> Value option" where
  "value_get (objectValue kvs) k = Some (case map_of kvs k of None \<Rightarrow> nullValue | Some v \<Rightarrow> v)"
| "value_get nullValue k = Some nullValue"
| "value_get _ k = None"

fun value_asString :: "Value \<Rightarrow> string option" where
  "value_asString nullValue = Some []"
| "value_asString (intValue i) = Some (if i < 0 then ''-'' @ show_nat (nat (- i)) else show_nat (nat i))"
| "value_asString (stringValue s) = Some s"
| "value_asString (booleanValue b) = Some (if b then ''true'' else ''false'')"
| "value_asString _ = None"

definition value_js :: "Value jsoncpp" where
  "value_js =
     \<lparr>js_null = nullValue, js_string = stringValue, js_bool = booleanValue, js_set = value_set,
      js_append = (\<lambda>x y. arrayValue (value_items x @ [y])),
      js_resize = (\<lambda>n x. arrayValue (take n (value_items x) @ replicate (n - length (value_items x)) nullValue)),
      js_put = (\<lambda>i v x. arrayValue ((value_items x)[i := v])),
      js_isObject = (\<lambda>x. case x of objectValue _ \<Rightarrow> True | _ \<Rightarrow> False),
      js_isArray = (\<lambda>x. case x of arrayValue _ \<Rightarrow> True | _ \<Rightarrow> False),
      js_isString = (\<lambda>x. case x of stringValue _ \<Rightarrow> True | _ \<Rightarrow> False),
      js_isBool = (\<lambda>x. case x of booleanValue _ \<Rightarrow> True | _ \<Rightarrow> False),
      js_isMember = value_member, js_get = value_get, js_asString = value_asString,
      js_asBool = (\<lambda>x. case x of booleanValue b \<Rightarrow> Some b | _ \<Rightarrow> None),
      js_asInt64 = (\<lambda>x. case x of intValue i \<Rightarrow> Some i | nullValue \<Rightarrow> Some 0 | _ \<Rightarrow> None),
      js_size = (\<lambda>x. length (value_items x)),
      js_at = (\<lambda>x i. if i < length (value_items x) then Some (value_items x ! i) else Some nullValue),
      js_items = value_items\<rparr>"

interpretation tree_js: jsoncpp_laws value_js
  by unfold_locales (auto simp: value_js_def update_conv' split: Value.splits)

end
