(* ===== verification/Rpc_Types.thy ===== *)
theory Rpc_Types
  imports Rpc_Json Bloom_Filter
begin

text \<open>
  The data types of the RPC interface (\<^verbatim>\<open>libcfxcore/types\<close>): epochs, log filters, log entries and
  transaction receipts, with their conversions from and to jsoncpp values and their text.  A member
  of a fundamental type that the default constructor leaves without a value is an option.
\<close>

section \<open>Epochs\<close>

type_synonym EpochNumber = string

definition EpochNumber_of :: "string \<Rightarrow> EpochNumber" where
  "EpochNumber_of sn = sn"

definition EpochNumber_of_number :: "u256 \<Rightarrow> EpochNumber" where
  "EpochNumber_of_number n = toJS_number n"

definition Earliest :: EpochNumber where "Earliest = EpochNumber_of ''earliest''"
definition LatestCheckpoint :: EpochNumber where "LatestCheckpoint = EpochNumber_of ''latest_checkpoint''"
definition LatestConfirmed :: EpochNumber where "LatestConfirmed = EpochNumber_of ''latest_confirmed''"
definition LatestState :: EpochNumber where "LatestState = EpochNumber_of ''latest_state''"
definition LatestMined :: EpochNumber where "LatestMined = EpochNumber_of ''latest_mined''"

section \<open>Log filters\<close>

text \<open>
  The topics are four hash sets; the order in which an \<open>unordered_set\<close> is traversed is the
  argument \<open>ord\<close> of \<open>toJS\<close>.
\<close>

record LogFilterParam =
  lf_fromEpoch :: EpochNumber
  lf_toEpoch :: EpochNumber
  lf_blockHashes :: "FixedHash list option"
  lf_addresses :: "Address list option"
  lf_topics :: "FixedHash set list"
  lf_limit :: "u64 option"

definition LogFilterParam_new :: LogFilterParam where
  "LogFilterParam_new =
     \<lparr>lf_fromEpoch = EpochNumber_of ''latest_checkpoint'', lf_toEpoch = EpochNumber_of ''latest_state'',
      lf_blockHashes = None, lf_addresses = None, lf_topics = replicate 4 {}, lf_limit = None\<rparr>"

definition SetFromEpoch :: "EpochNumber \<Rightarrow> LogFilterParam \<Rightarrow> LogFilterParam" where
  "SetFromEpoch v f = f\<lparr>lf_fromEpoch := v\<rparr>"

definition SetToEpoch :: "EpochNumber \<Rightarrow> LogFilterParam \<Rightarrow> LogFilterParam" where
  "SetToEpoch v f = f\<lparr>lf_toEpoch := v\<rparr>"

definition AddBlockHash :: "FixedHash \<Rightarrow> LogFilterParam \<Rightarrow> LogFilterParam" where
  "AddBlockHash h f =
     (case lf_blockHashes f of
        Some hs \<Rightarrow> f\<lparr>lf_blockHashes := Some (hs @ [h])\<rparr>
      | None \<Rightarrow> f\<lparr>lf_blockHashes := Some [h]\<rparr>)"

definition AddTopic :: "nat \<Rightarrow> FixedHash \<Rightarrow> LogFilterParam \<Rightarrow> LogFilterParam" where
  "AddTopic i t f =
     (if i < 4 then f\<lparr>lf_topics := (lf_topics f)[i := insert t (lf_topics f ! i)]\<rparr> else f)"

definition AddAddress :: "Address \<Rightarrow> LogFilterParam \<Rightarrow> LogFilterParam" where
  "AddAddress a f =
     (case lf_addresses f of
        Some as \<Rightarrow> f\<lparr>lf_addresses := Some (as @ [a])\<rparr>
      | None \<Rightarrow> f\<lparr>lf_addresses := Some [a]\<rparr>)"

definition SetLimit :: "u64 \<Rightarrow> LogFilterParam \<Rightarrow> LogFilterParam" where
  "SetLimit v f = f\<lparr>lf_limit := Some v\<rparr>"

text \<open>\<open>append\<close> on a null value makes an array of it.\<close>

definition js_array :: "'v jsoncpp \<Rightarrow> 'v list \<Rightarrow> 'v" where
  "js_array J vs = foldl (js_append J) (js_null J) vs"

definition topics_js :: "'v jsoncpp \<Rightarrow> (FixedHash set \<Rightarrow> FixedHash list) \<Rightarrow> FixedHash set list \<Rightarrow> 'v" where
  "topics_js J ord topics =
     foldl (\<lambda>v i. if topics ! i = {} then v
                  else js_put J i (js_array J (map (\<lambda>t. js_string J (toJS_hash t)) (ord (topics ! i)))) v)
       (js_resize J 4 (js_null J)) [0..<4]"

definition LogFilterParam_toJS :: "'v jsoncpp \<Rightarrow> (FixedHash set \<Rightarrow> FixedHash list) \<Rightarrow> LogFilterParam \<Rightarrow> rpc_error + 'v" where
  "LogFilterParam_toJS J ord f =
     (let v = js_null J;
          v = js_set J ''fromEpoch'' (js_string J (lf_fromEpoch f)) v;
          v = js_set J ''toEpoch'' (js_string J (lf_toEpoch f)) v;
          v = js_set J ''blockHashes''
                (case lf_blockHashes f of None \<Rightarrow> js_null J
                 | Some hs \<Rightarrow> js_array J (map (\<lambda>h. js_string J (toJS_hash h)) hs)) v
      in bind_res (case lf_addresses f of None \<Rightarrow> Inr (js_null J)
                   | Some as \<Rightarrow> bind_res (map_res (\<lambda>a. map_error RpcAddress (GetVerboseBase32Address a)) as)
                       (\<lambda>ss. Inr (js_array J (map (js_string J) ss)))) (\<lambda>address.
         let v = js_set J ''address'' address v;
             v = js_set J ''topics'' (topics_js J ord (lf_topics f)) v;
             v = js_set J ''limit''
                   (case lf_limit f of None \<Rightarrow> js_null J | Some n \<Rightarrow> js_string J (toJS_uint64 n)) v
         in Inr v))"

section \<open>Log entries\<close>

record LogEntry =
  le_address :: FixedHash
  le_cfx_address :: Address
  le_topics :: "FixedHash list"
  le_data :: bytes

definition LogEntry_of :: "Address \<Rightarrow> FixedHash list \<Rightarrow> bytes \<Rightarrow> rpc_error + LogEntry" where
  "LogEntry_of a topics d =
     bind_res (map_error RpcAddress (toEthCommonAddr a)) (\<lambda>e.
       Inr \<lparr>le_address = e, le_cfx_address = a, le_topics = topics, le_data = d\<rparr>)"

text \<open>
  \<open>LogEntry(RLP const&)\<close>; \<open>fuel\<close> bounds the iteration over the topics, \<open>None\<close> is a loop that goes
  on.
\<close>

definition LogEntry_of_rlp :: "nat \<Rightarrow> RLP \<Rightarrow> (rpc_error + LogEntry) option" where
  "LogEntry_of_rlp fuel r =
     (case itemCount (RLP.m_data r) of
        Inl e \<Rightarrow> Some (Inl (RpcRlp e))
      | Inr n \<Rightarrow>
          if n \<noteq> 3 then Some (Inl AssertionFailed)
          else (case operator_index 0 r of (x0, r1) \<Rightarrow>
                case bind_res x0 (\<lambda>i. toHash 20 (RLP.m_data i) Strict) of
                  Inl e \<Rightarrow> Some (Inl (RpcRlp e))
                | Inr a \<Rightarrow>
                    (case operator_index 1 r1 of (x1, r2) \<Rightarrow>
                     case x1 of
                       Inl e \<Rightarrow> Some (Inl (RpcRlp e))
                     | Inr i1 \<Rightarrow>
                         map_option (\<lambda>m.
                           bind_res (map_error RpcRlp m) (\<lambda>ts.
                           bind_res (map_error RpcRlp
                             (bind_res (fst (operator_index 2 r2)) (\<lambda>i2. toBytes (RLP.m_data i2) LaissezFaire))) (\<lambda>d.
                           bind_res (map_error RpcAddress TestnetNullAddress) (\<lambda>c.
                             Inr \<lparr>le_address = a, le_cfx_address = c, le_topics = ts, le_data = d\<rparr>))))
                           (toVector fuel (toHash 32) (RLP.m_data i1) LaissezFaire))))"

definition LogEntry_streamRLP :: "LogEntry \<Rightarrow> RLPStream \<Rightarrow> rlp_error + RLPStream" where
  "LogEntry_streamRLP l s =
     bind_res (appendList 3 s) (\<lambda>s.
     bind_res (append_hash (le_address l) False False s) (\<lambda>s.
     bind_res (appendVector (\<lambda>t. append_hash t False False) (le_topics l) s) (\<lambda>s.
       append_bytes (le_data l) False s)))"

definition LogEntry_bloom :: "crypto \<Rightarrow> LogEntry \<Rightarrow> LogBloom" where
  "LogEntry_bloom C l =
     foldl (\<lambda>ret t. shiftBloom 3 ret (keccak256 C t))
       (shiftBloom 3 (hash_zero 256) (keccak256 C (le_address l))) (le_topics l)"

definition logs_bloom :: "crypto \<Rightarrow> LogEntry list \<Rightarrow> LogBloom" where
  "logs_bloom C logs = foldl (\<lambda>ret l. hash_or ret (LogEntry_bloom C l)) (hash_zero 256) logs"

record LocalisedLogEntry = LogEntry +
  ll_blockHash :: FixedHash
  ll_epochNumber :: EpochNumber
  ll_logIndex :: "u64 option"
  ll_transactionHash :: FixedHash
  ll_transactionIndex :: "u64 option"
  ll_transactionLogIndex :: "u64 option"

definition LocalisedLogEntry_of :: "LogEntry \<Rightarrow> LocalisedLogEntry" where
  "LocalisedLogEntry_of l = LogEntry.extend l
     \<lparr>ll_blockHash = hash_zero 32, ll_epochNumber = EpochNumber_of ''latest_state'', ll_logIndex = None,
      ll_transactionHash = hash_zero 32, ll_transactionIndex = None, ll_transactionLogIndex = None\<rparr>"

definition LocalisedLogEntry_at ::
  "LogEntry \<Rightarrow> FixedHash \<Rightarrow> EpochNumber \<Rightarrow> FixedHash \<Rightarrow> u64 \<Rightarrow> u64 \<Rightarrow> u64 \<Rightarrow> LocalisedLogEntry" where
  "LocalisedLogEntry_at l blockHash blockNumber transactionHash transactionIndex logIndex transactionLogIndex =
     LogEntry.extend l
       \<lparr>ll_blockHash = blockHash, ll_epochNumber = blockNumber, ll_logIndex = Some logIndex,
        ll_transactionHash = transactionHash, ll_transactionIndex = Some transactionIndex,
        ll_transactionLogIndex = Some transactionLogIndex\<rparr>"

definition LocalisedLogEntry_fromJson ::
  "'v jsoncpp \<Rightarrow> (string \<Rightarrow> nat) \<Rightarrow> 'v \<Rightarrow> rpc_error + LocalisedLogEntry option" where
  "LocalisedLogEntry_fromJson J D js =
     (if \<not> js_isObject J js then Inr None
      else bind_res (map_error RpcAddress TestnetNullAddress) (\<lambda>addr.
           bind_res (set_mem (jsMem2CfxAddress J js ''address'') (\<lambda>v _. v) addr) (\<lambda>addr.
           bind_res (set_mem (jsMem2Bytes J js ''data'' []) (\<lambda>v _. v) []) (\<lambda>d.
           bind_res (array_member J js ''topics'') (\<lambda>tp_array.
           bind_res (case tp_array of None \<Rightarrow> Inr [] | Some a \<Rightarrow> each_index J (item_hash J D) a) (\<lambda>topics.
           bind_res (LogEntry_of addr topics d) (\<lambda>log_entry.
           bind_res (steps
             [set_mem (jsMem2Hash J D 32 js ''blockHash'') (\<lambda>v r. r\<lparr>ll_blockHash := v\<rparr>),
              \<lambda>r. bind_res (set_mem (jsMem2U256 J D js ''epochNumber'') (\<lambda>v _. v) 0) (\<lambda>epoch.
                    Inr (r\<lparr>ll_epochNumber := EpochNumber_of_number epoch\<rparr>)),
              set_mem (jsMem2Uint64 J js ''logIndex'') (\<lambda>v r. r\<lparr>ll_logIndex := Some v\<rparr>),
              set_mem (jsMem2Hash J D 32 js ''transactionHash'') (\<lambda>v r. r\<lparr>ll_transactionHash := v\<rparr>),
              set_mem (jsMem2Uint64 J js ''transactionIndex'') (\<lambda>v r. r\<lparr>ll_transactionIndex := Some v\<rparr>),
              set_mem (jsMem2Uint64 J js ''transactionLogIndex'') (\<lambda>v r. r\<lparr>ll_transactionLogIndex := Some v\<rparr>)]
             (LocalisedLogEntry_of log_entry)) (\<lambda>retValue. Inr (Some retValue)))))))))"


text \<open>\<open>operator<<\<close>\<close>

definition crlf :: string where "crlf = [CHR 0x0D, CHR 0x0A]"

definition endl :: string where "endl = [CHR 0x0A]"

text \<open>The lines from the address on are the same in both operators.\<close>

definition entry_text :: "('r LogEntry_scheme) \<Rightarrow> rpc_error + string" where
  "entry_text r =
     bind_res (map_error RpcAddress (GetVerboseBase32Address (le_cfx_address r))) (\<lambda>a. Inr
       (''{ '' @ crlf @ '' address:'' @ a @ '','' @ endl @
        ''data:'' @ toJS_bytes (le_data r) 0 @ '','' @ endl @
        ''topics:['' @ endl @
        concat (map (\<lambda>topic. toJS_hash topic @ '','' @ endl) (le_topics r)) @
        '']}'' @ endl))"

definition show_LogEntry :: "LogEntry \<Rightarrow> rpc_error + string" where
  "show_LogEntry r = entry_text r"

definition assigned :: "'a option \<Rightarrow> rpc_error + 'a" where
  "assigned m = (case m of None \<Rightarrow> Inl Unassigned | Some x \<Rightarrow> Inr x)"

definition show_u64 :: "u64 option \<Rightarrow> rpc_error + string" where
  "show_u64 m = bind_res (assigned m) (\<lambda>n. Inr (show_nat (unat n)))"

definition show_LocalisedLogEntry :: "LocalisedLogEntry \<Rightarrow> rpc_error + string" where
  "show_LocalisedLogEntry r =
     bind_res (show_u64 (ll_logIndex r)) (\<lambda>logIndex.
     bind_res (show_u64 (ll_transactionIndex r)) (\<lambda>transactionIndex.
     bind_res (show_u64 (ll_transactionLogIndex r)) (\<lambda>transactionLogIndex.
     bind_res (entry_text r) (\<lambda>entry. Inr
       (''{ blockHash:'' @ toJS_hash (ll_blockHash r) @ '','' @ endl @
        '' epochNumber:'' @ ll_epochNumber r @ '','' @ endl @
        '' logIndex:'' @ logIndex @ '','' @ endl @
        '' transactionHash:'' @ toJS_hash (ll_transactionHash r) @ '','' @ endl @
        '' transactionIndex:'' @ transactionIndex @ '','' @ endl @
        '' transactionLogIndex:'' @ transactionLogIndex @ '','' @ endl @ entry)))))"

section \<open>Receipts\<close>

record StorageChange =
  sc_address :: Address
  sc_collaterals :: u256

record TransactionReceipt =
  tr_transactionHash :: FixedHash
  tr_index :: "u64 option"
  tr_blockHash :: FixedHash
  tr_epochNumber :: u256
  tr_from :: Address
  tr_to :: "Address option"
  tr_gasUsed :: u256
  tr_gasFee :: u256
  tr_contractCreated :: "Address option"
  tr_logs :: "LogEntry list"
  tr_logsBloom :: LogBloom
  tr_stateRoot :: FixedHash
  tr_outcomeStatus :: "u64 option"
  tr_txExecErrorMsg :: "string option"
  tr_gasCoveredBySponsor :: "bool option"
  tr_storageCoveredBySponsor :: "bool option"
  tr_storageCollateralized :: u256
  tr_storageReleased :: "StorageChange list"

definition TransactionReceipt_new :: "rpc_error + TransactionReceipt" where
  "TransactionReceipt_new =
     bind_res (map_error RpcAddress TestnetNullAddress) (\<lambda>a. Inr
       \<lparr>tr_transactionHash = hash_zero 32, tr_index = None, tr_blockHash = hash_zero 32, tr_epochNumber = 0,
        tr_from = a, tr_to = None, tr_gasUsed = 0, tr_gasFee = 0, tr_contractCreated = None, tr_logs = [],
        tr_logsBloom = hash_zero 256, tr_stateRoot = hash_zero 32, tr_outcomeStatus = None,
        tr_txExecErrorMsg = None, tr_gasCoveredBySponsor = None, tr_storageCoveredBySponsor = None,
        tr_storageCollateralized = 0, tr_storageReleased = []\<rparr>)"

definition read_change :: "'v jsoncpp \<Rightarrow> (string \<Rightarrow> nat) \<Rightarrow> 'v \<Rightarrow> rpc_error + StorageChange" where
  "read_change J D v =
     bind_res (map_error RpcAddress TestnetNullAddress) (\<lambda>a.
       steps [set_mem (jsMem2CfxAddress J v ''address'') (\<lambda>x r. r\<lparr>sc_address := x\<rparr>),
              set_mem (jsMem2U256 J D v ''collaterals'') (\<lambda>x r. r\<lparr>sc_collaterals := x\<rparr>)]
         \<lparr>sc_address = a, sc_collaterals = 0\<rparr>)"

definition read_log :: "'v jsoncpp \<Rightarrow> (string \<Rightarrow> nat) \<Rightarrow> 'v \<Rightarrow> rpc_error + LogEntry" where
  "read_log J D log =
     bind_res (map_error RpcAddress TestnetNullAddress) (\<lambda>address.
     bind_res (set_mem (jsMem2CfxAddress J log ''address'') (\<lambda>v _. v) address) (\<lambda>address.
     bind_res (set_mem (jsMem2Bytes J log ''data'' []) (\<lambda>v _. v) []) (\<lambda>d.
     bind_res (array_member J log ''topics'') (\<lambda>tps.
     bind_res (case tps of None \<Rightarrow> Inr [] | Some a \<Rightarrow> map_res (item_hash J D) (js_items J a)) (\<lambda>topics.
       LogEntry_of address topics d)))))"

definition Json2Struct ::
  "'v jsoncpp \<Rightarrow> (string \<Rightarrow> nat) \<Rightarrow> 'v \<Rightarrow> TransactionReceipt \<Rightarrow> rpc_error + (bool \<times> TransactionReceipt)" where
  "Json2Struct J D js retValue =
     (if \<not> js_isObject J js then Inr (False, retValue)
      else bind_res (steps
        [set_mem (jsMem2Hash J D 32 js ''transactionHash'') (\<lambda>v r. r\<lparr>tr_transactionHash := v\<rparr>),
         set_mem (jsMem2Uint64 J js ''index'') (\<lambda>v r. r\<lparr>tr_index := Some v\<rparr>),
         set_mem (jsMem2Hash J D 32 js ''blockHash'') (\<lambda>v r. r\<lparr>tr_blockHash := v\<rparr>),
         set_mem (jsMem2U256 J D js ''epochNumber'') (\<lambda>v r. r\<lparr>tr_epochNumber := v\<rparr>),
         \<lambda>r. bind_res (jsMem2CfxAddress J js ''from'') (\<lambda>v. case v of
               Some a \<Rightarrow> Inr (r\<lparr>tr_from := a\<rparr>)
             | None \<Rightarrow> bind_res (map_error RpcAddress InvaildAddress) (\<lambda>a. Inr (r\<lparr>tr_from := a\<rparr>))),
         set_mem (jsMem2CfxAddress J js ''to'') (\<lambda>v r. r\<lparr>tr_to := Some v\<rparr>),
         set_mem (jsMem2U256 J D js ''gasUsed'') (\<lambda>v r. r\<lparr>tr_gasUsed := v\<rparr>),
         set_mem (jsMem2U256 J D js ''gasFee'') (\<lambda>v r. r\<lparr>tr_gasFee := v\<rparr>),
         set_mem (jsMem2CfxAddress J js ''contractCreated'') (\<lambda>v r. r\<lparr>tr_contractCreated := Some v\<rparr>),
         set_mem (jsMem2Hash J D 256 js ''logsBloom'') (\<lambda>v r. r\<lparr>tr_logsBloom := v\<rparr>),
         set_mem (jsMem2Hash J D 32 js ''stateRoot'') (\<lambda>v r. r\<lparr>tr_stateRoot := v\<rparr>),
         set_mem (jsMem2Uint64 J js ''outcomeStatus'') (\<lambda>v r. r\<lparr>tr_outcomeStatus := Some v\<rparr>),
         set_mem (jsMem2String J js ''txExecErrorMsg'') (\<lambda>v r. r\<lparr>tr_txExecErrorMsg := Some v\<rparr>),
         set_mem (jsMem2Boolean J js ''gasCoveredBySponsor'') (\<lambda>v r. r\<lparr>tr_gasCoveredBySponsor := Some v\<rparr>),
         set_mem (jsMem2Boolean J js ''storageCoveredBySponsor'') (\<lambda>v r. r\<lparr>tr_storageCoveredBySponsor := Some v\<rparr>),
         set_mem (jsMem2U256 J D js ''storageCollateralized'') (\<lambda>v r. r\<lparr>tr_storageCollateralized := v\<rparr>),
         \<lambda>r. bind_res (array_member J js ''storageReleased'') (\<lambda>a. case a of None \<Rightarrow> Inr r
             | Some a \<Rightarrow> bind_res (each_index J (read_change J D) a) (\<lambda>cs.
                 Inr (r\<lparr>tr_storageReleased := tr_storageReleased r @ cs\<rparr>))),
         \<lambda>r. bind_res (array_member J js ''logs'') (\<lambda>a. case a of None \<Rightarrow> Inr r
             | Some a \<Rightarrow> bind_res (each_index J (read_log J D) a) (\<lambda>ls.
                 Inr (r\<lparr>tr_logs := tr_logs r @ ls\<rparr>)))]
        retValue) (\<lambda>r. Inr (True, r)))"

text \<open>
  \<open>operator<<\<close>: the text sent to the stream, and the text the loop over \<open>storageReleased\<close> sends to
  \<open>std::cout\<close> instead.
\<close>

definition show_address_line :: "string \<Rightarrow> Address option \<Rightarrow> rpc_error + string" where
  "show_address_line lbl m =
     (case m of None \<Rightarrow> Inr (lbl @ '': null'' @ endl)
      | Some a \<Rightarrow> bind_res (map_error RpcAddress (GetVerboseBase32Address a)) (\<lambda>s. Inr (lbl @ '':'' @ s @ endl)))"

definition show_change :: "StorageChange \<Rightarrow> rpc_error + string" where
  "show_change c =
     bind_res (map_error RpcAddress (GetVerboseBase32Address (sc_address c))) (\<lambda>a. Inr
       (''{'' @ endl @ ''address:'' @ a @ '','' @ endl @
        ''collaterals:'' @ toJS_number (sc_collaterals c) @ ''},'' @ endl))"

definition show_TransactionReceipt :: "TransactionReceipt \<Rightarrow> rpc_error + (string \<times> string)" where
  "show_TransactionReceipt r =
     bind_res (show_u64 (tr_index r)) (\<lambda>index.
     bind_res (map_error RpcAddress (GetVerboseBase32Address (tr_from r))) (\<lambda>sender.
     bind_res (show_address_line ''to'' (tr_to r)) (\<lambda>receiver.
     bind_res (show_address_line ''contractCreated'' (tr_contractCreated r)) (\<lambda>created.
     bind_res (show_u64 (tr_outcomeStatus r)) (\<lambda>outcome.
     bind_res (assigned (tr_gasCoveredBySponsor r)) (\<lambda>gasCovered.
     bind_res (assigned (tr_storageCoveredBySponsor r)) (\<lambda>storageCovered.
     bind_res (map_res show_LogEntry (tr_logs r)) (\<lambda>logs.
     bind_res (map_res show_change (tr_storageReleased r)) (\<lambda>changes. Inr
       (''transactionHash:'' @ toJS_hash (tr_transactionHash r) @ endl @
        ''index:'' @ index @ endl @
        ''blockHash:'' @ toJS_hash (tr_blockHash r) @ endl @
        ''epochNumber:'' @ toJS_number (tr_epochNumber r) @ endl @
        ''from:'' @ sender @ endl @ receiver @
        ''gasUsed:'' @ toJS_number (tr_gasUsed r) @ endl @
        ''gasFee:'' @ toJS_number (tr_gasFee r) @ endl @ created @
        ''logsBloom:'' @ toJS_hash (tr_logsBloom r) @ endl @
        ''stateRoot:'' @ toJS_hash (tr_stateRoot r) @ endl @
        ''outcomeStatus:'' @ outcome @ endl @
        (case tr_txExecErrorMsg r of None \<Rightarrow> ''txExecErrorMsg: null'' @ endl
         | Some m \<Rightarrow> ''txExecErrorMsg:'' @ m @ endl) @
        ''gasCoveredBySponsor:'' @ (if gasCovered then ''true'' else ''false'') @ endl @
        ''storageCoveredBySponsor:'' @ (if storageCovered then ''true'' else ''false'') @ endl @
        ''storageCollateralized:'' @ toJS_number (tr_storageCollateralized r) @ endl @
        ''logs:['' @ endl @ concat (map (\<lambda>l. l @ '','') logs) @ '']'' @ endl @
        concat (replicate (length changes) (concat changes @ '']'' @ endl)),
        concat (replicate (length changes) (''storageReleased: ['' @ endl))))))))))))"

end
