(* ===== verification/Rpc_Params.thy ===== *)
theory Rpc_Params
  imports Rpc_Types
begin

text \<open>
  \<^verbatim>\<open>libcfxcore/rpc/rpc_parameters\<close>: the structures the client returns, with their default values and
  their \<open>fromJson\<close>.  A \<open>fromJson\<close> starts from the object it is called on; members of a fundamental
  type that have no value yet are \<open>None\<close>.
\<close>

section \<open>Blocks\<close>

record cfx_getBlockByHashResult =
  bl_adaptive :: "bool option"
  bl_blame :: "u64 option"
  bl_deferredLogsBloomHash :: FixedHash
  bl_deferredReceiptsRoot :: FixedHash
  bl_deferredStateRoot :: FixedHash
  bl_difficulty :: u256
  bl_epochNumber :: "EpochNumber option"
  bl_gasLimit :: u256
  bl_gasUsed :: "u256 option"
  bl_hash :: FixedHash
  bl_height :: u256
  bl_miner :: Address
  bl_nonce :: u256
  bl_parentHash :: FixedHash
  bl_powQuality :: "u256 option"
  bl_refereeHashes :: "FixedHash list"
  bl_size :: "u64 option"
  bl_timestamp :: "u64 option"
  bl_transactions :: "FixedHash list"
  bl_transactionsRoot :: FixedHash

definition cfx_getBlockByHashResult_new :: "rpc_error + cfx_getBlockByHashResult" where
  "cfx_getBlockByHashResult_new =
     bind_res (map_error RpcAddress TestnetNullAddress) (\<lambda>a. Inr
       \<lparr>bl_adaptive = None, bl_blame = None, bl_deferredLogsBloomHash = hash_zero 32,
        bl_deferredReceiptsRoot = hash_zero 32, bl_deferredStateRoot = hash_zero 32, bl_difficulty = 0,
        bl_epochNumber = None, bl_gasLimit = 0, bl_gasUsed = None, bl_hash = hash_zero 32, bl_height = 0,
        bl_miner = a, bl_nonce = 0, bl_parentHash = hash_zero 32, bl_powQuality = None,
        bl_refereeHashes = [], bl_size = None, bl_timestamp = None, bl_transactions = [],
        bl_transactionsRoot = hash_zero 32\<rparr>)"

text \<open>\<open>if (js.isMember(mem) && js[mem].isArray()) for (auto& item : js[mem]) ... push_back\<close>\<close>

definition push_hashes ::
  "'v jsoncpp \<Rightarrow> (string \<Rightarrow> nat) \<Rightarrow> 'v \<Rightarrow> string \<Rightarrow> (FixedHash list \<Rightarrow> 'r \<Rightarrow> 'r) \<Rightarrow> 'r \<Rightarrow> rpc_error + 'r" where
  "push_hashes J D js mem upd r =
     bind_res (array_member J js mem) (\<lambda>a. case a of None \<Rightarrow> Inr r
     | Some a \<Rightarrow> bind_res (map_res (item_hash J D) (js_items J a)) (\<lambda>hs. Inr (upd hs r)))"

definition Block_fromJson ::
  "'v jsoncpp \<Rightarrow> (string \<Rightarrow> nat) \<Rightarrow> 'v \<Rightarrow> cfx_getBlockByHashResult \<Rightarrow> rpc_error + (bool \<times> cfx_getBlockByHashResult)" where
  "Block_fromJson J D js this =
     (if \<not> js_isObject J js then Inr (False, this)
      else bind_res (steps
        [set_mem (jsMem2Boolean J js ''adaptive'') (\<lambda>v r. r\<lparr>bl_adaptive := Some v\<rparr>),
         set_mem (jsMem2Uint64 J js ''blame'') (\<lambda>v r. r\<lparr>bl_blame := Some v\<rparr>),
         set_mem (jsMem2Hash J D 32 js ''deferredLogsBloomHash'') (\<lambda>v r. r\<lparr>bl_deferredLogsBloomHash := v\<rparr>),
         set_mem (jsMem2Hash J D 32 js ''deferredReceiptsRoot'') (\<lambda>v r. r\<lparr>bl_deferredReceiptsRoot := v\<rparr>),
         set_mem (jsMem2Hash J D 32 js ''deferredStateRoot'') (\<lambda>v r. r\<lparr>bl_deferredStateRoot := v\<rparr>),
         set_mem (jsMem2U256 J D js ''difficulty'') (\<lambda>v r. r\<lparr>bl_difficulty := v\<rparr>),
         set_mem (jsMem2U256 J D js ''epochNumber'') (\<lambda>v r. r\<lparr>bl_epochNumber := Some (EpochNumber_of_number v)\<rparr>),
         set_mem (jsMem2U256 J D js ''gasLimit'') (\<lambda>v r. r\<lparr>bl_gasLimit := v\<rparr>),
         set_mem (jsMem2U256 J D js ''gasUsed'') (\<lambda>v r. r\<lparr>bl_gasUsed := Some v\<rparr>),
         set_mem (jsMem2Hash J D 32 js ''hash'') (\<lambda>v r. r\<lparr>bl_hash := v\<rparr>),
         set_mem (jsMem2U256 J D js ''height'') (\<lambda>v r. r\<lparr>bl_height := v\<rparr>),
         set_mem (jsMem2CfxAddress J js ''miner'') (\<lambda>v r. r\<lparr>bl_miner := v\<rparr>),
         set_mem (jsMem2U256 J D js ''nonce'') (\<lambda>v r. r\<lparr>bl_nonce := v\<rparr>),
         set_mem (jsMem2Hash J D 32 js ''parentHash'') (\<lambda>v r. r\<lparr>bl_parentHash := v\<rparr>),
         set_mem (jsMem2U256 J D js ''powQuality'') (\<lambda>v r. r\<lparr>bl_powQuality := Some v\<rparr>),
         set_mem (jsMem2Uint64 J js ''size'') (\<lambda>v r. r\<lparr>bl_size := Some v\<rparr>),
         set_mem (jsMem2Uint64 J js ''timestamp'') (\<lambda>v r. r\<lparr>bl_timestamp := Some v\<rparr>),
         set_mem (jsMem2Hash J D 32 js ''transactionsRoot'') (\<lambda>v r. r\<lparr>bl_transactionsRoot := v\<rparr>),
         push_hashes J D js ''refereeHashes'' (\<lambda>hs r. r\<lparr>bl_refereeHashes := bl_refereeHashes r @ hs\<rparr>),
         push_hashes J D js ''transactions'' (\<lambda>hs r. r\<lparr>bl_transactions := bl_transactions r @ hs\<rparr>)]
        this) (\<lambda>r. Inr (True, r)))"

section \<open>The status of the node\<close>

record NodeStatus =
  ns_bestHash :: FixedHash
  ns_chainId :: "u32 option"
  ns_networkId :: "u32 option"
  ns_blockNumber :: u256
  ns_epochNumber :: EpochNumber
  ns_latestCheckpoint :: u256
  ns_latestConfirmed :: u256
  ns_latestState :: u256
  ns_pendingTxNumber :: u256

definition NodeStatus_new :: NodeStatus where
  "NodeStatus_new =
     \<lparr>ns_bestHash = hash_zero 32, ns_chainId = None, ns_networkId = None, ns_blockNumber = 0,
      ns_epochNumber = EpochNumber_of ''latest_state'', ns_latestCheckpoint = 0, ns_latestConfirmed = 0,
      ns_latestState = 0, ns_pendingTxNumber = 0\<rparr>"

text \<open>The 64-bit number is assigned to a 32-bit member.\<close>

definition NodeStatus_fromJson ::
  "'v jsoncpp \<Rightarrow> (string \<Rightarrow> nat) \<Rightarrow> 'v \<Rightarrow> NodeStatus \<Rightarrow> rpc_error + (bool \<times> NodeStatus)" where
  "NodeStatus_fromJson J D js this =
     (if \<not> js_isObject J js then Inr (False, this)
      else bind_res (steps
        [set_mem (jsMem2Hash J D 32 js ''bestHash'') (\<lambda>v r. r\<lparr>ns_bestHash := v\<rparr>),
         set_mem (jsMem2Uint64 J js ''chainId'') (\<lambda>v r. r\<lparr>ns_chainId := Some (ucast v)\<rparr>),
         set_mem (jsMem2Uint64 J js ''networkId'') (\<lambda>v r. r\<lparr>ns_networkId := Some (ucast v)\<rparr>),
         set_mem (jsMem2U256 J D js ''blockNumber'') (\<lambda>v r. r\<lparr>ns_blockNumber := v\<rparr>),
         set_mem (jsMem2U256 J D js ''epochNumber'') (\<lambda>v r. r\<lparr>ns_epochNumber := EpochNumber_of_number v\<rparr>),
         set_mem (jsMem2U256 J D js ''latestCheckpoint'') (\<lambda>v r. r\<lparr>ns_latestCheckpoint := v\<rparr>),
         set_mem (jsMem2U256 J D js ''latestConfirmed'') (\<lambda>v r. r\<lparr>ns_latestConfirmed := v\<rparr>),
         set_mem (jsMem2U256 J D js ''latestState'') (\<lambda>v r. r\<lparr>ns_latestState := v\<rparr>),
         set_mem (jsMem2U256 J D js ''pendingTxNumber'') (\<lambda>v r. r\<lparr>ns_pendingTxNumber := v\<rparr>)]
        this) (\<lambda>r. Inr (True, r)))"

section \<open>Estimates\<close>

record EstimateGasAndCollateralResult =
  eg_gasLimit :: u256
  eg_gasUsed :: u256
  eg_storageCollateralized :: u256

definition EstimateGasAndCollateralResult_new :: EstimateGasAndCollateralResult where
  "EstimateGasAndCollateralResult_new = \<lparr>eg_gasLimit = 0, eg_gasUsed = 0, eg_storageCollateralized = 0\<rparr>"

definition Estimate_fromJson ::
  "'v jsoncpp \<Rightarrow> (string \<Rightarrow> nat) \<Rightarrow> 'v \<Rightarrow> EstimateGasAndCollateralResult \<Rightarrow>
   rpc_error + (bool \<times> EstimateGasAndCollateralResult)" where
  "Estimate_fromJson J D js this =
     (if \<not> js_isObject J js then Inr (False, this)
      else bind_res (steps
        [set_mem (jsMem2U256 J D js ''gasLimit'') (\<lambda>v r. r\<lparr>eg_gasLimit := v\<rparr>),
         set_mem (jsMem2U256 J D js ''gasUsed'') (\<lambda>v r. r\<lparr>eg_gasUsed := v\<rparr>),
         set_mem (jsMem2U256 J D js ''storageCollateralized'') (\<lambda>v r. r\<lparr>eg_storageCollateralized := v\<rparr>)]
        this) (\<lambda>r. Inr (True, r)))"

section \<open>Transactions\<close>

datatype TransactionStatus = Success | ErrorOccurred | SkippedOrNotPacked

record TransactionByHashResult =
  tb_hash :: FixedHash
  tb_nonce :: u256
  tb_blockHash :: FixedHash
  tb_transactionIndex :: u256
  tb_from :: Address
  tb_to :: Address
  tb_value :: u256
  tb_gasPrice :: u256
  tb_gas :: u256
  tb_contractCreated :: Address
  tb_data :: bytes
  tb_storageLimit :: u256
  tb_epochHeight :: u256
  tb_chainId :: "u32 option"
  tb_status :: "TransactionStatus option"
  tb_signature :: SignatureStruct

definition TransactionByHashResult_new :: "rpc_error + TransactionByHashResult" where
  "TransactionByHashResult_new =
     bind_res (map_error RpcAddress TestnetNullAddress) (\<lambda>a. Inr
       \<lparr>tb_hash = hash_zero 32, tb_nonce = 0, tb_blockHash = hash_zero 32, tb_transactionIndex = Invalid256,
        tb_from = a, tb_to = a, tb_value = 0, tb_gasPrice = 0, tb_gas = 0, tb_contractCreated = a,
        tb_data = [], tb_storageLimit = 0, tb_epochHeight = 0, tb_chainId = None, tb_status = None,
        tb_signature = \<lparr>sig_r = hash_zero 32, sig_s = hash_zero 32, sig_v = 0\<rparr>\<rparr>)"

definition IsOK :: "TransactionByHashResult \<Rightarrow> rpc_error + bool" where
  "IsOK r = bind_res (assigned (tb_status r)) (\<lambda>s. Inr (s = Success))"

definition IsContractCreated :: "TransactionByHashResult \<Rightarrow> bool" where
  "IsContractCreated r = (addressType (tb_contractCreated r) = AddressTypeContract)"

definition read_status :: "'v jsoncpp \<Rightarrow> 'v \<Rightarrow> rpc_error + TransactionStatus" where
  "read_status J js =
     bind_res (jsHasStringValue J js ''status'') (\<lambda>has.
       if has then bind_res (mem_string J js ''status'') (\<lambda>s.
         let status = jsToInt s in
         Inr (if status = 0 then Success else if status = 1 then ErrorOccurred else SkippedOrNotPacked))
       else Inr SkippedOrNotPacked)"

definition TransactionByHashResult_fromJson ::
  "'v jsoncpp \<Rightarrow> (string \<Rightarrow> nat) \<Rightarrow> 'v \<Rightarrow> TransactionByHashResult \<Rightarrow> rpc_error + (bool \<times> TransactionByHashResult)" where
  "TransactionByHashResult_fromJson J D js this =
     (if \<not> js_isObject J js then Inr (False, this)
      else bind_res (steps
        [set_mem (jsMem2Hash J D 32 js ''hash'') (\<lambda>v r. r\<lparr>tb_hash := v\<rparr>),
         set_mem (jsMem2U256 J D js ''nonce'') (\<lambda>v r. r\<lparr>tb_nonce := v\<rparr>),
         set_mem (jsMem2Hash J D 32 js ''blockHash'') (\<lambda>v r. r\<lparr>tb_blockHash := v\<rparr>),
         set_mem (jsMem2U256 J D js ''transactionIndex'') (\<lambda>v r. r\<lparr>tb_transactionIndex := v\<rparr>),
         set_mem (jsMem2CfxAddress J js ''from'') (\<lambda>v r. r\<lparr>tb_from := v\<rparr>),
         set_mem (jsMem2Uint64 J js ''chainId'') (\<lambda>v r. r\<lparr>tb_chainId := Some (ucast v)\<rparr>),
         \<lambda>r. bind_res (jsMem2CfxAddress J js ''to'') (\<lambda>v. case v of
               Some a \<Rightarrow> Inr (r\<lparr>tb_to := a\<rparr>)
             | None \<Rightarrow> bind_res (assigned (tb_chainId r)) (\<lambda>chainid.
                 bind_res (map_error RpcAddress (NullAddress chainid)) (\<lambda>a. Inr (r\<lparr>tb_to := a\<rparr>)))),
         set_mem (jsMem2U256 J D js ''value'') (\<lambda>v r. r\<lparr>tb_value := v\<rparr>),
         set_mem (jsMem2U256 J D js ''gasPrice'') (\<lambda>v r. r\<lparr>tb_gasPrice := v\<rparr>),
         set_mem (jsMem2U256 J D js ''gas'') (\<lambda>v r. r\<lparr>tb_gas := v\<rparr>),
         \<lambda>r. bind_res (jsMem2CfxAddress J js ''contractCreated'') (\<lambda>v. case v of
               Some a \<Rightarrow> Inr (r\<lparr>tb_contractCreated := a\<rparr>)
             | None \<Rightarrow> bind_res (map_error RpcAddress InvaildAddress) (\<lambda>a. Inr (r\<lparr>tb_contractCreated := a\<rparr>))),
         \<lambda>r. set_mem (jsMem2Bytes J js ''data'' (tb_data r)) (\<lambda>v r. r\<lparr>tb_data := v\<rparr>) r,
         set_mem (jsMem2U256 J D js ''storageLimit'') (\<lambda>v r. r\<lparr>tb_storageLimit := v\<rparr>),
         set_mem (jsMem2U256 J D js ''epochHeight'') (\<lambda>v r. r\<lparr>tb_epochHeight := v\<rparr>),
         \<lambda>r. bind_res (read_status J js) (\<lambda>s. Inr (r\<lparr>tb_status := Some s\<rparr>)),
         set_mem (jsMem2Hash J D 32 js ''r'') (\<lambda>v r. r\<lparr>tb_signature := (tb_signature r)\<lparr>sig_r := v\<rparr>\<rparr>),
         set_mem (jsMem2Hash J D 32 js ''s'') (\<lambda>v r. r\<lparr>tb_signature := (tb_signature r)\<lparr>sig_s := v\<rparr>\<rparr>),
         set_mem (jsMem2Uint64 J js ''v'') (\<lambda>v r. r\<lparr>tb_signature := (tb_signature r)\<lparr>sig_v := ucast v\<rparr>\<rparr>)]
        this) (\<lambda>r. Inr (True, r)))"

section \<open>Requests and other answers\<close>

record CallRequest =
  cr_from :: Address
  cr_to :: Address
  cr_value :: u256
  cr_data :: bytes
  cr_nonce :: u256
  cr_gas :: u256
  cr_gasPrice :: u256
  cr_epochNumber :: EpochNumber

definition CallRequest_new :: "rpc_error + CallRequest" where
  "CallRequest_new =
     bind_res (map_error RpcAddress TestnetNullAddress) (\<lambda>a. Inr
       \<lparr>cr_from = a, cr_to = a, cr_value = 0, cr_data = [], cr_nonce = 0, cr_gas = 500000000,
        cr_gasPrice = 1, cr_epochNumber = EpochNumber_of ''latest_state''\<rparr>)"

record cfx_getStorageRootResult =
  sr_delta :: "string option"
  sr_intermediate :: "string option"
  sr_snapshot :: "string option"

record cfx_getSponsorInfoResult =
  sp_sponsorBalanceForCollateral :: u256
  sp_sponsorBalanceForGas :: u256
  sp_sponsorGasBound :: u256
  sp_sponsorForCollateral :: Address
  sp_sponsorForGas :: Address

record cfx_getAccountResult =
  ac_balance :: u256
  ac_nonce :: u256
  ac_codeHash :: FixedHash
  ac_stakingBalance :: u256
  ac_collateralForStorage :: u256
  ac_accumulatedInterestReturn :: u256
  ac_admin :: Address

record cfx_checkBalanceAgainstTransactionResult =
  cb_isBalanceEnough :: "bool option"
  cb_willPayCollateral :: "bool option"
  cb_willPayTxFee :: "bool option"

record cfx_getBlockRewardInfoReslut =
  rw_blockHash :: FixedHash
  rw_author :: Address
  rw_totalReward :: u256
  rw_baseReward :: u256
  rw_txFee :: u256

record cfx_getDepositListResult =
  dp_accumulatedInterestRate :: u256
  dp_amount :: u256
  dp_depositTime :: u64

record cfx_getVoteListResult =
  vt_amount :: u256
  vt_unlockBlockNumber :: u256

end
