(* ===== verification/Rpc_Stub.thy ===== *)
theory Rpc_Stub
  imports Rpc_Params
begin

text \<open>
  The generated stub of the RPC interface (\<^verbatim>\<open>libcfxcore/rpc/stubclient.h\<close>) and what the client takes
  from outside: jsoncpp, \<open>jsonrpc::Client::CallMethod\<close>, the clock, and the product of Boost's decimal
  floating-point numbers.  A call runs in a state \<open>'s\<close>, the node and the clock as the client sees
  them, and may throw; \<open>CallMethod\<close> returning \<open>None\<close> is a \<open>JsonRpcException\<close>.
\<close>

record ('v, 's) rpc_env =
  rpc_js :: "'v jsoncpp"
  rpc_decimal :: "string \<Rightarrow> nat"
  rpc_crypto :: crypto
  rpc_boost :: boost
  rpc_CallMethod :: "string \<Rightarrow> 'v \<Rightarrow> 's \<Rightarrow> 'v option \<times> 's"
  rpc_clock :: "'s \<Rightarrow> int"
  rpc_sleep :: "nat \<Rightarrow> 's \<Rightarrow> 's"
  rpc_ratio :: "u256 \<Rightarrow> u256"
  rpc_order :: "FixedHash set \<Rightarrow> FixedHash list"

section \<open>Calls\<close>

type_synonym ('s, 'a) rpc = "'s \<Rightarrow> (rpc_error + 'a) \<times> 's"

definition rpc_return :: "'a \<Rightarrow> ('s, 'a) rpc" where
  "rpc_return x = (\<lambda>s. (Inr x, s))"

definition rpc_bind :: "('s, 'a) rpc \<Rightarrow> ('a \<Rightarrow> ('s, 'b) rpc) \<Rightarrow> ('s, 'b) rpc" where
  "rpc_bind m f = (\<lambda>s. case m s of (Inl e, s') \<Rightarrow> (Inl e, s') | (Inr x, s') \<Rightarrow> f x s')"

definition rpc_lift :: "rpc_error + 'a \<Rightarrow> ('s, 'a) rpc" where
  "rpc_lift r = (\<lambda>s. (r, s))"

lemma rpc_bind_Inr [simp]: "m s = (Inr x, s') \<Longrightarrow> rpc_bind m f s = f x s'"
  by (simp add: rpc_bind_def)

lemma rpc_bind_Inl [simp]: "m s = (Inl e, s') \<Longrightarrow> rpc_bind m f s = (Inl e, s')"
  by (simp add: rpc_bind_def)

lemma rpc_bind_eq_Inr:
  "rpc_bind m f s = (Inr y, s'') \<longleftrightarrow> (\<exists>x s'. m s = (Inr x, s') \<and> f x s' = (Inr y, s''))"
  by (auto simp: rpc_bind_def split: prod.splits sum.splits)

lemma rpc_lift_eq [simp]: "rpc_lift r s = (r', s') \<longleftrightarrow> r = r' \<and> s = s'"
  by (simp add: rpc_lift_def)

lemma rpc_return_eq [simp]: "rpc_return x s = (r, s') \<longleftrightarrow> r = Inr x \<and> s = s'"
  by (auto simp: rpc_return_def)

definition CallMethod :: "('v, 's) rpc_env \<Rightarrow> string \<Rightarrow> 'v \<Rightarrow> ('s, 'v) rpc" where
  "CallMethod E name p = (\<lambda>s.
     case rpc_CallMethod E name p s of
       (None, s') \<Rightarrow> (Inl JsonRpcException, s')
     | (Some v, s') \<Rightarrow> (Inr v, s'))"

text \<open>The three checks of the stub; the others than the expected kind throw.\<close>

definition result_string :: "('v, 's) rpc_env \<Rightarrow> 'v \<Rightarrow> ('s, string) rpc" where
  "result_string E result =
     rpc_lift (if js_isString (rpc_js E) result then js_lift (js_asString (rpc_js E) result) else Inl JsonRpcException)"

definition result_object :: "('v, 's) rpc_env \<Rightarrow> 'v \<Rightarrow> ('s, 'v) rpc" where
  "result_object E result =
     rpc_lift (if js_isObject (rpc_js E) result then Inr result else Inl JsonRpcException)"

definition result_array :: "('v, 's) rpc_env \<Rightarrow> 'v \<Rightarrow> ('s, 'v) rpc" where
  "result_array E result =
     rpc_lift (if js_isArray (rpc_js E) result then Inr result else Inl JsonRpcException)"

section \<open>The stub\<close>

definition Stub_cfx_clientVersion :: "('v, 's) rpc_env \<Rightarrow> ('s, string) rpc" where
  "Stub_cfx_clientVersion E =
     rpc_bind (CallMethod E ''cfx_clientVersion'' (js_null (rpc_js E))) (result_string E)"

definition Stub_cfx_getTransactionByHash :: "('v, 's) rpc_env \<Rightarrow> string \<Rightarrow> ('s, 'v) rpc" where
  "Stub_cfx_getTransactionByHash E param1 =
     rpc_bind (CallMethod E ''cfx_getTransactionByHash'' (js_array (rpc_js E) [js_string (rpc_js E) param1])) (result_object E)"

definition Stub_cfx_getNextNonce :: "('v, 's) rpc_env \<Rightarrow> string \<Rightarrow> string \<Rightarrow> ('s, string) rpc" where
  "Stub_cfx_getNextNonce E param1 param2 =
     rpc_bind (CallMethod E ''cfx_getNextNonce'' (js_array (rpc_js E) [js_string (rpc_js E) param1, js_string (rpc_js E) param2])) (result_string E)"

definition Stub_cfx_getStatus :: "('v, 's) rpc_env \<Rightarrow> ('s, 'v) rpc" where
  "Stub_cfx_getStatus E =
     rpc_bind (CallMethod E ''cfx_getStatus'' (js_null (rpc_js E))) (result_object E)"

definition Stub_cfx_epochNumber :: "('v, 's) rpc_env \<Rightarrow> string \<Rightarrow> ('s, string) rpc" where
  "Stub_cfx_epochNumber E param1 =
     rpc_bind (CallMethod E ''cfx_epochNumber'' (js_array (rpc_js E) [js_string (rpc_js E) param1])) (result_string E)"

definition Stub_cfx_gasPrice :: "('v, 's) rpc_env \<Rightarrow> ('s, string) rpc" where
  "Stub_cfx_gasPrice E =
     rpc_bind (CallMethod E ''cfx_gasPrice'' (js_null (rpc_js E))) (result_string E)"

definition Stub_cfx_estimateGasAndCollateral :: "('v, 's) rpc_env \<Rightarrow> 'v \<Rightarrow> string \<Rightarrow> ('s, 'v) rpc" where
  "Stub_cfx_estimateGasAndCollateral E param1 param2 =
     rpc_bind (CallMethod E ''cfx_estimateGasAndCollateral'' (js_array (rpc_js E) [param1, js_string (rpc_js E) param2])) (result_object E)"

definition Stub_cfx_sendRawTransaction :: "('v, 's) rpc_env \<Rightarrow> string \<Rightarrow> ('s, string) rpc" where
  "Stub_cfx_sendRawTransaction E param1 =
     rpc_bind (CallMethod E ''cfx_sendRawTransaction'' (js_array (rpc_js E) [js_string (rpc_js E) param1])) (result_string E)"

definition Stub_cfx_call :: "('v, 's) rpc_env \<Rightarrow> 'v \<Rightarrow> string \<Rightarrow> ('s, string) rpc" where
  "Stub_cfx_call E param1 param2 =
     rpc_bind (CallMethod E ''cfx_call'' (js_array (rpc_js E) [param1, js_string (rpc_js E) param2])) (result_string E)"

definition Stub_cfx_getTransactionReceipt :: "('v, 's) rpc_env \<Rightarrow> string \<Rightarrow> ('s, 'v) rpc" where
  "Stub_cfx_getTransactionReceipt E param1 =
     rpc_bind (CallMethod E ''cfx_getTransactionReceipt'' (js_array (rpc_js E) [js_string (rpc_js E) param1])) (result_object E)"

definition Stub_cfx_getLogs :: "('v, 's) rpc_env \<Rightarrow> 'v \<Rightarrow> ('s, 'v) rpc" where
  "Stub_cfx_getLogs E param1 =
     rpc_bind (CallMethod E ''cfx_getLogs'' (js_array (rpc_js E) [param1])) (result_array E)"

definition Stub_cfx_getBalance :: "('v, 's) rpc_env \<Rightarrow> string \<Rightarrow> string \<Rightarrow> ('s, string) rpc" where
  "Stub_cfx_getBalance E param1 param2 =
     rpc_bind (CallMethod E ''cfx_getBalance'' (js_array (rpc_js E) [js_string (rpc_js E) param1, js_string (rpc_js E) param2])) (result_string E)"

definition Stub_cfx_getBlockByHash :: "('v, 's) rpc_env \<Rightarrow> string \<Rightarrow> bool \<Rightarrow> ('s, 'v) rpc" where
  "Stub_cfx_getBlockByHash E param1 param2 =
     rpc_bind (CallMethod E ''cfx_getBlockByHash'' (js_array (rpc_js E) [js_string (rpc_js E) param1, js_bool (rpc_js E) param2])) (result_object E)"

definition Stub_cfx_getBlockByEpochNumber :: "('v, 's) rpc_env \<Rightarrow> string \<Rightarrow> bool \<Rightarrow> ('s, 'v) rpc" where
  "Stub_cfx_getBlockByEpochNumber E param1 param2 =
     rpc_bind (CallMethod E ''cfx_getBlockByEpochNumber'' (js_array (rpc_js E) [js_string (rpc_js E) param1, js_bool (rpc_js E) param2])) (result_object E)"

definition Stub_cfx_getBestBlockHash :: "('v, 's) rpc_env \<Rightarrow> ('s, string) rpc" where
  "Stub_cfx_getBestBlockHash E =
     rpc_bind (CallMethod E ''cfx_getBestBlockHash'' (js_null (rpc_js E))) (result_string E)"

definition Stub_cfx_getBlocksByEpoch :: "('v, 's) rpc_env \<Rightarrow> string \<Rightarrow> ('s, 'v) rpc" where
  "Stub_cfx_getBlocksByEpoch E param1 =
     rpc_bind (CallMethod E ''cfx_getBlocksByEpoch'' (js_array (rpc_js E) [js_string (rpc_js E) param1])) (result_array E)"

definition Stub_cfx_getStakingBalance :: "('v, 's) rpc_env \<Rightarrow> string \<Rightarrow> string \<Rightarrow> ('s, string) rpc" where
  "Stub_cfx_getStakingBalance E param1 param2 =
     rpc_bind (CallMethod E ''cfx_getStakingBalance'' (js_array (rpc_js E) [js_string (rpc_js E) param1, js_string (rpc_js E) param2])) (result_string E)"

definition Stub_cfx_getCollateralForStorage :: "('v, 's) rpc_env \<Rightarrow> string \<Rightarrow> string \<Rightarrow> ('s, string) rpc" where
  "Stub_cfx_getCollateralForStorage E param1 param2 =
     rpc_bind (CallMethod E ''cfx_getCollateralForStorage'' (js_array (rpc_js E) [js_string (rpc_js E) param1, js_string (rpc_js E) param2])) (result_string E)"

definition Stub_cfx_getAdmin :: "('v, 's) rpc_env \<Rightarrow> string \<Rightarrow> string \<Rightarrow> ('s, string) rpc" where
  "Stub_cfx_getAdmin E param1 param2 =
     rpc_bind (CallMethod E ''cfx_getAdmin'' (js_array (rpc_js E) [js_string (rpc_js E) param1, js_string (rpc_js E) param2])) (result_string E)"

definition Stub_cfx_getCode :: "('v, 's) rpc_env \<Rightarrow> string \<Rightarrow> string \<Rightarrow> ('s, string) rpc" where
  "Stub_cfx_getCode E param1 param2 =
     rpc_bind (CallMethod E ''cfx_getCode'' (js_array (rpc_js E) [js_string (rpc_js E) param1, js_string (rpc_js E) param2])) (result_string E)"

definition Stub_cfx_getStorageAt :: "('v, 's) rpc_env \<Rightarrow> string \<Rightarrow> string \<Rightarrow> string \<Rightarrow> ('s, string) rpc" where
  "Stub_cfx_getStorageAt E param1 param2 param3 =
     rpc_bind (CallMethod E ''cfx_getStorageAt'' (js_array (rpc_js E) [js_string (rpc_js E) param1, js_string (rpc_js E) param2, js_string (rpc_js E) param3])) (result_string E)"

definition Stub_cfx_getStorageRoot :: "('v, 's) rpc_env \<Rightarrow> string \<Rightarrow> string \<Rightarrow> ('s, 'v) rpc" where
  "Stub_cfx_getStorageRoot E param1 param2 =
     rpc_bind (CallMethod E ''cfx_getStorageRoot'' (js_array (rpc_js E) [js_string (rpc_js E) param1, js_string (rpc_js E) param2])) (result_object E)"

definition Stub_cfx_getSponsorInfo :: "('v, 's) rpc_env \<Rightarrow> string \<Rightarrow> string \<Rightarrow> ('s, 'v) rpc" where
  "Stub_cfx_getSponsorInfo E param1 param2 =
     rpc_bind (CallMethod E ''cfx_getSponsorInfo'' (js_array (rpc_js E) [js_string (rpc_js E) param1, js_string (rpc_js E) param2])) (result_object E)"

definition Stub_cfx_getAccount :: "('v, 's) rpc_env \<Rightarrow> string \<Rightarrow> string \<Rightarrow> ('s, 'v) rpc" where
  "Stub_cfx_getAccount E param1 param2 =
     rpc_bind (CallMethod E ''cfx_getAccount'' (js_array (rpc_js E) [js_string (rpc_js E) param1, js_string (rpc_js E) param2])) (result_object E)"

definition Stub_cfx_getInterestRate :: "('v, 's) rpc_env \<Rightarrow> string \<Rightarrow> ('s, string) rpc" where
  "Stub_cfx_getInterestRate E param1 =
     rpc_bind (CallMethod E ''cfx_getInterestRate'' (js_array (rpc_js E) [js_string (rpc_js E) param1])) (result_string E)"

definition Stub_cfx_getAccumulateInterestRate :: "('v, 's) rpc_env \<Rightarrow> string \<Rightarrow> ('s, string) rpc" where
  "Stub_cfx_getAccumulateInterestRate E param1 =
     rpc_bind (CallMethod E ''cfx_getAccumulateInterestRate'' (js_array (rpc_js E) [js_string (rpc_js E) param1])) (result_string E)"

definition Stub_cfx_checkBalanceAgainstTransaction :: "('v, 's) rpc_env \<Rightarrow> string \<Rightarrow> string \<Rightarrow> string \<Rightarrow> string \<Rightarrow> string \<Rightarrow> string \<Rightarrow> ('s, 'v) rpc" where
  "Stub_cfx_checkBalanceAgainstTransaction E param1 param2 param3 param4 param5 param6 =
     rpc_bind (CallMethod E ''cfx_checkBalanceAgainstTransaction'' (js_array (rpc_js E) [js_string (rpc_js E) param1, js_string (rpc_js E) param2, js_string (rpc_js E) param3, js_string (rpc_js E) param4, js_string (rpc_js E) param5, js_string (rpc_js E) param6])) (result_object E)"

definition Stub_cfx_getSkippedBlocksByEpoch :: "('v, 's) rpc_env \<Rightarrow> string \<Rightarrow> ('s, 'v) rpc" where
  "Stub_cfx_getSkippedBlocksByEpoch E param1 =
     rpc_bind (CallMethod E ''cfx_getSkippedBlocksByEpoch'' (js_array (rpc_js E) [js_string (rpc_js E) param1])) (result_array E)"

definition Stub_cfx_getConfirmationRiskByHash :: "('v, 's) rpc_env \<Rightarrow> string \<Rightarrow> ('s, string) rpc" where
  "Stub_cfx_getConfirmationRiskByHash E param1 =
     rpc_bind (CallMethod E ''cfx_getConfirmationRiskByHash'' (js_array (rpc_js E) [js_string (rpc_js E) param1])) (result_string E)"

definition Stub_cfx_getBlockRewardInfo :: "('v, 's) rpc_env \<Rightarrow> string \<Rightarrow> ('s, 'v) rpc" where
  "Stub_cfx_getBlockRewardInfo E param1 =
     rpc_bind (CallMethod E ''cfx_getBlockRewardInfo'' (js_array (rpc_js E) [js_string (rpc_js E) param1])) (result_array E)"

definition Stub_cfx_getBlockByHashWithPivotAssumption :: "('v, 's) rpc_env \<Rightarrow> string \<Rightarrow> string \<Rightarrow> string \<Rightarrow> ('s, 'v) rpc" where
  "Stub_cfx_getBlockByHashWithPivotAssumption E param1 param2 param3 =
     rpc_bind (CallMethod E ''cfx_getBlockByHashWithPivotAssumption'' (js_array (rpc_js E) [js_string (rpc_js E) param1, js_string (rpc_js E) param2, js_string (rpc_js E) param3])) (result_object E)"

definition Stub_cfx_getDepositList :: "('v, 's) rpc_env \<Rightarrow> string \<Rightarrow> string \<Rightarrow> ('s, 'v) rpc" where
  "Stub_cfx_getDepositList E param1 param2 =
     rpc_bind (CallMethod E ''cfx_getDepositList'' (js_array (rpc_js E) [js_string (rpc_js E) param1, js_string (rpc_js E) param2])) (result_array E)"

definition Stub_cfx_getVoteList :: "('v, 's) rpc_env \<Rightarrow> string \<Rightarrow> string \<Rightarrow> ('s, 'v) rpc" where
  "Stub_cfx_getVoteList E param1 param2 =
     rpc_bind (CallMethod E ''cfx_getVoteList'' (js_array (rpc_js E) [js_string (rpc_js E) param1, js_string (rpc_js E) param2])) (result_array E)"

end
