(* ===== verification/Rpc_Client.thy ===== *)
theory Rpc_Client
  imports Rpc_Stub
begin

text \<open>
  \<^verbatim>\<open>libcfxcore/rpc/client.cpp\<close> and \<^verbatim>\<open>libcfxcore/contract.cpp\<close>: the requests of the client, the
  completion, signing and sending of transactions, the deployment of contracts and the wait for a
  receipt.  A method that changes its transaction argument runs in the state of the node together
  with the transaction, so that an exception leaves the members that were already filled.  The two
  loops without a bound are partial functions: \<open>None\<close> is a loop that goes on forever.
\<close>

record JsonRpcClient =
  m_networkID :: u32
  m_remoteSrever :: string

definition JsonRpcClient_new :: "string \<Rightarrow> u32 \<Rightarrow> JsonRpcClient" where
  "JsonRpcClient_new remote_addr i = \<lparr>m_networkID = i, m_remoteSrever = remote_addr\<rparr>"

definition MIN_GAS_PRICE :: u256 where "MIN_GAS_PRICE = 1"
definition TRANSACTION_GAS :: u256 where "TRANSACTION_GAS = 21000"
definition TRANSACTION_STORAGE_LIMIT :: u256 where "TRANSACTION_STORAGE_LIMIT = 0"

section \<open>Requests answered by a number, a hash or a string\<close>

definition rpc_verbose :: "Address \<Rightarrow> ('s, string) rpc" where
  "rpc_verbose a = rpc_lift (map_error RpcAddress (GetVerboseBase32Address a))"

definition rpc_number :: "('v, 's) rpc_env \<Rightarrow> string \<Rightarrow> ('s, u256) rpc" where
  "rpc_number E js = rpc_lift (map_error RpcHex (jsToU256 (rpc_decimal E) js))"

definition cfx_clientVersion :: "('v, 's) rpc_env \<Rightarrow> ('s, string) rpc" where
  "cfx_clientVersion E = Stub_cfx_clientVersion E"

definition cfx_getNextNonce :: "('v, 's) rpc_env \<Rightarrow> Address \<Rightarrow> EpochNumber \<Rightarrow> ('s, u256) rpc" where
  "cfx_getNextNonce E address en =
     rpc_bind (rpc_verbose address) (\<lambda>a. rpc_bind (Stub_cfx_getNextNonce E a en) (rpc_number E))"

definition cfx_epochNumber :: "('v, 's) rpc_env \<Rightarrow> EpochNumber \<Rightarrow> ('s, u256) rpc" where
  "cfx_epochNumber E en = rpc_bind (Stub_cfx_epochNumber E en) (rpc_number E)"

definition cfx_gasPrice :: "('v, 's) rpc_env \<Rightarrow> ('s, u256) rpc" where
  "cfx_gasPrice E = rpc_bind (Stub_cfx_gasPrice E) (rpc_number E)"

definition cfx_sendRawTransaction :: "('v, 's) rpc_env \<Rightarrow> bytes \<Rightarrow> ('s, string) rpc" where
  "cfx_sendRawTransaction E raw = Stub_cfx_sendRawTransaction E (toJS_bytes raw 0)"

definition cfx_getBalance :: "('v, 's) rpc_env \<Rightarrow> Address \<Rightarrow> EpochNumber \<Rightarrow> ('s, u256) rpc" where
  "cfx_getBalance E addr epoch =
     rpc_bind (rpc_verbose addr) (\<lambda>a. rpc_bind (Stub_cfx_getBalance E a epoch) (rpc_number E))"

definition cfx_getBestBlockHash :: "('v, 's) rpc_env \<Rightarrow> ('s, FixedHash) rpc" where
  "cfx_getBestBlockHash E =
     rpc_bind (Stub_cfx_getBestBlockHash E) (\<lambda>js. rpc_lift (map_error RpcHex (jsToFixed (rpc_decimal E) 32 js)))"

definition cfx_getStakingBalance :: "('v, 's) rpc_env \<Rightarrow> Address \<Rightarrow> EpochNumber \<Rightarrow> ('s, u256) rpc" where
  "cfx_getStakingBalance E address en =
     rpc_bind (rpc_verbose address) (\<lambda>a. rpc_bind (Stub_cfx_getStakingBalance E a en) (rpc_number E))"

definition cfx_getCollateralForStorage :: "('v, 's) rpc_env \<Rightarrow> Address \<Rightarrow> EpochNumber \<Rightarrow> ('s, u256) rpc" where
  "cfx_getCollateralForStorage E address en =
     rpc_bind (rpc_verbose address) (\<lambda>a. rpc_bind (Stub_cfx_getCollateralForStorage E a en) (rpc_number E))"

text \<open>The handler catches \<open>JsonRpcException\<close> only.\<close>

definition cfx_getAdmin :: "('v, 's) rpc_env \<Rightarrow> Address \<Rightarrow> EpochNumber \<Rightarrow> ('s, Address option) rpc" where
  "cfx_getAdmin E contract_address en = (\<lambda>s.
     case rpc_bind (rpc_verbose contract_address) (\<lambda>a.
       rpc_bind (Stub_cfx_getAdmin E a en) (\<lambda>js.
         if js \<noteq> [] then
           rpc_lift (bind_res (map_error RpcAddress (Address_ctor (tolower_string js) NetworkTypeTestnetID)) (\<lambda>a. Inr (Some a)))
         else rpc_return None)) s of
       (Inl JsonRpcException, s') \<Rightarrow> (Inr None, s')
     | r \<Rightarrow> r)"

definition cfx_getCode :: "('v, 's) rpc_env \<Rightarrow> Address \<Rightarrow> EpochNumber \<Rightarrow> ('s, bytes) rpc" where
  "cfx_getCode E contract_address en =
     rpc_bind (rpc_verbose contract_address) (\<lambda>a.
     rpc_bind (Stub_cfx_getCode E a en) (\<lambda>js.
       rpc_return (if length js > 2 then DecodeString (drop 2 js) else [])))"

definition cfx_getStorageAt :: "('v, 's) rpc_env \<Rightarrow> Address \<Rightarrow> u256 \<Rightarrow> EpochNumber \<Rightarrow> ('s, u256) rpc" where
  "cfx_getStorageAt E contract_address storage_position en =
     rpc_bind (rpc_verbose contract_address) (\<lambda>a.
     rpc_bind (Stub_cfx_getStorageAt E a (toJS_number storage_position) en) (rpc_number E))"

definition cfx_getInterestRate :: "('v, 's) rpc_env \<Rightarrow> EpochNumber \<Rightarrow> ('s, u256) rpc" where
  "cfx_getInterestRate E en = rpc_bind (Stub_cfx_getInterestRate E en) (rpc_number E)"

definition cfx_getAccumulateInterestRate :: "('v, 's) rpc_env \<Rightarrow> EpochNumber \<Rightarrow> ('s, u256) rpc" where
  "cfx_getAccumulateInterestRate E en = rpc_bind (Stub_cfx_getAccumulateInterestRate E en) (rpc_number E)"

definition cfx_getConfirmationRiskByHash :: "('v, 's) rpc_env \<Rightarrow> string \<Rightarrow> ('s, u256) rpc" where
  "cfx_getConfirmationRiskByHash E block_hash =
     rpc_bind (Stub_cfx_getConfirmationRiskByHash E block_hash) (rpc_number E)"

section \<open>Requests answered by an object\<close>

text \<open>The argument of \<open>assert\<close> in \<open>cfx_getStatus\<close> is a pair of string literals, so it checks nothing.\<close>

definition cfx_getStatus :: "('v, 's) rpc_env \<Rightarrow> ('s, NodeStatus) rpc" where
  "cfx_getStatus E =
     rpc_bind (Stub_cfx_getStatus E) (\<lambda>js.
     rpc_bind (rpc_lift (NodeStatus_fromJson (rpc_js E) (rpc_decimal E) js NodeStatus_new)) (\<lambda>(ok, r).
       rpc_return r))"

definition cfx_getTransactionByHash :: "('v, 's) rpc_env \<Rightarrow> string \<Rightarrow> ('s, TransactionByHashResult) rpc" where
  "cfx_getTransactionByHash E transactionHash =
     rpc_bind (rpc_lift TransactionByHashResult_new) (\<lambda>retValue.
     rpc_bind (Stub_cfx_getTransactionByHash E transactionHash) (\<lambda>js.
     rpc_bind (rpc_lift (TransactionByHashResult_fromJson (rpc_js E) (rpc_decimal E) js retValue)) (\<lambda>(isok, r).
       rpc_lift (if isok then Inr r else Inl AssertionFailed))))"

definition cfx_getTransactionReceipt :: "('v, 's) rpc_env \<Rightarrow> string \<Rightarrow> ('s, TransactionReceipt) rpc" where
  "cfx_getTransactionReceipt E transactionHash =
     rpc_bind (Stub_cfx_getTransactionReceipt E transactionHash) (\<lambda>retvalue.
     rpc_bind (rpc_lift TransactionReceipt_new) (\<lambda>receipt.
     rpc_bind (rpc_lift (Json2Struct (rpc_js E) (rpc_decimal E) retvalue receipt)) (\<lambda>(ok, r).
       rpc_return r)))"

definition block_answer :: "('v, 's) rpc_env \<Rightarrow> 'v \<Rightarrow> ('s, cfx_getBlockByHashResult) rpc" where
  "block_answer E js =
     rpc_bind (rpc_lift cfx_getBlockByHashResult_new) (\<lambda>retValue.
     rpc_bind (rpc_lift (Block_fromJson (rpc_js E) (rpc_decimal E) js retValue)) (\<lambda>(ok, r). rpc_return r))"

definition cfx_getBlockByHash :: "('v, 's) rpc_env \<Rightarrow> string \<Rightarrow> ('s, cfx_getBlockByHashResult) rpc" where
  "cfx_getBlockByHash E block_hash = rpc_bind (Stub_cfx_getBlockByHash E block_hash False) (block_answer E)"

definition cfx_getBlockByEpochNumber :: "('v, 's) rpc_env \<Rightarrow> EpochNumber \<Rightarrow> ('s, cfx_getBlockByHashResult) rpc" where
  "cfx_getBlockByEpochNumber E en = rpc_bind (Stub_cfx_getBlockByEpochNumber E en False) (block_answer E)"

definition cfx_getBlockByHashWithPivotAssumption ::
  "('v, 's) rpc_env \<Rightarrow> string \<Rightarrow> string \<Rightarrow> u256 \<Rightarrow> ('s, cfx_getBlockByHashResult) rpc" where
  "cfx_getBlockByHashWithPivotAssumption E block_hash assumed_pivot_hash integer_epoch_number =
     rpc_bind (Stub_cfx_getBlockByHashWithPivotAssumption E block_hash assumed_pivot_hash (toJS_number integer_epoch_number))
       (block_answer E)"

definition cfx_getStorageRoot :: "('v, 's) rpc_env \<Rightarrow> Address \<Rightarrow> EpochNumber \<Rightarrow> ('s, cfx_getStorageRootResult) rpc" where
  "cfx_getStorageRoot E contract_address en =
     rpc_bind (rpc_verbose contract_address) (\<lambda>a.
     rpc_bind (Stub_cfx_getStorageRoot E a en) (\<lambda>js. rpc_lift (steps
       [set_mem (jsMem2String (rpc_js E) js ''delta'') (\<lambda>v r. r\<lparr>sr_delta := Some v\<rparr>),
        set_mem (jsMem2String (rpc_js E) js ''intermediate'') (\<lambda>v r. r\<lparr>sr_intermediate := Some v\<rparr>),
        set_mem (jsMem2String (rpc_js E) js ''delta'') (\<lambda>v r. r\<lparr>sr_snapshot := Some v\<rparr>)]
       \<lparr>sr_delta = None, sr_intermediate = None, sr_snapshot = None\<rparr>)))"

definition null_sponsor :: "u32 \<Rightarrow> Address \<Rightarrow> rpc_error + Address" where
  "null_sponsor i a =
     (if addressType a = AddressTypeNull then map_error RpcAddress (Address_ctor null_hex i) else Inr a)"

definition cfx_getSponsorInfo ::
  "('v, 's) rpc_env \<Rightarrow> JsonRpcClient \<Rightarrow> Address \<Rightarrow> EpochNumber \<Rightarrow> ('s, cfx_getSponsorInfoResult) rpc" where
  "cfx_getSponsorInfo E c contract_address en =
     rpc_bind (rpc_verbose contract_address) (\<lambda>a.
     rpc_bind (Stub_cfx_getSponsorInfo E a en) (\<lambda>js.
     rpc_bind (rpc_lift (map_error RpcAddress TestnetNullAddress)) (\<lambda>z.
       rpc_lift (steps
       [set_mem (jsMem2U256 (rpc_js E) (rpc_decimal E) js ''sponsorBalanceForCollateral'') (\<lambda>v r. r\<lparr>sp_sponsorBalanceForCollateral := v\<rparr>),
        set_mem (jsMem2U256 (rpc_js E) (rpc_decimal E) js ''sponsorBalanceForGas'') (\<lambda>v r. r\<lparr>sp_sponsorBalanceForGas := v\<rparr>),
        set_mem (jsMem2U256 (rpc_js E) (rpc_decimal E) js ''sponsorGasBound'') (\<lambda>v r. r\<lparr>sp_sponsorGasBound := v\<rparr>),
        set_mem (jsMem2CfxAddress (rpc_js E) js ''sponsorForCollateral'') (\<lambda>v r. r\<lparr>sp_sponsorForCollateral := v\<rparr>),
        set_mem (jsMem2CfxAddress (rpc_js E) js ''sponsorForGas'') (\<lambda>v r. r\<lparr>sp_sponsorForGas := v\<rparr>),
        \<lambda>r. bind_res (null_sponsor (m_networkID c) (sp_sponsorForCollateral r)) (\<lambda>a. Inr (r\<lparr>sp_sponsorForCollateral := a\<rparr>)),
        \<lambda>r. bind_res (null_sponsor (m_networkID c) (sp_sponsorForGas r)) (\<lambda>a. Inr (r\<lparr>sp_sponsorForGas := a\<rparr>))]
       \<lparr>sp_sponsorBalanceForCollateral = 0, sp_sponsorBalanceForGas = 0, sp_sponsorGasBound = 0,
        sp_sponsorForCollateral = z, sp_sponsorForGas = z\<rparr>))))"

definition cfx_getAccount :: "('v, 's) rpc_env \<Rightarrow> Address \<Rightarrow> EpochNumber \<Rightarrow> ('s, cfx_getAccountResult) rpc" where
  "cfx_getAccount E contract_address en =
     rpc_bind (rpc_verbose contract_address) (\<lambda>a.
     rpc_bind (Stub_cfx_getAccount E a en) (\<lambda>js.
     rpc_bind (rpc_lift (map_error RpcAddress TestnetNullAddress)) (\<lambda>z.
       rpc_lift (steps
       [set_mem (jsMem2U256 (rpc_js E) (rpc_decimal E) js ''balance'') (\<lambda>v r. r\<lparr>ac_balance := v\<rparr>),
        set_mem (jsMem2U256 (rpc_js E) (rpc_decimal E) js ''nonce'') (\<lambda>v r. r\<lparr>ac_nonce := v\<rparr>),
        set_mem (jsMem2Hash (rpc_js E) (rpc_decimal E) 32 js ''codeHash'') (\<lambda>v r. r\<lparr>ac_codeHash := v\<rparr>),
        set_mem (jsMem2U256 (rpc_js E) (rpc_decimal E) js ''collateralForStorage'') (\<lambda>v r. r\<lparr>ac_collateralForStorage := v\<rparr>),
        set_mem (jsMem2U256 (rpc_js E) (rpc_decimal E) js ''accumulatedInterestReturn'') (\<lambda>v r. r\<lparr>ac_accumulatedInterestReturn := v\<rparr>),
        set_mem (jsMem2CfxAddress (rpc_js E) js ''admin'') (\<lambda>v r. r\<lparr>ac_admin := v\<rparr>)]
       \<lparr>ac_balance = 0, ac_nonce = 0, ac_codeHash = hash_zero 32, ac_stakingBalance = 0, ac_collateralForStorage = 0,
        ac_accumulatedInterestReturn = 0, ac_admin = z\<rparr>))))"

definition cfx_checkBalanceAgainstTransaction ::
  "('v, 's) rpc_env \<Rightarrow> Address \<Rightarrow> Address \<Rightarrow> u256 \<Rightarrow> u256 \<Rightarrow> u256 \<Rightarrow> EpochNumber \<Rightarrow>
   ('s, cfx_checkBalanceAgainstTransactionResult) rpc" where
  "cfx_checkBalanceAgainstTransaction E account_address contract_address gas_limit gas_price storage_limit en =
     rpc_bind (rpc_verbose account_address) (\<lambda>a1.
     rpc_bind (rpc_verbose contract_address) (\<lambda>a2.
     rpc_bind (Stub_cfx_checkBalanceAgainstTransaction E a1 a2 (toJS_number gas_limit) (toJS_number gas_price)
                 (toJS_number storage_limit) en) (\<lambda>js.
       rpc_lift (steps
       [set_mem (jsMem2Boolean (rpc_js E) js ''isBalanceEnough'') (\<lambda>v r. r\<lparr>cb_isBalanceEnough := Some v\<rparr>),
        set_mem (jsMem2Boolean (rpc_js E) js ''willPayCollateral'') (\<lambda>v r. r\<lparr>cb_willPayCollateral := Some v\<rparr>),
        set_mem (jsMem2Boolean (rpc_js E) js ''willPayTxFee'') (\<lambda>v r. r\<lparr>cb_willPayTxFee := Some v\<rparr>)]
       \<lparr>cb_isBalanceEnough = None, cb_willPayCollateral = None, cb_willPayTxFee = None\<rparr>))))"


section \<open>Requests answered by an array\<close>

definition cfx_getLogs :: "('v, 's) rpc_env \<Rightarrow> LogFilterParam \<Rightarrow> ('s, LocalisedLogEntry list) rpc" where
  "cfx_getLogs E flt =
     rpc_bind (rpc_lift (LogFilterParam_toJS (rpc_js E) (rpc_order E) flt)) (\<lambda>p.
     rpc_bind (Stub_cfx_getLogs E p) (\<lambda>retValue.
       if \<not> js_isArray (rpc_js E) retValue then rpc_return []
       else rpc_bind (rpc_lift (each_index (rpc_js E) (LocalisedLogEntry_fromJson (rpc_js E) (rpc_decimal E)) retValue))
              (\<lambda>entries. rpc_return (List.map_filter (\<lambda>e. e) entries))))"

definition cfx_getBlocksByEpoch :: "('v, 's) rpc_env \<Rightarrow> EpochNumber \<Rightarrow> ('s, FixedHash list) rpc" where
  "cfx_getBlocksByEpoch E en =
     rpc_bind (Stub_cfx_getBlocksByEpoch E en) (\<lambda>js.
       if js_isArray (rpc_js E) js
       then rpc_lift (map_res (item_hash (rpc_js E) (rpc_decimal E)) (js_items (rpc_js E) js))
       else rpc_return [])"

definition cfx_getSkippedBlocksByEpoch :: "('v, 's) rpc_env \<Rightarrow> EpochNumber \<Rightarrow> ('s, FixedHash list) rpc" where
  "cfx_getSkippedBlocksByEpoch E en =
     rpc_bind (Stub_cfx_getSkippedBlocksByEpoch E en) (\<lambda>js.
       if \<not> js_isArray (rpc_js E) js then rpc_return []
       else rpc_lift (map_res (item_hash (rpc_js E) (rpc_decimal E)) (js_items (rpc_js E) js)))"

definition read_reward :: "'v jsoncpp \<Rightarrow> (string \<Rightarrow> nat) \<Rightarrow> 'v \<Rightarrow> rpc_error + cfx_getBlockRewardInfoReslut" where
  "read_reward J D item =
     bind_res (map_error RpcAddress TestnetNullAddress) (\<lambda>z. steps
       [set_mem (jsMem2Hash J D 32 item ''blockHash'') (\<lambda>v r. r\<lparr>rw_blockHash := v\<rparr>),
        set_mem (jsMem2CfxAddress J item ''author'') (\<lambda>v r. r\<lparr>rw_author := v\<rparr>),
        set_mem (jsMem2U256 J D item ''totalReward'') (\<lambda>v r. r\<lparr>rw_totalReward := v\<rparr>),
        set_mem (jsMem2U256 J D item ''baseReward'') (\<lambda>v r. r\<lparr>rw_baseReward := v\<rparr>),
        set_mem (jsMem2U256 J D item ''txFee'') (\<lambda>v r. r\<lparr>rw_txFee := v\<rparr>)]
       \<lparr>rw_blockHash = hash_zero 32, rw_author = z, rw_totalReward = 0, rw_baseReward = 0, rw_txFee = 0\<rparr>)"

definition cfx_getBlockRewardInfo :: "('v, 's) rpc_env \<Rightarrow> EpochNumber \<Rightarrow> ('s, cfx_getBlockRewardInfoReslut list) rpc" where
  "cfx_getBlockRewardInfo E en =
     rpc_bind (Stub_cfx_getBlockRewardInfo E en) (\<lambda>js.
       rpc_lift (map_res (read_reward (rpc_js E) (rpc_decimal E)) (js_items (rpc_js E) js)))"

text \<open>\<open>depositTime\<close> is read as a JSON number.\<close>

definition read_deposit :: "'v jsoncpp \<Rightarrow> (string \<Rightarrow> nat) \<Rightarrow> 'v \<Rightarrow> rpc_error + cfx_getDepositListResult" where
  "read_deposit J D i = steps
     [set_mem (jsMem2U256 J D i ''accumulatedInterestRate'') (\<lambda>v r. r\<lparr>dp_accumulatedInterestRate := v\<rparr>),
      set_mem (jsMem2U256 J D i ''amount'') (\<lambda>v r. r\<lparr>dp_amount := v\<rparr>),
      \<lambda>r. bind_res (js_lift (js_get J i ''depositTime'')) (\<lambda>v.
          bind_res (js_lift (js_asInt64 J v)) (\<lambda>n. Inr (r\<lparr>dp_depositTime := of_int n\<rparr>)))]
     \<lparr>dp_accumulatedInterestRate = 0, dp_amount = 0, dp_depositTime = 0\<rparr>"

definition cfx_getDepositList :: "('v, 's) rpc_env \<Rightarrow> Address \<Rightarrow> EpochNumber \<Rightarrow> ('s, cfx_getDepositListResult list) rpc" where
  "cfx_getDepositList E account_address en =
     rpc_bind (rpc_verbose account_address) (\<lambda>a.
     rpc_bind (Stub_cfx_getDepositList E a en) (\<lambda>js.
       rpc_lift (map_res (read_deposit (rpc_js E) (rpc_decimal E)) (js_items (rpc_js E) js))))"

definition read_vote :: "'v jsoncpp \<Rightarrow> (string \<Rightarrow> nat) \<Rightarrow> 'v \<Rightarrow> rpc_error + cfx_getVoteListResult" where
  "read_vote J D v = steps
     [set_mem (jsMem2U256 J D v ''amount'') (\<lambda>v r. r\<lparr>vt_amount := v\<rparr>),
      set_mem (jsMem2U256 J D v ''unlockBlockNumber'') (\<lambda>v r. r\<lparr>vt_unlockBlockNumber := v\<rparr>)]
     \<lparr>vt_amount = 0, vt_unlockBlockNumber = 0\<rparr>"

definition cfx_getVoteList :: "('v, 's) rpc_env \<Rightarrow> Address \<Rightarrow> EpochNumber \<Rightarrow> ('s, cfx_getVoteListResult list) rpc" where
  "cfx_getVoteList E account_address en =
     rpc_bind (rpc_verbose account_address) (\<lambda>a.
     rpc_bind (Stub_cfx_getVoteList E a en) (\<lambda>js.
       if js_isArray (rpc_js E) js
       then rpc_lift (each_index (rpc_js E) (read_vote (rpc_js E) (rpc_decimal E)) js)
       else rpc_return []))"

section \<open>Calls and estimates\<close>

text \<open>\<open>dev::toJS\<close> of empty data is the empty string, which is sent as \<open>0x\<close>.\<close>

definition js_data :: "bytes \<Rightarrow> string" where
  "js_data d = (let s = toJS_bytes d 0 in if s = [] then ''0x'' else s)"

definition js_field :: "('v, 's) rpc_env \<Rightarrow> string \<Rightarrow> string \<Rightarrow> 'v \<Rightarrow> 'v" where
  "js_field E k s v = js_set (rpc_js E) k (js_string (rpc_js E) s) v"

definition estimate_param :: "('v, 's) rpc_env \<Rightarrow> JsonRpcClient \<Rightarrow> TransactionBase \<Rightarrow> rpc_error + 'v" where
  "estimate_param E c tx =
     (let p = js_null (rpc_js E);
          p = js_field E ''gasPrice'' (toJS_number (m_gasPrice tx)) p;
          p = js_field E ''nonce'' (toJS_number (m_nonce tx)) p;
          p = js_field E ''value'' (toJS_number (m_value tx)) p;
          p = js_field E ''data'' (js_data (m_data tx)) p
      in if isCreation tx then Inr p
         else map_error RpcAddress
           (bind_res (Secret2CfxAddr (rpc_crypto E) (m_secret tx) (m_networkID c)) (\<lambda>fromAddr.
            bind_res (GetVerboseBase32Address fromAddr) (\<lambda>f.
            bind_res (GetVerboseBase32Address (m_cfx_receiveAddress tx)) (\<lambda>t.
              Inr (js_field E ''to'' t (js_field E ''from'' f p)))))))"

definition cfx_estimateGasAndCollateral ::
  "('v, 's) rpc_env \<Rightarrow> JsonRpcClient \<Rightarrow> TransactionBase \<Rightarrow> EpochNumber \<Rightarrow> ('s, EstimateGasAndCollateralResult) rpc" where
  "cfx_estimateGasAndCollateral E c tx en =
     rpc_bind (rpc_lift (estimate_param E c tx)) (\<lambda>param1.
     rpc_bind (Stub_cfx_estimateGasAndCollateral E param1 en) (\<lambda>js.
     rpc_bind (rpc_lift (Estimate_fromJson (rpc_js E) (rpc_decimal E) js EstimateGasAndCollateralResult_new)) (\<lambda>(isok, r).
       rpc_lift (if isok then Inr r else Inl AssertionFailed))))"

definition call_address :: "('v, 's) rpc_env \<Rightarrow> string \<Rightarrow> Address \<Rightarrow> 'v \<Rightarrow> rpc_error + 'v" where
  "call_address E k a p =
     (if IsValid a then bind_res (map_error RpcAddress (GetVerboseBase32Address a)) (\<lambda>s. Inr (js_field E k s p))
      else Inr p)"

definition call_param :: "('v, 's) rpc_env \<Rightarrow> CallRequest \<Rightarrow> rpc_error + 'v" where
  "call_param E r =
     bind_res (call_address E ''from'' (cr_from r) (js_null (rpc_js E))) (\<lambda>p.
     bind_res (call_address E ''to'' (cr_to r) p) (\<lambda>p.
       let p = js_field E ''gas'' (toJS_number (cr_gas r)) p;
           p = js_field E ''gasPrice'' (toJS_number (cr_gasPrice r)) p;
           p = js_field E ''nonce'' (toJS_number (cr_nonce r)) p;
           p = js_field E ''value'' (toJS_number (cr_value r)) p
       in Inr (js_field E ''data'' (js_data (cr_data r)) p)))"

definition cfx_call :: "('v, 's) rpc_env \<Rightarrow> CallRequest \<Rightarrow> ('s, bytes) rpc" where
  "cfx_call E callRequest =
     rpc_bind (rpc_lift (call_param E callRequest)) (\<lambda>param1.
     rpc_bind (Stub_cfx_call E param1 (cr_epochNumber callRequest)) (\<lambda>retValue.
       rpc_return (if length retValue > 2 then DecodeString (drop 2 retValue) else [])))"

section \<open>Completing and sending a transaction\<close>

text \<open>Operations on the node and on the transaction inside the common state.\<close>

definition on_node :: "('s, 'a) rpc \<Rightarrow> ('s \<times> TransactionBase, 'a) rpc" where
  "on_node m = (\<lambda>(s, tx). case m s of (r, s') \<Rightarrow> (r, (s', tx)))"

definition get_tx :: "('s \<times> TransactionBase, TransactionBase) rpc" where
  "get_tx = (\<lambda>(s, tx). (Inr tx, (s, tx)))"

definition upd_tx :: "(TransactionBase \<Rightarrow> TransactionBase) \<Rightarrow> ('s \<times> TransactionBase, unit) rpc" where
  "upd_tx f = (\<lambda>(s, tx). (Inr (), (s, f tx)))"

definition when_tx :: "(TransactionBase \<Rightarrow> bool) \<Rightarrow> ('s \<times> TransactionBase, unit) rpc \<Rightarrow> ('s \<times> TransactionBase, unit) rpc" where
  "when_tx P m = rpc_bind get_tx (\<lambda>tx. if P tx then m else rpc_return ())"

definition fill_nonce :: "('v, 's) rpc_env \<Rightarrow> JsonRpcClient \<Rightarrow> ('s \<times> TransactionBase, unit) rpc" where
  "fill_nonce E c = when_tx (\<lambda>tx. m_nonce tx = Invalid256)
     (rpc_bind get_tx (\<lambda>tx.
      rpc_bind (rpc_lift (map_error RpcAddress (Secret2CfxAddr (rpc_crypto E) (m_secret tx) (m_networkID c)))) (\<lambda>fromAddr.
      rpc_bind (on_node (cfx_getNextNonce E fromAddr LatestState)) (\<lambda>n.
        upd_tx (\<lambda>tx. tx\<lparr>m_nonce := n\<rparr>)))))"

definition fill_chainId :: "('v, 's) rpc_env \<Rightarrow> ('s \<times> TransactionBase, unit) rpc" where
  "fill_chainId E = when_tx (\<lambda>tx. m_chainId tx = Invalid256)
     (rpc_bind (on_node (cfx_getStatus E)) (\<lambda>st.
      rpc_bind (rpc_lift (assigned (ns_chainId st))) (\<lambda>i.
        upd_tx (\<lambda>tx. tx\<lparr>m_chainId := ucast i\<rparr>))))"

definition fill_gasPrice :: "('v, 's) rpc_env \<Rightarrow> ('s \<times> TransactionBase, unit) rpc" where
  "fill_gasPrice E = when_tx (\<lambda>tx. m_gasPrice tx = Invalid256)
     (rpc_bind (on_node (cfx_gasPrice E)) (\<lambda>p.
        upd_tx (\<lambda>tx. tx\<lparr>m_gasPrice := (if p < MIN_GAS_PRICE then MIN_GAS_PRICE else p)\<rparr>)))"

definition fill_epochHeight :: "('v, 's) rpc_env \<Rightarrow> ('s \<times> TransactionBase, unit) rpc" where
  "fill_epochHeight E = when_tx (\<lambda>tx. m_epochHeight tx = Invalid256)
     (rpc_bind (on_node (cfx_epochNumber E LatestState)) (\<lambda>n. upd_tx (\<lambda>tx. tx\<lparr>m_epochHeight := n\<rparr>)))"

definition estimated :: "('v, 's) rpc_env \<Rightarrow> EstimateGasAndCollateralResult \<Rightarrow> TransactionBase \<Rightarrow> TransactionBase" where
  "estimated E estimate tx =
     (let collateral = (if eg_storageCollateralized estimate = 0 then 250 else eg_storageCollateralized estimate);
          gas = rpc_ratio E (eg_gasUsed estimate);
          storageLimit = rpc_ratio E collateral;
          tx = (if m_gas tx = Invalid256 then tx\<lparr>m_gas := gas\<rparr> else tx)
      in if m_storageLimit tx = Invalid256 then tx\<lparr>m_storageLimit := storageLimit\<rparr> else tx)"

definition fill_gas :: "('v, 's) rpc_env \<Rightarrow> JsonRpcClient \<Rightarrow> ('s \<times> TransactionBase, unit) rpc" where
  "fill_gas E c = when_tx (\<lambda>tx. m_gas tx = Invalid256 \<or> m_storageLimit tx = Invalid256)
     (rpc_bind get_tx (\<lambda>tx.
        if m_data tx = [] then
          upd_tx (\<lambda>tx. tx\<lparr>m_gas := TRANSACTION_GAS, m_storageLimit := TRANSACTION_STORAGE_LIMIT\<rparr>)
        else rpc_bind (on_node (cfx_estimateGasAndCollateral E c tx LatestState)) (\<lambda>estimate.
               upd_tx (estimated E estimate))))"

definition ApplyUnsignedTransactionDefault :: "('v, 's) rpc_env \<Rightarrow> JsonRpcClient \<Rightarrow> ('s \<times> TransactionBase, unit) rpc" where
  "ApplyUnsignedTransactionDefault E c =
     rpc_bind (fill_nonce E c) (\<lambda>_.
     rpc_bind (fill_chainId E) (\<lambda>_.
     rpc_bind (fill_gasPrice E) (\<lambda>_.
     rpc_bind (fill_epochHeight E) (\<lambda>_. fill_gas E c))))"

text \<open>\<open>transaction.SignTransaction()\<close> on the transaction in the state.\<close>

definition sign_tx :: "('v, 's) rpc_env \<Rightarrow> ('s \<times> TransactionBase, bytes) rpc" where
  "sign_tx E = (\<lambda>(s, tx). case SignTransaction (rpc_crypto E) tx of
       Inl e \<Rightarrow> (Inl (RpcTx e), (s, tx))
     | Inr (raw, tx') \<Rightarrow> (Inr raw, (s, tx')))"

definition sendTransaction :: "('v, 's) rpc_env \<Rightarrow> JsonRpcClient \<Rightarrow> ('s \<times> TransactionBase, string) rpc" where
  "sendTransaction E c =
     rpc_bind (ApplyUnsignedTransactionDefault E c) (\<lambda>_.
     rpc_bind (sign_tx E) (\<lambda>raw. on_node (cfx_sendRawTransaction E raw)))"

text \<open>Runs an operation on a local transaction, which is gone afterwards.\<close>

definition with_tx :: "tx_error + TransactionBase \<Rightarrow> ('s \<times> TransactionBase, 'a) rpc \<Rightarrow> ('s, 'a) rpc" where
  "with_tx t m = (\<lambda>s. case t of Inl e \<Rightarrow> (Inl (RpcTx e), s)
     | Inr tx \<Rightarrow> (case m (s, tx) of (r, (s', _)) \<Rightarrow> (r, s')))"

definition sendTransaction_to :: "('v, 's) rpc_env \<Rightarrow> JsonRpcClient \<Rightarrow> Address \<Rightarrow> u256 \<Rightarrow> FixedHash \<Rightarrow> ('s, string) rpc" where
  "sendTransaction_to E c dest v secret = with_tx (TransactionBase_call dest v secret) (sendTransaction E c)"

section \<open>Deploying a contract\<close>

record Contract =
  ct_client :: JsonRpcClient
  ct_address :: Address

record ContractDeployResult =
  dr_status :: TransactionStatus
  dr_transactionHash :: FixedHash
  dr_contractCreatedAddr :: Address
  dr_deployedContract :: "Contract option"

partial_function (option) poll_packed ::
  "('v, 's) rpc_env \<Rightarrow> string \<Rightarrow> 's \<Rightarrow> ((rpc_error + TransactionByHashResult) \<times> 's) option" where
  "poll_packed E transHash s =
     (case cfx_getTransactionByHash E transHash s of
        (Inl e, s') \<Rightarrow> Some (Inl e, s')
      | (Inr res, s') \<Rightarrow>
          (case tb_status res of
             None \<Rightarrow> Some (Inl Unassigned, s')
           | Some st \<Rightarrow>
               if st = SkippedOrNotPacked then poll_packed E transHash (rpc_sleep E 1000 s')
               else Some (Inr res, s')))"

definition deploy_result :: "JsonRpcClient \<Rightarrow> TransactionByHashResult \<Rightarrow> rpc_error + ContractDeployResult" where
  "deploy_result c res =
     bind_res (assigned (tb_status res)) (\<lambda>st.
     bind_res (IsOK res) (\<lambda>ok.
       if ok then Inr \<lparr>dr_status = st, dr_transactionHash = tb_hash res, dr_contractCreatedAddr = tb_contractCreated res,
                       dr_deployedContract = Some \<lparr>ct_client = c, ct_address = tb_contractCreated res\<rparr>\<rparr>
       else bind_res (map_error RpcAddress InvaildAddress) (\<lambda>a. Inr
              \<lparr>dr_status = st, dr_transactionHash = hash_zero 32, dr_contractCreatedAddr = a,
               dr_deployedContract = None\<rparr>)))"

definition DeployContract ::
  "('v, 's) rpc_env \<Rightarrow> JsonRpcClient \<Rightarrow> 's \<times> TransactionBase \<Rightarrow>
   ((rpc_error + ContractDeployResult) \<times> ('s \<times> TransactionBase)) option" where
  "DeployContract E c st =
     (case sendTransaction E c st of
        (Inl e, st') \<Rightarrow> Some (Inl e, st')
      | (Inr transHash, (s, tx)) \<Rightarrow>
          map_option (\<lambda>(r, s'). (bind_res r (deploy_result c), (s', tx))) (poll_packed E transHash s))"

definition DeployContract_bytes ::
  "('v, 's) rpc_env \<Rightarrow> JsonRpcClient \<Rightarrow> bytes \<Rightarrow> bytes \<Rightarrow> FixedHash \<Rightarrow> 's \<Rightarrow>
   ((rpc_error + ContractDeployResult) \<times> 's) option" where
  "DeployContract_bytes E c contractBytes constructor_abi secret s =
     (let payload = (if length constructor_abi > 0 then contractBytes @ constructor_abi else contractBytes) in
      case TransactionBase_create payload secret of
        Inl e \<Rightarrow> Some (Inl (RpcTx e), s)
      | Inr tx \<Rightarrow> map_option (\<lambda>(r, (s', _)). (r, s')) (DeployContract E c (s, tx)))"

section \<open>Waiting for a receipt\<close>

text \<open>The clock counts nanoseconds; the cast to milliseconds rounds towards zero.\<close>

definition elapsed_ms :: "('v, 's) rpc_env \<Rightarrow> int \<Rightarrow> 's \<Rightarrow> int" where
  "elapsed_ms E begintime s =
     (let d = rpc_clock E s - begintime in if d \<ge> 0 then d div 1000000 else - (- d div 1000000))"

text \<open>What \<open>catch (const std::exception&)\<close> takes: the other ends are not exceptions.\<close>

fun std_exception :: "rpc_error \<Rightarrow> bool" where
  "std_exception JsonRpcException = True"
| "std_exception JsonLogicError = True"
| "std_exception (RpcHex _) = True"
| "std_exception (RpcAddress (StoiError _)) = True"
| "std_exception (RpcRlp _) = True"
| "std_exception _ = False"

partial_function (option) wait_loop ::
  "('v, 's) rpc_env \<Rightarrow> string \<Rightarrow> u32 \<Rightarrow> int \<Rightarrow> 's \<Rightarrow> ((rpc_error + bool) \<times> 's) option" where
  "wait_loop E transHash max_wait_ms begintime s =
     (case cfx_getTransactionReceipt E transHash s of
        (Inl e, s') \<Rightarrow>
          if std_exception e then
            (if elapsed_ms E begintime s' > uint max_wait_ms then Some (Inr False, s')
             else wait_loop E transHash max_wait_ms begintime s')
          else Some (Inl e, s')
      | (Inr res, s') \<Rightarrow>
          (case tr_outcomeStatus res of
             None \<Rightarrow> Some (Inl Unassigned, s')
           | Some status \<Rightarrow>
               if status \<noteq> 0 then
                 (let s'' = rpc_sleep E 1000 s' in
                  if elapsed_ms E begintime s'' > uint max_wait_ms then Some (Inr False, s'')
                  else wait_loop E transHash max_wait_ms begintime s'')
               else Some (Inr True, s')))"

definition WaitTransactionFinished :: "('v, 's) rpc_env \<Rightarrow> string \<Rightarrow> u32 \<Rightarrow> 's \<Rightarrow> ((rpc_error + bool) \<times> 's) option" where
  "WaitTransactionFinished E transHash max_wait_ms s = wait_loop E transHash max_wait_ms (rpc_clock E s) s"

definition WaitTransactionFinished_hash :: "('v, 's) rpc_env \<Rightarrow> FixedHash \<Rightarrow> u32 \<Rightarrow> 's \<Rightarrow> ((rpc_error + bool) \<times> 's) option" where
  "WaitTransactionFinished_hash E transHash max_wait_ms s = WaitTransactionFinished E (toJS_hash transHash) max_wait_ms s"

section \<open>Contracts\<close>

definition Contract_new :: "JsonRpcClient \<Rightarrow> Address \<Rightarrow> Contract" where
  "Contract_new c a = \<lparr>ct_client = c, ct_address = a\<rparr>"

definition Contract_Call :: "('v, 's) rpc_env \<Rightarrow> Contract \<Rightarrow> bytes \<Rightarrow> ('s, bytes) rpc" where
  "Contract_Call E ct args =
     rpc_bind (rpc_lift CallRequest_new) (\<lambda>callRequest.
       cfx_call E (callRequest\<lparr>cr_to := ct_address ct, cr_data := args\<rparr>))"

text \<open>
  \<open>Call(Function&)\<close> returns the bytes and the function with its decoded results; \<open>fuel\<close> bounds the
  nesting of the results.
\<close>

definition Contract_Call_function ::
  "('v, 's) rpc_env \<Rightarrow> nat \<Rightarrow> Contract \<Rightarrow> abi_function \<Rightarrow> ('s, bytes \<times> abi_function) rpc" where
  "Contract_Call_function E fuel ct func =
     rpc_bind (rpc_lift (map_error RpcAbi (Function_encode (keccak256 (rpc_crypto E)) (rpc_boost E) func []))) (\<lambda>param.
     rpc_bind (Contract_Call E ct param) (\<lambda>retBytes.
     rpc_bind (rpc_lift (map_error RpcAbi (decodeOutput (rpc_boost E) fuel func retBytes 0))) (\<lambda>(ok, func', off).
       rpc_return (retBytes, func'))))"

definition Contract_SendTransaction :: "('v, 's) rpc_env \<Rightarrow> Contract \<Rightarrow> bytes \<Rightarrow> FixedHash \<Rightarrow> u256 \<Rightarrow> ('s, string) rpc" where
  "Contract_SendTransaction E ct args secret v =
     with_tx (bind_res (TransactionBase_call (ct_address ct) v secret) (\<lambda>tx. Inr (withData args tx)))
       (sendTransaction E (ct_client ct))"

definition Contract_SendTransaction_function ::
  "('v, 's) rpc_env \<Rightarrow> Contract \<Rightarrow> abi_function \<Rightarrow> FixedHash \<Rightarrow> u256 \<Rightarrow> ('s, string) rpc" where
  "Contract_SendTransaction_function E ct func secret v =
     rpc_bind (rpc_lift (map_error RpcAbi (Function_encode (keccak256 (rpc_crypto E)) (rpc_boost E) func []))) (\<lambda>param.
       Contract_SendTransaction E ct param secret v)"

end
