(* ===== verification/Rpc_Theorems.thy ===== *)
theory Rpc_Theorems
  imports Rpc_Client Abi_Theorems
begin

text \<open>
  What the RPC layer does with the answers of a node: addresses, numbers and hashes written by
  \<open>GetVerboseBase32Address\<close> and \<open>toJS\<close> are read back from an answer, receipts are read
  member by member.
\<close>

section \<open>Addresses in answers\<close>

text \<open>The addresses that the constructor builds from twenty bytes with a known type.\<close>

definition plain_address :: "Address \<Rightarrow> bool" where
  "plain_address a \<longleftrightarrow>
     length (hex a) = 20 \<and> symbols (body a) \<and> length (body a) = 34 \<and>
     ToHexAddress (body a) = Inr (VersionByte_of 0, hex a) \<and>
     CalcChecksum (networkType a) (body a) = Inr (checksum a) \<and> symbols (checksum a) \<and> length (checksum a) = 8 \<and>
     CalcAddressType (hex a) = Inr (addressType a) \<and> IsValid a \<and>
     (case networkID a of None \<Rightarrow> False | Some i \<Rightarrow> unat i < 2 ^ 31 \<and> networkType a = NetworkType_of_id i)"

lemma plain_address_ctor:
  assumes "length h = 20" "unat i < 2 ^ 31" "CalcAddressType h \<noteq> Inr AddressTypeInvalid"
  shows "\<exists>a. Address_ctor (''0x'' @ toHex h) i = Inr a \<and> plain_address a \<and> hex a = h \<and> networkID a = Some i"
proof -
  obtain b c t where new: "NewFromBytes h i (Address_init i) = Inr (1, address_of h i b c t)"
    and b: "symbols b" "length b = 34" "ToHexAddress b = Inr (VersionByte_of 0, h)"
    and c: "CalcChecksum (NetworkType_of_id i) b = Inr c" "symbols c" "length c = 8"
    and t: "CalcAddressType h = Inr t"
    using NewFromBytes_20 [OF assms(1,2)] by blast
  have "IsValid (address_of h i b c t)"
    using assms(3) t by (auto simp: CalcAddressType_def Let_def IsValid_def address_of_def split: if_splits)
  then show ?thesis
    using new b c t assms(1,2) unfolding Address_ctor_hex [OF assms(1)]
    by (simp add: plain_address_def address_of_def)
qed

lemma plain_network:
  assumes "plain_address a"
  obtains i where "unat i < 2 ^ 31" "networkType a = NetworkType_of_id i" "networkID a = Some i"
  using assms that by (auto simp: plain_address_def split: option.splits)

lemma valid_types:
  assumes "IsValid a"
  shows "AddressType_String (addressType a) @ '':'' \<in> set [''type.user:'', ''type.builtin:'', ''type.contract:'', ''type.null:'']"
    "tolower_string (AddressType_String (addressType a)) = AddressType_String (addressType a)"
    "CHR '':'' \<notin> set (AddressType_String (addressType a))" "length (AddressType_String (addressType a)) \<le> 13"
proof -
  have t: "addressType a \<in> {''null'', ''builtin'', ''user'', ''contract''}"
    using assms by (auto simp: IsValid_def address_type_strings)
  have l: "tolower_string ''type.null'' = ''type.null''" "tolower_string ''type.builtin'' = ''type.builtin''"
    "tolower_string ''type.user'' = ''type.user''" "tolower_string ''type.contract'' = ''type.contract''"
    by code_simp+
  show "AddressType_String (addressType a) @ '':'' \<in> set [''type.user:'', ''type.builtin:'', ''type.contract:'', ''type.null:'']"
    "tolower_string (AddressType_String (addressType a)) = AddressType_String (addressType a)"
    "CHR '':'' \<notin> set (AddressType_String (addressType a))" "length (AddressType_String (addressType a)) \<le> 13"
    using t l by (auto simp: AddressType_String_def)
qed

lemma verbose_text: "plain_address a \<Longrightarrow> GetVerboseBase32Address a = Inr (verbose a)"
proof -
  assume p: "plain_address a"
  then have b: "symbols (body a)" "symbols (checksum a)" "length (body a) = 34" "length (checksum a) = 8" "IsValid a"
    by (simp_all add: plain_address_def)
  obtain i where i: "unat i < 2 ^ 31" "networkType a = NetworkType_of_id i" using p by (rule plain_network)
  show ?thesis
    using b symbol_string_facts(5) [OF b(1)] symbol_string_facts(5) [OF b(2)] network_facts(5) [OF i(1)] i(2)
      valid_types(4) [OF b(5)]
    by (simp add: GetVerboseBase32Address_def bits5sToString_symbols sprintf128_def verbose_def)
qed

lemma verbose_parts:
  assumes p: "plain_address a"
  shows "tolower_string (verbose a) = verbose a" "match_base32 (verbose a)" "\<not> match_hex (verbose a)"
    "split_string (verbose a) (CHR '':'') =
       [networkType a, AddressType_String (addressType a), symbol_string (body a) @ symbol_string (checksum a)]"
proof -
  let ?t = "AddressType_String (addressType a)" and ?w = "symbol_string (body a) @ symbol_string (checksum a)"
  have b: "symbols (body a)" "symbols (checksum a)" "length (body a) = 34" "length (checksum a) = 8" "IsValid a"
    using p by (simp_all add: plain_address_def)
  obtain i where i: "unat i < 2 ^ 31" "networkType a = NetworkType_of_id i" using p by (rule plain_network)
  note nt = network_facts [OF i(1), folded i(2)] and t = valid_types [OF b(5)]
  note sb = symbol_string_facts [OF b(1)] and sc = symbol_string_facts [OF b(2)]
  show "tolower_string (verbose a) = verbose a"
    unfolding verbose_def tolower_append tolower_colon nt t sb sc ..
  have "match_tail (?t @ '':'') (?t @ '':'' @ ?w)"
    using b sb sc by (simp add: match_tail_def)
  then show "match_base32 (verbose a)"
    using t(1) takeWhile_colon [OF nt(4), of "?t @ '':'' @ ?w"] nt(3)
    by (auto simp: verbose_def match_base32_def Let_def)
  show "\<not> match_hex (verbose a)" by (rule match_hex_no_colon) (simp add: verbose_def)
  show "split_string (verbose a) (CHR '':'') = [networkType a, ?t, ?w]"
    using split_spec_sep [OF nt(4), of "?t @ '':'' @ ?w"] split_spec_sep [OF t(3), of ?w] sb sc
    by (simp add: verbose_def split_string_eq split_spec_no_sep)
qed

lemma NewFromBase32_verbose:
  assumes p: "plain_address a"
  shows "NewFromBase32 (verbose a) (Address_init j) = Inr (1, a)"
proof -
  have b: "symbols (body a)" "symbols (checksum a)" "length (body a) = 34" "length (checksum a) = 8" "IsValid a"
      "ToHexAddress (body a) = Inr (VersionByte_of 0, hex a)"
      "CalcChecksum (networkType a) (body a) = Inr (checksum a)" "CalcAddressType (hex a) = Inr (addressType a)"
    using p by (simp_all add: plain_address_def)
  obtain i where i: "unat i < 2 ^ 31" "networkType a = NetworkType_of_id i" "networkID a = Some i"
    using p by (rule plain_network)
  note nt = network_facts [OF i(1), folded i(2)] and t = valid_types [OF b(5)]
  note sb = symbol_string_facts [OF b(1)] and sc = symbol_string_facts [OF b(2)] and v = verbose_parts [OF p]
  have setc: "setCache (Address_init j\<lparr>networkType := networkType a, body := body a, addressType := addressType a,
      checksum := checksum a\<rparr>) = Inr a"
    using b(6) nt(1) i(3) by (simp add: setCache_def Address_init_def)
  show ?thesis
    unfolding NewFromBase32_def v Let_def using b t sb sc setc by (simp add: bits5sToString_symbols)
qed

lemma read_verbose:
  assumes p: "plain_address a"
  shows "Address_ctor (tolower_string (verbose a)) j = Inr a"
proof -
  obtain i where i: "unat i < 2 ^ 31" "networkType a = NetworkType_of_id i" using p by (rule plain_network)
  have "ToNetworkID (networkType a) = Inr i" using network_facts(1) [OF i(1)] i(2) by simp
  moreover have "\<not> starts_with (verbose a) ''0x''"
    using i(2) by (auto simp: starts_with_def verbose_def NetworkType_of_id_def NetworkTypeMainnetPrefix_def
        NetworkTypeTestNetPrefix_def)
  ultimately show ?thesis
    unfolding Address_ctor_def Address_New_def verbose_parts [OF p] Let_def
    using verbose_parts [OF p] NewFromBase32_verbose [OF p, of j] by (simp add: NewFromHex_def)
qed

section \<open>Reading members\<close>

text \<open>An answer as the list of its members.\<close>

definition js_object :: "'v jsoncpp \<Rightarrow> (string \<times> 'v) list \<Rightarrow> 'v" where
  "js_object J kvs = foldl (\<lambda>x (k, v). js_set J k v x) (js_null J) kvs"

definition opt_all :: "('a \<Rightarrow> bool) \<Rightarrow> 'a option \<Rightarrow> bool" where
  "opt_all P m = (case m of None \<Rightarrow> True | Some x \<Rightarrow> P x)"

lemma opt_all_simps [simp]: "opt_all P None" "opt_all P (Some x) = P x"
  by (simp_all add: opt_all_def)

lemma js_lift_Some [simp]: "js_lift (Some x) = Inr x"
  by (simp add: js_lift_def)

lemma map_res_all: "(\<And>x. x \<in> set xs \<Longrightarrow> f (g x) = Inr x) \<Longrightarrow> map_res f (map g xs) = Inr xs"
  by (induction xs) simp_all

lemma js_hash: "length h = N \<Longrightarrow> jsToFixed D N (toJS_hash h) = Inr h"
  by (simp add: jsToFixed_def toJS_hash_def toHexPrefixed_eq hash_of_string_def fromHex_hex_pairs hash_of_bytes_def)

lemma js_number: "jsToU256 D (toJS_number u) = Inr u"
proof -
  have "take 2 (toJS_number u) = ''0x''" by (simp add: toJS_number_def Let_def)
  then show ?thesis by (simp add: jsToU256_def jsToInt_word_def fromHex_toJS fromBigEndian_toCompact)
qed

lemma js_small: "unat n < 2 ^ 31 \<Longrightarrow> (of_int (jsToInt (toJS_uint64 n)) :: u64) = n"
  unfolding jsToInt_def toJS_uint64_def stoi_base0_hex by simp

lemma map_of_snoc: "k' \<notin> fst ` set ys \<Longrightarrow> map_of (ys @ [(k', v)]) k = (if k = k' then Some v else map_of ys k)"
  by (induction ys) auto

context jsoncpp_laws
begin

lemma array_items: "js_items J (js_array J vs) = vs \<and> (vs \<noteq> [] \<longrightarrow> js_isArray J (js_array J vs))"
proof (induction vs rule: rev_induct)
  case Nil
  then show ?case by (simp add: js_array_def null_empty)
next
  case (snoc v vs)
  let ?a = "js_array J vs"
  have a: "?a = js_null J \<or> js_isArray J ?a" using snoc by (cases "vs = []") (simp_all add: js_array_def)
  have "js_array J (vs @ [v]) = js_append J ?a v" by (simp add: js_array_def)
  then show ?case using a append_kind items_append snoc by simp
qed

lemma object_kinds: "js_object J kvs = js_null J \<or> js_isObject J (js_object J kvs)"
  by (induction kvs rule: rev_induct) (auto simp: js_object_def set_kind)

lemma object_is: "kvs \<noteq> [] \<Longrightarrow> js_isObject J (js_object J kvs)"
proof (cases kvs rule: rev_cases)
  case (snoc ys y)
  then show ?thesis using object_kinds [of ys] set_kind by (cases y) (simp add: js_object_def)
qed simp

lemma object_member:
  "distinct (map fst kvs) \<Longrightarrow> js_isMember J (js_object J kvs) k = Some (map_of kvs k \<noteq> None)"
proof (induction kvs rule: rev_induct)
  case (snoc y ys)
  obtain k' v where y: "y = (k', v)" by (cases y)
  have "js_object J (ys @ [y]) = js_set J k' v (js_object J ys)" by (simp add: js_object_def y)
  moreover have "map_of (ys @ [y]) k = (if k = k' then Some v else map_of ys k)"
    unfolding y by (rule map_of_snoc) (use snoc.prems y in simp)
  ultimately show ?case using snoc isMember_set [OF object_kinds] by simp
qed (simp add: js_object_def null_empty)

lemma object_get:
  "distinct (map fst kvs) \<Longrightarrow> map_of kvs k = Some v \<Longrightarrow> js_get J (js_object J kvs) k = Some v"
proof (induction kvs rule: rev_induct)
  case (snoc y ys)
  obtain k' w where y: "y = (k', w)" by (cases y)
  have "js_object J (ys @ [y]) = js_set J k' w (js_object J ys)" by (simp add: js_object_def y)
  moreover have "map_of (ys @ [y]) k = (if k = k' then Some w else map_of ys k)"
    unfolding y by (rule map_of_snoc) (use snoc.prems y in simp)
  ultimately show ?case
    using snoc get_set [OF object_kinds, of k' w ys k] by (simp split: if_splits)
qed simp


lemma has_string:
  "distinct (map fst kvs) \<Longrightarrow>
   jsHasStringValue J (js_object J kvs) k = Inr (case map_of kvs k of None \<Rightarrow> False | Some v \<Rightarrow> js_isString J v)"
  by (cases "map_of kvs k") (simp_all add: jsHasStringValue_def object_member object_get)

lemma member_string:
  "distinct (map fst kvs) \<Longrightarrow> map_of kvs k = Some (js_string J s) \<Longrightarrow> mem_string J (js_object J kvs) k = Inr s"
  by (simp add: mem_string_def object_get string_kind)

lemmas mem_simps = has_string member_string string_kind null_kind

lemma mem_hash:
  assumes "distinct (map fst kvs)" "map_of kvs k = Some (js_string J (toJS_hash h))" "length h = N"
  shows "jsMem2Hash J D N (js_object J kvs) k = Inr (Some h)"
  using assms by (simp add: jsMem2Hash_def mem_simps js_hash)

lemma mem_u256:
  assumes "distinct (map fst kvs)" "map_of kvs k = Some (js_string J (toJS_number u))"
  shows "jsMem2U256 J D (js_object J kvs) k = Inr (Some u)"
  using assms by (simp add: jsMem2U256_def mem_simps js_number)

lemma mem_u64:
  assumes "distinct (map fst kvs)" "map_of kvs k = Some (case m of None \<Rightarrow> js_null J | Some n \<Rightarrow> js_string J (toJS_uint64 n))"
    and "opt_all (\<lambda>n. unat n < 2 ^ 31) m"
  shows "jsMem2Uint64 J (js_object J kvs) k = Inr m"
  using assms js_small by (cases m) (simp_all add: jsMem2Uint64_def mem_simps)

lemma mem_address:
  assumes "distinct (map fst kvs)" "map_of kvs k = Some (js_string J (verbose a))" "plain_address a"
  shows "jsMem2CfxAddress J (js_object J kvs) k = Inr (Some a)"
  using assms by (simp add: jsMem2CfxAddress_def mem_simps read_verbose)

lemma mem_opt_address:
  assumes "distinct (map fst kvs)" "map_of kvs k = Some (case m of None \<Rightarrow> js_null J | Some a \<Rightarrow> js_string J (verbose a))"
    and "opt_all plain_address m"
  shows "jsMem2CfxAddress J (js_object J kvs) k = Inr m"
  using assms by (cases m) (simp_all add: jsMem2CfxAddress_def mem_simps read_verbose)

lemma mem_opt_text:
  assumes "distinct (map fst kvs)" "map_of kvs k = Some (case m of None \<Rightarrow> js_null J | Some t \<Rightarrow> js_string J t)"
  shows "jsMem2String J (js_object J kvs) k = Inr m"
  using assms by (cases m) (simp_all add: jsMem2String_def mem_simps)

lemma mem_opt_bool:
  assumes "distinct (map fst kvs)" "map_of kvs k = Some (case m of None \<Rightarrow> js_null J | Some b \<Rightarrow> js_bool J b)"
  shows "jsMem2Boolean J (js_object J kvs) k = Inr m"
  using assms
  by (cases m) (simp_all add: jsMem2Boolean_def jsHasBooleanValue_def object_member object_get bool_kind null_kind)

lemma mem_array:
  assumes "distinct (map fst kvs)" "map_of kvs k = Some (js_array J vs)"
  shows "array_member J (js_object J kvs) k = Inr (if vs = [] then None else Some (js_array J vs))"
  using assms array_items [of vs]
  by (auto simp: array_member_def object_member object_get js_array_def null_kind)

lemma each_array: "vs \<noteq> [] \<Longrightarrow> each_index J f (js_array J vs) = map_res f vs"
proof -
  assume "vs \<noteq> []"
  then have a: "js_isArray J (js_array J vs)" "js_items J (js_array J vs) = vs" using array_items [of vs] by simp_all
  then have n: "js_size J (js_array J vs) = length vs" by (simp add: size_items)
  have m: "map_res (\<lambda>i. f (vs ! i)) is = map_res f (map (\<lambda>i. vs ! i) is)" for "is"
    by (induction "is") simp_all
  have "map_res (\<lambda>i. bind_res (js_lift (js_at J (js_array J vs) i)) f) is = map_res (\<lambda>i. f (vs ! i)) is"
    if "\<forall>i \<in> set is. i < length vs" for "is"
    using that by (induction "is") (simp_all add: at_items a n)
  then show ?thesis using m [of "[0..<length vs]"] by (simp add: each_index_def n map_nth)
qed

lemma item_hash_js: "length t = 32 \<Longrightarrow> item_hash J D (js_string J (toJS_hash t)) = Inr t"
  by (simp add: item_hash_def string_kind js_hash)

end

section \<open>Receipts\<close>

text \<open>The answer of a node that holds a receipt: what \<open>Json2Struct\<close> has to undo.\<close>

definition js_opt :: "'v jsoncpp \<Rightarrow> ('a \<Rightarrow> 'v) \<Rightarrow> 'a option \<Rightarrow> 'v" where
  "js_opt J f m = (case m of None \<Rightarrow> js_null J | Some x \<Rightarrow> f x)"

definition change_js :: "'v jsoncpp \<Rightarrow> StorageChange \<Rightarrow> 'v" where
  "change_js J c = js_object J
     [(''address'', js_string J (verbose (sc_address c))),
      (''collaterals'', js_string J (toJS_number (sc_collaterals c)))]"

definition log_js :: "'v jsoncpp \<Rightarrow> LogEntry \<Rightarrow> 'v" where
  "log_js J l = js_object J
     [(''address'', js_string J (verbose (le_cfx_address l))),
      (''topics'', js_array J (map (\<lambda>t. js_string J (toJS_hash t)) (le_topics l))),
      (''data'', js_string J (js_data (le_data l)))]"

definition log_ok :: "LogEntry \<Rightarrow> bool" where
  "log_ok l \<longleftrightarrow> plain_address (le_cfx_address l) \<and> le_address l = hex (le_cfx_address l) \<and>
     (\<forall>t \<in> set (le_topics l). length t = 32) \<and> length (le_data l) < 2 ^ 32"

lemma js_data_decode:
  assumes "length d < 2 ^ 32"
  shows "(if length (js_data d) > 2 then DecodeString (drop 2 (js_data d)) else []) = d"
proof (cases "d = []")
  case False
  then have "unat (of_nat (length d) :: u32) = length d" using assms by (simp add: unat_of_nat)
  then have "js_data d = ''0x'' @ hex_pairs d" using False by (simp add: js_data_def toJS_bytes_def toHexPrefixed_eq Let_def)
  moreover have "0 < length (hex_pairs d)" using False by simp
  ultimately show ?thesis by (simp add: DecodeString_hex_pairs)
qed (simp add: js_data_def toJS_bytes_def)

lemma null_address: "\<exists>a. TestnetNullAddress = Inr a \<and> plain_address a"
proof -
  have z: "DecodeString ''0000000000000000000000000000000000000000'' = replicate 20 0" by code_simp
  have "null_hex = ''0x'' @ toHex (replicate 20 0)" by code_simp
  moreover have "CalcAddressType (replicate 20 0) \<noteq> Inr AddressTypeInvalid"
    by (simp add: CalcAddressType_def z address_type_strings)
  ultimately show ?thesis
    using plain_address_ctor [of "replicate 20 0" NetworkTypeTestnetID]
    by (auto simp: TestnetNullAddress_def NetworkTypeTestnetID_def)
qed

lemma toEth_plain: "plain_address a \<Longrightarrow> toEthCommonAddr a = Inr (hex a)"
  by (simp add: plain_address_def toEthCommonAddr_def)

context jsoncpp_laws
begin

lemma read_change_js: "plain_address (sc_address c) \<Longrightarrow> read_change J D (change_js J c) = Inr c"
proof -
  assume p: "plain_address (sc_address c)"
  obtain z where z: "TestnetNullAddress = Inr z" using null_address by blast
  define kvs where "kvs = [(''address'', js_string J (verbose (sc_address c))),
      (''collaterals'', js_string J (toJS_number (sc_collaterals c)))]"
  have d: "distinct (map fst kvs)" by (simp add: kvs_def)
  have "jsMem2CfxAddress J (js_object J kvs) ''address'' = Inr (Some (sc_address c))"
    by (rule mem_address [OF d]) (use p in \<open>simp_all add: kvs_def\<close>)
  moreover have "jsMem2U256 J D (js_object J kvs) ''collaterals'' = Inr (Some (sc_collaterals c))"
    by (rule mem_u256 [OF d]) (simp add: kvs_def)
  ultimately show ?thesis
    unfolding read_change_def change_js_def kvs_def [symmetric] by (simp add: z set_mem_def)
qed

lemma read_log_js: "log_ok l \<Longrightarrow> read_log J D (log_js J l) = Inr l"
proof -
  assume ok: "log_ok l"
  then have p: "plain_address (le_cfx_address l)" and t: "\<forall>t \<in> set (le_topics l). length t = 32"
    and n: "length (le_data l) < 2 ^ 32" and e: "le_address l = hex (le_cfx_address l)" by (simp_all add: log_ok_def)
  obtain z where z: "TestnetNullAddress = Inr z" using null_address by blast
  let ?ts = "map (\<lambda>t. js_string J (toJS_hash t)) (le_topics l)"
  define kvs where "kvs = [(''address'', js_string J (verbose (le_cfx_address l))), (''topics'', js_array J ?ts),
      (''data'', js_string J (js_data (le_data l)))]"
  have d: "distinct (map fst kvs)" by (simp add: kvs_def)
  have a: "jsMem2CfxAddress J (js_object J kvs) ''address'' = Inr (Some (le_cfx_address l))"
    by (rule mem_address [OF d]) (use p in \<open>simp_all add: kvs_def\<close>)
  have "map_of kvs ''data'' = Some (js_string J (js_data (le_data l)))" by (simp add: kvs_def)
  then have b: "jsMem2Bytes J (js_object J kvs) ''data'' [] = Inr (Some (le_data l))"
    using d js_data_decode [OF n] by (simp add: jsMem2Bytes_def mem_simps)
  have c: "array_member J (js_object J kvs) ''topics'' = Inr (if ?ts = [] then None else Some (js_array J ?ts))"
    by (rule mem_array [OF d]) (simp add: kvs_def)
  have i: "js_items J (js_array J ?ts) = ?ts" using array_items by simp
  have m: "map_res (item_hash J D) ?ts = Inr (le_topics l)"
    by (rule map_res_all) (use t item_hash_js in simp)
  have "(case (if ?ts = [] then None else Some (js_array J ?ts)) of None \<Rightarrow> Inr []
      | Some a \<Rightarrow> map_res (item_hash J D) (js_items J a)) = Inr (le_topics l)"
    using i m by (cases "le_topics l = []") simp_all
  then show ?thesis
    unfolding read_log_def log_js_def kvs_def [symmetric]
    using e by (simp add: z a b c set_mem_def LogEntry_of_def toEth_plain [OF p])
qed

end


definition receipt_members :: "'v jsoncpp \<Rightarrow> TransactionReceipt \<Rightarrow> (string \<times> 'v) list" where
  "receipt_members J r =
     [(''transactionHash'', js_string J (toJS_hash (tr_transactionHash r))),
      (''index'', js_opt J (\<lambda>n. js_string J (toJS_uint64 n)) (tr_index r)),
      (''blockHash'', js_string J (toJS_hash (tr_blockHash r))),
      (''epochNumber'', js_string J (toJS_number (tr_epochNumber r))),
      (''from'', js_string J (verbose (tr_from r))),
      (''to'', js_opt J (\<lambda>a. js_string J (verbose a)) (tr_to r)),
      (''gasUsed'', js_string J (toJS_number (tr_gasUsed r))),
      (''gasFee'', js_string J (toJS_number (tr_gasFee r))),
      (''contractCreated'', js_opt J (\<lambda>a. js_string J (verbose a)) (tr_contractCreated r)),
      (''logs'', js_array J (map (log_js J) (tr_logs r))),
      (''logsBloom'', js_string J (toJS_hash (tr_logsBloom r))),
      (''stateRoot'', js_string J (toJS_hash (tr_stateRoot r))),
      (''outcomeStatus'', js_opt J (\<lambda>n. js_string J (toJS_uint64 n)) (tr_outcomeStatus r)),
      (''txExecErrorMsg'', js_opt J (js_string J) (tr_txExecErrorMsg r)),
      (''gasCoveredBySponsor'', js_opt J (js_bool J) (tr_gasCoveredBySponsor r)),
      (''storageCoveredBySponsor'', js_opt J (js_bool J) (tr_storageCoveredBySponsor r)),
      (''storageCollateralized'', js_string J (toJS_number (tr_storageCollateralized r))),
      (''storageReleased'', js_array J (map (change_js J) (tr_storageReleased r)))]"

definition receipt_ok :: "TransactionReceipt \<Rightarrow> bool" where
  "receipt_ok r \<longleftrightarrow>
     length (tr_transactionHash r) = 32 \<and> length (tr_blockHash r) = 32 \<and> length (tr_stateRoot r) = 32 \<and>
     length (tr_logsBloom r) = 256 \<and> opt_all (\<lambda>n. unat n < 2 ^ 31) (tr_index r) \<and>
     opt_all (\<lambda>n. unat n < 2 ^ 31) (tr_outcomeStatus r) \<and> plain_address (tr_from r) \<and>
     opt_all plain_address (tr_to r) \<and> opt_all plain_address (tr_contractCreated r) \<and>
     (\<forall>l \<in> set (tr_logs r). log_ok l) \<and> (\<forall>c \<in> set (tr_storageReleased r). plain_address (sc_address c))"

text \<open>A member that is absent from the answer keeps the value of the default constructor.\<close>

lemma set_absent:
  "tr_index r = None \<Longrightarrow> set_mem (Inr m) (\<lambda>v r. r\<lparr>tr_index := Some v\<rparr>) r = Inr (r\<lparr>tr_index := m\<rparr>)"
  "tr_to r = None \<Longrightarrow> set_mem (Inr a) (\<lambda>v r. r\<lparr>tr_to := Some v\<rparr>) r = Inr (r\<lparr>tr_to := a\<rparr>)"
  "tr_contractCreated r = None \<Longrightarrow> set_mem (Inr a) (\<lambda>v r. r\<lparr>tr_contractCreated := Some v\<rparr>) r = Inr (r\<lparr>tr_contractCreated := a\<rparr>)"
  "tr_outcomeStatus r = None \<Longrightarrow> set_mem (Inr m) (\<lambda>v r. r\<lparr>tr_outcomeStatus := Some v\<rparr>) r = Inr (r\<lparr>tr_outcomeStatus := m\<rparr>)"
  "tr_txExecErrorMsg r = None \<Longrightarrow> set_mem (Inr t) (\<lambda>v r. r\<lparr>tr_txExecErrorMsg := Some v\<rparr>) r = Inr (r\<lparr>tr_txExecErrorMsg := t\<rparr>)"
  "tr_gasCoveredBySponsor r = None \<Longrightarrow>
     set_mem (Inr b) (\<lambda>v r. r\<lparr>tr_gasCoveredBySponsor := Some v\<rparr>) r = Inr (r\<lparr>tr_gasCoveredBySponsor := b\<rparr>)"
  "tr_storageCoveredBySponsor r = None \<Longrightarrow>
     set_mem (Inr b) (\<lambda>v r. r\<lparr>tr_storageCoveredBySponsor := Some v\<rparr>) r = Inr (r\<lparr>tr_storageCoveredBySponsor := b\<rparr>)"
  by (cases r; simp add: set_mem_def split: option.split)+

lemma set_present: "set_mem (Inr (Some v)) upd r = Inr (upd v r)"
  by (simp add: set_mem_def)

context jsoncpp_laws
begin

lemma receipt_numbers:
  fixes D :: "string \<Rightarrow> nat"
  assumes "receipt_ok r"
  defines "js \<equiv> js_object J (receipt_members J r)"
  shows "jsMem2Hash J D 32 js ''transactionHash'' = Inr (Some (tr_transactionHash r))"
    "jsMem2Hash J D 32 js ''blockHash'' = Inr (Some (tr_blockHash r))"
    "jsMem2Hash J D 256 js ''logsBloom'' = Inr (Some (tr_logsBloom r))"
    "jsMem2Hash J D 32 js ''stateRoot'' = Inr (Some (tr_stateRoot r))"
    "jsMem2U256 J D js ''epochNumber'' = Inr (Some (tr_epochNumber r))"
    "jsMem2U256 J D js ''gasUsed'' = Inr (Some (tr_gasUsed r))"
    "jsMem2U256 J D js ''gasFee'' = Inr (Some (tr_gasFee r))"
    "jsMem2U256 J D js ''storageCollateralized'' = Inr (Some (tr_storageCollateralized r))"
    "jsMem2Uint64 J js ''index'' = Inr (tr_index r)"
    "jsMem2Uint64 J js ''outcomeStatus'' = Inr (tr_outcomeStatus r)"
  unfolding js_def
  using assms(1)
  by (intro mem_hash mem_u256 mem_u64; simp add: receipt_members_def receipt_ok_def js_opt_def)+

lemma receipt_others:
  assumes "receipt_ok r"
  defines "js \<equiv> js_object J (receipt_members J r)"
  shows "jsMem2CfxAddress J js ''from'' = Inr (Some (tr_from r))"
    "jsMem2CfxAddress J js ''to'' = Inr (tr_to r)"
    "jsMem2CfxAddress J js ''contractCreated'' = Inr (tr_contractCreated r)"
    "jsMem2String J js ''txExecErrorMsg'' = Inr (tr_txExecErrorMsg r)"
    "jsMem2Boolean J js ''gasCoveredBySponsor'' = Inr (tr_gasCoveredBySponsor r)"
    "jsMem2Boolean J js ''storageCoveredBySponsor'' = Inr (tr_storageCoveredBySponsor r)"
    "array_member J js ''storageReleased'' = Inr (if map (change_js J) (tr_storageReleased r) = [] then None
       else Some (js_array J (map (change_js J) (tr_storageReleased r))))"
    "array_member J js ''logs'' = Inr (if map (log_js J) (tr_logs r) = [] then None
       else Some (js_array J (map (log_js J) (tr_logs r))))"
proof -
  have d: "distinct (map fst (receipt_members J r))" by (simp add: receipt_members_def)
  note k = receipt_members_def receipt_ok_def js_opt_def
  show "jsMem2CfxAddress J js ''from'' = Inr (Some (tr_from r))"
    unfolding js_def by (rule mem_address [OF d]) (use assms(1) in \<open>simp_all add: k\<close>)
  show "jsMem2CfxAddress J js ''to'' = Inr (tr_to r)"
    "jsMem2CfxAddress J js ''contractCreated'' = Inr (tr_contractCreated r)"
    unfolding js_def by (rule mem_opt_address [OF d]; use assms(1) in \<open>simp add: k\<close>)+
  show "jsMem2String J js ''txExecErrorMsg'' = Inr (tr_txExecErrorMsg r)"
    unfolding js_def by (rule mem_opt_text [OF d]) (simp add: k)
  show "jsMem2Boolean J js ''gasCoveredBySponsor'' = Inr (tr_gasCoveredBySponsor r)"
    "jsMem2Boolean J js ''storageCoveredBySponsor'' = Inr (tr_storageCoveredBySponsor r)"
    unfolding js_def by (rule mem_opt_bool [OF d]; simp add: k)+
  show "array_member J js ''storageReleased'' = Inr (if map (change_js J) (tr_storageReleased r) = [] then None
       else Some (js_array J (map (change_js J) (tr_storageReleased r))))"
    "array_member J js ''logs'' = Inr (if map (log_js J) (tr_logs r) = [] then None
       else Some (js_array J (map (log_js J) (tr_logs r))))"
    unfolding js_def by (rule mem_array [OF d]; simp add: k)+
qed

lemma each_read:
  assumes "\<And>x. x \<in> set xs \<Longrightarrow> f (g x) = Inr x" and "upd [] = r"
  shows "(case (if map g xs = [] then None else Some (js_array J (map g xs))) of None \<Rightarrow> Inr r
    | Some a \<Rightarrow> bind_res (each_index J f a) (\<lambda>ys. Inr (upd ys))) = Inr (upd xs)"
  using map_res_all [of xs f g] each_array [of "map g xs" f] assms by simp


lemma receipt_read:
  assumes ok: "receipt_ok r" and new: "TransactionReceipt_new = Inr r0"
  shows "Json2Struct J D (js_object J (receipt_members J r)) r0 = Inr (True, r)"
proof -
  have obj: "js_isObject J (js_object J (receipt_members J r))"
    by (rule object_is) (simp add: receipt_members_def)
  have released: "\<And>c. c \<in> set (tr_storageReleased r) \<Longrightarrow> read_change J D (change_js J c) = Inr c"
    and logs: "\<And>l. l \<in> set (tr_logs r) \<Longrightarrow> read_log J D (log_js J l) = Inr l"
    using ok read_change_js read_log_js by (simp_all add: receipt_ok_def)
  obtain z where r0: "r0 = \<lparr>tr_transactionHash = hash_zero 32, tr_index = None, tr_blockHash = hash_zero 32, tr_epochNumber = 0,
        tr_from = z, tr_to = None, tr_gasUsed = 0, tr_gasFee = 0, tr_contractCreated = None, tr_logs = [],
        tr_logsBloom = hash_zero 256, tr_stateRoot = hash_zero 32, tr_outcomeStatus = None,
        tr_txExecErrorMsg = None, tr_gasCoveredBySponsor = None, tr_storageCoveredBySponsor = None,
        tr_storageCollateralized = 0, tr_storageReleased = []\<rparr>"
    using new by (auto simp: TransactionReceipt_new_def bind_res_eq_Inr)
  note read = receipt_numbers [OF ok] receipt_others [OF ok] set_absent set_present
    each_read [where f = "read_change J D" and g = "change_js J", OF released]
    each_read [where f = "read_log J D" and g = "log_js J", OF logs]
  show ?thesis
    unfolding Json2Struct_def r0 using obj by (simp add: read del: list.map_disc_iff map_is_Nil_conv)
qed

end

section \<open>Properties\<close>

text \<open>
  C11: receipts survive the RPC interface.  \<open>Json2Struct\<close> on the answer that writes every member of
  a receipt in the form of \<open>toJS\<close> and \<open>GetVerboseBase32Address\<close>, and absent ones as null, gives
  the receipt back, logs and storage releases included, whatever the JSON library does beyond its
  laws.  The two members read through \<open>jsToInt\<close> must be below \<open>2 ^ 31\<close>.
\<close>

theorem receipt_roundtrip:
  assumes "jsoncpp_laws J" "receipt_ok r"
  shows "bind_res TransactionReceipt_new (Json2Struct J D (js_object J (receipt_members J r))) = Inr (True, r)"
proof -
  obtain z where z: "TestnetNullAddress = Inr z" using null_address by blast
  have "\<exists>r0. TransactionReceipt_new = Inr r0" unfolding TransactionReceipt_new_def z by simp
  then obtain r0 where new: "TransactionReceipt_new = Inr r0" by blast
  show ?thesis using jsoncpp_laws.receipt_read [OF assms new, of D] unfolding new by simp
qed

definition demo_receipt :: "Address \<Rightarrow> TransactionReceipt" where
  "demo_receipt a =
     \<lparr>tr_transactionHash = replicate 32 1, tr_index = Some 3, tr_blockHash = replicate 32 2, tr_epochNumber = 77,
      tr_from = a, tr_to = Some a, tr_gasUsed = 21000, tr_gasFee = 21000, tr_contractCreated = None,
      tr_logs = [\<lparr>le_address = hex a, le_cfx_address = a, le_topics = [replicate 32 7], le_data = [1, 2, 3]\<rparr>],
      tr_logsBloom = replicate 256 0, tr_stateRoot = replicate 32 3, tr_outcomeStatus = Some 0,
      tr_txExecErrorMsg = None, tr_gasCoveredBySponsor = Some True, tr_storageCoveredBySponsor = Some False,
      tr_storageCollateralized = 64, tr_storageReleased = [\<lparr>sc_address = a, sc_collaterals = 9\<rparr>]\<rparr>"

theorem receipt_roundtrip_witness:
  "\<exists>a. TestnetNullAddress = Inr a \<and>
     bind_res TransactionReceipt_new (Json2Struct value_js (\<lambda>s. 0)
       (js_object value_js (receipt_members value_js (demo_receipt a)))) = Inr (True, demo_receipt a)"
proof -
  obtain a where a: "TestnetNullAddress = Inr a" "plain_address a" using null_address by blast
  then have "receipt_ok (demo_receipt a)" by (simp add: receipt_ok_def demo_receipt_def log_ok_def)
  then show ?thesis using a(1) receipt_roundtrip [OF tree_js.jsoncpp_laws_axioms] by blast
qed

end
