(* ===== verification/Log_Theorems.thy ===== *)
theory Log_Theorems
  imports Rpc_Theorems
begin

text \<open>Log entries: their RLP encoding, and the blooms that summarise them.\<close>

section \<open>The encoding\<close>

definition log_tree :: "LogEntry \<Rightarrow> rlp" where
  "log_tree l = RList [RStr (le_address l), RList (map RStr (le_topics l)), RStr (le_data l)]"

lemma stream_log_tree: "LogEntry_streamRLP l s = write_rlp (log_tree l) s"
proof -
  have "append_hash t False False = write_rlp (RStr t)" for t by (simp add: append_hash_def fun_eq_iff)
  then have "appendVector (\<lambda>t. append_hash t False False) ts s = write_rlp (RList (map RStr ts)) s" for ts s
    using append_all_trees [of RStr ts] by (simp add: appendVector_def)
  then show ?thesis
    unfolding LogEntry_streamRLP_def log_tree_def write_list write_rlps_fun bind_res_return
    by (simp add: append_hash_def eval_nat_numeral)
qed

lemma toHash_enc: "length h = N \<Longrightarrow> N < rlp_limit \<Longrightarrow> toHash N (enc_str h) flags = Inr h"
  using enc_str_reads [of h "[]"] by (simp add: toHash_def Let_def)

lemma toVector_hashes:
  assumes lim: "length (rlp_enc (RList (map RStr ts))) < rlp_limit" and n: "\<forall>t \<in> set ts. length t = 32" "length ts \<le> fuel"
  shows "toVector fuel (toHash 32) (rlp_enc (RList (map RStr ts))) flags = Some (Inr ts)"
proof -
  have "32 < rlp_limit" by (simp add: rlp_limit_def size_max_def)
  then have c: "toHash 32 (rlp_enc (map RStr ts ! k)) flags = Inr ((\<lambda>t. case t of RStr b \<Rightarrow> b | RList _ \<Rightarrow> []) (map RStr ts ! k))"
    if "k < length (map RStr ts)" for k
    using that n(1) by (simp add: toHash_enc)
  have "map (\<lambda>t. case t of RStr b \<Rightarrow> b | RList _ \<Rightarrow> []) (map RStr ts) = ts" by (simp add: comp_def)
  then show ?thesis
    using iter_loop_encs [OF lim, where conv = "\<lambda>x. toHash 32 x flags" and g = "\<lambda>t. case t of RStr b \<Rightarrow> b | RList _ \<Rightarrow> []"
        and k = 0 and fuel = fuel and ret = "[]"] c n(2) it_begin_at [OF lim, of "[]"] itemCount_enc [OF lim]
      enc_list_reads [OF lim, of "[]"] by (simp add: toVector_def)
qed

lemma read_log_tree:
  assumes lim: "length (rlp_enc (log_tree l)) < rlp_limit" and ok: "length (le_address l) = 20" "\<forall>t \<in> set (le_topics l). length t = 32"
    and fuel: "length (le_topics l) \<le> fuel" and z: "TestnetNullAddress = Inr z"
  shows "LogEntry_of_rlp fuel (RLP_init (rlp_enc (log_tree l))) = Some (Inr (l\<lparr>le_cfx_address := z\<rparr>))"
proof -
  define ts where "ts = [RStr (le_address l), RList (map RStr (le_topics l)), RStr (le_data l)]"
  have t: "log_tree l = RList ts" by (simp add: log_tree_def ts_def)
  have lim': "length (rlp_enc (RList ts)) < rlp_limit" using lim t by simp
  obtain r1 where r1: "operator_index 0 (RLP_init (rlp_enc (RList ts))) = (Inr (RLP_init (item_at ts 0)), r1)" "cache_ok ts r1"
    using operator_index_cache [OF lim' cache_ok_init] by blast
  obtain r2 where r2: "operator_index 1 r1 = (Inr (RLP_init (item_at ts 1)), r2)" "cache_ok ts r2"
    using operator_index_cache [OF lim' r1(2)] by blast
  have r3: "fst (operator_index 2 r2) = Inr (RLP_init (item_at ts 2))"
    using operator_index_cache [OF lim' r2(2), of 2] by auto
  have items: "item_at ts 0 = enc_str (le_address l)" "item_at ts 1 = rlp_enc (RList (map RStr (le_topics l)))"
    "item_at ts 2 = enc_str (le_data l)" by (simp_all add: item_at_def ts_def)
  have "length (rlp_enc (RList (map RStr (le_topics l)))) < rlp_limit" by (rule list_lim [OF lim']) (simp add: ts_def)
  then have tv: "toVector fuel (toHash 32) (rlp_enc (RList (map RStr (le_topics l)))) LaissezFaire = Some (Inr (le_topics l))"
    using toVector_hashes ok(2) fuel by blast
  have "length (le_data l) < rlp_limit" by (rule str_lim [OF lim']) (simp add: ts_def)
  then have tb: "toBytes (enc_str (le_data l)) LaissezFaire = Inr (le_data l)"
    using enc_str_reads [of "le_data l" "[]"] by (simp add: toBytes_def)
  have th: "toHash 20 (enc_str (le_address l)) Strict = Inr (le_address l)"
    using ok(1) by (intro toHash_enc) (simp_all add: rlp_limit_def size_max_def)
  have "itemCount (rlp_enc (RList ts)) = Inr 3" using itemCount_enc [OF lim'] by (simp add: ts_def)
  then show ?thesis
    unfolding LogEntry_of_rlp_def t using r1 r2 r3 items tv tb th by (simp add: RLP_init_def z)
qed

section \<open>Blooms\<close>

lemma length_LogEntry_bloom [simp]: "length (LogEntry_bloom C l) = 256"
proof -
  have "length (foldl (\<lambda>ret t. shiftBloom 3 ret (keccak256 C t)) b ts) = length b" for b ts
    by (induction ts arbitrary: b) simp_all
  then show ?thesis by (simp add: LogEntry_bloom_def)
qed

lemma fold_shift_mono:
  "containsBloom 3 b h \<Longrightarrow> containsBloom 3 (foldl (\<lambda>ret t. shiftBloom 3 ret (keccak256 C t)) b ts) h"
  by (induction ts arbitrary: b) (simp_all add: containsBloom_mono)

lemma entry_bloom:
  "x = le_address l \<or> x \<in> set (le_topics l) \<Longrightarrow> containsBloom 3 (LogEntry_bloom C l) (keccak256 C x)"
proof -
  have "x \<in> set ts \<Longrightarrow> containsBloom 3 (foldl (\<lambda>ret t. shiftBloom 3 ret (keccak256 C t)) b ts) (keccak256 C x)" for b ts
    by (induction ts arbitrary: b) (auto simp: fold_shift_mono containsBloom_shift)
  then show "x = le_address l \<or> x \<in> set (le_topics l) \<Longrightarrow> ?thesis"
    unfolding LogEntry_bloom_def using fold_shift_mono [OF containsBloom_shift] by blast
qed

lemma hash_or_commute: "length a = length b \<Longrightarrow> hash_or a b = hash_or b a"
  unfolding hash_or_def by (induction a b rule: list_induct2) (simp_all add: or.commute)

lemma containsBloom_or:
  assumes "length a = length b"
  shows "containsBloom 3 a h \<Longrightarrow> containsBloom 3 (hash_or a b) h" "containsBloom 3 b h \<Longrightarrow> containsBloom 3 (hash_or a b) h"
proof -
  have mono: "containsBloom 3 x h \<Longrightarrow> containsBloom 3 (hash_or x y) h" if "length x = length y" for x y
    using that by (simp add: containsBloom_def hash_contains_or_mono)
  show "containsBloom 3 a h \<Longrightarrow> containsBloom 3 (hash_or a b) h" by (rule mono [OF assms])
  show "containsBloom 3 b h \<Longrightarrow> containsBloom 3 (hash_or a b) h"
    unfolding hash_or_commute [OF assms] by (rule mono [OF assms [symmetric]])
qed

lemma length_logs_bloom [simp]: "length (logs_bloom C ls) = 256"
  unfolding logs_bloom_def by (induction ls rule: rev_induct) simp_all

lemma logs_bloom_snoc: "logs_bloom C (ls @ [l]) = hash_or (logs_bloom C ls) (LogEntry_bloom C l)"
  by (simp add: logs_bloom_def)

lemma logs_bloom_mem:
  assumes "l \<in> set ls" "x = le_address l \<or> x \<in> set (le_topics l)"
  shows "containsBloom 3 (logs_bloom C ls) (keccak256 C x)"
  using assms(1)
proof (induction ls rule: rev_induct)
  case (snoc l' ls)
  then show ?case
    unfolding logs_bloom_snoc using containsBloom_or [of "logs_bloom C ls" "LogEntry_bloom C l'"] entry_bloom [OF assms(2)] by auto
qed simp

section \<open>Properties\<close>

text \<open>
  A log entry survives RLP.  What \<open>streamRLP\<close> writes is accepted by the strict constructor
  of the reader, and the entry read from it has the same address, topics and data; the Conflux
  address is not part of the encoding and is the null address of the test network afterwards.
\<close>

theorem log_entry_rlp_roundtrip:
  assumes "length (rlp_enc (log_tree l)) < rlp_limit" "length (le_address l) = 20" "\<forall>t \<in> set (le_topics l). length t = 32"
  shows "\<exists>d r z. rlp_of LogEntry_streamRLP l = Inr d \<and> RLP_ctor d VeryStrict = Inr r \<and> TestnetNullAddress = Inr z \<and>
    LogEntry_of_rlp (length (le_topics l)) r = Some (Inr (l\<lparr>le_cfx_address := z\<rparr>))"
proof -
  obtain z where z: "TestnetNullAddress = Inr z" using null_address by blast
  have "length (rlp_enc (log_tree l)) < 2 ^ 64" using assms(1) by (rule rlp_limit_less)
  then have "rlp_of LogEntry_streamRLP l = Inr (rlp_enc (log_tree l))"
    using tree_out [of "log_tree l"] by (auto simp: rlp_of_def stream_log_tree)
  moreover have "RLP_ctor (rlp_enc (log_tree l)) VeryStrict = Inr (RLP_init (rlp_enc (log_tree l)))"
    using RLP_ctor_enc [OF assms(1)] by simp
  ultimately show ?thesis using read_log_tree [OF assms order.refl z] z by blast
qed

definition demo_log :: "Address \<Rightarrow> LogEntry" where
  "demo_log a = \<lparr>le_address = hex a, le_cfx_address = a, le_topics = [replicate 32 7], le_data = [1, 2, 3]\<rparr>"

lemma demo_log_ok: "plain_address a \<Longrightarrow> log_ok (demo_log a)"
  by (simp add: log_ok_def demo_log_def)

theorem log_entry_rlp_roundtrip_witness:
  "\<exists>d r z. rlp_of LogEntry_streamRLP ((demo_log (Address_init 1))\<lparr>le_address := replicate 20 1\<rparr>) = Inr d \<and>
    RLP_ctor d VeryStrict = Inr r \<and> TestnetNullAddress = Inr z \<and>
    LogEntry_of_rlp (length [replicate 32 (7 :: byte)]) r = Some (Inr ((demo_log z)\<lparr>le_address := replicate 20 1\<rparr>))"
  using log_entry_rlp_roundtrip [of "(demo_log (Address_init 1))\<lparr>le_address := replicate 20 1\<rparr>"]
    bytesRequired_le_iff [of 59 1]
  by (simp add: demo_log_def log_tree_def rlp_enc.simps(2) enc_list_def enc_str_def rlp_header_def rlp_limit_def size_max_def)

text \<open>
  C27: the bloom of a block's logs misses nothing.  For every log in the list, a filter holding the
  bloom of the list answers yes to each of its topics and to the address that emitted it.
\<close>

theorem logs_bloom_complete:
  assumes "l \<in> set ls" "log_ok l"
  shows "(\<forall>t \<in> set (le_topics l). Contains_hash C t (BloomFilter_of (logs_bloom C ls))) \<and>
    Contains_address C (le_cfx_address l) (BloomFilter_of (logs_bloom C ls)) = Inr True"
  using assms logs_bloom_mem [OF assms(1)] toEth_plain [of "le_cfx_address l"]
  by (auto simp: Contains_hash_def Contains_address_def BloomFilter_of_def log_ok_def)

theorem logs_bloom_complete_witness:
  "\<exists>a. TestnetNullAddress = Inr a \<and>
    (\<forall>t \<in> {replicate 32 7}. Contains_hash demo_crypto t (BloomFilter_of (logs_bloom demo_crypto [demo_log a]))) \<and>
    Contains_address demo_crypto a (BloomFilter_of (logs_bloom demo_crypto [demo_log a])) = Inr True"
proof -
  obtain a where a: "TestnetNullAddress = Inr a" "plain_address a" using null_address by blast
  have "demo_log a \<in> set [demo_log a]" by simp
  from logs_bloom_complete [OF this demo_log_ok [OF a(2)], of demo_crypto] show ?thesis
    using a(1) by (auto simp: demo_log_def)
qed

end
