(* ===== verification/Rpc_Sending.thy ===== *)
theory Rpc_Sending
  imports Rpc_Theorems
begin

text \<open>
  What the client does with a transaction: the members it fills in, the request it sends, the
  deployment of a contract, the wait for a receipt and the call of a contract's function.
\<close>

section \<open>Calls in sequence\<close>

lemma rpc_bindE:
  assumes "rpc_bind m f s = (r, s'')"
  obtains (failed) e where "m s = (Inl e, s'')" "r = Inl e"
  | (goes_on) x s' where "m s = (Inr x, s')" "f x s' = (r, s'')"
  using assms that by (auto simp: rpc_bind_def split: prod.splits sum.splits)

lemma rpc_bind_lift [simp]:
  "rpc_bind (rpc_lift r) f st = (case r of Inl e \<Rightarrow> (Inl e, st) | Inr x \<Rightarrow> f x st)"
  by (simp add: rpc_bind_def rpc_lift_def split: sum.splits)

lemma tx_state [simp]:
  "rpc_bind get_tx g (s, tx) = g tx (s, tx)"
  "upd_tx h (s, tx) = (Inr (), (s, h tx))"
  "when_tx P n (s, tx) = (if P tx then n (s, tx) else (Inr (), (s, tx)))"
  by (simp_all add: rpc_bind_def get_tx_def upd_tx_def when_tx_def rpc_return_def)

lemma on_node_bind [simp]:
  "rpc_bind (on_node m) f (s, tx) =
     (case m s of (Inl e, s') \<Rightarrow> (Inl e, (s', tx)) | (Inr x, s') \<Rightarrow> f x (s', tx))"
  by (simp add: rpc_bind_def on_node_def split: prod.splits sum.splits)

section \<open>Filling a transaction\<close>

text \<open>Each step writes its own members, and only if they have no value yet, however it ends.\<close>

lemma fill_nonce_step:
  assumes "fill_nonce E c (s, tx) = (r, (s', tx'))"
  shows "tx' = tx\<lparr>m_nonce := m_nonce tx'\<rparr> \<and> (m_nonce tx \<noteq> Invalid256 \<longrightarrow> r = Inr () \<and> s' = s \<and> tx' = tx)"
  using assms by (auto simp: fill_nonce_def split: if_splits sum.splits prod.splits)

lemma fill_chainId_step:
  assumes "fill_chainId E (s, tx) = (r, (s', tx'))"
  shows "tx' = tx\<lparr>m_chainId := m_chainId tx'\<rparr> \<and> (m_chainId tx \<noteq> Invalid256 \<longrightarrow> r = Inr () \<and> s' = s \<and> tx' = tx)"
  using assms by (auto simp: fill_chainId_def split: if_splits sum.splits prod.splits)

lemma fill_gasPrice_step:
  assumes "fill_gasPrice E (s, tx) = (r, (s', tx'))"
  shows "tx' = tx\<lparr>m_gasPrice := m_gasPrice tx'\<rparr> \<and> (m_gasPrice tx \<noteq> Invalid256 \<longrightarrow> r = Inr () \<and> s' = s \<and> tx' = tx) \<and>
    (m_gasPrice tx = Invalid256 \<longrightarrow> r = Inr () \<longrightarrow> MIN_GAS_PRICE \<le> m_gasPrice tx')"
  using assms by (auto simp: fill_gasPrice_def split: if_splits sum.splits prod.splits)

lemma fill_epochHeight_step:
  assumes "fill_epochHeight E (s, tx) = (r, (s', tx'))"
  shows "tx' = tx\<lparr>m_epochHeight := m_epochHeight tx'\<rparr> \<and>
    (m_epochHeight tx \<noteq> Invalid256 \<longrightarrow> r = Inr () \<and> s' = s \<and> tx' = tx)"
  using assms by (auto simp: fill_epochHeight_def split: if_splits sum.splits prod.splits)

lemma estimated_members:
  "estimated E e tx = tx\<lparr>m_gas := (if m_gas tx = Invalid256 then rpc_ratio E (eg_gasUsed e) else m_gas tx),
     m_storageLimit := (if m_storageLimit tx = Invalid256
        then rpc_ratio E (if eg_storageCollateralized e = 0 then 250 else eg_storageCollateralized e) else m_storageLimit tx)\<rparr>"
  by (simp add: estimated_def Let_def)

lemma fill_gas_step:
  assumes "fill_gas E c (s, tx) = (r, (s', tx'))"
  shows "tx' = tx\<lparr>m_gas := m_gas tx', m_storageLimit := m_storageLimit tx'\<rparr> \<and>
    (m_gas tx \<noteq> Invalid256 \<and> m_storageLimit tx \<noteq> Invalid256 \<longrightarrow> r = Inr () \<and> s' = s \<and> tx' = tx) \<and>
    (m_data tx \<noteq> [] \<longrightarrow> (m_gas tx \<noteq> Invalid256 \<longrightarrow> m_gas tx' = m_gas tx) \<and>
       (m_storageLimit tx \<noteq> Invalid256 \<longrightarrow> m_storageLimit tx' = m_storageLimit tx)) \<and>
    (m_data tx = [] \<and> (m_gas tx = Invalid256 \<or> m_storageLimit tx = Invalid256) \<longrightarrow>
       r = Inr () \<and> s' = s \<and> m_gas tx' = TRANSACTION_GAS \<and> m_storageLimit tx' = TRANSACTION_STORAGE_LIMIT)"
  using assms by (auto simp: fill_gas_def estimated_members split: if_splits sum.splits prod.splits)


text \<open>The members \<open>ApplyUnsignedTransactionDefault\<close> may write, and when it keeps them.\<close>

definition keeps_values :: "TransactionBase \<Rightarrow> TransactionBase \<Rightarrow> bool" where
  "keeps_values tx tx' \<longleftrightarrow>
     tx' = tx\<lparr>m_nonce := m_nonce tx', m_chainId := m_chainId tx', m_gasPrice := m_gasPrice tx',
       m_epochHeight := m_epochHeight tx', m_gas := m_gas tx', m_storageLimit := m_storageLimit tx'\<rparr> \<and>
     (m_nonce tx \<noteq> Invalid256 \<longrightarrow> m_nonce tx' = m_nonce tx) \<and>
     (m_chainId tx \<noteq> Invalid256 \<longrightarrow> m_chainId tx' = m_chainId tx) \<and>
     (m_gasPrice tx \<noteq> Invalid256 \<longrightarrow> m_gasPrice tx' = m_gasPrice tx) \<and>
     (m_epochHeight tx \<noteq> Invalid256 \<longrightarrow> m_epochHeight tx' = m_epochHeight tx) \<and>
     (m_data tx \<noteq> [] \<longrightarrow> (m_gas tx \<noteq> Invalid256 \<longrightarrow> m_gas tx' = m_gas tx) \<and>
        (m_storageLimit tx \<noteq> Invalid256 \<longrightarrow> m_storageLimit tx' = m_storageLimit tx)) \<and>
     (m_gas tx \<noteq> Invalid256 \<and> m_storageLimit tx \<noteq> Invalid256 \<longrightarrow>
        m_gas tx' = m_gas tx \<and> m_storageLimit tx' = m_storageLimit tx)"

lemma keeps_refl: "keeps_values tx tx"
  by (simp add: keeps_values_def)

lemma keeps_nonce: "keeps_values (tx\<lparr>m_nonce := n\<rparr>) tx' \<Longrightarrow> m_nonce tx \<noteq> Invalid256 \<longrightarrow> n = m_nonce tx \<Longrightarrow> keeps_values tx tx'"
  by (cases tx; cases tx') (auto simp: keeps_values_def)

lemma keeps_chainId: "keeps_values (tx\<lparr>m_chainId := n\<rparr>) tx' \<Longrightarrow> m_chainId tx \<noteq> Invalid256 \<longrightarrow> n = m_chainId tx \<Longrightarrow> keeps_values tx tx'"
  by (cases tx; cases tx') (auto simp: keeps_values_def)

lemma keeps_gasPrice: "keeps_values (tx\<lparr>m_gasPrice := n\<rparr>) tx' \<Longrightarrow> m_gasPrice tx \<noteq> Invalid256 \<longrightarrow> n = m_gasPrice tx \<Longrightarrow> keeps_values tx tx'"
  by (cases tx; cases tx') (auto simp: keeps_values_def)

lemma keeps_epochHeight:
  "keeps_values (tx\<lparr>m_epochHeight := n\<rparr>) tx' \<Longrightarrow> m_epochHeight tx \<noteq> Invalid256 \<longrightarrow> n = m_epochHeight tx \<Longrightarrow> keeps_values tx tx'"
  by (cases tx; cases tx') (auto simp: keeps_values_def)

lemma fill_gas_keeps: "fill_gas E c (s, tx) = (r, (s', tx')) \<Longrightarrow> keeps_values tx tx'"
proof -
  assume "fill_gas E c (s, tx) = (r, (s', tx'))"
  note f = fill_gas_step [OF this]
  obtain g l where t: "tx' = tx\<lparr>m_gas := g, m_storageLimit := l\<rparr>" using f by blast
  show ?thesis using f unfolding t keeps_values_def by simp
qed

definition passes :: "('s \<times> TransactionBase, 'a) rpc \<Rightarrow> bool" where
  "passes m \<longleftrightarrow> (\<forall>s tx r s' tx' t. m (s, tx) = (r, (s', tx')) \<longrightarrow> keeps_values tx' t \<longrightarrow> keeps_values tx t)"

definition ends_kept :: "('s \<times> TransactionBase, 'a) rpc \<Rightarrow> bool" where
  "ends_kept m \<longleftrightarrow> (\<forall>s tx r s' tx'. m (s, tx) = (r, (s', tx')) \<longrightarrow> keeps_values tx tx')"

lemma ends_kept_bind:
  assumes "passes m" "\<And>x. ends_kept (f x)"
  shows "ends_kept (rpc_bind m f)"
  unfolding ends_kept_def
proof (intro allI impI)
  fix s tx r s' tx'
  assume "rpc_bind m f (s, tx) = (r, (s', tx'))"
  then show "keeps_values tx tx'"
  proof (cases rule: rpc_bindE)
    case (failed e)
    then show ?thesis using assms(1) keeps_refl unfolding passes_def by blast
  next
    case (goes_on x st)
    obtain u t where "st = (u, t)" by fastforce
    then show ?thesis using goes_on assms unfolding passes_def ends_kept_def by blast
  qed
qed

lemma fills_pass: "passes (fill_nonce E c)" "passes (fill_chainId E)" "passes (fill_gasPrice E)" "passes (fill_epochHeight E)"
  unfolding passes_def
  using fill_nonce_step keeps_nonce fill_chainId_step keeps_chainId fill_gasPrice_step keeps_gasPrice
    fill_epochHeight_step keeps_epochHeight by metis+

lemma filled: "ends_kept (ApplyUnsignedTransactionDefault E c)"
  unfolding ApplyUnsignedTransactionDefault_def
  by (intro ends_kept_bind fills_pass) (use fill_gas_keeps in \<open>auto simp: ends_kept_def\<close>)

lemma gas_comes_last:
  assumes "ApplyUnsignedTransactionDefault E c (s, tx) = (Inr (), (s', tx'))"
  shows "\<exists>s1 tx1. fill_gas E c (s1, tx1) = (Inr (), (s', tx')) \<and> m_gas tx1 = m_gas tx \<and>
    m_storageLimit tx1 = m_storageLimit tx \<and> m_data tx1 = m_data tx"
proof -
  obtain s1 t1 s2 t2 s3 t3 s4 t4 where
    "fill_nonce E c (s, tx) = (Inr (), (s1, t1))" "fill_chainId E (s1, t1) = (Inr (), (s2, t2))"
    "fill_gasPrice E (s2, t2) = (Inr (), (s3, t3))" "fill_epochHeight E (s3, t3) = (Inr (), (s4, t4))"
    and g: "fill_gas E c (s4, t4) = (Inr (), (s', tx'))"
    using assms unfolding ApplyUnsignedTransactionDefault_def rpc_bind_eq_Inr by fastforce
  then obtain n i p h where "t1 = tx\<lparr>m_nonce := n\<rparr>" "t2 = t1\<lparr>m_chainId := i\<rparr>" "t3 = t2\<lparr>m_gasPrice := p\<rparr>" "t4 = t3\<lparr>m_epochHeight := h\<rparr>"
    using fill_nonce_step fill_chainId_step fill_gasPrice_step fill_epochHeight_step by metis
  then show ?thesis using g by (intro exI [of _ s4] exI [of _ t4]) simp
qed

definition complete_tx :: "TransactionBase \<Rightarrow> bool" where
  "complete_tx tx \<longleftrightarrow> list_all (\<lambda>f. f tx \<noteq> Invalid256)
     [m_nonce, m_chainId, m_gasPrice, m_epochHeight, m_gas, m_storageLimit]"

lemma complete_filled:
  "complete_tx tx \<Longrightarrow> ApplyUnsignedTransactionDefault E c (s, tx) = (Inr (), (s, tx))"
  by (simp add: complete_tx_def ApplyUnsignedTransactionDefault_def rpc_bind_def fill_nonce_def fill_chainId_def
      fill_gasPrice_def fill_epochHeight_def fill_gas_def)

section \<open>Sending\<close>

lemma toJS_long:
  assumes "bs \<noteq> []" "length bs < 2 ^ 32"
  shows "toJS_bytes bs 0 = ''0x'' @ toHex bs"
proof -
  have "unat (of_nat (length bs) :: u32) = length bs" using assms(2) by (simp add: unat_of_nat)
  then show ?thesis using assms(1) by (simp add: toJS_bytes_def toHexPrefixed_eq toHex_eq Let_def)
qed

lemma signed_bytes:
  assumes "crypto_ok C" "ec_pubkey C (m_secret tx) = Some p" "hash_bool (m_secret tx)" "tx_sized tx"
  shows "SignTransaction C tx = (case held_signature C (m_secret tx) tx of None \<Rightarrow> Inl NoSignature
    | Some vrs \<Rightarrow> Inr (rlp_enc (signed_tree tx vrs), tx\<lparr>m_vrs := Some vrs\<rparr>))"
proof -
  have "tx\<lparr>m_secret := m_secret tx\<rparr> = tx" by simp
  then show ?thesis
    using SignTransactionWithSecret_eq [OF assms]
    by (cases "held_signature C (m_secret tx) tx") (simp_all add: SignTransactionWithSecret_def)
qed

lemma length_signed_le:
  assumes "tx_sized tx" "length (m_data tx) < 2 ^ 31"
  shows "length (rlp_enc (signed_tree tx vrs)) < 2 ^ 32" "rlp_enc (signed_tree tx vrs) \<noteq> []"
proof -
  let ?ts = "[tx_tree tx, rlp_num (unat (sig_v vrs)), rlp_num (unat (hash_to_arith (sig_r vrs) :: u256)),
      rlp_num (unat (hash_to_arith (sig_s vrs) :: u256))]"
  have n: "length (rlp_enc (rlp_num (unat v))) \<le> 41" for v :: u256 by (rule length_num_le [OF bytes_u256])
  have b: "length (rlp_enc (rlp_num (unat v))) \<le> 41" for v :: byte
    by (rule length_num_le) (use bytes_byte [of v] in simp)
  have "length (concat (map rlp_enc ?ts)) \<le> length (m_data tx) + 523"
    using length_tx_tree [OF assms(1)] b [of "sig_v vrs"] n [of "hash_to_arith (sig_r vrs)"] n [of "hash_to_arith (sig_s vrs)"]
    unfolding concat.simps list.map length_append by simp
  moreover from this have "length (enc_list (concat (map rlp_enc ?ts))) \<le> length (concat (map rlp_enc ?ts)) + 9"
    using assms(2) by (intro length_enc_list_le) simp
  moreover have e: "rlp_enc (signed_tree tx vrs) = enc_list (concat (map rlp_enc ?ts))"
    unfolding signed_tree_def rlp_enc.simps(2) ..
  ultimately show "length (rlp_enc (signed_tree tx vrs)) < 2 ^ 32" using assms(2) by simp
  show "rlp_enc (signed_tree tx vrs) \<noteq> []" unfolding e by (simp add: enc_list_def rlp_header_def)
qed


lemma kept_members:
  assumes "keeps_values tx tx'"
  shows "m_secret tx' = m_secret tx" "m_receiveAddress tx' = m_receiveAddress tx" "m_data tx' = m_data tx"
    "m_vrs tx' = m_vrs tx"
proof -
  obtain n i p h g l where "tx' = tx\<lparr>m_nonce := n, m_chainId := i, m_gasPrice := p, m_epochHeight := h, m_gas := g, m_storageLimit := l\<rparr>"
    using assms unfolding keeps_values_def by blast
  then show "m_secret tx' = m_secret tx" "m_receiveAddress tx' = m_receiveAddress tx" "m_data tx' = m_data tx"
    "m_vrs tx' = m_vrs tx" by simp_all
qed

section \<open>Polling\<close>

text \<open>
  The state before the \<open>n\<close>-th question of the deployment's loop, and how a question ends: the
  transaction is reported as skipped or not packed, it is reported with another status, or the
  question fails, with an exception, a failed assertion or a status that was never set.
\<close>

fun poll_state :: "('v, 's) rpc_env \<Rightarrow> string \<Rightarrow> nat \<Rightarrow> 's \<Rightarrow> 's" where
  "poll_state E h 0 s = s"
| "poll_state E h (Suc n) s = poll_state E h n (rpc_sleep E 1000 (snd (cfx_getTransactionByHash E h s)))"

datatype poll_answer = PollSkipped | PollSettled TransactionByHashResult | PollFails rpc_error

definition poll_answer :: "('v, 's) rpc_env \<Rightarrow> string \<Rightarrow> 's \<Rightarrow> poll_answer" where
  "poll_answer E h s = (case fst (cfx_getTransactionByHash E h s) of
     Inl e \<Rightarrow> PollFails e
   | Inr res \<Rightarrow> (case tb_status res of None \<Rightarrow> PollFails Unassigned
       | Some st \<Rightarrow> if st = SkippedOrNotPacked then PollSkipped else PollSettled res))"

definition poll_result :: "poll_answer \<Rightarrow> rpc_error + TransactionByHashResult" where
  "poll_result a = (case a of PollSettled res \<Rightarrow> Inr res | PollFails e \<Rightarrow> Inl e | PollSkipped \<Rightarrow> Inl Unassigned)"

lemma poll_step:
  "poll_packed E h s =
     (if poll_answer E h s = PollSkipped then poll_packed E h (rpc_sleep E 1000 (snd (cfx_getTransactionByHash E h s)))
      else Some (poll_result (poll_answer E h s), snd (cfx_getTransactionByHash E h s)))"
  by (subst poll_packed.simps)
    (auto simp: poll_answer_def poll_result_def split: prod.splits sum.splits option.splits if_splits)

lemma poll_returns:
  "(\<forall>m < n. poll_answer E h (poll_state E h m s) = PollSkipped) \<Longrightarrow>
   poll_packed E h s = poll_packed E h (poll_state E h n s)"
proof (induction n arbitrary: s)
  case (Suc n)
  let ?s = "rpc_sleep E 1000 (snd (cfx_getTransactionByHash E h s))"
  have "poll_answer E h s = PollSkipped" using Suc.prems by (metis poll_state.simps(1) zero_less_Suc)
  then have "poll_packed E h s = poll_packed E h ?s" by (subst poll_step) simp
  moreover have "poll_packed E h ?s = poll_packed E h (poll_state E h n ?s)"
    by (rule Suc.IH) (use Suc.prems in \<open>fastforce\<close>)
  ultimately show ?case by simp
qed simp

lemma poll_diverges:
  assumes "poll_packed E h s = Some x"
  shows "\<exists>n. poll_answer E h (poll_state E h n s) \<noteq> PollSkipped"
  using assms
proof (rule poll_packed.raw_induct [rotated,
    where P = "\<lambda>E h s x. \<exists>n. poll_answer E h (poll_state E h n s) \<noteq> PollSkipped"], goal_cases)
  case (1 f E h s y)
  show ?case
  proof (cases "poll_answer E h s = PollSkipped")
    case True
    then obtain res s' where r: "cfx_getTransactionByHash E h s = (Inr res, s')" "tb_status res = Some SkippedOrNotPacked"
      by (cases "cfx_getTransactionByHash E h s")
        (auto simp: poll_answer_def split: sum.splits option.splits if_splits)
    then have "f E h (rpc_sleep E 1000 s') = Some y" using 1(2) by simp
    from 1(1) [OF this] obtain n where "poll_answer E h (poll_state E h n (rpc_sleep E 1000 s')) \<noteq> PollSkipped" by blast
    then show ?thesis using r by (intro exI [of _ "Suc n"]) simp
  qed (intro exI [of _ 0], simp)
qed

lemma poll_first:
  assumes "\<forall>m < n. poll_answer E h (poll_state E h m s) = PollSkipped"
    and "poll_answer E h (poll_state E h n s) = a" "a \<noteq> PollSkipped"
  shows "poll_packed E h s = Some (poll_result a, snd (cfx_getTransactionByHash E h (poll_state E h n s)))"
  using poll_returns [OF assms(1)] poll_step [of E h "poll_state E h n s"] assms(2,3) by simp

lemma poll_ends_iff: "poll_packed E h s = None \<longleftrightarrow> (\<forall>n. poll_answer E h (poll_state E h n s) = PollSkipped)"
proof
  assume all: "\<forall>n. poll_answer E h (poll_state E h n s) = PollSkipped"
  show "poll_packed E h s = None"
    using poll_diverges [of E h s] all by (cases "poll_packed E h s") auto
next
  assume none: "poll_packed E h s = None"
  show "\<forall>n. poll_answer E h (poll_state E h n s) = PollSkipped"
  proof (rule ccontr)
    assume "\<not> ?thesis"
    then have ex: "\<exists>n. poll_answer E h (poll_state E h n s) \<noteq> PollSkipped" by blast
    define n where "n = (LEAST n. poll_answer E h (poll_state E h n s) \<noteq> PollSkipped)"
    have "poll_answer E h (poll_state E h n s) \<noteq> PollSkipped" unfolding n_def by (rule LeastI_ex [OF ex])
    moreover have "\<forall>m < n. poll_answer E h (poll_state E h m s) = PollSkipped"
      unfolding n_def using not_less_Least by blast
    ultimately show False using poll_first [of n E h s] none by simp
  qed
qed

section \<open>Waiting\<close>

text \<open>Time passes: a request takes at least one unit of the clock, and a sleep does not turn it back.\<close>

definition time_passes :: "('v, 's) rpc_env \<Rightarrow> bool" where
  "time_passes E \<longleftrightarrow>
     (\<forall>name p s. rpc_clock E s < rpc_clock E (snd (rpc_CallMethod E name p s))) \<and>
     (\<forall>n s. rpc_clock E s \<le> rpc_clock E (rpc_sleep E n s))"

lemma receipt_takes_time:
  assumes "time_passes E"
  shows "rpc_clock E s < rpc_clock E (snd (cfx_getTransactionReceipt E h s))"
proof -
  have "snd (cfx_getTransactionReceipt E h s) =
      snd (rpc_CallMethod E ''cfx_getTransactionReceipt'' (js_array (rpc_js E) [js_string (rpc_js E) h]) s)"
    by (auto simp: cfx_getTransactionReceipt_def Stub_cfx_getTransactionReceipt_def CallMethod_def result_object_def
        rpc_bind_def rpc_lift_def rpc_return_def split: prod.splits sum.splits option.splits)
  then show ?thesis using assms by (simp add: time_passes_def)
qed

text \<open>What a result of the loop says.\<close>

definition wait_outcome :: "('v, 's) rpc_env \<Rightarrow> string \<Rightarrow> u32 \<Rightarrow> int \<Rightarrow> (rpc_error + bool) \<times> 's \<Rightarrow> bool" where
  "wait_outcome E h mx t0 x = (case x of (r, s') \<Rightarrow>
     (r = Inr True \<longrightarrow> (\<exists>s0 res. cfx_getTransactionReceipt E h s0 = (Inr res, s') \<and> tr_outcomeStatus res = Some 0)) \<and>
     (r = Inr False \<longrightarrow> elapsed_ms E t0 s' > uint mx) \<and>
     (\<forall>e. r = Inl e \<longrightarrow> \<not> std_exception e))"

lemma late: "\<not> elapsed_ms E t0 s > uint mx \<Longrightarrow> rpc_clock E s < t0 + (uint mx + 1) * 1000000"
  by (simp add: elapsed_ms_def Let_def split: if_splits)


lemma wait_loop_ends:
  assumes "time_passes E"
  shows "nat (t0 + (uint mx + 1) * 1000000 - rpc_clock E s) < n \<Longrightarrow>
    \<exists>x. wait_loop E h mx t0 s = Some x \<and> wait_outcome E h mx t0 x"
proof (induction n arbitrary: s)
  case (Suc n)
  obtain r s' where c: "cfx_getTransactionReceipt E h s = (r, s')" by fastforce
  have t: "rpc_clock E s < rpc_clock E s'" using receipt_takes_time [OF assms, of s h] c by simp
  have again: "\<exists>x. wait_loop E h mx t0 u = Some x \<and> wait_outcome E h mx t0 x"
    if "rpc_clock E s' \<le> rpc_clock E u" "\<not> elapsed_ms E t0 u > uint mx" for u
    using late [OF that(2)] that(1) t Suc.prems by (intro Suc.IH) linarith
  let ?u = "rpc_sleep E 1000 s'"
  have u: "rpc_clock E s' \<le> rpc_clock E ?u" using assms by (simp add: time_passes_def)
  show ?case
  proof (cases r)
    case (Inl e)
    then show ?thesis using again [of s'] c by (subst wait_loop.simps) (auto simp: wait_outcome_def)
  next
    case (Inr res)
    then show ?thesis using again [OF u] c
      by (subst wait_loop.simps) (auto simp: wait_outcome_def Let_def split: option.split)
  qed
qed simp

section \<open>Calling a contract\<close>

context jsoncpp_laws
begin

lemma call_request:
  assumes J: "rpc_js E = J" and a: "plain_address a" and b: "plain_address b"
    and r: "cr_from r = a" "cr_to r = b"
  shows "\<exists>p. call_param E r = Inr p \<and> js_get J p ''to'' = Some (js_string J (verbose b)) \<and>
    js_get J p ''from'' = Some (js_string J (verbose a)) \<and> js_get J p ''data'' = Some (js_string J (js_data (cr_data r)))"
proof -
  define kvs where "kvs = [(''from'', js_string J (verbose a)), (''to'', js_string J (verbose b)),
    (''gas'', js_string J (toJS_number (cr_gas r))), (''gasPrice'', js_string J (toJS_number (cr_gasPrice r))),
    (''nonce'', js_string J (toJS_number (cr_nonce r))), (''value'', js_string J (toJS_number (cr_value r))),
    (''data'', js_string J (js_data (cr_data r)))]"
  have v: "IsValid a" "IsValid b" using a b by (simp_all add: plain_address_def)
  have "call_param E r = Inr (js_object J kvs)"
    using v by (simp add: call_param_def call_address_def r verbose_text [OF a] verbose_text [OF b] Let_def
        js_object_def js_field_def kvs_def J)
  moreover have "distinct (map fst kvs)" by (simp add: kvs_def)
  moreover have "map_of kvs ''to'' = Some (js_string J (verbose b))" "map_of kvs ''from'' = Some (js_string J (verbose a))"
    "map_of kvs ''data'' = Some (js_string J (js_data (cr_data r)))" by (simp_all add: kvs_def)
  ultimately show ?thesis by (simp add: object_get)
qed

end


lemma js_data_long: "bs \<noteq> [] \<Longrightarrow> length bs < 2 ^ 32 \<Longrightarrow> js_data bs = ''0x'' @ toHex bs"
  by (simp add: js_data_def toJS_long Let_def)

lemma call_answer:
  assumes "jsoncpp_laws (rpc_js E)" "call_param E r = Inr p" "length bs < 2 ^ 32"
    and "rpc_CallMethod E ''cfx_call'' (js_array (rpc_js E) [p, js_string (rpc_js E) (cr_epochNumber r)]) s
      = (Some (js_string (rpc_js E) (js_data bs)), s')"
  shows "cfx_call E r s = (Inr bs, s')"
proof -
  have "Stub_cfx_call E p (cr_epochNumber r) s = (Inr (js_data bs), s')"
    using jsoncpp_laws.string_kind [OF assms(1)] assms(4)
    by (simp add: Stub_cfx_call_def rpc_bind_def CallMethod_def result_string_def rpc_lift_def)
  then show ?thesis
    using js_data_decode [OF assms(3)] by (simp add: cfx_call_def assms(2) rpc_return_def)
qed

lemma send_eq:
  assumes "crypto_ok (rpc_crypto E)" "ec_pubkey (rpc_crypto E) (m_secret tx) = Some p" "hash_bool (m_secret tx)"
    and "tx_sized tx" "length (m_data tx) < 2 ^ 31"
    and "ApplyUnsignedTransactionDefault E c (s, tx) = (Inr (), (s1, tx1))"
  shows "sendTransaction E c (s, tx) =
      (case held_signature (rpc_crypto E) (m_secret tx) tx1 of None \<Rightarrow> (Inl (RpcTx NoSignature), (s1, tx1))
       | Some vrs \<Rightarrow> (case Stub_cfx_sendRawTransaction E (''0x'' @ toHex (rlp_enc (signed_tree tx1 vrs))) s1 of
           (r, s2) \<Rightarrow> (r, (s2, tx1\<lparr>m_vrs := Some vrs\<rparr>))))"
proof (cases "held_signature (rpc_crypto E) (m_secret tx) tx1")
  case None
  have k: "m_secret tx1 = m_secret tx" "tx_sized tx1"
    using kept_members [of tx tx1] filled [of E c] assms(4,6) unfolding ends_kept_def tx_sized_def by (blast, metis)
  then have "SignTransaction (rpc_crypto E) tx1 = Inl NoSignature"
    using signed_bytes [OF assms(1), of tx1 p] assms(2,3) None by simp
  then show ?thesis
    using None assms(6) by (simp add: sendTransaction_def rpc_bind_def sign_tx_def)
next
  case (Some vrs)
  let ?C = "rpc_crypto E"
  have "keeps_values tx tx1" using filled [of E c] assms(6) unfolding ends_kept_def by blast
  note k = kept_members [OF this]
  have sized: "tx_sized tx1" "length (m_data tx1) < 2 ^ 31" using assms(4,5) k by (simp_all add: tx_sized_def)
  have sign: "SignTransaction ?C tx1 = Inr (rlp_enc (signed_tree tx1 vrs), tx1\<lparr>m_vrs := Some vrs\<rparr>)"
    using signed_bytes [OF assms(1), of tx1 p] assms(2,3) sized(1) k(1) Some by simp
  have "sendTransaction E c (s, tx) =
      on_node (cfx_sendRawTransaction E (rlp_enc (signed_tree tx1 vrs))) (s1, tx1\<lparr>m_vrs := Some vrs\<rparr>)"
    using assms(6) by (simp add: sendTransaction_def rpc_bind_def sign_tx_def sign)
  moreover have "toJS_bytes (rlp_enc (signed_tree tx1 vrs)) 0 = ''0x'' @ toHex (rlp_enc (signed_tree tx1 vrs))"
    using toJS_long length_signed_le [OF sized] by blast
  ultimately show ?thesis using Some by (simp add: cfx_sendRawTransaction_def on_node_def)
qed

section \<open>A node\<close>

text \<open>
  A node that accepts every transaction, answers no other question, and takes a millisecond for each
  request; its state is the time in milliseconds.
\<close>

definition demo_rpc :: "(Value, nat) rpc_env" where
  "demo_rpc =
     \<lparr>rpc_js = value_js, rpc_decimal = (\<lambda>s. 0), rpc_crypto = demo_crypto, rpc_boost = repo_boost,
      rpc_CallMethod = (\<lambda>name p s.
        (if name = ''cfx_sendRawTransaction'' then Some (stringValue ''0x01'') else None, s + 1)),
      rpc_clock = (\<lambda>s. int s * 1000000), rpc_sleep = (\<lambda>n s. s + n), rpc_ratio = (\<lambda>x. x),
      rpc_order = (\<lambda>S. [])\<rparr>"

definition demo_send_tx :: TransactionBase where
  "demo_send_tx = demo_tx\<lparr>m_secret := nat_be 32 5\<rparr>"

lemma demo_send:
  "crypto_ok (rpc_crypto demo_rpc)" "ec_pubkey (rpc_crypto demo_rpc) (m_secret demo_send_tx) = Some (4 # nat_be 32 5 @ nat_be 32 5)"
  "hash_bool (m_secret demo_send_tx)" "tx_sized demo_send_tx" "length (m_data demo_send_tx) < 2 ^ 31"
  "complete_tx demo_send_tx"
  using demo_crypto_ok demo_secret
  by (simp_all add: demo_rpc_def demo_send_tx_def demo_tx_def tx_sized_def complete_tx_def Invalid256_def)

lemma demo_secret_of: "m_secret demo_send_tx = nat_be 32 5" "rpc_crypto demo_rpc = demo_crypto"
  by (simp_all add: demo_send_tx_def demo_rpc_def)

text \<open>
  A node that also answers a call with the number 100, and reports the status of a transaction, a
  failure, once a second has passed.
\<close>

definition demo_node :: "(Value, nat) rpc_env" where
  "demo_node = demo_rpc\<lparr>rpc_CallMethod := (\<lambda>name p s.
     (if name = ''cfx_sendRawTransaction'' then Some (stringValue ''0x01'')
      else if name = ''cfx_call'' then Some (stringValue (js_data (abi_enc_set [ParamNumberType T_UInt256 100])))
      else if name = ''cfx_getTransactionByHash'' then Some (objectValue
        (if s < 1000 then [(''chainId'', stringValue ''0x1'')]
         else [(''chainId'', stringValue ''0x1''), (''status'', stringValue ''0x1'')]))
      else None, s + 1))\<rparr>"

lemma demo_node_crypto: "rpc_crypto demo_node = rpc_crypto demo_rpc"
  by (simp add: demo_node_def)

lemma demo_int: "jsToInt ''0x1'' = 1"
  by code_simp

lemma demo_member:
  "map_of kvs m = None \<Longrightarrow> jsHasStringValue value_js (objectValue kvs) m = Inr False"
  "map_of kvs m = Some (stringValue t) \<Longrightarrow> jsHasStringValue value_js (objectValue kvs) m = Inr True"
  "map_of kvs m = Some (stringValue t) \<Longrightarrow> mem_string value_js (objectValue kvs) m = Inr t"
  by (simp_all add: jsHasStringValue_def mem_string_def value_js_def js_lift_def)

lemma demo_report:
  assumes "TestnetNullAddress = Inr a"
    and "kvs = [(''chainId'', stringValue ''0x1'')] \<and> st = SkippedOrNotPacked \<or>
      kvs = [(''chainId'', stringValue ''0x1''), (''status'', stringValue ''0x1'')] \<and> st = ErrorOccurred"
  shows "\<exists>res. TransactionByHashResult_fromJson value_js D (objectValue kvs) r = Inr (True, res) \<and> tb_status res = Some st"
proof -
  have a: "Address_ctor null_hex NetworkTypeTestnetID = Inr a" using assms(1) unfolding TestnetNullAddress_def .
  then have n: "NullAddress 1 = Inr a" "InvaildAddress = Inr (a\<lparr>addressType := AddressTypeInvalid\<rparr>)"
    by (simp_all add: NullAddress_def InvaildAddress_def NetworkTypeTestnetID_def)
  have o: "js_isObject value_js (objectValue kvs)" by (simp add: value_js_def)
  show ?thesis
    using assms(2)
    by (auto simp: TransactionByHashResult_fromJson_def n o set_mem_def jsMem2Hash_def jsMem2U256_def jsMem2CfxAddress_def
        jsMem2Uint64_def jsMem2Bytes_def read_status_def demo_member demo_int assigned_def)
qed

lemma demo_asked:
  assumes "TransactionByHashResult_fromJson value_js D (objectValue kvs) r = Inr (True, res)" "D = (\<lambda>s. 0)"
    and "TransactionByHashResult_new = Inr r"
    and "kvs = (if s < 1000 then [(''chainId'', stringValue ''0x1'')]
      else [(''chainId'', stringValue ''0x1''), (''status'', stringValue ''0x1'')])"
  shows "cfx_getTransactionByHash demo_node h s = (Inr res, s + 1)"
proof -
  have "Stub_cfx_getTransactionByHash demo_node h s = (Inr (objectValue kvs), s + 1)"
    by (simp add: Stub_cfx_getTransactionByHash_def rpc_bind_def rpc_lift_def CallMethod_def demo_node_def demo_rpc_def
        result_object_def value_js_def assms(4))
  moreover have "rpc_js demo_node = value_js" "rpc_decimal demo_node = D"
    by (simp_all add: demo_node_def demo_rpc_def assms(2))
  ultimately show ?thesis
    by (simp add: cfx_getTransactionByHash_def rpc_bind_def rpc_lift_def assms(1,3))
qed

lemma demo_no_status:
  "\<exists>res. cfx_getTransactionByHash demo_node ''0x01'' 1 = (Inr res, 2) \<and> tb_status res = Some SkippedOrNotPacked"
proof -
  obtain a where a: "TestnetNullAddress = Inr a" using null_address by blast
  obtain r where r: "TransactionByHashResult_new = Inr r" by (simp add: TransactionByHashResult_new_def a)
  show ?thesis
    using demo_report [OF a, of "[(''chainId'', stringValue ''0x1'')]" SkippedOrNotPacked "\<lambda>s. 0" r]
      demo_asked [OF _ refl r, of "[(''chainId'', stringValue ''0x1'')]" _ 1 "''0x01''"] by fastforce
qed

lemma demo_status:
  "\<exists>res. cfx_getTransactionByHash demo_node ''0x01'' 1002 = (Inr res, 1003) \<and> tb_status res = Some ErrorOccurred"
proof -
  obtain a where a: "TestnetNullAddress = Inr a" using null_address by blast
  obtain r where r: "TransactionByHashResult_new = Inr r" by (simp add: TransactionByHashResult_new_def a)
  let ?kvs = "[(''chainId'', stringValue ''0x1''), (''status'', stringValue ''0x1'')]"
  show ?thesis
    using demo_report [OF a, of ?kvs ErrorOccurred "\<lambda>s. 0" r] demo_asked [OF _ refl r, of ?kvs _ 1002 "''0x01''"]
    by fastforce
qed

section \<open>Properties\<close>

text \<open>
  C16: completing a transaction.  However \<open>ApplyUnsignedTransactionDefault\<close> ends, the transaction
  differs from the given one in the six members it may fill, and of these the ones that had a value
  keep it, with one exception: if the data is empty and one of gas and storage limit is missing, both
  are set, so that a gas limit chosen by the caller is lost.  A transaction with all six members
  is not changed and no request is made.
\<close>

theorem defaults_filled:
  assumes "ApplyUnsignedTransactionDefault E c (s, tx) = (r, (s', tx'))"
  shows "keeps_values tx tx' \<and>
    (complete_tx tx \<longrightarrow> r = Inr () \<and> s' = s \<and> tx' = tx) \<and>
    (r = Inr () \<and> m_data tx = [] \<and> (m_gas tx = Invalid256 \<or> m_storageLimit tx = Invalid256) \<longrightarrow>
       m_gas tx' = TRANSACTION_GAS \<and> m_storageLimit tx' = TRANSACTION_STORAGE_LIMIT)"
proof (intro conjI impI)
  show "keeps_values tx tx'" using filled [of E c] assms unfolding ends_kept_def by blast
  assume a: "r = Inr () \<and> m_data tx = [] \<and> (m_gas tx = Invalid256 \<or> m_storageLimit tx = Invalid256)"
  then obtain s1 tx1 where g: "fill_gas E c (s1, tx1) = (Inr (), (s', tx'))" "m_gas tx1 = m_gas tx"
      "m_storageLimit tx1 = m_storageLimit tx" "m_data tx1 = m_data tx"
    using gas_comes_last [of E c s tx s' tx'] assms by blast
  show "m_gas tx' = TRANSACTION_GAS" "m_storageLimit tx' = TRANSACTION_STORAGE_LIMIT"
    using fill_gas_step [OF g(1)] g(2-4) a by simp_all
qed (use assms complete_filled [of tx E c s] in simp_all)

theorem defaults_filled_witness:
  "ApplyUnsignedTransactionDefault demo_rpc (JsonRpcClient_new ''node'' 1)
       (0, demo_tx\<lparr>m_gas := 50000, m_storageLimit := Invalid256\<rparr>)
     = (Inr (), (0, demo_tx\<lparr>m_gas := 21000, m_storageLimit := 0\<rparr>)) \<and>
   keeps_values (demo_tx\<lparr>m_gas := 50000, m_storageLimit := Invalid256\<rparr>) (demo_tx\<lparr>m_gas := 21000, m_storageLimit := 0\<rparr>)"
proof -
  have a: "ApplyUnsignedTransactionDefault demo_rpc (JsonRpcClient_new ''node'' 1)
       (0, demo_tx\<lparr>m_gas := 50000, m_storageLimit := Invalid256\<rparr>)
     = (Inr (), (0, demo_tx\<lparr>m_gas := 21000, m_storageLimit := 0\<rparr>))"
    by (simp add: ApplyUnsignedTransactionDefault_def rpc_bind_def fill_nonce_def fill_chainId_def fill_gasPrice_def
        fill_epochHeight_def fill_gas_def demo_tx_def Invalid256_def TRANSACTION_GAS_def TRANSACTION_STORAGE_LIMIT_def
        get_tx_def)
  show ?thesis by (rule conjI [OF a conjunct1 [OF defaults_filled [OF a]]])
qed

text \<open>
  C4: what \<open>sendTransaction\<close> sends, for a usable secret and whatever recovery identifier (0 to 3) the
  curve library chooses.  Once the transaction is complete it is signed, and the new signature
  verifies against the public key of the secret and the hash of just the completed fields.  If its
  identifier is at most 1, which is when it is valid, a single request goes to the node: the
  hexadecimal form of the encoding of the nine fields with this signature; the answer of the stub is
  returned and the transaction keeps the signature.  If the identifier is 2 or 3 the new signature is
  dropped: the request carries the signature that the transaction held before, or, if it held none,
  nothing is sent, for the absent signature is read.
\<close>

theorem send_signed:
  assumes "crypto_ok (rpc_crypto E)" "ec_pubkey (rpc_crypto E) (m_secret tx) = Some p" "hash_bool (m_secret tx)"
    and "tx_sized tx" "length (m_data tx) < 2 ^ 31"
    and "ApplyUnsignedTransactionDefault E c (s, tx) = (Inr (), (s1, tx1))"
  shows "\<exists>vrs. vrs = SignatureStruct_of (sign (rpc_crypto E) (m_secret tx) (keccak256 (rpc_crypto E) (rlp_enc (tx_tree tx1)))) \<and>
    verify (rpc_crypto E) (toPublic (rpc_crypto E) (m_secret tx)) (Signature_of vrs)
      (keccak256 (rpc_crypto E) (rlp_enc (tx_tree tx1))) \<and>
    (isValid vrs \<longleftrightarrow> sig_v vrs \<le> 1) \<and>
    sendTransaction E c (s, tx) =
      (case (if sig_v vrs \<le> 1 then Some vrs else m_vrs tx) of
         None \<Rightarrow> (Inl (RpcTx NoSignature), (s1, tx1))
       | Some g \<Rightarrow> (case Stub_cfx_sendRawTransaction E (''0x'' @ toHex (rlp_enc (signed_tree tx1 g))) s1 of
           (r, s2) \<Rightarrow> (r, (s2, tx1\<lparr>m_vrs := Some g\<rparr>))))"
proof -
  have "keeps_values tx tx1" using filled [of E c] assms(6) unfolding ends_kept_def by blast
  then have "m_vrs tx1 = m_vrs tx" by (rule kept_members)
  then show ?thesis
    using signature_verifies [OF assms(1,2), of tx1, unfolded tx_signature_def]
      send_eq [OF assms, unfolded held_signature_def tx_signature_def]
    by (intro exI [of _ "SignatureStruct_of (sign (rpc_crypto E) (m_secret tx) (keccak256 (rpc_crypto E) (rlp_enc (tx_tree tx1))))"]
        conjI refl) simp_all
qed

theorem send_signed_witness:
  "\<exists>vrs. isValid vrs \<and>
    verify demo_crypto (toPublic demo_crypto (nat_be 32 5)) (Signature_of vrs) (keccak256 demo_crypto (rlp_enc (tx_tree demo_send_tx))) \<and>
    sendTransaction demo_rpc (JsonRpcClient_new ''node'' 1) (0, demo_send_tx) =
      (case Stub_cfx_sendRawTransaction demo_rpc (''0x'' @ toHex (rlp_enc (signed_tree demo_send_tx vrs))) 0 of
         (r, s2) \<Rightarrow> (r, (s2, demo_send_tx\<lparr>m_vrs := Some vrs\<rparr>)))"
proof -
  let ?vrs = "SignatureStruct_of (sign demo_crypto (nat_be 32 5) (keccak256 demo_crypto (rlp_enc (tx_tree demo_send_tx))))"
  show ?thesis
    using send_signed [OF demo_send(1-5) complete_filled [OF demo_send(6)], of "JsonRpcClient_new ''node'' 1" 0]
    by (intro exI [of _ ?vrs]) (simp add: demo_secret_of demo_v)
qed

text \<open>
  C12: calling a contract.  Let the arguments satisfy \<open>flat\<close> (a \<open>bytesN\<close> has its \<open>N\<close> bytes, fixed
  arrays are not empty, tuples have a dynamic component, and inside arrays and tuples a static
  argument is at most one word) and the results satisfy \<open>flat\<close> and \<open>decodable\<close> (moreover numbers
  are not negative, except in the widths of \<open>ParamIntN\<close>, and in range, arrays are not empty, and the
  elements of fixed arrays are static), with encodings below 4 GB.  Then \<open>Contract::Call\<close> of the
  function sends a request whose data is the selector of the function and the ABI encoding of the
  arguments, addressed to the contract; if the node answers with the ABI encoding of results of the
  declared types, the function holds these results afterwards.
\<close>

theorem contract_call:
  assumes "jsoncpp_laws (rpc_js E)" "boost_laws (rpc_boost E)" "\<And>x. length (keccak256 (rpc_crypto E) x) = 32"
    and "plain_address (ct_address ct)" "\<forall>p \<in> set (inParams f). flat p" "length (abi_enc_set (inParams f)) + 4 < 2 ^ 32"
    and "\<forall>p \<in> set outs. flat p \<and> decodable p \<and> depth p \<le> k" "map blank (outParams f) = map blank outs"
    and "length (abi_enc_set outs) < 2 ^ 32"
  shows "\<exists>p. js_get (rpc_js E) p ''to'' = Some (js_string (rpc_js E) (verbose (ct_address ct))) \<and>
    js_get (rpc_js E) p ''data'' = Some (js_string (rpc_js E)
      (''0x'' @ toHex (getSignature (keccak256 (rpc_crypto E)) f @ abi_enc_set (inParams f)))) \<and>
    (\<forall>s s'. rpc_CallMethod E ''cfx_call'' (js_array (rpc_js E) [p, js_string (rpc_js E) ''latest_state'']) s
        = (Some (js_string (rpc_js E) (js_data (abi_enc_set outs))), s') \<longrightarrow>
      Contract_Call_function E k ct f s = (Inr (abi_enc_set outs, f\<lparr>outParams := outs\<rparr>), s'))"
proof -
  let ?J = "rpc_js E" and ?e = "getSignature (keccak256 (rpc_crypto E)) f @ abi_enc_set (inParams f)"
  obtain z where z: "TestnetNullAddress = Inr z" "plain_address z" using null_address by blast
  define r where "r = \<lparr>cr_from = z, cr_to = ct_address ct, cr_value = 0, cr_data = ?e, cr_nonce = 0, cr_gas = 500000000,
    cr_gasPrice = 1, cr_epochNumber = ''latest_state''\<rparr>"
  have new: "Contract_Call E ct ?e = cfx_call E r"
    by (simp add: fun_eq_iff Contract_Call_def CallRequest_new_def z(1) r_def EpochNumber_of_def)
  obtain p where p: "call_param E r = Inr p" "js_get ?J p ''to'' = Some (js_string ?J (verbose (ct_address ct)))"
    "js_get ?J p ''data'' = Some (js_string ?J (js_data ?e))"
    using jsoncpp_laws.call_request [OF assms(1) refl z(2) assms(4), of r] by (auto simp: r_def)
  have sg: "length (getSignature (keccak256 (rpc_crypto E)) f) = 4"
    using assms(3) by (simp add: getSignature_def signature_of_name_def)
  then have data: "js_data ?e = ''0x'' @ toHex ?e"
    using assms(6) by (intro js_data_long) auto
  have enc: "Function_encode (keccak256 (rpc_crypto E)) (rpc_boost E) f [] = Inr ?e"
    using boost_laws.ParamSet_encode_eq [OF assms(2,5)] by (simp add: Function_encode_def)
  have "decode_set (rpc_boost E) k (outParams f) (abi_enc_set outs) 0 = Inr (True, outs, length (abi_enc_set outs))"
    using boost_laws.decode_set_decodable [OF assms(2,8), of k "[]" "[]"] assms(7,9) by simp
  then have dec: "decodeOutput (rpc_boost E) k f (abi_enc_set outs) 0
      = Inr (True, f\<lparr>outParams := outs\<rparr>, length (abi_enc_set outs))"
    by (simp add: decodeOutput_def)
  show ?thesis
    using p data call_answer [OF assms(1) p(1) assms(9)]
    by (intro exI [of _ p]) (simp add: Contract_Call_function_def enc new dec rpc_bind_def rpc_lift_def rpc_return_def r_def)
qed

theorem contract_call_witness:
  "\<exists>a p. TestnetNullAddress = Inr a \<and> js_get value_js p ''to'' = Some (stringValue (verbose a)) \<and>
    rpc_CallMethod demo_node ''cfx_call'' (js_array value_js [p, stringValue ''latest_state'']) 0
      = (Some (stringValue (js_data (abi_enc_set [ParamNumberType T_UInt256 100]))), 1) \<and>
    Contract_Call_function demo_node 0 (Contract_new (JsonRpcClient_new ''node'' 1) a)
        \<lparr>fn_name = ''balanceOf'', inParams = [ParamAddress 9], outParams = [ParamNumberType T_UInt256 0]\<rparr> 0
      = (Inr (abi_enc_set [ParamNumberType T_UInt256 100],
          \<lparr>fn_name = ''balanceOf'', inParams = [ParamAddress 9], outParams = [ParamNumberType T_UInt256 100]\<rparr>), 1)"
proof -
  obtain a where a: "TestnetNullAddress = Inr a" "plain_address a" using null_address by blast
  have J: "rpc_js demo_node = value_js" "rpc_boost demo_node = repo_boost" "rpc_crypto demo_node = demo_crypto"
    "js_string value_js = stringValue" by (simp_all add: demo_node_def demo_rpc_def value_js_def)
  have ans: "rpc_CallMethod demo_node ''cfx_call'' q 0
      = (Some (stringValue (js_data (abi_enc_set [ParamNumberType T_UInt256 100]))), 1)" for q
    by (simp add: demo_node_def)
  have len: "length (abi_enc_set [ParamNumberType T_UInt256 100]) < 2 ^ 32" "length (abi_enc_set [ParamAddress 9]) + 4 < 2 ^ 32"
    by (simp_all add: abi_enc_set_def abi_tuple_def)
  have k: "length (keccak256 (rpc_crypto demo_node) x) = 32" for x
    using demo_crypto_ok by (simp add: J crypto_ok_def)
  let ?f = "\<lparr>fn_name = ''balanceOf'', inParams = [ParamAddress 9], outParams = [ParamNumberType T_UInt256 0]\<rparr>"
  note call = contract_call [of demo_node "Contract_new (JsonRpcClient_new ''node'' 1) a" ?f
      "[ParamNumberType T_UInt256 100]" 0, unfolded J, OF tree_js.jsoncpp_laws_axioms repo.boost_laws_axioms k [unfolded J]]
  have "\<exists>p. js_get value_js p ''to'' = Some (stringValue (verbose a)) \<and>
      (\<forall>s s'. rpc_CallMethod demo_node ''cfx_call'' (js_array value_js [p, stringValue ''latest_state'']) s
        = (Some (stringValue (js_data (abi_enc_set [ParamNumberType T_UInt256 100]))), s') \<longrightarrow>
      Contract_Call_function demo_node 0 (Contract_new (JsonRpcClient_new ''node'' 1) a) ?f s
        = (Inr (abi_enc_set [ParamNumberType T_UInt256 100], ?f\<lparr>outParams := [ParamNumberType T_UInt256 100]\<rparr>), s'))"
    using call a(2) len by (simp add: Contract_new_def num_ok_def) blast
  then show ?thesis using a(1) ans by auto
qed

text \<open>
  C32: when deployment ends and how, once the transaction has been sent (\<open>sendTransaction\<close> returned a
  hash).  The loop of \<open>DeployContract\<close> runs forever if and only if every question about the
  transaction is answered by \<open>skipped or not packed\<close>; it has no bound of its own.  Otherwise the
  first question that ends differently decides: if it reports another status, \<open>DeployContract\<close> ends
  with the result made of the report, and if it fails (by an exception, a failed assertion or a status
  that was never set), \<open>DeployContract\<close> ends with this failure.
\<close>

theorem deploy_returns_iff:
  assumes "sendTransaction E c (s, tx) = (Inr h, (s1, tx1))"
  shows "(DeployContract E c (s, tx) = None \<longleftrightarrow> (\<forall>n. poll_answer E h (poll_state E h n s1) = PollSkipped)) \<and>
    (\<forall>n. (\<forall>m < n. poll_answer E h (poll_state E h m s1) = PollSkipped) \<longrightarrow>
      (case poll_answer E h (poll_state E h n s1) of
         PollSkipped \<Rightarrow> True
       | PollSettled res \<Rightarrow> DeployContract E c (s, tx) =
           Some (deploy_result c res, (snd (cfx_getTransactionByHash E h (poll_state E h n s1)), tx1))
       | PollFails e \<Rightarrow> DeployContract E c (s, tx) =
           Some (Inl e, (snd (cfx_getTransactionByHash E h (poll_state E h n s1)), tx1))))"
proof (intro conjI allI impI)
  have d: "DeployContract E c (s, tx) =
      map_option (\<lambda>(r, s'). (bind_res r (deploy_result c), (s', tx1))) (poll_packed E h s1)"
    using assms by (simp add: DeployContract_def)
  then show "DeployContract E c (s, tx) = None \<longleftrightarrow> (\<forall>n. poll_answer E h (poll_state E h n s1) = PollSkipped)"
    using poll_ends_iff [of E h s1] by simp
  fix n assume "\<forall>m < n. poll_answer E h (poll_state E h m s1) = PollSkipped"
  note first = poll_first [OF this]
  show "case poll_answer E h (poll_state E h n s1) of
         PollSkipped \<Rightarrow> True
       | PollSettled res \<Rightarrow> DeployContract E c (s, tx) =
           Some (deploy_result c res, (snd (cfx_getTransactionByHash E h (poll_state E h n s1)), tx1))
       | PollFails e \<Rightarrow> DeployContract E c (s, tx) =
           Some (Inl e, (snd (cfx_getTransactionByHash E h (poll_state E h n s1)), tx1))"
    using first by (simp add: d poll_result_def split: poll_answer.split)
qed

theorem deploy_returns_iff_witness:
  "\<exists>tx1 res. poll_answer demo_node ''0x01'' 1 = PollSkipped \<and> poll_answer demo_node ''0x01'' 1002 = PollSettled res \<and>
    tb_status res = Some ErrorOccurred \<and>
    DeployContract demo_node (JsonRpcClient_new ''node'' 1) (0, demo_send_tx)
      = Some (deploy_result (JsonRpcClient_new ''node'' 1) res, (1003, tx1))"
proof -
  let ?c = "JsonRpcClient_new ''node'' 1"
  obtain vrs where v: "held_signature (rpc_crypto demo_node) (m_secret demo_send_tx) demo_send_tx = Some vrs"
    by (simp add: held_signature_def tx_signature_def demo_node_crypto demo_secret_of demo_v)
  have stub: "Stub_cfx_sendRawTransaction demo_node h 0 = (Inr ''0x01'', 1)" for h
    by (simp add: Stub_cfx_sendRawTransaction_def rpc_bind_def CallMethod_def demo_node_def demo_rpc_def result_string_def
        rpc_lift_def value_js_def)
  have send: "sendTransaction demo_node ?c (0, demo_send_tx) = (Inr ''0x01'', (1, demo_send_tx\<lparr>m_vrs := Some vrs\<rparr>))"
    using send_eq [OF demo_send(1-5) [folded demo_node_crypto] complete_filled [OF demo_send(6)], of ?c 0]
    by (simp add: v stub)
  obtain res where r: "cfx_getTransactionByHash demo_node ''0x01'' 1002 = (Inr res, 1003)" "tb_status res = Some ErrorOccurred"
    using demo_status by blast
  have "poll_answer demo_node ''0x01'' 1 = PollSkipped" "poll_answer demo_node ''0x01'' 1002 = PollSettled res"
    using r demo_no_status by (auto simp: poll_answer_def)
  moreover have "poll_state demo_node ''0x01'' 1 1 = 1002"
    using demo_no_status by (auto simp: demo_node_def demo_rpc_def)
  ultimately show ?thesis
    using deploy_returns_iff [OF send] r by (auto dest!: spec [of _ 1])
qed

text \<open>
  C31: \<open>WaitTransactionFinished\<close> always returns if requests take time.  It returns true only on a
  receipt with outcome 0 in its last request, false only after more than the given number of
  milliseconds, and no exception of a request gets through.
\<close>

theorem wait_returns:
  assumes "time_passes E"
  shows "\<exists>x. WaitTransactionFinished E h max_wait_ms s = Some x \<and> wait_outcome E h max_wait_ms (rpc_clock E s) x"
  unfolding WaitTransactionFinished_def by (rule wait_loop_ends [OF assms lessI])

theorem wait_returns_witness:
  "\<exists>x. WaitTransactionFinished demo_rpc ''0x01'' 5000 0 = Some x \<and> wait_outcome demo_rpc ''0x01'' 5000 0 x"
  using wait_returns [of demo_rpc "''0x01''" 5000 0] by (simp add: time_passes_def demo_rpc_def)

end
