(* ===== verification/Ecies.thy ===== *)
theory Ecies
  imports Dev_Crypto
begin

text \<open>
  \<^verbatim>\<open>libdevcrypto/CryptoPP.cpp\<close>, \<^verbatim>\<open>AES.cpp\<close> and the encrypting part of \<^verbatim>\<open>libdevcrypto/Common.cpp\<close>:
  key agreement, ECIES messages with their authentication tag, the creation of key pairs and seeds
  encrypted with a password.  What libsecp256k1 and Crypto++ add to the record \<open>crypto\<close> is the record
  \<open>ecies_lib\<close>; its documented laws are the locale \<open>ecies_laws\<close>.  Random draws are arguments.
\<close>

section \<open>The libraries\<close>

record ecies_lib =
  pubkey_parse :: "bytes \<Rightarrow> bytes option"
  pubkey_uncompressed :: "bytes \<Rightarrow> bytes"
  pubkey_compressed :: "bytes \<Rightarrow> bytes option"
  ecdh_raw :: "bytes \<Rightarrow> bytes \<Rightarrow> bytes option"
  ec_verify :: "bytes \<Rightarrow> bytes \<Rightarrow> bytes \<Rightarrow> bool option"
  hmac_sha256 :: "bytes \<Rightarrow> bytes \<Rightarrow> bytes"
  pbkdf2_derive :: "bytes \<Rightarrow> bytes \<Rightarrow> nat \<Rightarrow> nat \<Rightarrow> bytes \<times> nat"
  scrypt_derive :: "bytes \<Rightarrow> bytes \<Rightarrow> nat \<Rightarrow> nat \<Rightarrow> nat \<Rightarrow> nat \<Rightarrow> bytes option"
  cbc_decrypt :: "bytes \<Rightarrow> bytes \<Rightarrow> bytes \<Rightarrow> bytes option"
  pp_encrypt :: "bytes \<Rightarrow> nat \<Rightarrow> bytes \<Rightarrow> bytes"
  pp_decrypt :: "bytes \<Rightarrow> bytes \<Rightarrow> bytes option"
  pp_max_plain :: "nat \<Rightarrow> nat"

section \<open>Hashes\<close>

text \<open>
  \<^verbatim>\<open>libdevcore/SHA3\<close>: the hash written into a buffer, refused unless that has 32 bytes, and the
  functions on top of it.  The overloads for byte strings, texts, hashes and their secure variants
  differ in the type of the input only.
\<close>

definition sha3_into :: "crypto \<Rightarrow> bytes \<Rightarrow> bytes \<Rightarrow> bool \<times> bytes" where
  "sha3_into C input o_output =
     (if length o_output \<noteq> 32 then (False, o_output) else (True, keccak256 C input))"

definition sha3 :: "crypto \<Rightarrow> bytes \<Rightarrow> FixedHash" where
  "sha3 C input = snd (sha3_into C input (hash_zero 32))"

definition sha3_text :: "crypto \<Rightarrow> string \<Rightarrow> bool \<Rightarrow> hex_error + string" where
  "sha3_text C input isNibbles =
     bind_res (if isNibbles then fromHex input DontThrow else Inr (asBytes input))
       (\<lambda>b. Inr (asString (sha3 C b)))"

text \<open>\<open>populate\<close> copies what fits and zeroes the rest of the target.\<close>

definition populate :: "bytes \<Rightarrow> bytes \<Rightarrow> bytes" where
  "populate src t = take (length t) src @ replicate (length t - length src) 0"

definition sha3mac :: "crypto \<Rightarrow> bytes \<Rightarrow> bytes \<Rightarrow> bytes \<Rightarrow> bytes" where
  "sha3mac C secret plain output = populate (sha3 C (secret @ plain)) output"

definition EmptySHA3 :: "crypto \<Rightarrow> FixedHash" where
  "EmptySHA3 C = sha3 C []"

definition EmptyListSHA3 :: "crypto \<Rightarrow> rlp_error + FixedHash" where
  "EmptyListSHA3 C = bind_res (RLPStream_list 0) (\<lambda>r. bind_res (stream_out r) (\<lambda>out. Inr (sha3 C out)))"

definition sha256 :: "crypto \<Rightarrow> bytes \<Rightarrow> FixedHash" where
  "sha256 C input = sha256_of C input"

lemma sha3_keccak: "sha3 C x = keccak256 C x"
  by (simp add: sha3_def sha3_into_def)

lemma sha3mac_keccak:
  "crypto_ok C \<Longrightarrow> length out = 32 \<Longrightarrow> sha3mac C secret plain out = keccak256 C (secret @ plain)"
  by (simp add: sha3mac_def populate_def sha3_keccak crypto_ok_def)

lemma EmptyListSHA3_eq: "EmptyListSHA3 C = Inr (keccak256 C [0xc0])"
  by (simp add: EmptyListSHA3_def RLPStream_list_def appendList_def appendList_bytes_def appendRaw_def push_out_def
      noteAppended_def RLPStream_empty_def stream_out_def rlp_consts sha3_keccak)

section \<open>Compressed keys\<close>

definition toPublic_compressed :: "ecies_lib \<Rightarrow> FixedHash \<Rightarrow> FixedHash" where
  "toPublic_compressed L pc =
     (case pubkey_parse L pc of None \<Rightarrow> hash_zero 64 | Some raw \<Rightarrow> drop 1 (pubkey_uncompressed L raw))"

definition toPublicCompressed :: "ecies_lib \<Rightarrow> FixedHash \<Rightarrow> FixedHash" where
  "toPublicCompressed L secret = (case pubkey_compressed L secret of None \<Rightarrow> hash_zero 33 | Some p \<Rightarrow> p)"

text \<open>\<open>ec_verify\<close> is \<open>None\<close> on a signature that does not parse.\<close>

definition verify_compressed :: "ecies_lib \<Rightarrow> FixedHash \<Rightarrow> FixedHash \<Rightarrow> FixedHash \<Rightarrow> bool" where
  "verify_compressed L key signature h =
     (case pubkey_parse L key of
        None \<Rightarrow> False
      | Some raw \<Rightarrow> (case ec_verify L signature h raw of None \<Rightarrow> False | Some ok \<Rightarrow> ok))"

section \<open>Key agreement and random keys\<close>

text \<open>\<open>ecdh::agree\<close> with the secret it writes; a failure leaves the secret as it was.\<close>

definition agree :: "ecies_lib \<Rightarrow> FixedHash \<Rightarrow> FixedHash \<Rightarrow> FixedHash \<Rightarrow> bool \<times> FixedHash" where
  "agree L s r o_s =
     (case pubkey_parse L (4 # r) of
        None \<Rightarrow> (False, o_s)
      | Some raw \<Rightarrow>
          (case ecdh_raw L raw s of
             None \<Rightarrow> (False, o_s)
           | Some compressedPoint \<Rightarrow> (True, drop 1 compressedPoint)))"

text \<open>
  \<open>KeyPair::create\<close> over the draws of \<open>Secret::random\<close>; \<open>None\<close> when the draws given end before the loop
  does.
\<close>

fun KeyPair_create :: "crypto \<Rightarrow> FixedHash list \<Rightarrow> KeyPair option" where
  "KeyPair_create C [] = None"
| "KeyPair_create C (s # draws) =
     (let keyPair = KeyPair_of C s in
      if hash_bool (kp_address keyPair) then Some keyPair else KeyPair_create C draws)"

section \<open>Passwords\<close>

datatype derive_error = CryptoException

definition pbkdf2 :: "ecies_lib \<Rightarrow> string \<Rightarrow> bytes \<Rightarrow> u32 \<Rightarrow> u32 \<Rightarrow> derive_error + bytes" where
  "pbkdf2 L pass salt iterations dkLen =
     (let (ret, n) = pbkdf2_derive L (asBytes pass) salt (unat iterations) (unat dkLen)
      in if n \<noteq> unat iterations then Inl CryptoException else Inr ret)"

definition scrypt :: "ecies_lib \<Rightarrow> string \<Rightarrow> bytes \<Rightarrow> u64 \<Rightarrow> u32 \<Rightarrow> u32 \<Rightarrow> u32 \<Rightarrow> derive_error + bytes" where
  "scrypt L pass salt n r p dkLen =
     (case scrypt_derive L (asBytes pass) salt (unat n) (unat r) (unat p) (unat dkLen) of
        None \<Rightarrow> Inl CryptoException
      | Some ret \<Rightarrow> Inr ret)"

text \<open>\<open>aesDecrypt\<close>: an empty salt is replaced by the password, and every failure gives no bytes.\<close>

definition aesDecrypt :: "ecies_lib \<Rightarrow> bytes \<Rightarrow> string \<Rightarrow> u32 \<Rightarrow> bytes \<Rightarrow> bytes" where
  "aesDecrypt L ivCipher password rounds salt =
     (let pw = asBytes password;
          salt = (if salt = [] then pw else salt);
          target = fst (pbkdf2_derive L pw salt (unat rounds) 64)
      in case cbc_decrypt L (take 16 target) (cropped ivCipher 0 16) (cropped_from ivCipher 16) of
           None \<Rightarrow> []
         | Some decrypted \<Rightarrow> decrypted)"

definition KeyPair_fromEncryptedSeed :: "crypto \<Rightarrow> ecies_lib \<Rightarrow> bytes \<Rightarrow> string \<Rightarrow> KeyPair" where
  "KeyPair_fromEncryptedSeed C L seed password =
     KeyPair_of C (keccak256 C (aesDecrypt L seed password 2000 []))"

section \<open>ECIES messages\<close>

definition c_eciesOverhead :: nat where
  "c_eciesOverhead = 113"

text \<open>\<open>copyTo\<close> into the part of a buffer that starts at \<open>i\<close> and has \<open>n\<close> bytes.\<close>

definition copy_into :: "bytes \<Rightarrow> nat \<Rightarrow> nat \<Rightarrow> bytes \<Rightarrow> bytes" where
  "copy_into src i n msg = take i msg @ take n src @ drop (i + min n (length src)) msg"

definition encryptSymNoAuth :: "crypto \<Rightarrow> FixedHash \<Rightarrow> FixedHash \<Rightarrow> bytes \<Rightarrow> bytes" where
  "encryptSymNoAuth C k iv plain = encryptAES128CTR C k iv plain"

definition decryptSymNoAuth :: "crypto \<Rightarrow> FixedHash \<Rightarrow> FixedHash \<Rightarrow> bytes \<Rightarrow> bytes" where
  "decryptSymNoAuth C k iv cipher = decryptAES128CTR C k iv cipher"

text \<open>
  The random initialisation vector is the first half of a nonce's 32 bytes: \<open>h128\<close> of an \<open>h256\<close>
  aligns left.
\<close>

definition encryptSymNoAuth_random ::
  "crypto \<Rightarrow> FixedHash \<Rightarrow> FixedHash \<Rightarrow> FixedHash \<Rightarrow> bytes \<Rightarrow> crypto_error + (FixedHash \<times> bytes \<times> FixedHash)" where
  "encryptSymNoAuth_random C rnd m_value k plain =
     bind_res (Nonce_next C rnd m_value) (\<lambda>(v, nonce).
       let iv = hash_of_hash 16 nonce AlignLeft in Inr (v, encryptSymNoAuth C k iv plain, iv))"

text \<open>
  \<open>Secp256k1PP::encryptECIES\<close> with the key pair \<open>r\<close> and the vector \<open>iv\<close> it draws; the result is the new
  value of \<open>io_cipher\<close>.
\<close>

definition pp_encryptECIES ::
  "crypto \<Rightarrow> ecies_lib \<Rightarrow> KeyPair \<Rightarrow> FixedHash \<Rightarrow> FixedHash \<Rightarrow> bytes \<Rightarrow> bytes \<Rightarrow> bytes" where
  "pp_encryptECIES C L r iv k sharedMacData io_cipher =
     (let z = snd (agree L (kp_secret r) k (hash_zero 32));
          key = ecies_kdf C z [] 32;
          eKey = cropped key 0 16;
          mKeyMaterial = cropped key 16 16;
          mKey = sha256_of C mKeyMaterial;
          cipherText = encryptSymNoAuth C (hash_of_bytes 16 eKey FailIfDifferent) iv io_cipher;
          n = length cipherText
      in if cipherText = [] then io_cipher
         else (let msg = replicate (1 + 64 + 16 + n + 32) 0;
                   msg = msg[0 := 4];
                   msg = copy_into (kp_public r) 1 64 msg;
                   msg = copy_into iv (1 + 64) 16 msg;
                   msg = copy_into cipherText (1 + 64 + 16) n msg;
                   cipherWithIV = cropped msg (1 + 64) (16 + n)
               in copy_into (hmac_sha256 L mKey (cipherWithIV @ sharedMacData)) (1 + 64 + length cipherWithIV) 32 msg))"

text \<open>The comparison of the tags, byte by byte.\<close>

fun tags_equal :: "nat \<Rightarrow> bytes \<Rightarrow> bytes \<Rightarrow> bool" where
  "tags_equal 0 mac msgMac = True"
| "tags_equal (Suc n) (a # mac) (b # msgMac) = (if a \<noteq> b then False else tags_equal n mac msgMac)"
| "tags_equal (Suc n) _ _ = False"

definition pp_decryptECIES ::
  "crypto \<Rightarrow> ecies_lib \<Rightarrow> FixedHash \<Rightarrow> bytes \<Rightarrow> bytes \<Rightarrow> bool \<times> bytes" where
  "pp_decryptECIES C L k sharedMacData io_text =
     (if io_text = [] \<or> io_text ! 0 < 2 \<or> io_text ! 0 > 4 then (False, io_text)
      else if length io_text < 1 + 64 + 16 + 1 + 32 then (False, io_text)
      else
        (let (ok, z) = agree L k (take 64 (drop 1 io_text)) (hash_zero 32) in
         if \<not> ok then (False, io_text)
         else
           (let key = ecies_kdf C z [] 64;
                eKey = cropped key 0 16;
                mKeyMaterial = cropped key 16 16;
                mKey = sha256_of C mKeyMaterial;
                cipherLen = length io_text - 1 - 64 - 16 - 32;
                cipherWithIV = take (16 + cipherLen) (drop (1 + 64) io_text);
                cipherIV = cropped cipherWithIV 0 16;
                cipherNoIV = cropped cipherWithIV 16 cipherLen;
                msgMac = take 32 (drop (1 + 64 + 16 + cipherLen) io_text);
                iv = hash_of_bytes 16 cipherIV FailIfDifferent;
                mac = hmac_sha256 L mKey (cipherWithIV @ sharedMacData)
            in if \<not> tags_equal 32 mac msgMac then (False, io_text)
               else (True, decryptSymNoAuth C (hash_of_bytes 16 eKey FailIfDifferent) iv cipherNoIV))))"

text \<open>
  The functions of \<open>dev\<close>: the output is the second component, and keeps its value on failure.  The
  overloads without shared data pass none.
\<close>

definition encryptECIES ::
  "crypto \<Rightarrow> ecies_lib \<Rightarrow> KeyPair \<Rightarrow> FixedHash \<Rightarrow> FixedHash \<Rightarrow> bytes \<Rightarrow> bytes \<Rightarrow> bytes" where
  "encryptECIES C L r iv k sharedMacData plain = pp_encryptECIES C L r iv k sharedMacData plain"

definition decryptECIES ::
  "crypto \<Rightarrow> ecies_lib \<Rightarrow> FixedHash \<Rightarrow> bytes \<Rightarrow> bytes \<Rightarrow> bytes \<Rightarrow> bool \<times> bytes" where
  "decryptECIES C L k sharedMacData cipher o_plaintext =
     (let (ok, io) = pp_decryptECIES C L k sharedMacData cipher
      in if \<not> ok then (False, o_plaintext) else (True, io))"

section \<open>The ECIES of Crypto++\<close>

definition dev_encrypt :: "ecies_lib \<Rightarrow> nat \<Rightarrow> FixedHash \<Rightarrow> bytes \<Rightarrow> bytes" where
  "dev_encrypt L rng k plain = pp_encrypt L k rng plain"

text \<open>
  \<open>Secp256k1PP::decrypt\<close>: an empty message is read as one zero byte, and the buffer that is moved into
  the result has the largest length a plaintext can have, whatever was written to it.
\<close>

definition pp_decrypt_io :: "ecies_lib \<Rightarrow> FixedHash \<Rightarrow> bytes \<Rightarrow> bytes" where
  "pp_decrypt_io L k io_text =
     (let io_text = (if length io_text = 0 then [0] else io_text);
          plain = replicate (pp_max_plain L (length io_text)) 0
      in case pp_decrypt L k io_text of
           None \<Rightarrow> []
         | Some written \<Rightarrow> written @ drop (length written) plain)"

definition dev_decrypt :: "ecies_lib \<Rightarrow> FixedHash \<Rightarrow> bytes \<Rightarrow> bytes \<Rightarrow> bool \<times> bytes" where
  "dev_decrypt L k cipher o_plaintext =
     (let io = pp_decrypt_io L k cipher in if io = [] then (False, o_plaintext) else (True, io))"

definition encryptSym :: "crypto \<Rightarrow> ecies_lib \<Rightarrow> nat \<Rightarrow> FixedHash \<Rightarrow> bytes \<Rightarrow> bytes" where
  "encryptSym C L rng k plain = dev_encrypt L rng (kp_public (KeyPair_of C k)) plain"

definition decryptSym :: "ecies_lib \<Rightarrow> FixedHash \<Rightarrow> bytes \<Rightarrow> bytes \<Rightarrow> bool \<times> bytes" where
  "decryptSym L k cipher o_plain = dev_decrypt L k cipher o_plain"

section \<open>The keys and the message\<close>

text \<open>
  The two keys of a shared secret and the message that carries them, without buffers: the first
  block of the derivation is split into the cipher key and the material of the tag key.
\<close>

definition ecies_block :: "crypto \<Rightarrow> FixedHash \<Rightarrow> bytes" where
  "ecies_block C z = sha256_of C ([0, 0, 0, 1] @ z)"

definition cipher_key :: "crypto \<Rightarrow> FixedHash \<Rightarrow> bytes" where
  "cipher_key C z = take 16 (ecies_block C z)"

definition tag_key :: "crypto \<Rightarrow> FixedHash \<Rightarrow> bytes" where
  "tag_key C z = sha256_of C (drop 16 (ecies_block C z))"

definition ecies_message :: "crypto \<Rightarrow> ecies_lib \<Rightarrow> FixedHash \<Rightarrow> byte \<Rightarrow> bytes \<Rightarrow> bytes \<Rightarrow> bytes \<Rightarrow> bytes \<Rightarrow> bytes" where
  "ecies_message C L z b pub iv ct shared =
     b # pub @ iv @ ct @ hmac_sha256 L (tag_key C z) (iv @ ct @ shared)"

text \<open>What is documented of the libraries: lengths, the counter mode, and the agreement of the curve.\<close>

locale hash_laws =
  fixes C :: crypto and L :: ecies_lib
  assumes length_sha256: "length (sha256_of C x) = 32"
    and length_hmac: "length (hmac_sha256 L k x) = 32"
begin

lemma length_block: "length (ecies_block C z) = 32"
  by (simp add: ecies_block_def length_sha256)

lemma kdf_32: "ecies_kdf C z [] 32 = ecies_block C z"
  by (simp add: ecies_kdf_def ecies_block_def length_sha256)

lemma kdf_64: "ecies_kdf C z [] 64 = ecies_block C z @ sha256_of C ([0, 0, 0, 2] @ z)"
proof -
  have two: "kdf_loop C (1 + 1) [0, 0, 0, 1] z [] [] = ecies_block C z @ sha256_of C (hash_inc [0, 0, 0, 1] @ z)"
    by (simp add: ecies_block_def)
  have inc: "hash_inc [0, 0, 0, 1] = [0, 0, 0, 2]" by (simp add: hash_inc_def)
  show ?thesis
    using length_block [of z] by (simp add: ecies_kdf_def two [simplified] inc [simplified] length_sha256)
qed

lemma keys_of_kdf:
  assumes "key = ecies_block C z @ rest"
  shows "hash_of_bytes 16 (cropped key 0 16) FailIfDifferent = cipher_key C z"
    and "sha256_of C (cropped key 16 16) = tag_key C z"
  using length_block [of z] by (simp_all add: assms cropped_def hash_of_bytes_def cipher_key_def tag_key_def)

lemma tags_equal_iff: "length a = n \<Longrightarrow> length b = n \<Longrightarrow> tags_equal n a b \<longleftrightarrow> a = b"
  by (induction n a b rule: tags_equal.induct) auto

end

locale ecies_laws = hash_laws +
  assumes aes_total: "length k = 16 \<Longrightarrow> length iv = 16 \<Longrightarrow> \<exists>y. aes_ctr C k iv x = Some y"
    and aes_inverse: "aes_ctr C k iv x = Some y \<Longrightarrow> length y = length x \<and> aes_ctr C k iv y = Some x"
    and pubkey_form: "ec_pubkey C s = Some p \<Longrightarrow> length p = 65 \<and> p ! 0 = 4"
    and ecdh_agrees: "ec_pubkey C s = Some p \<Longrightarrow> ec_pubkey C t = Some q \<Longrightarrow>
      \<exists>a b pt. pubkey_parse L p = Some a \<and> pubkey_parse L q = Some b \<and>
        ecdh_raw L b s = Some pt \<and> ecdh_raw L a t = Some pt \<and> length pt = 33"
begin

lemma pubkey_cons: "ec_pubkey C s = Some p \<Longrightarrow> p = 4 # drop 1 p \<and> length (drop 1 p) = 64"
  using pubkey_form by (cases p) fastforce+

text \<open>Both sides come to one secret.\<close>

lemma agree_both:
  assumes "ec_pubkey C s = Some p" "ec_pubkey C t = Some q"
  shows "\<exists>z. agree L s (drop 1 q) d = (True, z) \<and> agree L t (drop 1 p) d = (True, z) \<and> length z = 32"
proof -
  obtain a b pt where "pubkey_parse L p = Some a" "pubkey_parse L q = Some b"
    "ecdh_raw L b s = Some pt" "ecdh_raw L a t = Some pt" "length pt = 33"
    using ecdh_agrees [OF assms] by blast
  moreover have "4 # drop 1 p = p" "4 # drop 1 q = q" using assms pubkey_cons by (metis, metis)
  ultimately show ?thesis by (simp add: agree_def)
qed

lemma aes_ok:
  assumes "length iv = 16" "plain \<noteq> []"
  shows "\<exists>c. encryptAES128CTR C (cipher_key C z) iv plain = c \<and> length c = length plain \<and>
    decryptAES128CTR C (cipher_key C z) iv c = plain"
proof -
  have k: "length (cipher_key C z) = 16" by (simp add: cipher_key_def length_block)
  then obtain c where "aes_ctr C (cipher_key C z) iv plain = Some c" using aes_total assms by blast
  then show ?thesis using aes_inverse [of _ _ _ c] k by (simp add: encryptAES128CTR_def decryptAES128CTR_def)
qed

end

section \<open>Writing and reading a message\<close>

lemma copy_into_mid:
  "length old = length src \<Longrightarrow> length pre = i \<Longrightarrow> length src = n \<Longrightarrow>
    copy_into src i n (pre @ old @ post) = pre @ src @ post"
  by (simp add: copy_into_def)

lemma fill_message:
  fixes pub iv ct tag :: bytes
  assumes "length pub = 64" "length iv = 16" "length tag = 32" "n = length ct"
  defines "m1 \<equiv> copy_into iv (1 + 64) 16 (copy_into pub 1 64 ((replicate (1 + 64 + 16 + n + 32) 0)[0 := 4]))"
  shows "copy_into ct (1 + 64 + 16) n m1 = 4 # pub @ iv @ ct @ replicate 32 0"
    and "copy_into tag (1 + 64 + (16 + n)) 32 (4 # pub @ iv @ ct @ replicate 32 0) = 4 # pub @ iv @ ct @ tag"
proof -
  have "(replicate (1 + 64 + 16 + n + 32) 0)[0 := 4] =
      [4] @ replicate 64 (0 :: byte) @ replicate 16 0 @ replicate n 0 @ replicate 32 0"
  proof -
    have "replicate (1 + 64 + 16 + n + 32) (0 :: byte) = 0 # replicate (64 + 16 + n + 32) 0"
      by (simp flip: replicate_Suc)
    then show ?thesis by (simp add: replicate_add [symmetric])
  qed
  moreover have "copy_into pub 1 64 ([4] @ replicate 64 0 @ rest) = [4] @ pub @ rest" for rest
    by (rule copy_into_mid) (simp_all add: assms(1))
  moreover have "copy_into iv (1 + 64) 16 (([4] @ pub) @ replicate 16 0 @ rest) = ([4] @ pub) @ iv @ rest" for rest
    by (rule copy_into_mid) (simp_all add: assms(1,2))
  ultimately have "m1 = ([4] @ pub) @ iv @ replicate n 0 @ replicate 32 0"
    unfolding m1_def by (simp only: append_assoc)
  moreover have "copy_into ct (1 + 64 + 16) n (([4] @ pub @ iv) @ replicate n 0 @ replicate 32 0) =
      ([4] @ pub @ iv) @ ct @ replicate 32 0"
    by (rule copy_into_mid) (simp_all add: assms(1,2,4))
  ultimately show "copy_into ct (1 + 64 + 16) n m1 = 4 # pub @ iv @ ct @ replicate 32 0"
    by (simp only: append_assoc append_Cons append_Nil)
  show "copy_into tag (1 + 64 + (16 + n)) 32 (4 # pub @ iv @ ct @ replicate 32 0) = 4 # pub @ iv @ ct @ tag"
  proof -
    have "copy_into tag (1 + 64 + (16 + n)) 32 (([4] @ pub @ iv @ ct) @ replicate 32 0 @ []) =
        ([4] @ pub @ iv @ ct) @ tag @ []"
      by (rule copy_into_mid) (simp_all add: assms(1-4))
    then show ?thesis by (simp only: append_assoc append_Cons append_Nil append_Nil2)
  qed
qed

lemma message_parts:
  fixes pub iv ct tag :: bytes
  assumes "length pub = 64" "length iv = 16" "length tag = 32" "m = b # pub @ iv @ ct @ tag"
  defines "n \<equiv> length m - 1 - 64 - 16 - 32"
  shows "n = length ct" and "take 64 (drop 1 m) = pub" and "take (16 + n) (drop (1 + 64) m) = iv @ ct"
    and "take 32 (drop (1 + 64 + 16 + n) m) = tag" and "m ! 0 = b" and "length m = 113 + n"
proof -
  show n: "n = length ct" using assms by simp
  show "take 64 (drop 1 m) = pub" "take (16 + n) (drop (1 + 64) m) = iv @ ct"
    "take 32 (drop (1 + 64 + 16 + n) m) = tag" "m ! 0 = b" "length m = 113 + n"
    unfolding n using assms(1-4) by (simp_all add: drop_Cons')
qed

lemma split_message:
  fixes m :: bytes
  assumes "114 \<le> length m"
  obtains b pub iv ct tag where "m = b # pub @ iv @ ct @ tag" "length pub = 64" "length iv = 16"
    "length tag = 32" "ct \<noteq> []"
proof -
  define n where "n = length m - 113"
  have d: "drop j m = take i (drop j m) @ drop (i + j) m" for i j
    by (metis append_take_drop_id drop_drop)
  have "m = take 1 m @ drop 1 m" by simp
  then have "m = m ! 0 # drop 1 m" using assms by (cases m) auto
  also have "drop 1 m = take 64 (drop 1 m) @ take 16 (drop 65 m) @ take n (drop 81 m) @ drop (81 + n) m"
    using d [of 1 64] d [of 65 16] d [of 81 n] by (simp add: add.commute)
  finally have "m = m ! 0 # take 64 (drop 1 m) @ take 16 (drop 65 m) @ take n (drop 81 m) @ drop (81 + n) m" .
  then show ?thesis
    using that [of "m ! 0" "take 64 (drop 1 m)" "take 16 (drop 65 m)" "take n (drop 81 m)" "drop (81 + n) m"] assms
    by (simp add: n_def)
qed

context hash_laws
begin

lemma encrypt_message:
  assumes "length (kp_public r) = 64" "length iv = 16"
    and "agree L (kp_secret r) k (hash_zero 32) = (ok, z)"
    and "encryptAES128CTR C (cipher_key C z) iv plain = ct" "ct \<noteq> []"
  shows "encryptECIES C L r iv k shared plain = ecies_message C L z 4 (kp_public r) iv ct shared"
proof -
  note f = fill_message [OF assms(1,2) length_hmac refl]
  have c: "cropped (4 # kp_public r @ iv @ ct @ replicate 32 0) (1 + 64) (16 + length ct) = iv @ ct"
    using assms(1,2) by (simp add: cropped_def)
  have keys: "hash_of_bytes 16 (cropped (ecies_block C z) 0 16) FailIfDifferent = cipher_key C z"
    "sha256_of C (cropped (ecies_block C z) 16 16) = tag_key C z"
    using keys_of_kdf [of "ecies_block C z" z "[]"] by simp_all
  show ?thesis
    unfolding encryptECIES_def pp_encryptECIES_def assms(3) snd_conv kdf_32 Let_def keys encryptSymNoAuth_def assms(4)
      f(1) c ecies_message_def
    using assms(2,5) f(2) by simp
qed

lemma decrypt_message:
  assumes "m = b # pub @ iv @ ct @ tag" "length pub = 64" "length iv = 16" "length tag = 32" "ct \<noteq> []"
    and "2 \<le> b" "b \<le> 4" and "agree L k pub (hash_zero 32) = (True, z)"
  shows "decryptECIES C L k shared m out =
    (if tag = hmac_sha256 L (tag_key C z) (iv @ ct @ shared)
     then (True, decryptAES128CTR C (cipher_key C z) iv ct) else (False, out))"
proof -
  note p = message_parts [OF assms(2-4,1)]
  have n: "length ct = length m - 1 - 64 - 16 - 32" using p(1) by simp
  have len: "\<not> length m < 1 + 64 + 16 + 1 + 32" using p(1,6) assms(5) by (cases ct) auto
  have b: "\<not> (m = [] \<or> m ! 0 < 2 \<or> 4 < m ! 0)" using assms(1,6,7) p(5) by auto
  have c: "cropped (iv @ ct) 0 16 = iv" "cropped (iv @ ct) 16 (length ct) = ct" "hash_of_bytes 16 iv FailIfDifferent = iv"
    using assms(3) by (simp_all add: cropped_def hash_of_bytes_def)
  note q = p(2) p(3,4) [folded n] n [symmetric]
  show ?thesis
    unfolding decryptECIES_def pp_decryptECIES_def q assms(8) Let_def prod.case c
      keys_of_kdf [OF kdf_64] decryptSymNoAuth_def
    using b len tags_equal_iff [OF length_hmac assms(4)] by auto
qed

end

text \<open>Libraries for which the laws hold: the shared point is the exclusive or of the two secrets.\<close>

definition demo_ecies :: ecies_lib where
  "demo_ecies =
     \<lparr>pubkey_parse = (\<lambda>p. if length p = 65 then Some p else None), pubkey_uncompressed = (\<lambda>p. p),
      pubkey_compressed = (\<lambda>s. Some (2 # s)),
      ecdh_raw = (\<lambda>raw s. Some (2 # map2 (XOR) (take 32 (drop 1 raw)) s)),
      ec_verify = (\<lambda>sg h raw. Some True),
      hmac_sha256 = (\<lambda>k m. replicate 31 0 @ [of_nat (length m)]),
      pbkdf2_derive = (\<lambda>pw salt i n. (replicate n 0, i)),
      scrypt_derive = (\<lambda>pw salt n r p k. Some (replicate k 0)),
      cbc_decrypt = (\<lambda>k iv c. Some c), pp_encrypt = (\<lambda>k rng m. m), pp_decrypt = (\<lambda>k m. Some m),
      pp_max_plain = (\<lambda>n. n)\<rparr>"

interpretation demo_ec: ecies_laws demo_crypto demo_ecies
proof unfold_locales
  fix s p t q
  assume s: "ec_pubkey demo_crypto s = Some p" and t: "ec_pubkey demo_crypto t = Some q"
  then have p: "p = 4 # s @ s" "length s = 32" and q: "q = 4 # t @ t" "length t = 32"
    by (auto simp: demo_crypto_def Let_def split: if_splits)
  have "map2 (XOR) t s = map2 (XOR) s t"
    by (rule nth_equalityI) (simp_all add: p(2) q(2) xor.commute)
  then show "\<exists>a b pt. pubkey_parse demo_ecies p = Some a \<and> pubkey_parse demo_ecies q = Some b \<and>
      ecdh_raw demo_ecies b s = Some pt \<and> ecdh_raw demo_ecies a t = Some pt \<and> length pt = 33"
    using p q by (simp add: demo_ecies_def)
qed (auto simp: demo_crypto_def demo_ecies_def Let_def split: if_splits)

section \<open>Properties\<close>

text \<open>The empty plaintext is the message itself, and is not read back.\<close>

lemma ecies_empty_plaintext:
  assumes "ecies_laws C L" "length iv = 16"
  shows "encryptECIES C L r iv k shared [] = []" and "decryptECIES C L t shared [] out = (False, out)"
proof -
  show "decryptECIES C L t shared [] out = (False, out)" by (simp add: decryptECIES_def pp_decryptECIES_def)
  have "encryptAES128CTR C kk iv [] = []" for kk
    using ecies_laws.aes_inverse [OF assms(1), of kk iv "[]"]
    by (auto simp: encryptAES128CTR_def split: option.splits)
  then show "encryptECIES C L r iv k shared [] = []"
    by (simp add: encryptECIES_def pp_encryptECIES_def encryptSymNoAuth_def Let_def)
qed

lemma ecies_message_roundtrip:
  assumes "ecies_laws C L" and "ec_pubkey C s = Some p" and "ec_pubkey C t = Some q"
    and "length iv = 16" and "plain \<noteq> []"
  shows "length (encryptECIES C L (KeyPair_of C s) iv (toPublic C t) shared plain) = length plain + c_eciesOverhead \<and>
    decryptECIES C L t shared (encryptECIES C L (KeyPair_of C s) iv (toPublic C t) shared plain) out = (True, plain)"
proof -
  from assms(1) have H: "hash_laws C L" by (simp add: ecies_laws_def)
  obtain z where a: "agree L s (drop 1 q) (hash_zero 32) = (True, z)" "agree L t (drop 1 p) (hash_zero 32) = (True, z)"
    using ecies_laws.agree_both [OF assms(1-3)] by blast
  obtain ct where ct: "encryptAES128CTR C (cipher_key C z) iv plain = ct" "length ct = length plain"
    "decryptAES128CTR C (cipher_key C z) iv ct = plain"
    using ecies_laws.aes_ok [OF assms(1,4,5)] by blast
  have r: "kp_secret (KeyPair_of C s) = s" "kp_public (KeyPair_of C s) = drop 1 p" "toPublic C t = drop 1 q"
    using assms(2,3) by (simp_all add: KeyPair_of_def toPublic_def Let_def)
  have len: "length (drop 1 p) = 64" using ecies_laws.pubkey_cons [OF assms(1,2)] by simp
  have ne: "ct \<noteq> []" using ct(2) assms(5) by auto
  have m: "encryptECIES C L (KeyPair_of C s) iv (toPublic C t) shared plain = ecies_message C L z 4 (drop 1 p) iv ct shared"
    using hash_laws.encrypt_message [OF H, of "KeyPair_of C s" iv "drop 1 q" True z plain ct shared] len assms(4) a(1) ct(1) ne
    by (simp add: r)
  have "length (ecies_message C L z 4 (drop 1 p) iv ct shared) = length plain + c_eciesOverhead"
    using len assms(4) ct(2) hash_laws.length_hmac [OF H] by (simp add: ecies_message_def c_eciesOverhead_def)
  moreover have "decryptECIES C L t shared (ecies_message C L z 4 (drop 1 p) iv ct shared) out = (True, plain)"
    unfolding ecies_message_def
    using hash_laws.decrypt_message [OF H refl len assms(4) hash_laws.length_hmac [OF H] ne _ _ a(2), of 4] ct(3)
    by simp
  ultimately show ?thesis unfolding m by blast
qed

text \<open>
  C14: an ECIES message can be read by its addressee, if it is not empty: with the secret of the public
  key it was encrypted for, and the same shared data, decryption of the encryption of a non-empty
  plaintext succeeds and gives the plaintext back, although the two sides derive keys of different
  lengths, and the message is \<open>c_eciesOverhead\<close> bytes longer than the plaintext.  The empty plaintext
  is encrypted to the empty message, which decryption refuses.
\<close>

theorem ecies_roundtrip:
  assumes "ecies_laws C L" and "ec_pubkey C s = Some p" and "ec_pubkey C t = Some q" and "length iv = 16"
  shows "if plain = []
    then encryptECIES C L (KeyPair_of C s) iv (toPublic C t) shared plain = [] \<and>
      decryptECIES C L t shared (encryptECIES C L (KeyPair_of C s) iv (toPublic C t) shared plain) out = (False, out)
    else length (encryptECIES C L (KeyPair_of C s) iv (toPublic C t) shared plain) = length plain + c_eciesOverhead \<and>
      decryptECIES C L t shared (encryptECIES C L (KeyPair_of C s) iv (toPublic C t) shared plain) out = (True, plain)"
  using ecies_empty_plaintext [OF assms(1,4)] ecies_message_roundtrip [OF assms] by simp

theorem ecies_roundtrip_witness:
  "length (encryptECIES demo_crypto demo_ecies (KeyPair_of demo_crypto (nat_be 32 5)) (replicate 16 7)
      (toPublic demo_crypto (nat_be 32 6)) [1] [2, 3]) = 115 \<and>
   decryptECIES demo_crypto demo_ecies (nat_be 32 6) [1]
      (encryptECIES demo_crypto demo_ecies (KeyPair_of demo_crypto (nat_be 32 5)) (replicate 16 7)
         (toPublic demo_crypto (nat_be 32 6)) [1] [2, 3]) [] = (True, [2, 3])"
proof -
  have k: "ec_pubkey demo_crypto (nat_be 32 5) = Some (4 # nat_be 32 5 @ nat_be 32 5)"
    "ec_pubkey demo_crypto (nat_be 32 6) = Some (4 # nat_be 32 6 @ nat_be 32 6)"
    by (simp_all add: demo_crypto_def Let_def secp256k1n_def)
  show ?thesis
    using ecies_roundtrip [OF demo_ec.ecies_laws_axioms k, of "replicate 16 7" "[2, 3]" "[1]" "[]"]
    by (simp add: c_eciesOverhead_def)
qed

lemma decrypt_refuses_or_keeps:
  "fst (decryptECIES C L k shared m out) \<or> decryptECIES C L k shared m out = (False, out)"
  by (auto simp: decryptECIES_def split: prod.splits)

lemma decrypt_accepts:
  assumes "hash_laws C L"
  shows "decryptECIES C L k shared m out = (True, x) \<longleftrightarrow>
    (\<exists>b pub iv ct z. m = ecies_message C L z b pub iv ct shared \<and> 2 \<le> b \<and> b \<le> 4 \<and> length pub = 64 \<and>
       length iv = 16 \<and> ct \<noteq> [] \<and> agree L k pub (hash_zero 32) = (True, z) \<and>
       x = decryptAES128CTR C (cipher_key C z) iv ct)" (is "?dec \<longleftrightarrow> ?msg")
proof
  assume ?dec
  then have ok: "fst (pp_decryptECIES C L k shared m)"
    by (auto simp: decryptECIES_def split: prod.splits if_splits)
  then have len: "114 \<le> length m" and hd: "2 \<le> m ! 0" "m ! 0 \<le> 4"
    and ag: "fst (agree L k (take 64 (drop 1 m)) (hash_zero 32))"
    by (auto simp: pp_decryptECIES_def split: if_splits prod.splits)
  from len obtain b pub iv ct tag where m: "m = b # pub @ iv @ ct @ tag" "length pub = 64" "length iv = 16"
    "length tag = 32" "ct \<noteq> []" by (rule split_message)
  obtain z where z: "agree L k pub (hash_zero 32) = (True, z)"
    using ag m(2) by (cases "agree L k pub (hash_zero 32)") (simp add: m(1))
  have b: "2 \<le> b" "b \<le> 4" using hd by (simp_all add: m(1))
  show ?msg
    using \<open>?dec\<close> hash_laws.decrypt_message [OF assms m b z, of shared out] m b z
    by (intro exI [of _ b] exI [of _ pub] exI [of _ iv] exI [of _ ct] exI [of _ z])
      (auto simp: ecies_message_def split: if_splits)
next
  assume ?msg
  then show ?dec
    using hash_laws.decrypt_message [OF assms _ _ _ hash_laws.length_hmac [OF assms]]
    by (auto simp: ecies_message_def)
qed

text \<open>
  C23: what decryption accepts is exactly the messages whose tag is that of their contents: a
  first byte from 2 to 4, a public key the agreement takes, a vector, a non-empty cipher text, and
  the HMAC of vector, cipher text and shared data under the key derived from the agreed secret.  Every
  other message is refused, and leaves the output as it was.
\<close>

theorem ecies_accepts_iff:
  assumes "hash_laws C L"
  shows "(decryptECIES C L k shared m out = (True, x)) =
    (\<exists>b pub iv ct z. m = ecies_message C L z b pub iv ct shared \<and> 2 \<le> b \<and> b \<le> 4 \<and> length pub = 64 \<and>
       length iv = 16 \<and> ct \<noteq> [] \<and> agree L k pub (hash_zero 32) = (True, z) \<and>
       x = decryptAES128CTR C (cipher_key C z) iv ct) \<and>
    (fst (decryptECIES C L k shared m out) \<or> decryptECIES C L k shared m out = (False, out))"
  using decrypt_accepts [OF assms, of k shared m out x] decrypt_refuses_or_keeps [of C L k shared m out] by blast

theorem ecies_accepts_iff_witness:
  "(\<exists>b pub iv ct z. 4 # replicate 112 0 = ecies_message demo_crypto demo_ecies z b pub iv ct [] \<and> 2 \<le> b \<and> b \<le> 4 \<and>
     length pub = 64 \<and> length iv = 16 \<and> ct \<noteq> [] \<and> agree demo_ecies (nat_be 32 5) pub (hash_zero 32) = (True, z) \<and>
     [9] = decryptAES128CTR demo_crypto (cipher_key demo_crypto z) iv ct) = False \<and>
   (fst (decryptECIES demo_crypto demo_ecies (nat_be 32 5) [] [4] [9]) \<or>
    decryptECIES demo_crypto demo_ecies (nat_be 32 5) [] [4] [9] = (False, [9]))"
proof -
  have "decryptECIES demo_crypto demo_ecies (nat_be 32 5) [] (4 # replicate 112 0) [9] = (False, [9])"
    by (simp add: decryptECIES_def pp_decryptECIES_def)
  then show ?thesis
    using ecies_accepts_iff [OF demo_ec.hash_laws_axioms, of "nat_be 32 5" "[]" "4 # replicate 112 0" "[9]" "[9]"]
      ecies_accepts_iff [OF demo_ec.hash_laws_axioms, of "nat_be 32 5" "[]" "[4]" "[9]"]
    by simp
qed

text \<open>
  C40: encryption does not look at the result of the key agreement.  For a public key that is no point
  of the curve the shared secret keeps its initial value zero, so that the message is encrypted and
  tagged with keys that anyone can compute.
\<close>

theorem ecies_invalid_key_zero_secret:
  assumes "ecies_laws C L" and "pubkey_parse L (4 # k) = None"
    and "length (kp_public r) = 64" and "length iv = 16" and "plain \<noteq> []"
  shows "\<exists>ct. encryptECIES C L r iv k shared plain = ecies_message C L (hash_zero 32) 4 (kp_public r) iv ct shared \<and>
    decryptAES128CTR C (cipher_key C (hash_zero 32)) iv ct = plain"
proof -
  from assms(1) have H: "hash_laws C L" by (simp add: ecies_laws_def)
  have a: "agree L (kp_secret r) k (hash_zero 32) = (False, hash_zero 32)" using assms(2) by (simp add: agree_def)
  obtain ct where ct: "encryptAES128CTR C (cipher_key C (hash_zero 32)) iv plain = ct" "length ct = length plain"
    "decryptAES128CTR C (cipher_key C (hash_zero 32)) iv ct = plain"
    using ecies_laws.aes_ok [OF assms(1,4,5)] by blast
  have "ct \<noteq> []" using ct(2) assms(5) by auto
  then show ?thesis using hash_laws.encrypt_message [OF H assms(3,4) a ct(1)] ct(3) by blast
qed

theorem ecies_invalid_key_zero_secret_witness:
  "\<exists>ct. encryptECIES demo_crypto demo_ecies (KeyPair_of demo_crypto (nat_be 32 5)) (replicate 16 7) [1] [] [2, 3] =
      ecies_message demo_crypto demo_ecies (hash_zero 32) 4
        (kp_public (KeyPair_of demo_crypto (nat_be 32 5))) (replicate 16 7) ct [] \<and>
    decryptAES128CTR demo_crypto (cipher_key demo_crypto (hash_zero 32)) (replicate 16 7) ct = [2, 3]"
  by (rule ecies_invalid_key_zero_secret [OF demo_ec.ecies_laws_axioms])
    (simp_all add: demo_ecies_def KeyPair_of_def toPublic_def demo_crypto_def Let_def secp256k1n_def)

text \<open>Creating a key pair ends with the first draw that is a usable secret.\<close>

lemma KeyPair_create_first:
  "KeyPair_create C draws = map_option (KeyPair_of C) (find (\<lambda>s. hash_bool (kp_address (KeyPair_of C s))) draws)"
  by (induction draws) (simp_all add: Let_def)

lemma KeyPair_create_address: "KeyPair_create C draws = Some k \<Longrightarrow> hash_bool (kp_address k)"
  by (auto simp: KeyPair_create_first find_Some_iff)

end
