(* ===== verification/Lib_Snark.thy ===== *)
theory Lib_Snark
  imports Dev_Crypto
begin

text \<open>
  \<^verbatim>\<open>libdevcrypto/LibSnark.cpp\<close>: the precompiled operations on the curve alt_bn128.  The library libff
  is the record \<open>libff\<close>: a field element, a point and a pairing value are of the types \<open>'q\<close>, \<open>'g1\<close>,
  \<open>'g2\<close> and \<open>'t\<close>, and its big integers are lists of four 64-bit limbs, the lowest first.  The laws of
  the field and of the group that the code relies on are the locale \<open>libff_laws\<close>.
\<close>

section \<open>The library\<close>

type_synonym bigint = "u64 list"

record ('q, 'g1, 'g2, 't) libff =
  Fq_mod :: bigint
  Fq_of_bigint :: "bigint \<Rightarrow> 'q"
  Fq_as_bigint :: "'q \<Rightarrow> bigint"
  Fq_zero :: 'q
  G1_zero :: 'g1
  G1_affine :: "'q \<Rightarrow> 'q \<Rightarrow> 'g1"
  G1_well_formed :: "'g1 \<Rightarrow> bool"
  G1_is_zero :: "'g1 \<Rightarrow> bool"
  G1_coordinates :: "'g1 \<Rightarrow> 'q \<times> 'q"
  G1_add :: "'g1 \<Rightarrow> 'g1 \<Rightarrow> 'g1"
  G1_mul :: "bigint \<Rightarrow> 'g1 \<Rightarrow> 'g1"
  G2_zero :: 'g2
  G2_affine :: "'q \<times> 'q \<Rightarrow> 'q \<times> 'q \<Rightarrow> 'g2"
  G2_well_formed :: "'g2 \<Rightarrow> bool"
  G2_is_zero :: "'g2 \<Rightarrow> bool"
  G2_add :: "'g2 \<Rightarrow> 'g2 \<Rightarrow> 'g2"
  G2_minus_one :: "'g2 \<Rightarrow> 'g2"
  GT_one :: 't
  GT_mul :: "'t \<Rightarrow> 't \<Rightarrow> 't"
  miller_loop :: "'g1 \<Rightarrow> 'g2 \<Rightarrow> 't"
  final_exponentiation :: "'t \<Rightarrow> 't"

section \<open>Big integers\<close>

text \<open>The double loop over the limbs and the bytes of a limb; a fresh \<open>bigint\<close> is zero.\<close>

definition or_limb :: "FixedHash \<Rightarrow> nat \<Rightarrow> nat \<Rightarrow> bigint \<Rightarrow> bigint" where
  "or_limb x i j b =
     b[4 - 1 - i := (b ! (4 - 1 - i)) OR push_bit (8 * (8 - 1 - j)) (ucast (x ! (i * 8 + j)))]"

definition toLibsnarkBigint :: "FixedHash \<Rightarrow> bigint" where
  "toLibsnarkBigint x = fold (\<lambda>i. fold (or_limb x i) [0..<8]) [0..<4] (replicate 4 0)"

definition set_byte :: "bigint \<Rightarrow> nat \<Rightarrow> nat \<Rightarrow> FixedHash \<Rightarrow> FixedHash" where
  "set_byte b i j x = x[i * 8 + j := ucast (drop_bit (8 * (8 - 1 - j)) (b ! (4 - 1 - i)))]"

definition fromLibsnarkBigint :: "bigint \<Rightarrow> FixedHash" where
  "fromLibsnarkBigint b = fold (\<lambda>i. fold (set_byte b i) [0..<8]) [0..<4] (hash_zero 32)"

section \<open>Decoding and encoding points\<close>

datatype snark_error = InvalidEncoding

definition decodeFqElement :: "('q, 'g1, 'g2, 't) libff \<Rightarrow> bytes \<Rightarrow> snark_error + 'q" where
  "decodeFqElement F data =
     (let xbin = hash_of_bytes 32 data AlignLeft in
      if (hash_to_arith xbin :: u256) \<ge> hash_to_arith (fromLibsnarkBigint (Fq_mod F)) then Inl InvalidEncoding
      else Inr (Fq_of_bigint F (toLibsnarkBigint xbin)))"

definition decodePointG1 :: "('q, 'g1, 'g2, 't) libff \<Rightarrow> bytes \<Rightarrow> snark_error + 'g1" where
  "decodePointG1 F data =
     bind_res (decodeFqElement F (cropped_from data 0)) (\<lambda>x.
     bind_res (decodeFqElement F (cropped_from data 32)) (\<lambda>y.
       if x = Fq_zero F \<and> y = Fq_zero F then Inr (G1_zero F)
       else (let p = G1_affine F x y in if \<not> G1_well_formed F p then Inl InvalidEncoding else Inr p)))"

definition encodePointG1 :: "('q, 'g1, 'g2, 't) libff \<Rightarrow> 'g1 \<Rightarrow> bytes" where
  "encodePointG1 F p =
     (if G1_is_zero F p then replicate 64 0
      else (let (X, Y) = G1_coordinates F p
            in fromLibsnarkBigint (Fq_as_bigint F X) @ fromLibsnarkBigint (Fq_as_bigint F Y)))"

text \<open>
  The imaginary part comes first.  The order in which the two arguments of the constructor are
  decoded is not specified, and both fail in the same way.
\<close>

definition decodeFq2Element :: "('q, 'g1, 'g2, 't) libff \<Rightarrow> bytes \<Rightarrow> snark_error + ('q \<times> 'q)" where
  "decodeFq2Element F data =
     bind_res (decodeFqElement F (cropped_from data 32)) (\<lambda>c0.
     bind_res (decodeFqElement F (cropped_from data 0)) (\<lambda>c1. Inr (c0, c1)))"

definition decodePointG2 :: "('q, 'g1, 'g2, 't) libff \<Rightarrow> bytes \<Rightarrow> snark_error + 'g2" where
  "decodePointG2 F data =
     bind_res (decodeFq2Element F data) (\<lambda>x.
     bind_res (decodeFq2Element F (cropped_from data 64)) (\<lambda>y.
       if x = (Fq_zero F, Fq_zero F) \<and> y = (Fq_zero F, Fq_zero F) then Inr (G2_zero F)
       else (let p = G2_affine F x y in if \<not> G2_well_formed F p then Inl InvalidEncoding else Inr p)))"

section \<open>The precompiled operations\<close>

text \<open>The value of the pair of flag and output when an \<open>InvalidEncoding\<close> is caught.\<close>

definition caught :: "snark_error + (bool \<times> bytes) \<Rightarrow> bool \<times> bytes" where
  "caught r = (case r of Inl e \<Rightarrow> (False, []) | Inr x \<Rightarrow> x)"

definition pairSize :: nat where
  "pairSize = 2 * 32 + 2 * 64"

text \<open>The loop over the pairs; \<open>Inr None\<close> is the early return for a point of wrong order.\<close>

fun pairing_loop :: "('q, 'g1, 'g2, 't) libff \<Rightarrow> bytes \<Rightarrow> nat list \<Rightarrow> 't \<Rightarrow> snark_error + 't option" where
  "pairing_loop F inp [] x = Inr (Some x)"
| "pairing_loop F inp (i # is) x =
     (let pair = cropped inp (i * pairSize) pairSize in
      bind_res (decodePointG1 F pair) (\<lambda>g1.
      bind_res (decodePointG2 F (cropped_from pair (2 * 32))) (\<lambda>p.
        if G2_add F (G2_minus_one F p) p \<noteq> G2_zero F then Inr None
        else if G2_is_zero F p \<or> G1_is_zero F g1 then pairing_loop F inp is x
        else pairing_loop F inp is (GT_mul F x (miller_loop F g1 p)))))"

definition alt_bn128_pairing_product :: "('q, 'g1, 'g2, 't) libff \<Rightarrow> bytes \<Rightarrow> bool \<times> bytes" where
  "alt_bn128_pairing_product F inp =
     (let pairs = length inp div pairSize in
      if pairs * pairSize \<noteq> length inp then (False, [])
      else caught (bind_res (pairing_loop F inp [0..<pairs] (GT_one F)) (\<lambda>r.
             case r of
               None \<Rightarrow> Inr (False, [])
             | Some x \<Rightarrow>
                 (let result = (final_exponentiation F x = GT_one F)
                  in Inr (True, hash_of_unsigned 32 (if result then 1 else 0))))))"

definition alt_bn128_G1_add :: "('q, 'g1, 'g2, 't) libff \<Rightarrow> bytes \<Rightarrow> bool \<times> bytes" where
  "alt_bn128_G1_add F inp =
     caught (bind_res (decodePointG1 F inp) (\<lambda>p1.
             bind_res (decodePointG1 F (cropped_from inp (32 * 2))) (\<lambda>p2.
               Inr (True, encodePointG1 F (G1_add F p1 p2)))))"

definition alt_bn128_G1_mul :: "('q, 'g1, 'g2, 't) libff \<Rightarrow> bytes \<Rightarrow> bool \<times> bytes" where
  "alt_bn128_G1_mul F inp =
     caught (bind_res (decodePointG1 F (cropped_from inp 0)) (\<lambda>p.
       let result = G1_mul F (toLibsnarkBigint (hash_of_bytes 32 (cropped_from inp 64) AlignLeft)) p
       in Inr (True, encodePointG1 F result)))"

section \<open>Laws of the conversions\<close>

lemma fold_or_limb:
  "i < 4 \<Longrightarrow> length b = 4 \<Longrightarrow> fold (or_limb x i) js b =
    b[3 - i := fold (\<lambda>j w. w OR push_bit (8 * (7 - j)) (ucast (x ! (i * 8 + j)))) js (b ! (3 - i))]"
  by (induction js arbitrary: b) (simp_all add: or_limb_def)

lemma or_limb_bytes:
  assumes "length y = 8"
  shows "fold (\<lambda>j w. w OR push_bit (8 * (7 - j)) (ucast (y ! j))) [0..<8] 0 = (fromBigEndian y :: u64)"
proof -
  obtain a b c d e f g h where "y = [a, b, c, d, e, f, g, h]"
    using assms by (auto simp: eval_nat_numeral length_Suc_conv)
  then show ?thesis
    by (simp add: fromBigEndian_def upt_rec [of _ 8] push_bit_or push_bit_push_bit or.assoc)
qed

lemma nat_be_8: "nat_be 8 (unat w) = map (\<lambda>j. ucast (drop_bit (8 * (7 - j)) w)) [0..<8]" for w :: u64
proof -
  have "ucast (drop_bit k w) = (of_nat (unat w div 2 ^ k) :: byte)" for k
  proof -
    have "ucast (drop_bit k w) = (of_nat (unat (drop_bit k w)) :: byte)" by (rule of_nat_unat [symmetric])
    then show ?thesis by (simp only: unat_drop_bit)
  qed
  then show ?thesis
    by (simp add: nat_be_numeral upt_rec [of _ 8] div_mult2_eq [symmetric])
qed

lemma split_chunks:
  assumes "length x = 32"
  obtains a b c d where "x = a @ b @ c @ d" "length a = 8" "length b = 8" "length c = 8" "length d = 8"
proof
  have "drop j x = take 8 (drop j x) @ drop (8 + j) x" for j
    by (metis append_take_drop_id drop_drop)
  from this [of 0] this [of 8] this [of 16]
  show "x = take 8 x @ take 8 (drop 8 x) @ take 8 (drop 16 x) @ drop 24 x" by simp
qed (use assms in simp_all)

lemma four_zeros: "replicate 4 (0 :: u64) = [0, 0, 0, 0]"
  by (simp add: numeral_eq_Suc)

lemma upt_4: "[0..<4] = [0, 1, 2, 3]"
  by (simp add: upt_rec)

lemma toLibsnarkBigint_chunks:
  assumes "length a = 8" "length b = 8" "length c = 8" "length d = 8"
  shows "toLibsnarkBigint (a @ b @ c @ d) = [fromBigEndian d, fromBigEndian c, fromBigEndian b, fromBigEndian a]"
proof -
  let ?x = "a @ b @ c @ d"
  have limb: "fold (\<lambda>j w. w OR push_bit (8 * (7 - j)) (ucast (?x ! (i * 8 + j)))) [0..<8] 0 = (fromBigEndian y :: u64)"
    if "length y = 8" "\<And>j. j < 8 \<Longrightarrow> ?x ! (i * 8 + j) = y ! j" for i y
    unfolding or_limb_bytes [OF that(1), symmetric] by (rule fold_cong) (use that(2) in auto)
  have l: "fold (\<lambda>j w. w OR push_bit (8 * (7 - j)) (ucast (?x ! (0 * 8 + j)))) [0..<8] 0 = (fromBigEndian a :: u64)"
    "fold (\<lambda>j w. w OR push_bit (8 * (7 - j)) (ucast (?x ! (1 * 8 + j)))) [0..<8] 0 = (fromBigEndian b :: u64)"
    "fold (\<lambda>j w. w OR push_bit (8 * (7 - j)) (ucast (?x ! (2 * 8 + j)))) [0..<8] 0 = (fromBigEndian c :: u64)"
    "fold (\<lambda>j w. w OR push_bit (8 * (7 - j)) (ucast (?x ! (3 * 8 + j)))) [0..<8] 0 = (fromBigEndian d :: u64)"
    by (rule limb; simp add: nth_append assms)+
  show ?thesis
    unfolding toLibsnarkBigint_def upt_4 four_zeros fold_simps
    by (simp only: fold_or_limb o_apply id_apply length_Cons list.size l; simp add: l [simplified] fold_or_limb)
qed

lemma fold_set_byte:
  "length old = 8 \<Longrightarrow> length pre = i * 8 \<Longrightarrow>
    fold (set_byte b i) [0..<8] (pre @ old @ post) = pre @ nat_be 8 (unat (b ! (3 - i))) @ post"
proof -
  assume "length old = 8" and pre: "length pre = i * 8"
  then obtain p q r s t u v w where old: "old = [p, q, r, s, t, u, v, w]"
    by (auto simp: eval_nat_numeral length_Suc_conv)
  have up: "[0..<8] = [0, 1, 2, 3, 4, 5, 6, 7]" by (simp add: upt_rec)
  show ?thesis
    unfolding old nat_be_8 up by (simp add: set_byte_def list_update_append pre flip: append.assoc)
qed

lemma fromLibsnarkBigint_limbs:
  "fromLibsnarkBigint [b0, b1, b2, b3] = nat_be 8 (unat b3) @ nat_be 8 (unat b2) @ nat_be 8 (unat b1) @ nat_be 8 (unat b0)"
proof -
  have z: "hash_zero 32 = [] @ replicate 8 0 @ replicate 8 0 @ replicate 8 0 @ replicate 8 0"
    by (simp add: hash_zero_def replicate_add [symmetric])
  note f = fold_set_byte [where b = "[b0, b1, b2, b3]" and old = "replicate 8 0"]
  have "fold (set_byte [b0, b1, b2, b3] 0) [0..<8] ([] @ replicate 8 0 @ post) = nat_be 8 (unat b3) @ post" for post
    by (subst f) simp_all
  moreover have "fold (set_byte [b0, b1, b2, b3] 1) [0..<8] (nat_be 8 (unat b3) @ replicate 8 0 @ post) =
      nat_be 8 (unat b3) @ nat_be 8 (unat b2) @ post" for post
    by (subst f) simp_all
  moreover have "fold (set_byte [b0, b1, b2, b3] 2) [0..<8] ((nat_be 8 (unat b3) @ nat_be 8 (unat b2)) @ replicate 8 0 @ post) =
      (nat_be 8 (unat b3) @ nat_be 8 (unat b2)) @ nat_be 8 (unat b1) @ post" for post
    by (subst f) simp_all
  moreover have "fold (set_byte [b0, b1, b2, b3] 3) [0..<8]
      ((nat_be 8 (unat b3) @ nat_be 8 (unat b2) @ nat_be 8 (unat b1)) @ replicate 8 0 @ []) =
      (nat_be 8 (unat b3) @ nat_be 8 (unat b2) @ nat_be 8 (unat b1)) @ nat_be 8 (unat b0) @ []"
    by (subst f) simp_all
  ultimately show ?thesis
    unfolding fromLibsnarkBigint_def upt_4 z fold_simps
    by (simp only: append_assoc append_Nil append_Nil2)
qed

lemma four_limbs:
  fixes b :: bigint
  assumes "length b = 4"
  obtains b0 b1 b2 b3 where "b = [b0, b1, b2, b3]"
  using assms by (auto simp: eval_nat_numeral length_Suc_conv)

text \<open>The number of a big integer, and what the two conversions make of it.\<close>

definition bigint_val :: "bigint \<Rightarrow> nat" where
  "bigint_val b = foldr (\<lambda>w n. unat w + 2 ^ 64 * n) b 0"

lemma length_fromLibsnarkBigint [simp]: "length b = 4 \<Longrightarrow> length (fromLibsnarkBigint b) = 32"
  by (elim four_limbs) (simp add: fromLibsnarkBigint_limbs)

lemma unat_u64_bound: "unat w < 256 ^ 8" for w :: u64
  using unsigned_less [of w] by simp

lemma be_nat_fromLibsnarkBigint: "length b = 4 \<Longrightarrow> be_nat (fromLibsnarkBigint b) = bigint_val b"
  by (elim four_limbs)
    (simp add: fromLibsnarkBigint_limbs be_nat_append unat_u64_bound [simplified] bigint_val_def algebra_simps)

lemma unat_fromBigEndian_8: "length y = 8 \<Longrightarrow> unat (fromBigEndian y :: u64) = be_nat y"
  using be_nat_less [of y] by (simp add: fromBigEndian_nat)

lemma bigint_roundtrip:
  assumes "length x = 32"
  shows "fromLibsnarkBigint (toLibsnarkBigint x) = x" and "length (toLibsnarkBigint x) = 4"
    and "bigint_val (toLibsnarkBigint x) = be_nat x"
proof -
  obtain a b c d where x: "x = a @ b @ c @ d" and l: "length a = 8" "length b = 8" "length c = 8" "length d = 8"
    using assms by (rule split_chunks)
  note t = toLibsnarkBigint_chunks [OF l]
  have n: "nat_be 8 (be_nat y) = y" if "length y = 8" for y using nat_be_be_nat [of y] that by simp
  show f: "fromLibsnarkBigint (toLibsnarkBigint x) = x"
    unfolding x t fromLibsnarkBigint_limbs by (simp add: unat_fromBigEndian_8 l n)
  show t4: "length (toLibsnarkBigint x) = 4" unfolding x t by simp
  show "bigint_val (toLibsnarkBigint x) = be_nat x"
    using be_nat_fromLibsnarkBigint [OF t4] by (simp add: f)
qed

lemma bigint_val_inj: "length a = 4 \<Longrightarrow> length b = 4 \<Longrightarrow> bigint_val a = bigint_val b \<Longrightarrow> fromLibsnarkBigint a = fromLibsnarkBigint b"
  by (rule be_nat_inj) (simp_all add: be_nat_fromLibsnarkBigint)

lemma fromLibsnarkBigint_inj:
  assumes "length a = 4" "length b = 4" "fromLibsnarkBigint a = fromLibsnarkBigint b"
  shows "a = b"
proof -
  obtain a0 a1 a2 a3 b0 b1 b2 b3 where ab: "a = [a0, a1, a2, a3]" "b = [b0, b1, b2, b3]"
    using assms(1,2) by (elim four_limbs)
  have "unat v = unat w" if "nat_be 8 (unat v) = nat_be 8 (unat w)" for v w :: u64
    using nat_be_inj [OF that] unat_u64_bound by blast
  then show ?thesis
    using assms(3) unfolding ab fromLibsnarkBigint_limbs by (simp add: word_unat_eq_iff)
qed

lemma toLibsnarkBigint_inverse: "length b = 4 \<Longrightarrow> toLibsnarkBigint (fromLibsnarkBigint b) = b"
  by (rule fromLibsnarkBigint_inj) (simp_all add: bigint_roundtrip)

section \<open>Elements and points\<close>

lemma hash_of_bytes_left: "hash_of_bytes N b AlignLeft = take N (b @ replicate N 0)"
  by (simp add: hash_of_bytes_def hash_copy_left min_def) (auto simp: hash_zero_def)

lemma hash_of_bytes_front: "length x = N \<Longrightarrow> hash_of_bytes N (x @ rest) AlignLeft = x"
  by (simp add: hash_of_bytes_left)

lemma cropped_from_drop [simp]: "cropped_from d n = drop n d"
  by (simp add: cropped_from_def)

text \<open>An element depends on the first 32 bytes only, zeros for those that are missing.\<close>

definition zero_padded :: "nat \<Rightarrow> bytes \<Rightarrow> bytes" where
  "zero_padded m d = take m (d @ replicate m 0)"

lemma length_zero_padded [simp]: "length (zero_padded m d) = m"
  by (simp add: zero_padded_def)

lemma nth_zero_padded: "i < m \<Longrightarrow> zero_padded m d ! i = (if i < length d then d ! i else 0)"
  by (simp add: zero_padded_def nth_append)

lemma drop_zero_padded: "drop n (zero_padded m d) = zero_padded (m - n) (drop n d)"
  by (rule nth_equalityI) (auto simp: nth_zero_padded less_diff_conv add.commute)

lemma zero_padded_twice: "k \<le> m \<Longrightarrow> zero_padded k (zero_padded m d) = zero_padded k d"
  by (rule nth_equalityI) (auto simp: nth_zero_padded)

lemma decodeFqElement_padded: "m \<ge> 32 \<Longrightarrow> decodeFqElement F (zero_padded m d) = decodeFqElement F d"
  unfolding decodeFqElement_def hash_of_bytes_left zero_padded_def [symmetric] by (simp add: zero_padded_twice)

lemma decodePointG1_padded: "m \<ge> 64 \<Longrightarrow> decodePointG1 F (zero_padded m d) = decodePointG1 F d"
  by (simp add: decodePointG1_def decodeFqElement_padded drop_zero_padded)

locale libff_laws =
  fixes F :: "('q, 'g1, 'g2, 't) libff"
  assumes mod_limbs: "length (Fq_mod F) = 4"
    and as_limbs: "length (Fq_as_bigint F q) = 4"
    and as_less: "bigint_val (Fq_as_bigint F q) < bigint_val (Fq_mod F)"
    and of_as: "Fq_of_bigint F (Fq_as_bigint F q) = q"
    and of_zero: "Fq_of_bigint F (replicate 4 0) = Fq_zero F"
    and is_zero_iff: "G1_is_zero F p \<longleftrightarrow> p = G1_zero F"
    and affine: "G1_well_formed F p \<Longrightarrow> p \<noteq> G1_zero F \<Longrightarrow> G1_coordinates F p = (x, y) \<Longrightarrow>
      G1_affine F x y = p \<and> \<not> (x = Fq_zero F \<and> y = Fq_zero F)"
begin

lemma value_order:
  assumes "length x = 32"
  shows "(hash_to_arith x :: u256) \<ge> hash_to_arith (fromLibsnarkBigint (Fq_mod F)) \<longleftrightarrow> bigint_val (Fq_mod F) \<le> be_nat x"
proof -
  have "unat (hash_to_arith y :: u256) = be_nat y" if "length y = 32" for y
    using be_nat_less [of y] that by (simp add: hash_to_arith_def fromBigEndian_nat)
  then show ?thesis
    using assms mod_limbs by (simp add: word_le_nat_alt be_nat_fromLibsnarkBigint)
qed

lemma decode_element: "decodeFqElement F (fromLibsnarkBigint (Fq_as_bigint F q) @ rest) = Inr q"
proof -
  let ?x = "fromLibsnarkBigint (Fq_as_bigint F q)"
  have "\<not> bigint_val (Fq_mod F) \<le> be_nat ?x"
    using as_less [of q] as_limbs by (simp add: be_nat_fromLibsnarkBigint)
  then show ?thesis
    using value_order [of ?x] as_limbs
    by (simp add: decodeFqElement_def hash_of_bytes_front toLibsnarkBigint_inverse of_as)
qed

lemma decode_zero: "decodeFqElement F (replicate 32 0 @ rest) = Inr (Fq_zero F)"
proof -
  have z: "toLibsnarkBigint (replicate 32 0) = replicate 4 0"
  proof (rule fromLibsnarkBigint_inj)
    show "fromLibsnarkBigint (toLibsnarkBigint (replicate 32 0)) = fromLibsnarkBigint (replicate 4 0)"
    proof (rule be_nat_inj)
      have "bigint_val (replicate 4 0) = 0" by (simp add: bigint_val_def four_zeros)
      then show "be_nat (fromLibsnarkBigint (toLibsnarkBigint (replicate 32 0))) = be_nat (fromLibsnarkBigint (replicate 4 0))"
        by (simp add: bigint_roundtrip(1) be_nat_fromLibsnarkBigint)
    qed (simp add: bigint_roundtrip(2))
  qed (simp_all add: bigint_roundtrip(2))
  have "0 < bigint_val (Fq_mod F)" using as_less [of "Fq_zero F"] by simp
  then show ?thesis
    using value_order [of "replicate 32 0"] by (simp add: decodeFqElement_def hash_of_bytes_front z of_zero)
qed

text \<open>A point is read back from its encoding, whatever follows it.\<close>

lemma decode_encode:
  assumes "G1_well_formed F p"
  shows "decodePointG1 F (encodePointG1 F p @ rest) = Inr p" and "length (encodePointG1 F p) = 64"
proof -
  obtain x y where xy: "G1_coordinates F p = (x, y)" by fastforce
  show "length (encodePointG1 F p) = 64" by (simp add: encodePointG1_def xy as_limbs)
  show "decodePointG1 F (encodePointG1 F p @ rest) = Inr p"
  proof (cases "p = G1_zero F")
    case True
    have "replicate 64 0 @ rest = replicate 32 0 @ replicate 32 (0 :: byte) @ rest"
      by (simp add: replicate_add [symmetric] flip: append.assoc)
    then show ?thesis
      using True is_zero_iff decode_zero
      by (simp add: encodePointG1_def decodePointG1_def)
  next
    case False
    then show ?thesis
      using affine [OF assms False xy] assms is_zero_iff decode_element
      by (simp add: encodePointG1_def decodePointG1_def xy as_limbs)
  qed
qed

end

section \<open>The pairing check\<close>

text \<open>
  The two points of a pair of 192 bytes, if both decode and the second one has the right order, and
  the factor it contributes.
\<close>

definition pair_points :: "('q, 'g1, 'g2, 't) libff \<Rightarrow> bytes \<Rightarrow> ('g1 \<times> 'g2) option" where
  "pair_points F pair =
     (case (decodePointG1 F pair, decodePointG2 F (drop 64 pair)) of
        (Inr g, Inr p) \<Rightarrow> if G2_add F (G2_minus_one F p) p = G2_zero F then Some (g, p) else None
      | _ \<Rightarrow> None)"

definition pair_factor :: "('q, 'g1, 'g2, 't) libff \<Rightarrow> 'g1 \<times> 'g2 \<Rightarrow> 't \<Rightarrow> 't" where
  "pair_factor F gp x =
     (if G2_is_zero F (snd gp) \<or> G1_is_zero F (fst gp) then x else GT_mul F x (miller_loop F (fst gp) (snd gp)))"

fun product_of :: "('q, 'g1, 'g2, 't) libff \<Rightarrow> bytes list \<Rightarrow> 't \<Rightarrow> 't option" where
  "product_of F [] x = Some x"
| "product_of F (c # cs) x =
     (case pair_points F c of None \<Rightarrow> None | Some gp \<Rightarrow> product_of F cs (pair_factor F gp x))"

lemma product_of_fold:
  "product_of F cs x =
    (if \<forall>c \<in> set cs. pair_points F c \<noteq> None
     then Some (fold (pair_factor F) (map (the \<circ> pair_points F) cs) x) else None)"
  by (induction cs arbitrary: x) (auto split: option.splits)

text \<open>The loop gives the product, or fails, by an exception or by the early return.\<close>

lemma pairing_loop_product:
  assumes "\<And>i. i \<in> set is \<Longrightarrow> cropped inp (i * pairSize) pairSize = f i"
  shows "(case pairing_loop F inp is x of Inr (Some y) \<Rightarrow> Some y | _ \<Rightarrow> None) = product_of F (map f is) x"
  using assms
proof (induction "is" arbitrary: x)
  case (Cons i "is")
  then have c: "cropped inp (i * pairSize) pairSize = f i" by simp
  note IH = Cons.IH [OF Cons.prems, simplified]
  show ?case
    by (cases "decodePointG1 F (f i)"; cases "decodePointG2 F (drop 64 (f i))")
      (use IH in \<open>auto simp: c pair_points_def pair_factor_def\<close>)
qed simp

lemma caught_loop:
  "caught (bind_res r (\<lambda>r. case r of None \<Rightarrow> Inr (False, []) | Some x \<Rightarrow> Inr (True, g x))) =
    (case (case r of Inr (Some y) \<Rightarrow> Some y | _ \<Rightarrow> None) of None \<Rightarrow> (False, []) | Some y \<Rightarrow> (True, g y))"
  by (cases r) (auto simp: caught_def split: option.splits)

definition pair_chunks :: "bytes \<Rightarrow> bytes list" where
  "pair_chunks inp = map (\<lambda>i. take 192 (drop (i * 192) inp)) [0..<length inp div 192]"

lemma hash_of_bit: "hash_of_unsigned 32 (if b then 1 else 0) = replicate 31 0 @ [if b then 1 else 0]"
  by (rule be_nat_inj) (simp_all add: hash_of_unsigned_def toBigEndian_eq)

lemma pairing_product_eq:
  "alt_bn128_pairing_product F inp =
    (if length inp mod 192 = 0
     then (case product_of F (pair_chunks inp) (GT_one F) of
             None \<Rightarrow> (False, [])
           | Some x \<Rightarrow> (True, replicate 31 0 @ [if final_exponentiation F x = GT_one F then 1 else 0]))
     else (False, []))"
proof (cases "length inp mod 192 = 0")
  case True
  then have n: "length inp div 192 * 192 = length inp" by (simp add: mod_eq_0_iff_dvd)
  have c: "cropped inp (i * pairSize) pairSize = take 192 (drop (i * 192) inp)" if "i \<in> set [0..<length inp div 192]" for i
  proof -
    have "Suc i * 192 \<le> length inp div 192 * 192" using that by (intro mult_le_mono1) simp
    then have "i * 192 + 192 \<le> length inp" using n by simp
    then show ?thesis by (simp add: cropped_def pairSize_def)
  qed
  have "(case pairing_loop F inp [0..<length inp div 192] (GT_one F) of Inr (Some y) \<Rightarrow> Some y | _ \<Rightarrow> None) =
      product_of F (pair_chunks inp) (GT_one F)"
    unfolding pair_chunks_def by (rule pairing_loop_product) (rule c)
  then show ?thesis
    using True n by (simp add: alt_bn128_pairing_product_def pairSize_def Let_def hash_of_bit caught_loop)
next
  case False
  then have "length inp div 192 * 192 \<noteq> length inp" by (metis mod_mult_self2_is_0)
  then show ?thesis using False by (simp add: alt_bn128_pairing_product_def pairSize_def)
qed

section \<open>Properties\<close>

text \<open>
  C35: on points in their encoding the precompiled operations are those of the group: addition gives the
  encoding of the sum, multiplication that of the multiple by the big-endian number behind the
  point, and bytes after the operands are ignored.
\<close>

theorem alt_bn128_group:
  assumes "libff_laws F" and "G1_well_formed F p" and "G1_well_formed F q" and "length s = 32"
  shows "alt_bn128_G1_add F (encodePointG1 F p @ encodePointG1 F q @ rest) = (True, encodePointG1 F (G1_add F p q)) \<and>
    (\<exists>k. bigint_val k = be_nat s \<and>
       alt_bn128_G1_mul F (encodePointG1 F p @ s @ rest) = (True, encodePointG1 F (G1_mul F k p)))"
proof -
  note dec = libff_laws.decode_encode [OF assms(1,2)] libff_laws.decode_encode [OF assms(1,3)]
  have "alt_bn128_G1_add F (encodePointG1 F p @ encodePointG1 F q @ rest) = (True, encodePointG1 F (G1_add F p q))"
    by (simp add: alt_bn128_G1_add_def dec caught_def)
  moreover have "alt_bn128_G1_mul F (encodePointG1 F p @ s @ rest) =
      (True, encodePointG1 F (G1_mul F (toLibsnarkBigint s) p))"
    using assms(4) by (simp add: alt_bn128_G1_mul_def dec caught_def hash_of_bytes_front)
  ultimately show ?thesis using bigint_roundtrip(3) [OF assms(4)] by blast
qed

text \<open>A field of two elements and a curve with one point beside zero.\<close>

definition demo_libff :: "(bool, (bool \<times> bool) option, bool option, bool) libff" where
  "demo_libff =
     \<lparr>Fq_mod = [2, 0, 0, 0], Fq_of_bigint = (\<lambda>b. hd b = 1), Fq_as_bigint = (\<lambda>q. [if q then 1 else 0, 0, 0, 0]),
      Fq_zero = False, G1_zero = None, G1_affine = (\<lambda>x y. Some (x, y)),
      G1_well_formed = (\<lambda>p. p = None \<or> p = Some (True, True)), G1_is_zero = (\<lambda>p. p = None),
      G1_coordinates = (\<lambda>p. case p of None \<Rightarrow> (False, True) | Some xy \<Rightarrow> xy),
      G1_add = (\<lambda>p q. if p = None then q else if q = None then p else None),
      G1_mul = (\<lambda>k p. if odd (bigint_val k) then p else None),
      G2_zero = None, G2_affine = (\<lambda>x y. Some True), G2_well_formed = (\<lambda>p. True), G2_is_zero = (\<lambda>p. p = None),
      G2_add = (\<lambda>p q. if p = None then q else if q = None then p else None), G2_minus_one = (\<lambda>p. p),
      GT_one = False, GT_mul = (\<noteq>), miller_loop = (\<lambda>p q. True), final_exponentiation = (\<lambda>x. x)\<rparr>"

interpretation demo_ff: libff_laws demo_libff
  by unfold_locales (auto simp: demo_libff_def bigint_val_def four_zeros)

theorem alt_bn128_group_witness:
  "alt_bn128_G1_add demo_libff (encodePointG1 demo_libff (Some (True, True)) @ encodePointG1 demo_libff None @ [7]) =
     (True, encodePointG1 demo_libff (G1_add demo_libff (Some (True, True)) None)) \<and>
   (\<exists>k. bigint_val k = be_nat (nat_be 32 3) \<and>
      alt_bn128_G1_mul demo_libff (encodePointG1 demo_libff (Some (True, True)) @ nat_be 32 3 @ [7]) =
        (True, encodePointG1 demo_libff (G1_mul demo_libff k (Some (True, True)))))"
  by (rule alt_bn128_group [OF demo_ff.libff_laws_axioms]) (simp_all add: demo_libff_def)

text \<open>
  C38: inputs of any length are read as if they were extended with zeros, and cut, to the length of the
  operands: 128 bytes for the addition and 96 for the multiplication.
\<close>

theorem alt_bn128_padding:
  "alt_bn128_G1_add F (zero_padded 128 inp) = alt_bn128_G1_add F inp \<and>
   alt_bn128_G1_mul F (zero_padded 96 inp) = alt_bn128_G1_mul F inp"
proof -
  have "hash_of_bytes 32 (zero_padded 32 d) AlignLeft = hash_of_bytes 32 d AlignLeft" for d
    unfolding hash_of_bytes_left zero_padded_def [symmetric] by (simp add: zero_padded_twice)
  then show ?thesis
    by (simp add: alt_bn128_G1_add_def alt_bn128_G1_mul_def decodePointG1_padded drop_zero_padded)
qed

text \<open>
  C26: the pairing check answers for every input.  It succeeds exactly if the length is a multiple of
  192 and every pair decodes to points of the right order; then the output is one or zero in 32
  bytes, as the product of the pairs without a zero point ends in one or not.
\<close>

theorem pairing_check:
  "alt_bn128_pairing_product F inp =
    (if length inp mod 192 = 0 \<and> list_all (\<lambda>c. pair_points F c \<noteq> None) (pair_chunks inp)
     then (let x = fold (pair_factor F) (map (the \<circ> pair_points F) (pair_chunks inp)) (GT_one F)
           in (True, replicate 31 0 @ [if final_exponentiation F x = GT_one F then 1 else 0]))
     else (False, []))"
  by (auto simp: pairing_product_eq product_of_fold list_all_iff Let_def)

end
