(* ===== verification/New_Key_Pair.thy ===== *)
theory New_Key_Pair
  imports Ecies
begin

text \<open>
  \<open>KeyManager::newKeyPair\<close>: threads that draw key pairs until one of them has an address of the wanted
  form.  They share the flag \<open>keepGoing\<close>, the counter \<open>done\<close> and the result \<open>p\<close> without any lock.  The
  model lets the threads move in any order, one access to the shared variables at a time, and the
  assignment \<open>p = lp\<close> is as many steps as it writes bytes: \<open>SecureFixedHash::operator=\<close> first cleanses
  the secret, with a pattern and then with zeros, and the members are copied one after the other.
  What the memory model of C++ leaves undefined for such races is outside the model.
\<close>

section \<open>The threads\<close>

datatype NewKeyType = DirectICAP | NoVanity | FirstTwo | FirstTwoNextTwo | FirstThree | FirstFour

definition wanted :: "NewKeyType \<Rightarrow> KeyPair \<Rightarrow> bool" where
  "wanted ty k =
     (let a = kp_address k in
      ty = NoVanity \<or>
      (ty = DirectICAP \<and> a ! 0 = 0) \<or>
      (ty = FirstTwo \<and> a ! 0 = a ! 1) \<or>
      (ty = FirstTwoNextTwo \<and> a ! 0 = a ! 1 \<and> a ! 2 = a ! 3) \<or>
      (ty = FirstThree \<and> a ! 0 = a ! 1 \<and> a ! 1 = a ! 2) \<or>
      (ty = FirstFour \<and> a ! 0 = a ! 1 \<and> a ! 1 = a ! 2 \<and> a ! 2 = a ! 3))"

text \<open>The bytes of a \<open>KeyPair\<close> in memory: the members \<open>m_secret\<close>, \<open>m_public\<close> and \<open>m_address\<close>.\<close>

definition keypair_bytes :: "KeyPair \<Rightarrow> bytes" where
  "keypair_bytes k = kp_secret k @ kp_public k @ kp_address k"

definition pair_of_bytes :: "bytes \<Rightarrow> KeyPair" where
  "pair_of_bytes b = \<lparr>kp_secret = take 32 b, kp_public = take 64 (drop 32 b), kp_address = drop 96 b\<rparr>"

text \<open>
  The writes of \<open>p = lp\<close> in their order: \<open>cleanse\<close> writes a byte pattern over the 32 bytes of the
  secret and then zeros, and the 116 bytes of the three members are copied.  \<open>g\<close> is the byte of the
  pattern, which comes from a global counter and an address.
\<close>

definition assign_end :: nat where
  "assign_end = 32 + 32 + 116"

definition assign_write :: "KeyPair \<Rightarrow> byte \<Rightarrow> nat \<Rightarrow> bytes \<Rightarrow> bytes" where
  "assign_write k g j p =
     (if j < 32 then p[j := g]
      else if j < 64 then p[j - 32 := 0]
      else p[j - 64 := keypair_bytes k ! (j - 64)])"

record search_shared =
  keepGoing :: bool
  tried :: u32
  found_pair :: bytes

text \<open>
  Where a thread is: before its first draw, at the test of the loop, before the counter is read and
  before it is written, before the draw in the loop, at the test behind the loop, before a write of
  the assignment of \<open>p\<close>, before the flag is cleared, or at its end.  The counter read is kept in a
  register.
\<close>

datatype search_pc = Enter | Test | Count | Bump | Draw | Decide | Assign nat | Clear | Finished

record search_thread =
  pc :: search_pc
  lp :: KeyPair
  count_reg :: u32

text \<open>
  One step of the function \<open>f\<close>; \<open>k\<close> is what \<open>KeyPair::create\<close> returns, where the step calls it, and
  \<open>g\<close> the byte of the pattern, where it cleanses.
\<close>

fun f_step :: "NewKeyType \<Rightarrow> KeyPair \<Rightarrow> byte \<Rightarrow> search_shared \<Rightarrow> search_thread \<Rightarrow> search_shared \<times> search_thread" where
  "f_step ty k g sh t =
     (case pc t of
        Enter \<Rightarrow> (sh, t\<lparr>lp := k, pc := Test\<rparr>)
      | Test \<Rightarrow> (sh, t\<lparr>pc := (if keepGoing sh then Count else Decide)\<rparr>)
      | Count \<Rightarrow> (sh, t\<lparr>count_reg := tried sh, pc := Bump\<rparr>)
      | Bump \<Rightarrow> (sh\<lparr>tried := count_reg t + 1\<rparr>, t\<lparr>pc := Draw\<rparr>)
      | Draw \<Rightarrow> (sh, t\<lparr>lp := k, pc := (if wanted ty k then Decide else Test)\<rparr>)
      | Decide \<Rightarrow> (sh, t\<lparr>pc := (if keepGoing sh then Assign 0 else Clear)\<rparr>)
      | Assign j \<Rightarrow> (sh\<lparr>found_pair := assign_write (lp t) g j (found_pair sh)\<rparr>,
                     t\<lparr>pc := (if Suc j < assign_end then Assign (Suc j) else Clear)\<rparr>)
      | Clear \<Rightarrow> (sh\<lparr>keepGoing := False\<rparr>, t\<lparr>pc := Finished\<rparr>)
      | Finished \<Rightarrow> (sh, t))"

declare f_step.simps [simp del]

type_synonym search_state = "search_shared \<times> search_thread list"

text \<open>
  The start: the first pair is drawn, the calling thread and \<open>hardware_concurrency() - 1\<close> others, a
  difference of unsigned numbers, run \<open>f\<close>.  A thread's \<open>lp\<close> is not read before its first draw.
\<close>

definition newKeyPair_init :: "u32 \<Rightarrow> KeyPair \<Rightarrow> search_state" where
  "newKeyPair_init hardware_concurrency p =
     (\<lparr>keepGoing = True, tried = 0, found_pair = keypair_bytes p\<rparr>,
      replicate (unat (hardware_concurrency - 1) + 1) \<lparr>pc = Enter, lp = p, count_reg = 0\<rparr>)"

text \<open>What \<open>KeyPair::create\<close> can return: it draws secrets, of 32 bytes, until one has an address.\<close>

definition creates :: "crypto \<Rightarrow> KeyPair \<Rightarrow> bool" where
  "creates C k \<longleftrightarrow> (\<exists>draws. (\<forall>d \<in> set draws. length d = 32) \<and> KeyPair_create C draws = Some k)"

inductive newKeyPair_step :: "crypto \<Rightarrow> NewKeyType \<Rightarrow> search_state \<Rightarrow> search_state \<Rightarrow> bool" for C ty where
  thread: "i < length ts \<Longrightarrow> pc (ts ! i) \<noteq> Finished \<Longrightarrow> creates C k \<Longrightarrow>
    f_step ty k g sh (ts ! i) = (sh', t') \<Longrightarrow> newKeyPair_step C ty (sh, ts) (sh', ts[i := t'])"

inductive newKeyPair_reach :: "crypto \<Rightarrow> NewKeyType \<Rightarrow> search_state \<Rightarrow> search_state \<Rightarrow> bool" for C ty s where
  start: "newKeyPair_reach C ty s s"
| move: "newKeyPair_reach C ty s s' \<Longrightarrow> newKeyPair_step C ty s' s'' \<Longrightarrow> newKeyPair_reach C ty s s''"

text \<open>All threads are joined: the call returns \<open>p\<close>.\<close>

definition newKeyPair_returns :: "search_state \<Rightarrow> KeyPair option" where
  "newKeyPair_returns s =
     (if list_all (\<lambda>t. pc t = Finished) (snd s) then Some (pair_of_bytes (found_pair (fst s))) else None)"

inductive_cases newKeyPair_stepE: "newKeyPair_step C ty s s'"

section \<open>Bytes\<close>

text \<open>A usable pair is one that \<open>KeyPair::create\<close> returned and that has the wanted form.\<close>

definition usable :: "crypto \<Rightarrow> NewKeyType \<Rightarrow> KeyPair \<Rightarrow> bool" where
  "usable C ty k \<longleftrightarrow> wanted ty k \<and> creates C k"

lemma creates_of: "creates C k \<Longrightarrow> \<exists>s. length s = 32 \<and> k = KeyPair_of C s \<and> hash_bool (kp_address k)"
  by (auto simp: creates_def KeyPair_create_first find_Some_iff)

lemma length_created:
  assumes "crypto_ok C" "creates C k"
  shows "length (kp_secret k) = 32" "length (kp_public k) = 64" "length (kp_address k) = 20"
proof -
  obtain s where s: "length s = 32" "k = KeyPair_of C s" using creates_of [OF assms(2)] by blast
  have "length (toPublic C s) = 64"
    using assms(1) by (auto simp: toPublic_def crypto_ok_def split: option.split)
  moreover have "length (toAddress_public C p) = 20" for p
    using assms(1) by (simp add: toAddress_public_def right160_def crypto_ok_def)
  ultimately show "length (kp_secret k) = 32" "length (kp_public k) = 64" "length (kp_address k) = 20"
    using s by (simp_all add: KeyPair_of_def Let_def)
qed

lemma length_keypair_bytes: "crypto_ok C \<Longrightarrow> creates C k \<Longrightarrow> length (keypair_bytes k) = 116"
  using length_created [of C k] by (simp add: keypair_bytes_def)

lemma bytes_of_pair: "length b = 116 \<Longrightarrow> keypair_bytes (pair_of_bytes b) = b"
proof -
  assume "length b = 116"
  have "take 64 (drop 32 b) @ drop 96 b = drop 32 b" using append_take_drop_id [of 64 "drop 32 b"] by simp
  then show ?thesis by (simp add: keypair_bytes_def pair_of_bytes_def)
qed

lemma pair_of_created: "crypto_ok C \<Longrightarrow> creates C k \<Longrightarrow> pair_of_bytes (keypair_bytes k) = k"
  using length_created [of C k] by (simp add: keypair_bytes_def pair_of_bytes_def)

lemma length_assign_write [simp]: "length (assign_write k g j p) = length p"
  by (simp add: assign_write_def)

text \<open>Which byte a write changes, and that the copies leave the byte of the pair.\<close>

definition write_place :: "nat \<Rightarrow> nat" where
  "write_place j = (if j < 32 then j else if j < 64 then j - 32 else j - 64)"

lemma assign_write_other: "i \<noteq> write_place j \<Longrightarrow> assign_write k g j p ! i = p ! i"
  by (auto simp: assign_write_def write_place_def split: if_splits)

lemma assign_write_copy: "64 \<le> j \<Longrightarrow> j - 64 < length p \<Longrightarrow> assign_write k g j p ! (j - 64) = keypair_bytes k ! (j - 64)"
  by (simp add: assign_write_def)

section \<open>The invariant\<close>

text \<open>
  A thread has committed when it has decided to assign: its pair is usable and stays.  A byte of the
  result is settled if it is that of a committed pair, and pending if a thread in its assignment will
  still copy its own.  Until a thread commits the flag is set; from then on every byte is settled or
  pending.
\<close>

definition committed :: "search_thread \<Rightarrow> bool" where
  "committed t = (case pc t of Assign j \<Rightarrow> True | Clear \<Rightarrow> True | Finished \<Rightarrow> True | _ \<Rightarrow> False)"

definition settled :: "crypto \<Rightarrow> NewKeyType \<Rightarrow> bytes \<Rightarrow> nat \<Rightarrow> search_thread \<Rightarrow> bool" where
  "settled C ty p i t \<longleftrightarrow> committed t \<and> usable C ty (lp t) \<and> p ! i = keypair_bytes (lp t) ! i"

definition pending :: "nat \<Rightarrow> search_thread \<Rightarrow> bool" where
  "pending i t \<longleftrightarrow> (\<exists>j. pc t = Assign j \<and> j \<le> 64 + i)"

definition thread_inv :: "crypto \<Rightarrow> NewKeyType \<Rightarrow> bool \<Rightarrow> search_thread \<Rightarrow> bool" where
  "thread_inv C ty going t \<longleftrightarrow>
     (case pc t of
        Decide \<Rightarrow> usable C ty (lp t) \<or> \<not> going
      | Assign j \<Rightarrow> usable C ty (lp t) \<and> j < assign_end
      | _ \<Rightarrow> True)"

definition byte_inv :: "crypto \<Rightarrow> NewKeyType \<Rightarrow> bytes \<Rightarrow> search_thread list \<Rightarrow> bool" where
  "byte_inv C ty p ts \<longleftrightarrow> (\<forall>i < 116. \<exists>t \<in> set ts. settled C ty p i t \<or> pending i t)"

definition search_inv :: "crypto \<Rightarrow> NewKeyType \<Rightarrow> search_state \<Rightarrow> bool" where
  "search_inv C ty s \<longleftrightarrow>
     length (found_pair (fst s)) = 116 \<and> (\<forall>t \<in> set (snd s). thread_inv C ty (keepGoing (fst s)) t) \<and>
     ((keepGoing (fst s) \<and> (\<forall>t \<in> set (snd s). \<not> committed t)) \<or> byte_inv C ty (found_pair (fst s)) (snd s))"

lemma f_step_thread_inv:
  assumes "f_step ty k g sh t = (sh', t')" "creates C k" "thread_inv C ty (keepGoing sh) t"
  shows "thread_inv C ty (keepGoing sh') t'" "keepGoing sh' \<longrightarrow> keepGoing sh" "length (found_pair sh') = length (found_pair sh)"
  using assms
  by (auto simp: f_step.simps thread_inv_def usable_def assign_end_def split: search_pc.splits if_splits)

lemma thread_inv_mono: "going' \<longrightarrow> going \<Longrightarrow> thread_inv C ty going t \<Longrightarrow> thread_inv C ty going' t"
  by (auto simp: thread_inv_def split: search_pc.splits)

text \<open>A thread that is not in its assignment leaves the result alone and, once committed, its pair.\<close>

lemma f_step_quiet:
  assumes "f_step ty k g sh t = (sh', t')" "\<forall>j. pc t \<noteq> Assign j"
  shows "found_pair sh' = found_pair sh" "committed t \<longrightarrow> committed t' \<and> lp t' = lp t"
  using assms by (auto simp: f_step.simps committed_def split: search_pc.splits)

text \<open>A write of the assignment: the byte it changes is settled or still to be copied.\<close>

lemma f_step_assign:
  assumes "f_step ty k g sh t = (sh', t')" "pc t = Assign j" "thread_inv C ty (keepGoing sh) t" "length (found_pair sh) = 116"
    and "i < 116"
  shows "lp t' = lp t" "committed t'"
    and "i \<noteq> write_place j \<Longrightarrow> found_pair sh' ! i = found_pair sh ! i"
    and "i = write_place j \<Longrightarrow> settled C ty (found_pair sh') i t' \<or> pending i t'"
    and "pending i t \<Longrightarrow> settled C ty (found_pair sh') i t' \<or> pending i t'"
proof -
  have st: "sh' = sh\<lparr>found_pair := assign_write (lp t) g j (found_pair sh)\<rparr>"
    "t' = t\<lparr>pc := (if Suc j < assign_end then Assign (Suc j) else Clear)\<rparr>"
    using assms(1,2) by (simp_all add: f_step.simps)
  have u: "usable C ty (lp t)" "j < assign_end" using assms(2,3) by (simp_all add: thread_inv_def)
  show l: "lp t' = lp t" and c: "committed t'" by (simp_all add: st(2) committed_def)
  show "i \<noteq> write_place j \<Longrightarrow> found_pair sh' ! i = found_pair sh ! i" by (simp add: st(1) assign_write_other)
  have copy: "settled C ty (found_pair sh') i t'" if "j = 64 + i"
    using that c l u assms(4,5) by (simp add: settled_def st(1) assign_write_def)
  have later: "pending i t'" if "j < 64 + i"
    using that assms(5) by (simp add: pending_def st(2) assign_end_def)
  show "i = write_place j \<Longrightarrow> settled C ty (found_pair sh') i t' \<or> pending i t'"
    using copy later by (auto simp: write_place_def split: if_splits)
  show "pending i t \<Longrightarrow> settled C ty (found_pair sh') i t' \<or> pending i t'"
    using copy later assms(2) by (auto simp: pending_def le_eq_less_or_eq)
qed

lemma byte_inv_step:
  assumes st: "f_step ty k g sh (ts ! n) = (sh', t')" and n: "n < length ts"
    and inv: "thread_inv C ty (keepGoing sh) (ts ! n)" "length (found_pair sh) = 116" "byte_inv C ty (found_pair sh) ts"
  shows "byte_inv C ty (found_pair sh') (ts[n := t'])"
  unfolding byte_inv_def
proof (intro allI impI)
  fix i :: nat
  assume i: "i < 116"
  let ?ok = "\<lambda>t. settled C ty (found_pair sh') i t \<or> pending i t"
  have new: "\<exists>t \<in> set (ts[n := t']). ?ok t" if "?ok t'" using that n set_update_memI [of n ts t'] by blast
  obtain m where m: "m < length ts" "settled C ty (found_pair sh) i (ts ! m) \<or> pending i (ts ! m)"
    using inv(3) i unfolding byte_inv_def by (metis in_set_conv_nth)
  have other: "\<exists>t \<in> set (ts[n := t']). ?ok t" if "m \<noteq> n" "found_pair sh' ! i = found_pair sh ! i"
  proof -
    have "ts ! m \<in> set (ts[n := t'])" using nth_mem [of m "ts[n := t']"] m(1) that(1) by simp
    then show ?thesis using m(2) that(2) by (intro bexI [of _ "ts ! m"]) (auto simp: settled_def)
  qed
  show "\<exists>t \<in> set (ts[n := t']). ?ok t"
  proof (cases "\<exists>j. pc (ts ! n) = Assign j")
    case True
    then obtain j where j: "pc (ts ! n) = Assign j" by blast
    note a = f_step_assign [OF st j inv(1,2) i]
    consider "i = write_place j" | "i \<noteq> write_place j" "m = n" | "i \<noteq> write_place j" "m \<noteq> n" by blast
    then show ?thesis
    proof cases
      case 2
      then have "?ok t'" using a(1,2,3,5) m(2) by (auto simp: settled_def)
      then show ?thesis by (rule new)
    qed (use a(3,4) new other in blast)+
  next
    case False
    note q = f_step_quiet [OF st]
    show ?thesis
    proof (cases "m = n")
      case True
      then have "?ok t'" using False m(2) q by (auto simp: settled_def pending_def)
      then show ?thesis by (rule new)
    qed (use other q(1) False in simp)
  qed
qed

lemma byte_inv_commit:
  assumes "n < length ts" "pc t' = Assign 0" shows "byte_inv C ty p (ts[n := t'])"
  unfolding byte_inv_def
proof (intro allI impI)
  fix i :: nat
  have "pending i t'" using assms(2) by (simp add: pending_def)
  then show "\<exists>t \<in> set (ts[n := t']). settled C ty p i t \<or> pending i t" using set_update_memI [OF assms(1)] by blast
qed

lemma search_inv_step: "newKeyPair_step C ty s s' \<Longrightarrow> search_inv C ty s \<Longrightarrow> search_inv C ty s'"
proof (erule newKeyPair_stepE)
  fix n ts k g sh sh' t'
  assume s: "s = (sh, ts)" "s' = (sh', ts[n := t'])" and n: "n < length ts" and k: "creates C k"
    and st: "f_step ty k g sh (ts ! n) = (sh', t')" and inv: "search_inv C ty s"
  have len: "length (found_pair sh) = 116" and all: "\<forall>t \<in> set ts. thread_inv C ty (keepGoing sh) t"
    and alt: "(keepGoing sh \<and> (\<forall>t \<in> set ts. \<not> committed t)) \<or> byte_inv C ty (found_pair sh) ts"
    using inv by (simp_all add: search_inv_def s)
  then have t: "thread_inv C ty (keepGoing sh) (ts ! n)" using n by simp
  note m = f_step_thread_inv [OF st k t]
  have "\<forall>t \<in> set (ts[n := t']). thread_inv C ty (keepGoing sh') t"
    using all m(1) thread_inv_mono [OF m(2)] by (auto dest!: set_update_subset_insert [THEN subsetD])
  moreover have "(keepGoing sh' \<and> (\<forall>t \<in> set (ts[n := t']). \<not> committed t)) \<or> byte_inv C ty (found_pair sh') (ts[n := t'])"
    using alt
  proof
    assume idle: "keepGoing sh \<and> (\<forall>t \<in> set ts. \<not> committed t)"
    then have "\<not> committed (ts ! n)" using n by simp
    then have "pc t' = Assign 0 \<or> (keepGoing sh' \<and> \<not> committed t')"
      using st idle by (auto simp: f_step.simps committed_def split: search_pc.splits if_splits)
    then show ?thesis
      using idle byte_inv_commit [OF n] by (auto dest!: set_update_subset_insert [THEN subsetD])
  qed (use byte_inv_step [OF st n t len] in blast)
  ultimately show "search_inv C ty s'" using len m(3) by (simp add: search_inv_def s)
qed

lemma search_inv_init: "length (keypair_bytes p) = 116 \<Longrightarrow> search_inv C ty (newKeyPair_init n p)"
  by (auto simp: newKeyPair_init_def search_inv_def thread_inv_def committed_def)

lemma search_inv_reach:
  "newKeyPair_reach C ty (newKeyPair_init n p) s \<Longrightarrow> length (keypair_bytes p) = 116 \<Longrightarrow> search_inv C ty s"
  by (induction rule: newKeyPair_reach.induct) (blast intro: search_inv_init search_inv_step)+

lemma threads_kept: "newKeyPair_reach C ty s s' \<Longrightarrow> length (snd s') = length (snd s)"
  by (induction rule: newKeyPair_reach.induct) (auto elim: newKeyPair_stepE)

lemma reach_trans: "newKeyPair_reach C ty b c \<Longrightarrow> newKeyPair_reach C ty a b \<Longrightarrow> newKeyPair_reach C ty a c"
  by (induction rule: newKeyPair_reach.induct) (blast intro: newKeyPair_reach.intros)+

text \<open>At the end nothing is pending: every byte is that of a usable pair of a thread.\<close>

lemma finished_bytes:
  assumes "search_inv C ty s" "snd s \<noteq> []" "newKeyPair_returns s = Some r" "i < 116"
  shows "\<exists>k \<in> lp ` set (snd s). usable C ty k \<and> keypair_bytes r ! i = keypair_bytes k ! i"
proof -
  have fin: "\<forall>t \<in> set (snd s). pc t = Finished" and r: "r = pair_of_bytes (found_pair (fst s))"
    using assms(3) by (auto simp: newKeyPair_returns_def list_all_iff split: if_splits)
  have "\<exists>t \<in> set (snd s). committed t" using fin assms(2) by (cases "snd s") (auto simp: committed_def)
  then have "byte_inv C ty (found_pair (fst s)) (snd s)" using assms(1) by (auto simp: search_inv_def)
  then obtain t where "t \<in> set (snd s)" "settled C ty (found_pair (fst s)) i t"
    using fin assms(4) by (fastforce simp: byte_inv_def pending_def)
  moreover have "length (found_pair (fst s)) = 116" using assms(1) by (simp add: search_inv_def)
  ultimately show ?thesis by (auto simp: settled_def r bytes_of_pair)
qed

section \<open>Returning\<close>

text \<open>Left to itself and given a wanted pair, a thread comes to its end.\<close>

fun pc_rank :: "search_pc \<Rightarrow> nat" where
  "pc_rank Enter = assign_end + 8" | "pc_rank Test = assign_end + 7" | "pc_rank Count = assign_end + 6"
| "pc_rank Bump = assign_end + 5" | "pc_rank Draw = assign_end + 4" | "pc_rank Decide = assign_end + 3"
| "pc_rank (Assign j) = assign_end - j + 2" | "pc_rank Clear = 1" | "pc_rank Finished = 0"

lemma f_step_rank:
  "f_step ty k g sh t = (sh', t') \<Longrightarrow> wanted ty k \<Longrightarrow> pc t \<noteq> Finished \<Longrightarrow> pc_rank (pc t') < pc_rank (pc t)"
  by (auto simp: f_step.simps split: search_pc.splits if_splits)

lemma thread_finishes:
  assumes "usable C ty k" and "i < length ts"
  shows "\<exists>sh' t'. newKeyPair_reach C ty (sh, ts) (sh', ts[i := t']) \<and> pc t' = Finished"
  using assms(2)
proof (induction "pc_rank (pc (ts ! i))" arbitrary: sh ts rule: less_induct)
  case less
  show ?case
  proof (cases "pc (ts ! i) = Finished")
    case True
    then show ?thesis using newKeyPair_reach.start [of C ty "(sh, ts)"] by (metis list_update_id)
  next
    case False
    have k: "wanted ty k" "creates C k" using assms(1) by (simp_all add: usable_def)
    obtain sh1 t1 where st: "f_step ty k 0 sh (ts ! i) = (sh1, t1)" by fastforce
    have "newKeyPair_step C ty (sh, ts) (sh1, ts[i := t1])"
      by (rule newKeyPair_step.thread [OF less.prems False k(2) st])
    then have one: "newKeyPair_reach C ty (sh, ts) (sh1, ts[i := t1])"
      by (blast intro: newKeyPair_reach.intros)
    have "pc_rank (pc (ts[i := t1] ! i)) < pc_rank (pc (ts ! i))"
      using f_step_rank [OF st k(1) False] less.prems by simp
    from less.hyps [OF this, of sh1] less.prems obtain sh2 t2
      where "newKeyPair_reach C ty (sh1, ts[i := t1]) (sh2, ts[i := t2])" "pc t2 = Finished" by auto
    then show ?thesis using reach_trans [OF _ one] by blast
  qed
qed

lemma threads_finish:
  assumes "usable C ty k" and "n \<le> length ts"
  shows "\<exists>sh' ts'. newKeyPair_reach C ty (sh, ts) (sh', ts') \<and> length ts' = length ts \<and> (\<forall>i < n. pc (ts' ! i) = Finished)"
  using assms(2)
proof (induction n)
  case 0
  then show ?case by (intro exI [of _ sh] exI [of _ ts]) (simp add: newKeyPair_reach.start)
next
  case (Suc n)
  then obtain sh1 ts1 where r: "newKeyPair_reach C ty (sh, ts) (sh1, ts1)" "length ts1 = length ts"
    "\<forall>i < n. pc (ts1 ! i) = Finished" by auto
  obtain sh2 t where f: "newKeyPair_reach C ty (sh1, ts1) (sh2, ts1[n := t])" "pc t = Finished"
    using thread_finishes [OF assms(1), of n ts1 sh1] r(2) Suc.prems by auto
  then have "\<forall>i < Suc n. pc (ts1[n := t] ! i) = Finished"
    using r Suc.prems by (auto simp: less_Suc_eq nth_list_update)
  then show ?case using reach_trans [OF f(1) r(1)] r(2) by (metis length_list_update)
qed

section \<open>Mixing\<close>

text \<open>The effect of a run of writes of one assignment.\<close>

definition run_writes :: "KeyPair \<Rightarrow> nat \<Rightarrow> nat \<Rightarrow> bytes \<Rightarrow> bytes" where
  "run_writes k j m p = fold (assign_write k 0) [j..<j + m] p"

lemma length_run_writes [simp]: "length (run_writes k j m p) = length p"
proof -
  have "length (fold (assign_write k 0) js p) = length p" for js
    by (induction js arbitrary: p) simp_all
  then show ?thesis by (simp add: run_writes_def)
qed

lemma run_writes_Suc: "run_writes k j (Suc m) p = assign_write k 0 (j + m) (run_writes k j m p)"
  by (simp add: run_writes_def)

lemma run_writes_add: "run_writes k j (m + n) p = run_writes k (j + m) n (run_writes k j m p)"
proof (induction n)
  case (Suc n)
  then show ?case by (simp add: run_writes_Suc add.assoc)
qed (simp add: run_writes_def)

lemma run_copies:
  "length p = 116 \<Longrightarrow> a + m \<le> 116 \<Longrightarrow> i < 116 \<Longrightarrow>
   run_writes k (64 + a) m p ! i = (if a \<le> i \<and> i < a + m then keypair_bytes k ! i else p ! i)"
proof (induction m)
  case (Suc m)
  then show ?case by (auto simp: run_writes_Suc assign_write_def nth_list_update)
qed (auto simp: run_writes_def)

lemma run_all:
  assumes "length p = 116" "length (keypair_bytes k) = 116"
  shows "run_writes k 0 assign_end p = keypair_bytes k"
proof -
  have "run_writes k 0 assign_end p = run_writes k (64 + 0) 116 (run_writes k 0 64 p)"
    using run_writes_add [of k 0 64 116 p] by (simp add: assign_end_def)
  also have "\<dots> = keypair_bytes k"
    using assms run_copies [of "run_writes k 0 64 p" 0 116 _ k] by (intro nth_equalityI) simp_all
  finally show ?thesis .
qed

lemma assign_run:
  assumes "n < length ts" "pc (ts ! n) = Assign j" "creates C c" "j + m < assign_end"
  shows "newKeyPair_reach C ty (sh, ts)
    (sh\<lparr>found_pair := run_writes (lp (ts ! n)) j m (found_pair sh)\<rparr>, ts[n := (ts ! n)\<lparr>pc := Assign (j + m)\<rparr>])"
  using assms(4)
proof (induction m)
  case 0
  have "(ts ! n)\<lparr>pc := Assign (j + 0)\<rparr> = ts ! n" using assms(2) by simp
  then show ?case by (simp add: run_writes_def newKeyPair_reach.start)
next
  case (Suc m)
  let ?sh = "sh\<lparr>found_pair := run_writes (lp (ts ! n)) j m (found_pair sh)\<rparr>"
  let ?ts = "ts[n := (ts ! n)\<lparr>pc := Assign (j + m)\<rparr>]"
  have "newKeyPair_step C ty (?sh, ?ts)
      (sh\<lparr>found_pair := run_writes (lp (ts ! n)) j (Suc m) (found_pair sh)\<rparr>, ?ts[n := (ts ! n)\<lparr>pc := Assign (j + Suc m)\<rparr>])"
    by (rule newKeyPair_step.thread [of n _ C c ty 0])
      (use assms Suc.prems in \<open>simp_all add: f_step.simps run_writes_Suc\<close>)
  then show ?case using newKeyPair_reach.move [OF Suc.IH] Suc.prems by simp
qed

lemma assign_finish:
  assumes "n < length ts" "pc (ts ! n) = Assign j" "creates C c" "j < assign_end"
  shows "newKeyPair_reach C ty (sh, ts)
    (sh\<lparr>found_pair := run_writes (lp (ts ! n)) j (assign_end - j) (found_pair sh)\<rparr>, ts[n := (ts ! n)\<lparr>pc := Clear\<rparr>])"
proof -
  define m where "m = assign_end - j - 1"
  have m: "j + m < assign_end" "Suc (j + m) = assign_end" "assign_end - j = Suc m" using assms(4) by (simp_all add: m_def)
  let ?sh = "sh\<lparr>found_pair := run_writes (lp (ts ! n)) j m (found_pair sh)\<rparr>"
  let ?ts = "ts[n := (ts ! n)\<lparr>pc := Assign (j + m)\<rparr>]"
  have "newKeyPair_step C ty (?sh, ?ts)
      (sh\<lparr>found_pair := run_writes (lp (ts ! n)) j (Suc m) (found_pair sh)\<rparr>, ?ts[n := (ts ! n)\<lparr>pc := Clear\<rparr>])"
    by (rule newKeyPair_step.thread [of n _ C c ty 0])
      (use assms m in \<open>simp_all add: f_step.simps run_writes_Suc\<close>)
  then show ?thesis using newKeyPair_reach.move [OF assign_run [OF assms(1-3) m(1)]] m(3) by simp
qed

lemma reach_step:
  "newKeyPair_reach C ty s (sh, ts) \<Longrightarrow> n < length ts \<Longrightarrow> pc (ts ! n) \<noteq> Finished \<Longrightarrow> creates C k \<Longrightarrow>
   f_step ty k g sh (ts ! n) = (sh', t') \<Longrightarrow> newKeyPair_reach C ty s (sh', ts[n := t'])"
  by (rule newKeyPair_reach.move, assumption) (rule newKeyPair_step.thread)

text \<open>Undisturbed, a thread draws a usable pair and comes to its assignment.\<close>

lemma commit_run:
  assumes "usable C ty k" "n < length ts" "pc (ts ! n) = Enter" "keepGoing sh"
  shows "\<exists>x c. newKeyPair_reach C ty (sh, ts) (sh\<lparr>tried := x\<rparr>, ts[n := \<lparr>pc = Assign 0, lp = k, count_reg = c\<rparr>])"
proof -
  have k: "wanted ty k" "creates C k" using assms(1) by (simp_all add: usable_def)
  let ?t = "\<lambda>q c. \<lparr>pc = q, lp = k, count_reg = c\<rparr>" and ?x = "tried sh" and ?y = "tried sh + 1"
  define c where "c = count_reg (ts ! n)"
  have t: "ts ! n = \<lparr>pc = Enter, lp = lp (ts ! n), count_reg = c\<rparr>" using assms(3) by (simp add: c_def)
  have "newKeyPair_reach C ty (sh, ts) (sh, ts[n := ?t Test c])"
    by (rule reach_step [OF newKeyPair_reach.start assms(2) _ k(2), where g = 0])
      (use assms(3) in \<open>simp, subst t, simp add: f_step.simps\<close>)
  from reach_step [OF this, of n k 0 sh "?t Count c"] have "newKeyPair_reach C ty (sh, ts) (sh, ts[n := ?t Count c])"
    using assms(2,4) k(2) by (simp add: f_step.simps)
  from reach_step [OF this, of n k 0 sh "?t Bump ?x"] have "newKeyPair_reach C ty (sh, ts) (sh, ts[n := ?t Bump ?x])"
    using assms(2) k(2) by (simp add: f_step.simps)
  from reach_step [OF this, of n k 0 "sh\<lparr>tried := ?y\<rparr>" "?t Draw ?x"]
  have "newKeyPair_reach C ty (sh, ts) (sh\<lparr>tried := ?y\<rparr>, ts[n := ?t Draw ?x])"
    using assms(2) k(2) by (simp add: f_step.simps)
  from reach_step [OF this, of n k 0 "sh\<lparr>tried := ?y\<rparr>" "?t Decide ?x"]
  have "newKeyPair_reach C ty (sh, ts) (sh\<lparr>tried := ?y\<rparr>, ts[n := ?t Decide ?x])"
    using assms(2) k by (simp add: f_step.simps)
  from reach_step [OF this, of n k 0 "sh\<lparr>tried := ?y\<rparr>" "?t (Assign 0) ?x"]
  have "newKeyPair_reach C ty (sh, ts) (sh\<lparr>tried := ?y\<rparr>, ts[n := ?t (Assign 0) ?x])"
    using assms(2,4) k(2) by (simp add: f_step.simps)
  then show ?thesis by blast
qed

lemma mixed_bytes:
  assumes "crypto_ok C" "creates C k1" "creates C k2"
  shows "run_writes k1 160 20 (keypair_bytes k2) = kp_secret k2 @ kp_public k2 @ kp_address k1" (is "?b = ?c")
proof (rule nth_equalityI)
  note l = length_created [OF assms(1,2)] length_created [OF assms(1,3)] length_keypair_bytes [OF assms(1,3)]
  show "length ?b = length ?c" using l by simp
  fix i assume "i < length ?b"
  then show "?b ! i = ?c ! i"
    using run_copies [of "keypair_bytes k2" 96 20 i k1] l by (auto simp: keypair_bytes_def nth_append)
qed

text \<open>
  Two threads that have both passed the test can leave a mixed pair: the secret and the public key of
  one and the address of the other.
\<close>

lemma newKeyPair_mixes:
  assumes "crypto_ok C" "creates C p" "usable C ty k1" "usable C ty k2"
  shows "\<exists>s r. newKeyPair_reach C ty (newKeyPair_init 2 p) s \<and> newKeyPair_returns s = Some r \<and>
    kp_secret r = kp_secret k2 \<and> kp_public r = kp_public k2 \<and> kp_address r = kp_address k1"
proof -
  have c: "creates C k1" "creates C k2" using assms(3,4) by (simp_all add: usable_def)
  note len = length_keypair_bytes [OF assms(1)]
  define e where "e = \<lparr>pc = Enter, lp = p, count_reg = 0\<rparr>"
  define sh0 where "sh0 = \<lparr>keepGoing = True, tried = 0, found_pair = keypair_bytes p\<rparr>"
  have init: "newKeyPair_init 2 p = (sh0, [e, e])" by (simp add: newKeyPair_init_def sh0_def e_def numeral_2_eq_2)
  let ?t = "\<lambda>q k c. \<lparr>pc = q, lp = k, count_reg = c\<rparr>"
  obtain x1 c1 where 1: "newKeyPair_reach C ty (sh0, [e, e]) (sh0\<lparr>tried := x1\<rparr>, [?t (Assign 0) k1 c1, e])"
    using commit_run [OF assms(3), of 0 "[e, e]" sh0] by (auto simp: e_def sh0_def)
  obtain x c2 where 2: "newKeyPair_reach C ty (sh0\<lparr>tried := x1\<rparr>, [?t (Assign 0) k1 c1, e])
      (sh0\<lparr>tried := x\<rparr>, [?t (Assign 0) k1 c1, ?t (Assign 0) k2 c2])"
    using commit_run [OF assms(4), of 1 "[?t (Assign 0) k1 c1, e]" "sh0\<lparr>tried := x1\<rparr>"] by (auto simp: e_def sh0_def)
  define sh where "sh q b = \<lparr>keepGoing = q, tried = x, found_pair = b\<rparr>" for q b
  have sh0: "sh0\<lparr>tried := x\<rparr> = sh True (keypair_bytes p)" by (simp add: sh0_def sh_def)
  let ?b = "run_writes k1 0 160 (keypair_bytes p)"
  have 3: "newKeyPair_reach C ty (sh True (keypair_bytes p), [?t (Assign 0) k1 c1, ?t (Assign 0) k2 c2])
      (sh True ?b, [?t (Assign 160) k1 c1, ?t (Assign 0) k2 c2])"
    using assign_run [of 0 "[?t (Assign 0) k1 c1, ?t (Assign 0) k2 c2]" 0 C p 160 ty "sh True (keypair_bytes p)"] assms(2)
    by (simp add: sh_def assign_end_def)
  have 4: "newKeyPair_reach C ty (sh True ?b, [?t (Assign 160) k1 c1, ?t (Assign 0) k2 c2])
      (sh True (keypair_bytes k2), [?t (Assign 160) k1 c1, ?t Clear k2 c2])"
    using assign_finish [of 1 "[?t (Assign 160) k1 c1, ?t (Assign 0) k2 c2]" 0 C p ty "sh True ?b"] assms(2)
      run_all [of ?b k2] len [OF assms(2)] len [OF c(2)] by (simp add: sh_def assign_end_def)
  define b where "b = run_writes k1 160 20 (keypair_bytes k2)"
  have 5: "newKeyPair_reach C ty (sh True (keypair_bytes k2), [?t (Assign 160) k1 c1, ?t Clear k2 c2])
      (sh True b, [?t Clear k1 c1, ?t Clear k2 c2])"
    using assign_finish [of 0 "[?t (Assign 160) k1 c1, ?t Clear k2 c2]" 160 C p ty "sh True (keypair_bytes k2)"] assms(2)
    by (simp add: sh_def assign_end_def b_def)
  have 6: "newKeyPair_reach C ty (sh True b, [?t Clear k1 c1, ?t Clear k2 c2]) (sh False b, [?t Finished k1 c1, ?t Clear k2 c2])"
    using reach_step [OF newKeyPair_reach.start, of 0 "[?t Clear k1 c1, ?t Clear k2 c2]" C p ty 0 "sh True b"] assms(2)
    by (simp add: f_step.simps sh_def)
  have 7: "newKeyPair_reach C ty (sh False b, [?t Finished k1 c1, ?t Clear k2 c2]) (sh False b, [?t Finished k1 c1, ?t Finished k2 c2])"
    using reach_step [OF newKeyPair_reach.start, of 1 "[?t Finished k1 c1, ?t Clear k2 c2]" C p ty 0 "sh False b"] assms(2)
    by (simp add: f_step.simps sh_def)
  have "newKeyPair_reach C ty (newKeyPair_init 2 p) (sh False b, [?t Finished k1 c1, ?t Finished k2 c2])"
    unfolding init by (rule reach_trans [OF 7 reach_trans [OF 6 reach_trans [OF 5 reach_trans [OF 4
      reach_trans [OF 3 reach_trans [OF 2 1, unfolded sh0]]]]]])
  moreover have "newKeyPair_returns (sh False b, [?t Finished k1 c1, ?t Finished k2 c2]) = Some (pair_of_bytes b)"
    by (simp add: newKeyPair_returns_def sh_def)
  moreover have "b = kp_secret k2 @ kp_public k2 @ kp_address k1"
    unfolding b_def by (rule mixed_bytes [OF assms(1) c])
  ultimately show ?thesis
    using length_created [OF assms(1) c(2)] by (intro exI [of _ "(sh False b, [?t Finished k1 c1, ?t Finished k2 c2])"])
      (simp add: pair_of_bytes_def)
qed

section \<open>Properties\<close>

text \<open>
  C18: what \<open>newKeyPair\<close> returns, with the accesses of its threads to the shared variables interleaved
  in any order, byte by byte.  When all threads are joined, each byte of the returned pair is the byte
  at that place of a pair that \<open>KeyPair::create\<close> made, whose address has the wanted form, and that one
  of the threads holds: never one of the cleansing pattern, of the first pair, or of a pair without
  the wanted form.  With a single thread (one processor) the returned pair is such a pair.  From every
  state the search can still come to its end, as long as some pair of the wanted form can be drawn.
  More is not true: with two threads the returned pair may be put together from two
  (\<open>newKeyPair_mixes\<close>).
\<close>

theorem newKeyPair_search:
  assumes "crypto_ok C" "creates C p" "newKeyPair_reach C ty (newKeyPair_init n p) s" and "creates C k" "wanted ty k"
  shows "(\<forall>r. newKeyPair_returns s = Some r \<longrightarrow>
      (\<forall>i < 116. \<exists>k \<in> lp ` set (snd s). creates C k \<and> wanted ty k \<and> keypair_bytes r ! i = keypair_bytes k ! i) \<and>
      (n = 1 \<longrightarrow> creates C r \<and> wanted ty r)) \<and>
    (\<exists>s' r. newKeyPair_reach C ty s s' \<and> newKeyPair_returns s' = Some r)"
proof (intro conjI allI impI)
  fix r
  assume r: "newKeyPair_returns s = Some r"
  have inv: "search_inv C ty s" by (rule search_inv_reach [OF assms(3) length_keypair_bytes [OF assms(1,2)]])
  have num: "length (snd s) = unat (n - 1) + 1" using threads_kept [OF assms(3)] by (simp add: newKeyPair_init_def)
  then have "snd s \<noteq> []" by auto
  note b = finished_bytes [OF inv this r]
  then show "\<exists>k \<in> lp ` set (snd s). creates C k \<and> wanted ty k \<and> keypair_bytes r ! i = keypair_bytes k ! i" if "i < 116" for i
    using that unfolding usable_def by blast
  have usable: "usable C ty r" if "n = 1"
  proof -
    have "length (snd s) = 1" unfolding num that by simp
    then obtain t where t: "snd s = [t]" by (auto simp: length_Suc_conv)
    have u: "usable C ty (lp t)" using b [of 0] t by auto
    have len: "length (found_pair (fst s)) = 116" using inv by (simp add: search_inv_def)
    have rb: "r = pair_of_bytes (found_pair (fst s))" using r by (auto simp: newKeyPair_returns_def split: if_splits)
    have c: "creates C (lp t)" using u by (simp add: usable_def)
    have "keypair_bytes r = keypair_bytes (lp t)"
      using b t len length_keypair_bytes [OF assms(1) c] by (intro nth_equalityI) (auto simp: rb bytes_of_pair)
    then have "r = lp t" using pair_of_created [OF assms(1) c] bytes_of_pair [OF len] rb by metis
    then show ?thesis using u by simp
  qed
  then show "creates C r" "wanted ty r" if "n = 1" using that by (simp_all add: usable_def)
next
  have "usable C ty k" using assms(4,5) by (simp add: usable_def)
  from threads_finish [OF this, of "length (snd s)" "snd s" "fst s"] obtain sh' ts'
    where "newKeyPair_reach C ty s (sh', ts')" "\<forall>i < length ts'. pc (ts' ! i) = Finished" by auto
  then show "\<exists>s' r. newKeyPair_reach C ty s s' \<and> newKeyPair_returns s' = Some r"
    by (intro exI [of _ "(sh', ts')"]) (auto simp: newKeyPair_returns_def list_all_length)
qed

lemma demo_pair:
  "creates demo_crypto (KeyPair_of demo_crypto (nat_be 32 5))" "wanted FirstFour (KeyPair_of demo_crypto (nat_be 32 5))"
proof -
  have a: "kp_address (KeyPair_of demo_crypto (nat_be 32 5)) = replicate 19 0 @ [64]"
    by (simp add: KeyPair_of_def toPublic_def toAddress_public_def right160_def demo_crypto_def Let_def
        secp256k1n_def hash_bool_be_nat be_nat_append)
  then show "creates demo_crypto (KeyPair_of demo_crypto (nat_be 32 5))"
    unfolding creates_def by (intro exI [of _ "[nat_be 32 5]"]) (simp add: Let_def hash_bool_def)
  show "wanted FirstFour (KeyPair_of demo_crypto (nat_be 32 5))"
    by (simp add: wanted_def a nth_append)
qed

theorem newKeyPair_search_witness:
  "\<exists>s' r. newKeyPair_reach demo_crypto FirstFour (newKeyPair_init 1 (KeyPair_of demo_crypto (nat_be 32 5))) s' \<and>
    newKeyPair_returns s' = Some r \<and> wanted FirstFour r \<and> creates demo_crypto r"
proof -
  note search = newKeyPair_search [OF demo_crypto_ok demo_pair(1) _ demo_pair]
  obtain s' r where "newKeyPair_reach demo_crypto FirstFour (newKeyPair_init 1 (KeyPair_of demo_crypto (nat_be 32 5))) s'"
    "newKeyPair_returns s' = Some r"
    using search [OF newKeyPair_reach.start] by blast
  then show ?thesis using search by blast
qed

text \<open>
  Where the number of processors is not known, \<open>hardware_concurrency\<close> is zero and the difference wraps:
  the call starts all \<open>2^32 - 1\<close> threads.
\<close>

lemma newKeyPair_unknown_processors: "length (snd (newKeyPair_init 0 p)) = 2 ^ 32"
  by (simp add: newKeyPair_init_def unsigned_minus_1_eq_mask mask_eq_exp_minus_1)

end
