(* ===== verification/Json_Actions.thy ===== *)
theory Json_Actions
  imports Json_Theorems
begin

text \<open>
  \<open>Semantic_actions\<close> of \<^verbatim>\<open>json_spirit_reader_template.h\<close> as the class is written: the value under
  construction, the pointer to the compound that is being filled, the stack of the enclosing ones and
  the name of the member to come.  A pointer into the value is the path to its target; a null pointer,
  a failed assertion and a pop from the empty stack are \<open>None\<close>.  The reader of \<^verbatim>\<open>Json_Spirit\<close> builds
  values without this state; the theorem here says that the state builds the same ones.  The accessors of
  \<open>Value_impl\<close> that the key files do not need stand here too.
\<close>

section \<open>Accessors\<close>

definition json_array :: "mValue \<Rightarrow> json_error + mValue list" where
  "json_array v = (case v of JArr xs \<Rightarrow> Inr xs | _ \<Rightarrow> Inl WrongType)"

definition json_bool :: "mValue \<Rightarrow> json_error + bool" where
  "json_bool v = (case v of JBool b \<Rightarrow> Inr b | _ \<Rightarrow> Inl WrongType)"

definition get_uint64 :: "mValue \<Rightarrow> json_error + u64" where
  "get_uint64 v = bind_res (check_type int_type v) (\<lambda>_. bind_res (get_int64 v) (\<lambda>i. Inr (of_int i)))"

definition is_uint64 :: "mValue \<Rightarrow> bool" where
  "is_uint64 v = (case v of JUint _ \<Rightarrow> True | _ \<Rightarrow> False)"

definition is_null :: "mValue \<Rightarrow> bool" where
  "is_null v = (type_of v = null_type)"

text \<open>
  \<open>operator==\<close> on two different objects compares the types and the contents, not \<open>is_uint64_\<close>; doubles
  are compared by \<open>real_eq\<close>.
\<close>

fun value_eq :: "(u64 \<Rightarrow> u64 \<Rightarrow> bool) \<Rightarrow> mValue \<Rightarrow> mValue \<Rightarrow> bool" where
  "value_eq real_eq (JObj m) (JObj m') =
     list_all2 (\<lambda>x y. fst x = fst y \<and> value_eq real_eq (snd x) (snd y)) m m'"
| "value_eq real_eq (JArr xs) (JArr ys) = list_all2 (value_eq real_eq) xs ys"
| "value_eq real_eq (JStr a) (JStr b) = (a = b)"
| "value_eq real_eq (JBool a) (JBool b) = (a = b)"
| "value_eq real_eq (JReal a) (JReal b) = real_eq a b"
| "value_eq real_eq JNull JNull = True"
| "value_eq real_eq a b = (type_of a = int_type \<and> type_of b = int_type \<and> get_int64 a = get_int64 b)"

lemma get_uint64_of: "n < 2 ^ 64 \<Longrightarrow> get_uint64 (JUint n) = Inr (of_nat n)"
proof -
  have "(of_int (signed_take_bit 63 (int n)) :: u64) = of_nat n"
  proof (rule bit_word_eqI)
    fix m assume "m < LENGTH(64)"
    then have "min m 63 = m" by simp
    then show "bit (of_int (signed_take_bit 63 (int n)) :: u64) m = bit (of_nat n :: u64) m"
      by (simp add: bit_of_int_iff bit_signed_take_bit_iff bit_of_nat_iff bit_of_nat_iff_bit)
  qed
  then show ?thesis by (simp add: get_uint64_def get_int64_def check_type_def)
qed

section \<open>Pointers into a value\<close>

datatype value_step = Index nat | Member string

type_synonym value_path = "value_step list"

fun value_at :: "mValue \<Rightarrow> value_path \<Rightarrow> mValue option" where
  "value_at v [] = Some v"
| "value_at (JArr xs) (Index i # p) = (if i < length xs then value_at (xs ! i) p else None)"
| "value_at (JObj m) (Member k # p) = (case map_of m k of None \<Rightarrow> None | Some v \<Rightarrow> value_at v p)"
| "value_at _ _ = None"

fun member_update :: "string \<Rightarrow> (mValue \<Rightarrow> mValue) \<Rightarrow> mObject \<Rightarrow> mObject" where
  "member_update k f [] = []"
| "member_update k f ((k', v) # m) = (if k = k' then (k', f v) # m else (k', v) # member_update k f m)"

fun update_at :: "value_path \<Rightarrow> (mValue \<Rightarrow> mValue) \<Rightarrow> mValue \<Rightarrow> mValue" where
  "update_at [] f v = f v"
| "update_at (Index i # p) f (JArr xs) = JArr (xs[i := update_at p f (xs ! i)])"
| "update_at (Member k # p) f (JObj m) = JObj (member_update k (update_at p f) m)"
| "update_at _ f v = v"

section \<open>The actions\<close>

record Semantic_actions =
  sa_value :: mValue
  sa_current :: "value_path option"
  sa_stack :: "value_path list"
  sa_name :: string

definition Semantic_actions_of :: "mValue \<Rightarrow> Semantic_actions" where
  "Semantic_actions_of v = \<lparr>sa_value = v, sa_current = None, sa_stack = [], sa_name = []\<rparr>"

definition add_first :: "mValue \<Rightarrow> Semantic_actions \<Rightarrow> (value_path \<times> Semantic_actions) option" where
  "add_first v s = (if sa_current s \<noteq> None then None else Some ([], s\<lparr>sa_value := v, sa_current := Some []\<rparr>))"

definition add_to_current :: "mValue \<Rightarrow> Semantic_actions \<Rightarrow> (value_path \<times> Semantic_actions) option" where
  "add_to_current v s =
     (case sa_current s of
        None \<Rightarrow> add_first v s
      | Some p \<Rightarrow>
          (case value_at (sa_value s) p of
             Some (JArr xs) \<Rightarrow> Some (p @ [Index (length xs)], s\<lparr>sa_value := update_at p (\<lambda>_. JArr (xs @ [v])) (sa_value s)\<rparr>)
           | Some (JObj m) \<Rightarrow>
               Some (p @ [Member (sa_name s)], s\<lparr>sa_value := update_at p (\<lambda>_. JObj (obj_set (sa_name s) v m)) (sa_value s)\<rparr>)
           | _ \<Rightarrow> None))"

definition begin_compound :: "mValue \<Rightarrow> Semantic_actions \<Rightarrow> Semantic_actions option" where
  "begin_compound new_array_or_obj s =
     (case sa_current s of
        None \<Rightarrow> map_option snd (add_first new_array_or_obj s)
      | Some p \<Rightarrow>
          (case add_to_current new_array_or_obj (s\<lparr>sa_stack := p # sa_stack s\<rparr>) of
             None \<Rightarrow> None
           | Some (q, s') \<Rightarrow> Some (s'\<lparr>sa_current := Some q\<rparr>)))"

definition end_compound :: "Semantic_actions \<Rightarrow> Semantic_actions option" where
  "end_compound s =
     (if sa_current s \<noteq> Some []
      then (case sa_stack s of [] \<Rightarrow> None | p # st \<Rightarrow> Some (s\<lparr>sa_current := Some p, sa_stack := st\<rparr>))
      else Some s)"

definition new_name :: "string \<Rightarrow> Semantic_actions \<Rightarrow> Semantic_actions option" where
  "new_name n s =
     (case sa_current s of
        None \<Rightarrow> None
      | Some p \<Rightarrow> (case value_at (sa_value s) p of Some (JObj m) \<Rightarrow> Some (s\<lparr>sa_name := n\<rparr>) | _ \<Rightarrow> None))"

text \<open>
  The calls of the parser, in the order of the text.  A name or a string comes as \<open>get_str\<close> leaves it;
  the literals carry no text, since the parser calls them with the one the assertion expects.
\<close>

datatype action =
    Begin_obj | End_obj | Begin_array | End_array | New_name string | New_str string
  | New_true | New_false | New_null | New_int int | New_uint64 nat | New_real u64

fun act :: "action \<Rightarrow> Semantic_actions \<Rightarrow> Semantic_actions option" where
  "act Begin_obj s = begin_compound (JObj []) s"
| "act End_obj s = end_compound s"
| "act Begin_array s = begin_compound (JArr []) s"
| "act End_array s = end_compound s"
| "act (New_name n) s = new_name n s"
| "act (New_str t) s = map_option snd (add_to_current (JStr t) s)"
| "act New_true s = map_option snd (add_to_current (JBool True) s)"
| "act New_false s = map_option snd (add_to_current (JBool False) s)"
| "act New_null s = map_option snd (add_to_current JNull s)"
| "act (New_int i) s = map_option snd (add_to_current (JInt i) s)"
| "act (New_uint64 u) s = map_option snd (add_to_current (JUint u) s)"
| "act (New_real d) s = map_option snd (add_to_current (JReal d) s)"

fun acts :: "action list \<Rightarrow> Semantic_actions \<Rightarrow> Semantic_actions option" where
  "acts [] s = Some s"
| "acts (a # as) s = (case act a s of None \<Rightarrow> None | Some s' \<Rightarrow> acts as s')"

section \<open>Documents\<close>

text \<open>
  A document is the tree of a text: a value whose members are in the order of the text, with names
  that may repeat.  Its actions are those the grammar calls, and its value is what the map keeps.
\<close>

fun doc_actions :: "mValue \<Rightarrow> action list" where
  "doc_actions (JObj m) = Begin_obj # concat (map (\<lambda>(k, v). New_name k # doc_actions v) m) @ [End_obj]"
| "doc_actions (JArr xs) = Begin_array # concat (map doc_actions xs) @ [End_array]"
| "doc_actions (JStr t) = [New_str t]"
| "doc_actions (JBool b) = [if b then New_true else New_false]"
| "doc_actions (JInt i) = [New_int i]"
| "doc_actions (JUint u) = [New_uint64 u]"
| "doc_actions (JReal d) = [New_real d]"
| "doc_actions JNull = [New_null]"

fun doc_value :: "mValue \<Rightarrow> mValue" where
  "doc_value (JObj m) = JObj (fold (\<lambda>(k, v). obj_set k v) (map (\<lambda>(k, v). (k, doc_value v)) m) [])"
| "doc_value (JArr xs) = JArr (map doc_value xs)"
| "doc_value v = v"

section \<open>Pointers stay valid\<close>

lemma member_update_set [simp]: "member_update k f (obj_set k v m) = obj_set k (f v) m"
  by (induction k v m rule: obj_set.induct) auto

lemma map_of_obj_set_same [simp]: "map_of (obj_set k v m) k = Some v"
  by (induction k v m rule: obj_set.induct) auto

lemma map_of_member_update: "map_of (member_update k f m) k = map_option f (map_of m k)"
  by (induction k f m rule: member_update.induct) auto

lemma member_update_twice: "member_update k f (member_update k g m) = member_update k (f \<circ> g) m"
  by (induction m) auto

lemma value_at_update: "value_at v p = Some w \<Longrightarrow> value_at (update_at p f v) p = Some (f w)"
  by (induction v p arbitrary: w rule: value_at.induct)
    (auto simp: map_of_member_update split: if_splits option.splits)

lemma value_at_append: "value_at v (p @ q) = (case value_at v p of None \<Rightarrow> None | Some w \<Rightarrow> value_at w q)"
  by (induction v p rule: value_at.induct) (auto split: option.splits)

lemma update_at_twice: "update_at p f (update_at p g v) = update_at p (f \<circ> g) v"
proof (induction p g v rule: update_at.induct)
  case (2 i p g xs)
  then show ?case by (cases "i < length xs") (auto simp: list_update_beyond)
next
  case (3 k p g m)
  have "update_at p f \<circ> update_at p g = update_at p (f \<circ> g)" by (intro ext) (use 3 in \<open>simp add: comp_def\<close>)
  then show ?case by (simp add: member_update_twice comp_def)
qed auto

lemma update_at_append: "update_at (p @ q) f v = update_at p (update_at q f) v"
proof (induction p "update_at q f" v rule: update_at.induct)
  case (3 k p m)
  then have "update_at (p @ q) f = update_at p (update_at q f)" by (intro ext)
  then show ?case by simp
qed auto

lemma member_update_same: "map_of m k = Some v \<Longrightarrow> f v = v \<Longrightarrow> member_update k f m = m"
  by (induction k f m rule: member_update.induct) (auto split: if_splits)

lemma update_at_same: "value_at v p = Some w \<Longrightarrow> update_at p (\<lambda>_. w) v = v"
proof (induction v p rule: value_at.induct)
  case (3 m k p)
  then show ?case by (auto split: option.splits intro: member_update_same)
qed (auto split: if_splits)

section \<open>Filling a compound\<close>

fun compound :: "mValue \<Rightarrow> bool" where
  "compound (JArr _) = True" | "compound (JObj _) = True" | "compound _ = False"

fun added :: "mValue \<Rightarrow> string \<Rightarrow> mValue \<Rightarrow> mValue" where
  "added (JArr xs) n v = JArr (xs @ [v])" | "added (JObj m) n v = JObj (obj_set n v m)" | "added c n v = c"

fun slot :: "mValue \<Rightarrow> string \<Rightarrow> value_step" where
  "slot (JArr xs) n = Index (length xs)" | "slot _ n = Member n"

lemma compound_cases: "compound c \<Longrightarrow> (\<And>xs. c = JArr xs \<Longrightarrow> P) \<Longrightarrow> (\<And>m. c = JObj m \<Longrightarrow> P) \<Longrightarrow> P"
  by (cases c) auto

lemma slot_added:
  "compound c \<Longrightarrow> value_at (added c n v) [slot c n] = Some v"
  "compound c \<Longrightarrow> update_at [slot c n] (\<lambda>_. w) (added c n v) = added c n w"
  by (auto elim: compound_cases)

definition fills :: "action list \<Rightarrow> (string \<Rightarrow> mValue \<Rightarrow> mValue) \<Rightarrow> bool" where
  "fills as f \<longleftrightarrow>
     (\<forall>s p c. sa_current s = Some p \<longrightarrow> value_at (sa_value s) p = Some c \<longrightarrow> compound c \<longrightarrow>
       (\<exists>n. acts as s = Some (s\<lparr>sa_value := update_at p (\<lambda>_. f (sa_name s) c) (sa_value s), sa_name := n\<rparr>)))"

lemma fillsD:
  assumes "fills as f" "sa_current s = Some p" "value_at (sa_value s) p = Some c" "compound c"
  obtains n where "acts as s = Some (s\<lparr>sa_value := update_at p (\<lambda>_. f (sa_name s) c) (sa_value s), sa_name := n\<rparr>)"
  using assms unfolding fills_def by blast

lemma acts_append: "acts (as @ bs) s = (case acts as s of None \<Rightarrow> None | Some s' \<Rightarrow> acts bs s')"
  by (induction as arbitrary: s) (auto split: option.splits)

lemma add_compound:
  "sa_current s = Some p \<Longrightarrow> value_at (sa_value s) p = Some c \<Longrightarrow> compound c \<Longrightarrow>
    add_to_current v s = Some (p @ [slot c (sa_name s)], s\<lparr>sa_value := update_at p (\<lambda>_. added c (sa_name s) v) (sa_value s)\<rparr>)"
  by (auto simp: add_to_current_def elim: compound_cases)

lemma fills_scalar:
  assumes "\<And>s. act a s = map_option snd (add_to_current v s)"
  shows "fills [a] (\<lambda>n c. added c n v)"
  unfolding fills_def
proof (intro allI impI)
  fix s :: Semantic_actions and p c
  assume "sa_current s = Some p" "value_at (sa_value s) p = Some c" "compound c"
  then show "\<exists>n. acts [a] s = Some (s\<lparr>sa_value := update_at p (\<lambda>_. added c (sa_name s) v) (sa_value s), sa_name := n\<rparr>)"
    by (intro exI [of _ "sa_name s"]) (simp add: assms add_compound)
qed

lemma update_at_const: "update_at p (\<lambda>_. a) (update_at p (\<lambda>_. b) v) = update_at p (\<lambda>_. a) v"
  by (simp add: update_at_twice comp_def)

definition reads_doc :: "mValue \<Rightarrow> bool" where
  "reads_doc d \<longleftrightarrow> fills (doc_actions d) (\<lambda>n c. added c n (doc_value d))"

lemma array_loop:
  assumes "\<forall>d \<in> set ds. reads_doc d" and "sa_current s = Some q" and "value_at (sa_value s) q = Some (JArr ys)"
  shows "\<exists>n. acts (concat (map doc_actions ds)) s =
    Some (s\<lparr>sa_value := update_at q (\<lambda>_. JArr (ys @ map doc_value ds)) (sa_value s), sa_name := n\<rparr>)"
  using assms
proof (induction ds arbitrary: s ys)
  case Nil
  then show ?case by (intro exI [of _ "sa_name s"]) (simp add: update_at_same)
next
  case (Cons d ds)
  obtain n where n: "acts (doc_actions d) s =
      Some (s\<lparr>sa_value := update_at q (\<lambda>_. JArr (ys @ [doc_value d])) (sa_value s), sa_name := n\<rparr>)"
    using fillsD [of "doc_actions d" "\<lambda>n c. added c n (doc_value d)" s q "JArr ys"] Cons.prems
    by (auto simp: reads_doc_def)
  let ?s = "s\<lparr>sa_value := update_at q (\<lambda>_. JArr (ys @ [doc_value d])) (sa_value s), sa_name := n\<rparr>"
  have "\<exists>n. acts (concat (map doc_actions ds)) ?s =
      Some (?s\<lparr>sa_value := update_at q (\<lambda>_. JArr ((ys @ [doc_value d]) @ map doc_value ds)) (sa_value ?s), sa_name := n\<rparr>)"
    by (rule Cons.IH) (use Cons.prems in \<open>auto simp: value_at_update\<close>)
  then show ?case by (simp add: acts_append n update_at_const)
qed

lemma object_loop:
  assumes "\<forall>d \<in> set ms. reads_doc (snd d)" and "sa_current s = Some q" and "value_at (sa_value s) q = Some (JObj m)"
  shows "\<exists>n. acts (concat (map (\<lambda>(k, v). New_name k # doc_actions v) ms)) s =
    Some (s\<lparr>sa_value := update_at q (\<lambda>_. JObj (fold (\<lambda>(k, v). obj_set k v) (map (\<lambda>(k, v). (k, doc_value v)) ms) m))
      (sa_value s), sa_name := n\<rparr>)"
  using assms
proof (induction ms arbitrary: s m)
  case Nil
  then show ?case by (intro exI [of _ "sa_name s"]) (simp add: update_at_same)
next
  case (Cons x ms)
  obtain k d where x: "x = (k, d)" by fastforce
  let ?s0 = "s\<lparr>sa_name := k\<rparr>"
  obtain n where n: "acts (doc_actions d) ?s0 =
      Some (?s0\<lparr>sa_value := update_at q (\<lambda>_. JObj (obj_set k (doc_value d) m)) (sa_value s), sa_name := n\<rparr>)"
    using fillsD [of "doc_actions d" "\<lambda>n c. added c n (doc_value d)" ?s0 q "JObj m"] Cons.prems
    by (auto simp: reads_doc_def x)
  let ?s = "s\<lparr>sa_value := update_at q (\<lambda>_. JObj (obj_set k (doc_value d) m)) (sa_value s), sa_name := n\<rparr>"
  have "\<exists>n. acts (concat (map (\<lambda>(k, v). New_name k # doc_actions v) ms)) ?s =
      Some (?s\<lparr>sa_value := update_at q (\<lambda>_. JObj (fold (\<lambda>(k, v). obj_set k v)
        (map (\<lambda>(k, v). (k, doc_value v)) ms) (obj_set k (doc_value d) m))) (sa_value ?s), sa_name := n\<rparr>)"
    by (rule Cons.IH) (use Cons.prems in \<open>auto simp: value_at_update\<close>)
  then show ?case using Cons.prems by (simp add: x acts_append n new_name_def update_at_const)
qed

text \<open>Between its two brackets a compound is filled in place, inside of another one or at the top.\<close>

lemma nested_compound:
  assumes fill: "\<And>s q. sa_current s = Some q \<Longrightarrow> value_at (sa_value s) q = Some e \<Longrightarrow>
      \<exists>n. acts as s = Some (s\<lparr>sa_value := update_at q (\<lambda>_. w) (sa_value s), sa_name := n\<rparr>)"
    and opens: "\<And>s. act b s = begin_compound e s" and closes: "\<And>s. act z s = end_compound s"
  shows "fills (b # as @ [z]) (\<lambda>n c. added c n w)"
  unfolding fills_def
proof (intro allI impI)
  fix s :: Semantic_actions and p c
  assume s: "sa_current s = Some p" "value_at (sa_value s) p = Some c" and c: "compound c"
  let ?q = "p @ [slot c (sa_name s)]"
  let ?s = "s\<lparr>sa_stack := p # sa_stack s, sa_value := update_at p (\<lambda>_. added c (sa_name s) e) (sa_value s), sa_current := Some ?q\<rparr>"
  have "add_to_current e (s\<lparr>sa_stack := p # sa_stack s\<rparr>) =
      Some (?q, s\<lparr>sa_stack := p # sa_stack s, sa_value := update_at p (\<lambda>_. added c (sa_name s) e) (sa_value s)\<rparr>)"
    using add_compound [of "s\<lparr>sa_stack := p # sa_stack s\<rparr>" p c e] s c by simp
  then have b: "act b s = Some ?s" by (simp add: opens begin_compound_def s(1))
  have "value_at (sa_value ?s) ?q = Some e"
    using value_at_update [OF s(2)] slot_added(1) [OF c] by (simp add: value_at_append)
  then obtain n where n: "acts as ?s = Some (?s\<lparr>sa_value := update_at ?q (\<lambda>_. w) (sa_value ?s), sa_name := n\<rparr>)"
    using fill [of ?s ?q] by auto
  have "update_at ?q (\<lambda>_. w) (sa_value ?s) = update_at p (\<lambda>_. added c (sa_name s) w) (sa_value s)"
    using slot_added(2) [OF c] by (simp add: update_at_append update_at_twice comp_def)
  then show "\<exists>n. acts (b # as @ [z]) s =
      Some (s\<lparr>sa_value := update_at p (\<lambda>_. added c (sa_name s) w) (sa_value s), sa_name := n\<rparr>)"
    by (intro exI [of _ n]) (simp add: b acts_append n closes end_compound_def s(1))
qed

lemma reads_doc_all: "reads_doc d"
proof (induction d)
  case (JObj m)
  then have "\<forall>x \<in> set m. reads_doc (snd x)" by auto
  note loop = object_loop [OF this]
  have "fills (Begin_obj # concat (map (\<lambda>(k, v). New_name k # doc_actions v) m) @ [End_obj])
      (\<lambda>n c. added c n (doc_value (JObj m)))"
    by (rule nested_compound [where e = "JObj []"]) (simp_all add: loop)
  then show ?case by (simp add: reads_doc_def)
next
  case (JArr xs)
  then have "\<forall>x \<in> set xs. reads_doc x" by auto
  note loop = array_loop [OF this]
  have "fills (Begin_array # concat (map doc_actions xs) @ [End_array]) (\<lambda>n c. added c n (doc_value (JArr xs)))"
    by (rule nested_compound [where e = "JArr []"]) (use loop [where ys = "[]"] in simp_all)
  then show ?case by (simp add: reads_doc_def)
qed (auto simp: reads_doc_def intro!: fills_scalar)

text \<open>The value of a document whose objects have their names in order is the document.\<close>

lemma fold_sorted:
  "keys_sorted (acc @ m) \<Longrightarrow> fold (\<lambda>(k, v). obj_set k v) m acc = acc @ m"
proof (induction m arbitrary: acc)
  case (Cons x m)
  obtain k v where x: "x = (k, v)" by fastforce
  have "\<forall>y \<in> set acc. string_less (fst y) k" using Cons.prems by (auto simp: keys_sorted_def sorted_wrt_append x)
  then show ?case using Cons.IH [of "acc @ [x]"] Cons.prems by (simp add: x obj_set_last)
qed simp

lemma doc_value_wf: "json_wf v \<Longrightarrow> doc_value v = v"
proof (induction v)
  case (JObj m)
  then have "map (\<lambda>(k, v). (k, doc_value v)) m = m" by (intro map_idI) (force simp: case_prod_unfold)
  then show ?case using JObj.prems fold_sorted [of "[]" m] by simp
qed (auto intro: map_idI)

section \<open>Properties\<close>

text \<open>
  C10: the semantic actions build the value of the text.  Whatever value the object is started with, the
  calls for a document end without a failed assertion and without popping an empty stack, with the
  stack empty again, the pointer back at the top, and the value that of the document: of members with
  one name the last one counts.
\<close>

theorem actions_build_value:
  "\<exists>s. acts (doc_actions d) (Semantic_actions_of v) = Some s \<and> sa_value s = doc_value d \<and>
    sa_current s = Some [] \<and> sa_stack s = []"
proof (cases d)
  case (JObj m)
  let ?s = "Semantic_actions_of v\<lparr>sa_value := JObj [], sa_current := Some []\<rparr>"
  have "act Begin_obj (Semantic_actions_of v) = Some ?s"
    by (simp add: begin_compound_def add_first_def Semantic_actions_of_def)
  moreover have "\<exists>n. acts (concat (map (\<lambda>(k, v). New_name k # doc_actions v) m)) ?s =
      Some (?s\<lparr>sa_value := doc_value d, sa_name := n\<rparr>)"
    using object_loop [of m ?s "[]" "[]"] reads_doc_all by (simp add: JObj)
  ultimately show ?thesis by (auto simp: JObj acts_append end_compound_def Semantic_actions_of_def)
next
  case (JArr xs)
  let ?s = "Semantic_actions_of v\<lparr>sa_value := JArr [], sa_current := Some []\<rparr>"
  have "act Begin_array (Semantic_actions_of v) = Some ?s"
    by (simp add: begin_compound_def add_first_def Semantic_actions_of_def)
  moreover have "\<exists>n. acts (concat (map doc_actions xs)) ?s = Some (?s\<lparr>sa_value := doc_value d, sa_name := n\<rparr>)"
    using array_loop [of xs ?s "[]" "[]"] reads_doc_all by (simp add: JArr)
  ultimately show ?thesis by (auto simp: JArr acts_append end_compound_def Semantic_actions_of_def)
qed (simp_all add: add_to_current_def add_first_def Semantic_actions_of_def)

end
