(* ===== verification/Currency.thy ===== *)
theory Currency
  imports Complex_Main Common_JS
begin

text \<open>
  \<^verbatim>\<open>libcfxcore/currency\<close>: amounts of the currency in its units.  The decimal floating-point numbers of
  Boost (\<open>cpp_dec_float_50\<close>), their conversions, and the reading of integers by Boost are the record
  \<open>decfloat\<close>; \<open>None\<close> is the exception for a text that is no number.  What is documented of the numbers,
  a precision of fifty decimal digits, is the locale \<open>decfloat_laws\<close>.
\<close>

section \<open>The units\<close>

record 'd decfloat =
  dec_of_string :: "string \<Rightarrow> 'd option"
  dec_of_double :: "nat \<Rightarrow> 'd"
  dec_mul :: "'d \<Rightarrow> 'd \<Rightarrow> 'd"
  dec_div :: "'d \<Rightarrow> 'd \<Rightarrow> 'd"
  dec_of_u256 :: "u256 \<Rightarrow> 'd"
  u256_of_dec :: "'d \<Rightarrow> u256"
  double_of_dec :: "'d \<Rightarrow> u64"
  u256_of_string :: "string \<Rightarrow> u256 option"

definition Drip :: "u256 \<Rightarrow> u256" where
  "Drip v = v"

definition Drip_string :: "'d decfloat \<Rightarrow> string \<Rightarrow> u256 option" where
  "Drip_string D v = u256_of_string D v"

definition GDrip :: "'d decfloat \<Rightarrow> 'd \<Rightarrow> u256" where
  "GDrip D v = (let ratio = dec_of_double D (10 ^ 9) in u256_of_dec D (dec_mul D ratio v))"

definition GDrip_string :: "'d decfloat \<Rightarrow> string \<Rightarrow> u256 option" where
  "GDrip_string D v = map_option (GDrip D) (dec_of_string D v)"

definition uCFX :: "'d decfloat \<Rightarrow> 'd \<Rightarrow> u256" where
  "uCFX D v = (let ratio = dec_of_double D (10 ^ 12) in u256_of_dec D (dec_mul D ratio v))"

definition uCFX_string :: "'d decfloat \<Rightarrow> string \<Rightarrow> u256 option" where
  "uCFX_string D v = map_option (uCFX D) (dec_of_string D v)"

definition CFX :: "'d decfloat \<Rightarrow> 'd \<Rightarrow> u256" where
  "CFX D v = (let ratio = dec_of_double D (10 ^ 18) in u256_of_dec D (dec_mul D ratio v))"

definition CFX_string :: "'d decfloat \<Rightarrow> string \<Rightarrow> u256 option" where
  "CFX_string D v = map_option (CFX D) (dec_of_string D v)"

definition Drip2CFXDouble :: "'d decfloat \<Rightarrow> u256 \<Rightarrow> u64" where
  "Drip2CFXDouble D v =
     (let ratio_cfx2drip = exp10 18;
          cfx = dec_div D (dec_of_u256 D v) (dec_of_u256 D ratio_cfx2drip)
      in double_of_dec D cfx)"

text \<open>The suffixes of literals.\<close>

definition literal_cfx :: "'d decfloat \<Rightarrow> string \<Rightarrow> u256 option" where
  "literal_cfx D v = CFX_string D v"

definition literal_ucfx :: "'d decfloat \<Rightarrow> string \<Rightarrow> u256 option" where
  "literal_ucfx D v = uCFX_string D v"

definition literal_gdrip :: "'d decfloat \<Rightarrow> string \<Rightarrow> u256 option" where
  "literal_gdrip D v = GDrip_string D v"

definition literal_drip :: "'d decfloat \<Rightarrow> string \<Rightarrow> u256 option" where
  "literal_drip D v = Drip_string D v"

section \<open>Exactness\<close>

text \<open>The number of a decimal text with the digits \<open>a\<close> before and \<open>b\<close> behind the point.\<close>

definition digits_val :: "string \<Rightarrow> nat" where
  "digits_val ds = pos_val 10 (map char_digit ds)"

definition decimal_text :: "string \<Rightarrow> string \<Rightarrow> bool" where
  "decimal_text a b \<longleftrightarrow> a \<noteq> [] \<and> list_all is_digit (a @ b) \<and> length (a @ b) \<le> 50"

definition fifty_digits :: "rat \<Rightarrow> bool" where
  "fifty_digits x \<longleftrightarrow> (\<exists>m :: nat. m < 10 ^ 50 \<and> (\<exists>e. x = of_nat m * 10 ^ e \<or> x = of_nat m / 10 ^ e))"

locale decfloat_laws =
  fixes D :: "'d decfloat" and dec_val :: "'d \<Rightarrow> rat"
  assumes double_exact: "n < 2 ^ 53 \<or> n = 10 ^ 18 \<Longrightarrow> dec_val (dec_of_double D n) = of_nat n"
    and mul_exact: "fifty_digits (dec_val x * dec_val y) \<Longrightarrow> dec_val (dec_mul D x y) = dec_val x * dec_val y"
    and truncates: "0 \<le> dec_val x \<Longrightarrow> dec_val x < 2 ^ 256 \<Longrightarrow> u256_of_dec D x = of_int \<lfloor>dec_val x\<rfloor>"
    and text_exact: "decimal_text a b \<Longrightarrow>
      \<exists>x. dec_of_string D (a @ CHR ''.'' # b) = Some x \<and> dec_val x = of_nat (digits_val (a @ b)) / 10 ^ length b"
begin

lemma scaled_exact:
  assumes "dec_val r = 10 ^ k" "dec_val x = of_nat n / 10 ^ d" "d \<le> k" "n * 10 ^ (k - d) < 10 ^ 50"
  shows "u256_of_dec D (dec_mul D r x) = of_nat (n * 10 ^ (k - d))"
proof -
  have "(10 :: rat) ^ k = 10 ^ (k - d) * 10 ^ d" using assms(3) by (simp flip: power_add)
  then have p: "dec_val r * dec_val x = of_nat (n * 10 ^ (k - d))" using assms(1,2) by simp
  have "fifty_digits (dec_val r * dec_val x)"
    unfolding p fifty_digits_def using assms(4) by (intro exI [of _ "n * 10 ^ (k - d)"] conjI exI [of _ 0]) simp_all
  then have v: "dec_val (dec_mul D r x) = of_nat (n * 10 ^ (k - d))" using mul_exact p by simp
  have "n * 10 ^ (k - d) < 2 ^ 256" using assms(4) by (rule less_trans) simp
  then have "(of_nat (n * 10 ^ (k - d)) :: rat) < of_nat (2 ^ 256)" by (simp only: of_nat_less_iff)
  then have "u256_of_dec D (dec_mul D r x) = of_int \<lfloor>of_nat (n * 10 ^ (k - d)) :: rat\<rfloor>"
    using truncates [of "dec_mul D r x"] by (simp add: v)
  also have "\<lfloor>of_nat (n * 10 ^ (k - d)) :: rat\<rfloor> = int (n * 10 ^ (k - d))" by (rule floor_of_nat)
  finally show ?thesis by simp
qed

lemma digits_val_less: "list_all is_digit ds \<Longrightarrow> digits_val ds < 10 ^ length ds"
  using pos_val_less [of "map char_digit ds" 10] by (force simp: digits_val_def list_all_iff is_digit_def char_digit_def)

lemma text_scaled:
  assumes "decimal_text a b" "length b \<le> k" "length a + k \<le> 50" "dec_val r = 10 ^ k"
  shows "map_option (\<lambda>x. u256_of_dec D (dec_mul D r x)) (dec_of_string D (a @ CHR ''.'' # b)) =
    Some (of_nat (digits_val (a @ b) * 10 ^ (k - length b)))"
proof -
  have "digits_val (a @ b) * 10 ^ (k - length b) < 10 ^ length (a @ b) * 10 ^ (k - length b)"
    using digits_val_less [of "a @ b"] assms(1) by (simp add: decimal_text_def)
  also have "\<dots> = 10 ^ (length a + k)" using assms(2) by (simp flip: power_add)
  also have "\<dots> \<le> 10 ^ 50" by (rule power_increasing [OF assms(3)]) simp
  finally show ?thesis using text_exact [OF assms(1)] scaled_exact [OF assms(4) _ assms(2)] by auto
qed

end

section \<open>Properties\<close>

text \<open>
  C37: an amount written as a decimal text is converted exactly.  With at most 9, 12 or 18 digits behind
  the point, and not more digits than the numbers have, \<open>GDrip\<close>, \<open>uCFX\<close> and \<open>CFX\<close> give the amount in
  drip with no rounding.
\<close>

theorem amounts_exact:
  assumes "decfloat_laws D dec_val" and "(f, k) \<in> {(GDrip_string D, 9), (uCFX_string D, 12), (CFX_string D, 18)}"
    and "decimal_text a b" and "length b \<le> k" and "length a + k \<le> 50"
  shows "f (a @ CHR ''.'' # b) = Some (of_nat (digits_val (a @ b) * 10 ^ (k - length b)))"
proof -
  have r: "dec_val (dec_of_double D (10 ^ 9)) = 10 ^ 9" "dec_val (dec_of_double D (10 ^ 12)) = 10 ^ 12"
    "dec_val (dec_of_double D (10 ^ 18)) = 10 ^ 18"
    using decfloat_laws.double_exact [OF assms(1), of "10 ^ 9"] decfloat_laws.double_exact [OF assms(1), of "10 ^ 12"]
      decfloat_laws.double_exact [OF assms(1), of "10 ^ 18"] by simp_all
  have f: "GDrip_string D s = map_option (\<lambda>x. u256_of_dec D (dec_mul D (dec_of_double D (10 ^ 9)) x)) (dec_of_string D s)"
    "uCFX_string D s = map_option (\<lambda>x. u256_of_dec D (dec_mul D (dec_of_double D (10 ^ 12)) x)) (dec_of_string D s)"
    "CFX_string D s = map_option (\<lambda>x. u256_of_dec D (dec_mul D (dec_of_double D (10 ^ 18)) x)) (dec_of_string D s)" for s
    unfolding GDrip_string_def uCFX_string_def CFX_string_def
    by (rule arg_cong [where f = "\<lambda>h. map_option h (dec_of_string D s)"], rule ext, simp only: GDrip_def uCFX_def CFX_def Let_def)+
  show ?thesis
    using assms(2) decfloat_laws.text_scaled [OF assms(1,3,4,5)] r by (auto simp only: f insert_iff empty_iff prod.inject)
qed

text \<open>Numbers without any limit of precision.\<close>

definition demo_dec :: "rat decfloat" where
  "demo_dec =
     \<lparr>dec_of_string = (\<lambda>s. let a = takeWhile (\<lambda>c. c \<noteq> CHR ''.'') s; b = drop (length a + 1) s
        in Some (of_nat (digits_val (a @ b)) / 10 ^ length b)),
      dec_of_double = of_nat, dec_mul = (*), dec_div = (/), dec_of_u256 = (\<lambda>w. of_nat (unat w)),
      u256_of_dec = (\<lambda>x. of_int \<lfloor>x\<rfloor>), double_of_dec = (\<lambda>x. 0), u256_of_string = (\<lambda>s. Some (of_nat (digits_val s)))\<rparr>"

interpretation demo_decfloat: decfloat_laws demo_dec "\<lambda>x. x"
proof unfold_locales
  fix a b
  assume "decimal_text a b"
  then have "\<forall>c \<in> set a. is_digit c" by (simp add: decimal_text_def list_all_iff)
  moreover have "\<not> is_digit (CHR ''.'')" by (simp add: is_digit_def)
  ultimately have "\<forall>c \<in> set a. c \<noteq> CHR ''.''" by blast
  then have "takeWhile (\<lambda>c. c \<noteq> CHR ''.'') (a @ CHR ''.'' # b) = a" by (simp add: takeWhile_append)
  then show "\<exists>x. dec_of_string demo_dec (a @ CHR ''.'' # b) = Some x \<and> x = of_nat (digits_val (a @ b)) / 10 ^ length b"
    by (simp add: demo_dec_def Let_def)
qed (simp_all add: demo_dec_def)

theorem amounts_exact_witness: "CFX_string demo_dec ''1.5'' = Some 1500000000000000000"
proof -
  have "decimal_text ''1'' ''5''" by (simp add: decimal_text_def is_digit_def)
  then show ?thesis
    using amounts_exact [OF demo_decfloat.decfloat_laws_axioms, of "CFX_string demo_dec" 18 "''1''" "''5''"]
    by (simp add: digits_val_def char_digit_def pos_val_def)
qed

end
