(* ===== verification/Spec2Isabelle.thy ===== *)
theory Spec2Isabelle
  imports Rlp_Theorems Fixed_Hash Cfx_Address Abi_Text Common_JS Ripemd160 Blake2 Cfx_Transaction
    Bloom_Filter Account_Theorems Key_Theorems
    Log_Theorems Rpc_Sending Ecies Lib_Snark New_Key_Pair
    Json_Actions Currency
begin

text \<open>
  A verification library for the Conflux C++ SDK.

  \<^bold>\<open>The program.\<close>  The SDK lets a C++ program hold accounts of the Conflux network, build and sign
  transactions, send them to a node and call contracts.  An account is a key of a \<open>SecretStore\<close>, kept encrypted in a JSON
  file; \<open>AccountManager\<close> lists the accounts under their base-32 addresses.  A transaction is encoded
  with RLP, hashed and signed with the key; the arguments of a contract call are encoded by the
  contract ABI.  Below lie byte strings, hexadecimal text, fixed-size hashes and the hash functions.

  \<^bold>\<open>Theories and sources.\<close>

  \<^item> \<^verbatim>\<open>Prelude\<close>: words, the exception type \<open>error + 'a\<close> (\<open>Inl\<close> a thrown exception) with its bind,
    characters as bytes, positional numerals.
  \<^item> \<^verbatim>\<open>Common_Data\<close>: \<^verbatim>\<open>libdevcore/CommonData\<close>, hexadecimal and big-endian conversions.
  \<^item> \<^verbatim>\<open>Rlp_Stream\<close>, \<^verbatim>\<open>Rlp_Reader\<close>, \<^verbatim>\<open>Rlp_Theorems\<close>: \<^verbatim>\<open>libdevcore/RLP\<close> and \<^verbatim>\<open>vector_ref.h\<close>.  The writer is
    a record of the output and the stack of open lists; the reader a view with the mutable cache of
    \<open>operator[]\<close> passed explicitly.
  \<^item> \<^verbatim>\<open>Fixed_Hash\<close>: \<^verbatim>\<open>libdevcore/FixedHash\<close>, a hash being the list of its bytes.
  \<^item> \<^verbatim>\<open>Common_JS\<close>: \<^verbatim>\<open>libdevcore/CommonJS\<close> and the numbers of \<^verbatim>\<open>Common.h\<close>.
  \<^item> \<^verbatim>\<open>Ripemd160\<close>, \<^verbatim>\<open>Blake2\<close>, \<^verbatim>\<open>Dev_Crypto\<close>: \<^verbatim>\<open>libdevcrypto/Hash.cpp\<close>, \<^verbatim>\<open>Blake2.cpp\<close> and \<^verbatim>\<open>Common.cpp\<close>.  The
    record \<open>crypto\<close> holds what libsecp256k1, CryptoPP and ethash compute.
  \<^item> \<^verbatim>\<open>Ecies\<close>: the rest of \<^verbatim>\<open>libdevcrypto/Common.cpp\<close>, \<^verbatim>\<open>CryptoPP.cpp\<close>, \<^verbatim>\<open>AES.cpp\<close> and \<^verbatim>\<open>libdevcore/SHA3\<close>: key agreement
    and encrypted messages, with the record \<open>ecies_lib\<close>; \<^verbatim>\<open>Lib_Snark\<close>: \<^verbatim>\<open>LibSnark.cpp\<close>, the operations on
    alt_bn128 over the record \<open>libff\<close>.
  \<^item> \<^verbatim>\<open>String_Util\<close>, \<^verbatim>\<open>Addr_Convert\<close>, \<^verbatim>\<open>Cfx_Address\<close>: \<^verbatim>\<open>libcfxcore/common\<close> and \<^verbatim>\<open>types/cfxaddress\<close>, the CIP-37
    addresses; \<^verbatim>\<open>User_Address\<close>: the addresses of keys (\<^verbatim>\<open>account.cpp\<close>).
  \<^item> \<^verbatim>\<open>Abi_Value\<close>, \<^verbatim>\<open>Abi_Param\<close>, \<^verbatim>\<open>Abi_Decode\<close>, \<^verbatim>\<open>Abi_Theorems\<close>, \<^verbatim>\<open>Abi_Text\<close>: \<^verbatim>\<open>libcfxcore/abi\<close>, the class
    hierarchy of parameters as one datatype.  The record \<open>boost\<close> holds the conversions of
    Boost.Multiprecision.
  \<^item> \<^verbatim>\<open>Cfx_Transaction\<close>: \<^verbatim>\<open>TransactionBase\<close>, with its caches as fields.
  \<^item> \<^verbatim>\<open>Bloom_Filter\<close>: \<^verbatim>\<open>bloom_filter.h\<close>; \<^verbatim>\<open>Currency\<close>: \<^verbatim>\<open>currency.h\<close>, over the record \<open>decfloat\<close>.
  \<^item> \<^verbatim>\<open>Json_Spirit\<close>, \<^verbatim>\<open>Json_Theorems\<close>: \<^verbatim>\<open>utils/json_spirit\<close> with map objects.  Each rule of the grammar is a
    function from the remaining text; where the semantic actions have already built a part of the
    value when a rule throws, the error carries that part.  \<^verbatim>\<open>Json_Actions\<close>: the semantic actions as the class has
    them, with a pointer into the value and a stack.
  \<^item> \<^verbatim>\<open>Secret_Store\<close>, \<^verbatim>\<open>Secret_Theorems\<close>: \<^verbatim>\<open>libdevcrypto/SecretStore\<close>.  The state has the cache, the keys,
    the path and the contents of the files; random draws are arguments.
  \<^item> \<^verbatim>\<open>Account_Manager\<close>, \<^verbatim>\<open>Account_Theorems\<close>: \<^verbatim>\<open>account.cpp\<close>.  The ordered map of addresses is the list of its
    entries, searched by \<open>Address::operator<\<close>; every operation is one step of a step relation.
  \<^item> \<^verbatim>\<open>Rlp_Trees\<close>, \<^verbatim>\<open>Key_Manager\<close>, \<^verbatim>\<open>Key_Theorems\<close>: \<^verbatim>\<open>libdevcore/KeyManager\<close>, the named keys with an encrypted index.
    Operations return the state also when they throw.  \<^verbatim>\<open>New_Key_Pair\<close>: \<open>newKeyPair\<close> as a step relation, in which the
    threads take their turns in any order and write the shared result byte by byte.
  \<^item> \<^verbatim>\<open>Rpc_Json\<close>, \<^verbatim>\<open>Rpc_Types\<close>, \<^verbatim>\<open>Rpc_Params\<close>: \<^verbatim>\<open>json_convert.h\<close>, \<^verbatim>\<open>libcfxcore/types\<close> and \<^verbatim>\<open>rpc_parameters\<close>, the data
    of the RPC interface.  jsoncpp is the record \<open>jsoncpp\<close>; a member without a value is \<open>None\<close>.
  \<^item> \<^verbatim>\<open>Rpc_Stub\<close>, \<^verbatim>\<open>Rpc_Client\<close>: \<^verbatim>\<open>stubclient.h\<close>, \<^verbatim>\<open>client.cpp\<close> and \<^verbatim>\<open>contract.cpp\<close>.  A method is a function of the state of
    the node and the clock; the record \<open>rpc_env\<close> holds \<open>CallMethod\<close>, the clock and the other libraries.
  \<^item> \<^verbatim>\<open>Rpc_Theorems\<close>, \<^verbatim>\<open>Log_Theorems\<close>, \<^verbatim>\<open>Rpc_Sending\<close>: receipts, log entries, and what becomes of a transaction.

  \<^bold>\<open>Interfaces.\<close>  \<open>boost_laws\<close>, \<open>spirit_laws\<close>, \<open>jsoncpp_laws\<close>, \<open>store_laws\<close>, \<open>hash_laws\<close> with its extension
  \<open>ecies_laws\<close>, \<open>libff_laws\<close> and \<open>decfloat_laws\<close> state what the code relies on of the libraries it
  calls; each is interpreted on concrete functions, so that no theorem is empty.
  \<open>membership_filter\<close> is the contract of a set with false positives, interpreted on the operations of
  \<open>FixedHash\<close> and on the filter.  \<open>store_index\<close> is what an index of keys needs of a store; it follows
  from \<open>store_laws\<close>, and the manager's invariant rests on it.

  \<^bold>\<open>What the theorems show.\<close>  The RLP writer refines the encoding of the specification, the strict
  reader accepts canonical data only and recovers what was written, and its cache cannot be
  observed.  Addresses survive printing and reading, and the checksum notices a changed symbol.
  Parameters are encoded as the ABI specification says and decoded back, within the conditions \<open>flat\<close>
  and \<open>decodable\<close> that the theorems on the library's deviations explain: static tuples, nested static
  arrays, negative \<open>int256\<close> values and fixed arrays of dynamic elements do not make it.  A signed
  transaction is the encoding of the transaction with a signature that verifies, and unless a sender
  was cached its sender is the signer; when the curve library gives the recovery identifier 2 or 3
  the code drops the signature, and the theorems say what goes out then.  JSON text is
  read back as written, reading ends on all texts, and the parser's actions build what was parsed.  A stored key is found again by a store that opens
  the directory, among whatever other files, and does not open under another passphrase.  In all
  reachable states of the manager the accounts are user addresses in order; each has its own key as long as no key
  was stored under an identifier in use, which \<open>ImportKeystore\<close> does not prevent; a new account can always be created, used and
  deleted.  The key manager's index survives a restart, unless a failed \<open>load\<close> and a \<open>kill\<close> destroy it.  In its search
  for a key every byte of the result is that of a pair of the wanted form, under every interleaving
  of the threads' accesses; only with one thread must they be of the same pair.  RIPEMD-160 is
  the iteration of its compression function; signatures are in the lower half.  An encrypted message
  that is not empty is read by its addressee, nothing without a valid tag is accepted, and a key that is no point
  makes the encryption void.  The operations on alt_bn128 are those of the group on encoded points,
  pad short inputs with zeros, and the pairing check is the product over all pairs.  A receipt is read
  from the answer that holds it, log entries survive RLP and their blooms miss nothing.  The client
  keeps the members a transaction has, sends the signed encoding of the completed transaction in one
  request, and a contract call carries the encoded arguments there and the results back.  Waiting for
  a receipt ends if requests take time; amounts in decimal notation are
  converted exactly; after the transaction is sent, deploying runs forever exactly if every question is
  answered by \<open>skipped\<close>, and otherwise ends with the first report or failure.

  \<^bold>\<open>Bounds.\<close>  \<open>size_t\<close> has 64 bits; sums that input can drive past it are reduced explicitly.
  The recursion of \<open>decode_param\<close> and of the JSON grammar carries a bound on the nesting: for a
  parameter its own depth, for a text its length plus one.  Decoding and reading never reach it, as
  the theorems on them show.  Iteration over an RLP reader, which can run forever, takes a number of
  steps as an argument.  The two unbounded loops of the client are partial functions with the
  conditions under which they return.  Other loops are structural or have a termination proof.

  \<^bold>\<open>Not modelled.\<close>  Effects of data races beyond an interleaving of byte accesses; the transport,
  logging, locks, terminals and file access, which only act on the outside; the vendored
  \<^verbatim>\<open>nlohmann/json\<close>; wide strings, vector objects and streams of json_spirit; the cleansing of secret memory, except where another thread
  can see it;
  examples and tests.  When an operation throws, its result does not carry the state at that point, the reader's
  \<open>operator[]\<close>, the key manager and the client apart.
\<close>

end
